(* ===== verification/Tds_Prelude.thy ===== *)
theory Tds_Prelude
  imports Main "HOL-Library.Word"
begin

text \<open>
  What the component theories share: the machine integer types, the error values and the
  result type of the crate (\<^verbatim>\<open>mssql-tds/src/error/mod.rs\<close>, \<^verbatim>\<open>core.rs\<close>), state passing with
  errors, the byte orders of the wire, the slice and cursor operations of the Rust standard
  library that the code uses, and UTF-16. The two collections \<open>codec_simps\<close> and
  \<open>slice_simps\<close> carry the byte and slice reasoning of the component proofs.
\<close>

named_theorems codec_simps \<open>byte order codecs: widths and round trips\<close>
named_theorems slice_simps \<open>reads of a slice after it was written or moved\<close>

type_synonym u8 = "8 word"
type_synonym u16 = "16 word"
type_synonym u32 = "32 word"
type_synonym u64 = "64 word"
type_synonym bytes = "8 word list"

text \<open>A Rust \<^verbatim>\<open>char\<close> is a Unicode scalar value and a \<^verbatim>\<open>String\<close> a sequence of them.\<close>

type_synonym rchar = nat
type_synonym rstring = "nat list"

definition ustr :: "string \<Rightarrow> rstring" where
  "ustr s = map of_char s"


section \<open>Errors and results\<close>

text \<open>
  The variants of \<^verbatim>\<open>Error\<close> that the modelled code constructs. A message keeps the fixed text
  of the source and drops the interpolated values; of server diagnostics the error numbers are kept. Two values stand for calls that return
  nothing: \<open>Panic\<close> is a Rust panic (a slice index out of range, an arithmetic underflow, a
  failed assertion) and \<open>Diverge\<close> a loop that never ends.
\<close>

datatype tds_error =
    Io string
  | ConnectionError string
  | ProtocolError string
  | TimeoutError string
  | OperationCancelledError string
  | UsageError string
  | ImplementationError string
  | UnimplementedFeature string
  | TypeConversionError string
  | ConnectionClosed string
  | UnsupportedEncoding u32
  | EncodedValueTooLong nat nat
  | ColumnEncryptionError string
  | Redirection rstring u16 "rstring option"
  | ReconnectionValidationFailed string
  | SqlServerError "u32 list"
  | Panic
  | Diverge

type_synonym 'a tds_result = "tds_error + 'a"

text \<open>
  A fallible operation on \<^verbatim>\<open>&mut self\<close> keeps the state it has reached when it fails, so it
  returns the state next to the result.
\<close>

type_synonym ('s, 'a) action = "'s \<Rightarrow> 'a tds_result \<times> 's"

definition rret :: "'a \<Rightarrow> ('s, 'a) action" where
  "rret a s = (Inr a, s)"

definition rfail :: "tds_error \<Rightarrow> ('s, 'a) action" where
  "rfail e s = (Inl e, s)"

definition rbind :: "('s, 'a) action \<Rightarrow> ('a \<Rightarrow> ('s, 'b) action) \<Rightarrow> ('s, 'b) action" where
  "rbind m f s = (case m s of (Inl e, s') \<Rightarrow> (Inl e, s') | (Inr a, s') \<Rightarrow> f a s')"

lemma rbind_Inr [simp]: "m s = (Inr a, s') \<Longrightarrow> rbind m f s = f a s'"
  by (simp add: rbind_def)

lemma rbind_Inl [simp]: "m s = (Inl e, s') \<Longrightarrow> rbind m f s = (Inl e, s')"
  by (simp add: rbind_def)

lemma rret_apply [simp]: "rret a s = (Inr a, s)"
  by (simp add: rret_def)

lemma rfail_apply [simp]: "rfail e s = (Inl e, s)"
  by (simp add: rfail_def)

lemma rbind_rret [simp]: "rbind (rret a) f = f a"
  by (rule ext) simp

lemma rbind_rfail [simp]: "rbind (rfail e) f = rfail e"
  by (rule ext) simp

lemma rbind_assoc: "rbind (rbind m f) g = rbind m (\<lambda>a. rbind (f a) g)"
  by (rule ext) (simp add: rbind_def split: prod.split sum.split)

lemma rbind_InrE:
  assumes "rbind m f s = (Inr b, s'')"
  obtains a s' where "m s = (Inr a, s')" and "f a s' = (Inr b, s'')"
  using assms by (auto simp: rbind_def split: prod.splits sum.splits)

lemma rbind_cong [fundef_cong]:
  assumes "m s = m' s'" and "s = s'" and "\<And>a t. m' s' = (Inr a, t) \<Longrightarrow> f a t = f' a t"
  shows "rbind m f s = rbind m' f' s'"
  using assms by (auto simp: rbind_def split: prod.split sum.split)


text \<open>A sequence of calls, each awaited and its error returned with \<^verbatim>\<open>?\<close>.\<close>

primrec run_steps :: "('op \<Rightarrow> ('s, unit) action) \<Rightarrow> 'op list \<Rightarrow> ('s, unit) action" where
  "run_steps step [] = rret ()"
| "run_steps step (x # xs) = rbind (step x) (\<lambda>_. run_steps step xs)"

text \<open>Numbers in error messages, as \<^verbatim>\<open>format!("{}")\<close> prints them.\<close>

definition digit_char :: "nat \<Rightarrow> char" where
  "digit_char n = char_of (48 + n)"

fun show_nat :: "nat \<Rightarrow> string" where
  "show_nat n = (if n < 10 then [digit_char n] else show_nat (n div 10) @ [digit_char (n mod 10)])"

declare show_nat.simps [simp del]


section \<open>Byte orders\<close>

primrec le_nat :: "bytes \<Rightarrow> nat" where
  "le_nat [] = 0"
| "le_nat (b # bs) = unat b + 256 * le_nat bs"

primrec nat_le :: "nat \<Rightarrow> nat \<Rightarrow> bytes" where
  "nat_le 0 k = []"
| "nat_le (Suc n) k = word_of_nat (k mod 256) # nat_le n (k div 256)"

lemma length_nat_le [simp]: "length (nat_le n k) = n"
  by (induction n arbitrary: k) auto

lemma le_nat_less: "le_nat bs < 256 ^ length bs"
proof (induction bs)
  case (Cons b bs)
  have "unat b < 256" using unsigned_less [of b, where ?'a = nat] by simp
  with Cons show ?case by simp
qed simp

lemma le_nat_nat_le: "le_nat (nat_le n k) = k mod 256 ^ n"
proof (induction n arbitrary: k)
  case (Suc n)
  have "unat (word_of_nat (k mod 256) :: u8) = k mod 256"
    by (simp add: unat_of_nat)
  with Suc show ?case by (simp add: mod_mult2_eq)
qed simp

lemma nat_le_le_nat: "nat_le (length bs) (le_nat bs) = bs"
proof (induction bs)
  case (Cons b bs)
  have "unat b < 256" using unsigned_less [of b, where ?'a = nat] by simp
  then have "(unat b + 256 * le_nat bs) mod 256 = unat b"
    and "(unat b + 256 * le_nat bs) div 256 = le_nat bs" by simp_all
  with Cons show ?case by simp
qed simp

definition to_le_u16 :: "u16 \<Rightarrow> bytes" where "to_le_u16 w = nat_le 2 (unat w)"
definition to_le_u32 :: "u32 \<Rightarrow> bytes" where "to_le_u32 w = nat_le 4 (unat w)"
definition to_le_u64 :: "u64 \<Rightarrow> bytes" where "to_le_u64 w = nat_le 8 (unat w)"
definition to_be_u16 :: "u16 \<Rightarrow> bytes" where "to_be_u16 w = rev (nat_le 2 (unat w))"
definition to_be_u32 :: "u32 \<Rightarrow> bytes" where "to_be_u32 w = rev (nat_le 4 (unat w))"

definition from_le_u16 :: "bytes \<Rightarrow> u16" where "from_le_u16 bs = word_of_nat (le_nat bs)"
definition from_le_u32 :: "bytes \<Rightarrow> u32" where "from_le_u32 bs = word_of_nat (le_nat bs)"
definition from_le_u64 :: "bytes \<Rightarrow> u64" where "from_le_u64 bs = word_of_nat (le_nat bs)"
definition from_be_u16 :: "bytes \<Rightarrow> u16" where "from_be_u16 bs = word_of_nat (le_nat (rev bs))"
definition from_be_u32 :: "bytes \<Rightarrow> u32" where "from_be_u32 bs = word_of_nat (le_nat (rev bs))"

text \<open>A fixed-width codec: what every reader and writer of a scalar relies on.\<close>

locale fixed_codec =
  fixes width :: nat
    and enc :: "'a \<Rightarrow> bytes"
    and dec :: "bytes \<Rightarrow> 'a"
  assumes enc_length: "length (enc x) = width"
    and dec_enc: "dec (enc x) = x"
    and enc_dec: "length bs = width \<Longrightarrow> enc (dec bs) = bs"
begin

lemma dec_take_enc: "dec (take width (enc x @ rest)) = x"
  by (simp add: enc_length dec_enc)

lemma drop_enc: "drop width (enc x @ rest) = rest"
  by (simp add: enc_length)

lemma enc_inject: "enc x = enc y \<longleftrightarrow> x = y"
  by (metis dec_enc)

lemma enc_append_inject: "enc x @ xs = enc y @ ys \<longleftrightarrow> x = y \<and> xs = ys"
  using enc_length by (auto simp: enc_inject)

end

lemma unat_mod_id [simp]:
  "unat (x :: u8) mod 256 = unat x"
  "unat (y :: u16) mod 65536 = unat y"
  "unat (z :: u32) mod 4294967296 = unat z"
  "unat (v :: u64) mod 18446744073709551616 = unat v"
  using unsigned_less [of x, where ?'a = nat] unsigned_less [of y, where ?'a = nat]
    unsigned_less [of z, where ?'a = nat] unsigned_less [of v, where ?'a = nat]
  by simp_all

lemma unat_of_le_nat: "(2::nat) ^ LENGTH('a::len) = 256 ^ length bs \<Longrightarrow> unat (word_of_nat (le_nat bs) :: 'a word) = le_nat bs"
  by (simp add: unat_of_nat le_nat_less)

interpretation le16: fixed_codec 2 to_le_u16 from_le_u16
proof
  show "length (to_le_u16 x) = 2" for x by (simp add: to_le_u16_def)
  show "from_le_u16 (to_le_u16 x) = x" for x
    by (simp add: to_le_u16_def from_le_u16_def le_nat_nat_le)
  show "to_le_u16 (from_le_u16 bs) = bs" if "length bs = 2" for bs
    using nat_le_le_nat [of bs] unat_of_le_nat [where 'a = 16, of bs] that
    by (simp add: to_le_u16_def from_le_u16_def)
qed

interpretation le32: fixed_codec 4 to_le_u32 from_le_u32
proof
  show "length (to_le_u32 x) = 4" for x by (simp add: to_le_u32_def)
  show "from_le_u32 (to_le_u32 x) = x" for x
    by (simp add: to_le_u32_def from_le_u32_def le_nat_nat_le)
  show "to_le_u32 (from_le_u32 bs) = bs" if "length bs = 4" for bs
    using nat_le_le_nat [of bs] unat_of_le_nat [where 'a = 32, of bs] that
    by (simp add: to_le_u32_def from_le_u32_def)
qed

interpretation le64: fixed_codec 8 to_le_u64 from_le_u64
proof
  show "length (to_le_u64 x) = 8" for x by (simp add: to_le_u64_def)
  show "from_le_u64 (to_le_u64 x) = x" for x
    by (simp add: to_le_u64_def from_le_u64_def le_nat_nat_le)
  show "to_le_u64 (from_le_u64 bs) = bs" if "length bs = 8" for bs
    using nat_le_le_nat [of bs] unat_of_le_nat [where 'a = 64, of bs] that
    by (simp add: to_le_u64_def from_le_u64_def)
qed

interpretation be16: fixed_codec 2 to_be_u16 from_be_u16
proof
  show "length (to_be_u16 x) = 2" for x by (simp add: to_be_u16_def)
  show "from_be_u16 (to_be_u16 x) = x" for x
    by (simp add: to_be_u16_def from_be_u16_def le_nat_nat_le)
  show "to_be_u16 (from_be_u16 bs) = bs" if "length bs = 2" for bs
    using nat_le_le_nat [of "rev bs"] unat_of_le_nat [where 'a = 16, of "rev bs"] that
    by (simp add: to_be_u16_def from_be_u16_def)
qed

interpretation be32: fixed_codec 4 to_be_u32 from_be_u32
proof
  show "length (to_be_u32 x) = 4" for x by (simp add: to_be_u32_def)
  show "from_be_u32 (to_be_u32 x) = x" for x
    by (simp add: to_be_u32_def from_be_u32_def le_nat_nat_le)
  show "to_be_u32 (from_be_u32 bs) = bs" if "length bs = 4" for bs
    using nat_le_le_nat [of "rev bs"] unat_of_le_nat [where 'a = 32, of "rev bs"] that
    by (simp add: to_be_u32_def from_be_u32_def)
qed

lemmas codec_facts [codec_simps] =
  le16.enc_length le16.dec_enc le16.dec_take_enc le16.drop_enc
  le32.enc_length le32.dec_enc le32.dec_take_enc le32.drop_enc
  le64.enc_length le64.dec_enc le64.dec_take_enc le64.drop_enc
  be16.enc_length be16.dec_enc be16.dec_take_enc be16.drop_enc
  be32.enc_length be32.dec_enc be32.dec_take_enc be32.drop_enc


section \<open>Slices and cursors\<close>

text \<open>
  \<^verbatim>\<open>&xs[start..stop]\<close>, \<^verbatim>\<open>slice::copy_within\<close> and \<^verbatim>\<open>io::Write\<close> for \<^verbatim>\<open>Cursor<Vec<u8>>\<close>. A range
  outside the slice panics; a cursor positioned past the end pads the vector with zeros.
\<close>

definition seg :: "nat \<Rightarrow> nat \<Rightarrow> 'a list \<Rightarrow> 'a list" where
  "seg start stop xs = take (stop - start) (drop start xs)"

definition slice_get :: "nat \<Rightarrow> nat \<Rightarrow> 'a list \<Rightarrow> 'a list option" where
  "slice_get start stop xs =
     (if start \<le> stop \<and> stop \<le> length xs then Some (seg start stop xs) else None)"

definition overwrite :: "nat \<Rightarrow> 'a list \<Rightarrow> 'a list \<Rightarrow> 'a list" where
  "overwrite dest ys xs = take dest xs @ ys @ drop (dest + length ys) xs"

definition copy_within :: "nat \<Rightarrow> nat \<Rightarrow> nat \<Rightarrow> 'a list \<Rightarrow> 'a list option" where
  "copy_within start stop dest xs =
     (if start \<le> stop \<and> stop \<le> length xs \<and> dest + (stop - start) \<le> length xs
      then Some (overwrite dest (seg start stop xs) xs) else None)"

definition cursor_write :: "bytes \<Rightarrow> nat \<Rightarrow> bytes \<Rightarrow> bytes" where
  "cursor_write buf pos ys = overwrite pos ys (buf @ replicate (pos - length buf) 0)"

lemma length_seg [simp]: "start \<le> stop \<Longrightarrow> stop \<le> length xs \<Longrightarrow> length (seg start stop xs) = stop - start"
  by (simp add: seg_def)

lemma length_overwrite [simp]:
  "dest + length ys \<le> length xs \<Longrightarrow> length (overwrite dest ys xs) = length xs"
  by (simp add: overwrite_def)

lemma seg_overwrite_here [slice_simps]:
  "dest \<le> length xs \<Longrightarrow> stop = dest + length ys \<Longrightarrow> seg dest stop (overwrite dest ys xs) = ys"
  by (simp add: seg_def overwrite_def)

lemma seg_overwrite_before [slice_simps]:
  "stop \<le> dest \<Longrightarrow> dest \<le> length xs \<Longrightarrow> seg start stop (overwrite dest ys xs) = seg start stop xs"
  by (cases "start \<le> stop") (auto simp: seg_def overwrite_def take_drop min_absorb1)

lemma seg_overwrite_after [slice_simps]:
  "dest + length ys \<le> start \<Longrightarrow> dest \<le> length xs \<Longrightarrow>
   seg start stop (overwrite dest ys xs) = seg start stop xs"
  by (simp add: seg_def overwrite_def)

lemma seg_append_seg:
  assumes "a \<le> b" and "b \<le> c"
  shows "seg a b xs @ seg b c xs = seg a c xs"
proof -
  from assms obtain i j where b: "b = a + i" and c: "c = b + j"
    by (metis le_iff_add)
  have "seg a c xs = take (i + j) (drop a xs)" by (simp add: seg_def b c)
  also have "\<dots> = take i (drop a xs) @ take j (drop i (drop a xs))" by (rule take_add)
  finally show ?thesis by (simp add: seg_def b c add.commute)
qed

lemma take_seg: "n \<le> stop - start \<Longrightarrow> take n (seg start stop xs) = seg start (start + n) xs"
  by (simp add: seg_def min_absorb1)

lemma drop_seg: "drop n (seg start stop xs) = seg (start + n) stop xs"
  by (simp add: seg_def drop_take add.commute)

lemma seg_self [simp]: "seg start start xs = []"
  by (simp add: seg_def)

lemma seg_0 [simp]: "seg 0 stop xs = take stop xs"
  by (simp add: seg_def)

lemma length_cursor_write [simp]:
  "length (cursor_write buf pos ys) = max (length buf) (pos + length ys)"
  by (simp add: cursor_write_def overwrite_def)

lemma cursor_write_at_end: "pos = length buf \<Longrightarrow> cursor_write buf pos ys = buf @ ys"
  by (simp add: cursor_write_def overwrite_def)

lemma take_cursor_write:
  "pos \<le> length buf \<Longrightarrow> take (pos + length ys) (cursor_write buf pos ys) = take pos buf @ ys"
  by (simp add: cursor_write_def overwrite_def)


section \<open>UTF-16\<close>

text \<open>\<^verbatim>\<open>char::encode_utf16\<close>, \<^verbatim>\<open>str::encode_utf16\<close> and \<^verbatim>\<open>String::from_utf16\<close>.\<close>

definition is_scalar :: "rchar \<Rightarrow> bool" where
  "is_scalar c \<longleftrightarrow> c < 0xD800 \<or> (0xDFFF < c \<and> c < 0x110000)"

abbreviation valid_string :: "rstring \<Rightarrow> bool" where
  "valid_string s \<equiv> list_all is_scalar s"

definition char_utf16 :: "rchar \<Rightarrow> u16 list" where
  "char_utf16 c =
     (if c < 0x10000 then [word_of_nat c]
      else [word_of_nat (0xD800 + (c - 0x10000) div 0x400),
            word_of_nat (0xDC00 + (c - 0x10000) mod 0x400)])"

definition encode_utf16 :: "rstring \<Rightarrow> u16 list" where
  "encode_utf16 s = concat (map char_utf16 s)"

fun from_utf16 :: "u16 list \<Rightarrow> rstring option" where
  "from_utf16 [] = Some []"
| "from_utf16 (u # us) =
     (if unat u < 0xD800 \<or> 0xDFFF < unat u then map_option ((#) (unat u)) (from_utf16 us)
      else if 0xDC00 \<le> unat u then None
      else (case us of
              [] \<Rightarrow> None
            | v # vs \<Rightarrow>
                if 0xDC00 \<le> unat v \<and> unat v \<le> 0xDFFF
                then map_option ((#) (0x10000 + (unat u - 0xD800) * 0x400 + (unat v - 0xDC00)))
                       (from_utf16 vs)
                else None))"

definition units_le :: "u16 list \<Rightarrow> bytes" where
  "units_le us = concat (map to_le_u16 us)"

lemma units_le_simps [simp]:
  "units_le [] = []"
  "units_le (u # us) = to_le_u16 u @ units_le us"
  "units_le (us @ vs) = units_le us @ units_le vs"
  by (simp_all add: units_le_def)

lemma length_units_le [simp]: "length (units_le us) = 2 * length us"
  by (induction us) (simp_all add: codec_simps)

lemma encode_utf16_simps [simp]:
  "encode_utf16 [] = []"
  "encode_utf16 (c # s) = char_utf16 c @ encode_utf16 s"
  "encode_utf16 (s @ t) = encode_utf16 s @ encode_utf16 t"
  by (simp_all add: encode_utf16_def)

lemma unat_of_nat_u8: "k < 256 \<Longrightarrow> unat (word_of_nat k :: u8) = k"
  by (simp add: unat_of_nat)

lemma unat_of_nat_u16: "k < 65536 \<Longrightarrow> unat (word_of_nat k :: u16) = k"
  by (simp add: unat_of_nat)

lemma unat_of_nat_u32: "k < 4294967296 \<Longrightarrow> unat (word_of_nat k :: u32) = k"
  by (simp add: unat_of_nat)

lemma from_utf16_char:
  assumes "is_scalar c"
  shows "from_utf16 (char_utf16 c @ us) = map_option ((#) c) (from_utf16 us)"
proof (cases "c < 0x10000")
  case True
  then have "unat (word_of_nat c :: u16) = c" by (simp add: unat_of_nat)
  with True assms show ?thesis by (auto simp: char_utf16_def is_scalar_def)
next
  case False
  define d where "d = c - 0x10000"
  from False assms have d: "d < 0x100000" "c = 0x10000 + d"
    by (auto simp: d_def is_scalar_def)
  let ?h = "0xD800 + d div 0x400" and ?l = "0xDC00 + d mod 0x400"
  from d have h: "?h < 0xDC00" and l: "?l \<le> 0xDFFF" by auto
  then have "unat (word_of_nat ?h :: u16) = ?h" and "unat (word_of_nat ?l :: u16) = ?l"
    by (intro unat_of_nat_u16; simp)+
  with False d h l show ?thesis by (simp add: char_utf16_def add.commute)
qed

lemma from_utf16_encode: "valid_string s \<Longrightarrow> from_utf16 (encode_utf16 s) = Some s"
  by (induction s) (simp_all add: from_utf16_char)

text \<open>\<^verbatim>\<open>chunks_exact(2)\<close> followed by \<^verbatim>\<open>u16::from_le_bytes\<close>: a trailing odd byte is dropped.\<close>

fun le_units :: "bytes \<Rightarrow> u16 list" where
  "le_units (a # b # bs) = from_le_u16 [a, b] # le_units bs"
| "le_units _ = []"

lemma le_units_append: "length xs = 2 \<Longrightarrow> le_units (xs @ bs) = from_le_u16 xs # le_units bs"
  by (auto simp: numeral_2_eq_2 length_Suc_conv)

lemma le_units_units_le [simp]: "le_units (units_le us) = us"
  by (induction us) (simp_all add: le_units_append codec_simps)

end
