(* ===== verification/Utf16_Units.thy ===== *)
theory Utf16_Units
  imports Tds_Prelude
begin

text \<open>
  The resumable UTF-16 encoder \<^verbatim>\<open>Utf16Units\<close> of \<^verbatim>\<open>mssql-tds/src/io/packet_writer.rs\<close>. It widens
  runs of ASCII bytes in blocks and keeps a low surrogate that a unit limit cut off. The
  lemmas show that it emits the units of \<open>encode_utf16\<close>, however the limits fall.
\<close>

section \<open>UTF-8 view of a string\<close>

definition char_utf8 :: "rchar \<Rightarrow> bytes" where
  "char_utf8 c =
     (if c < 0x80 then [word_of_nat c]
      else if c < 0x800 then [word_of_nat (0xC0 + c div 0x40), word_of_nat (0x80 + c mod 0x40)]
      else if c < 0x10000 then
        [word_of_nat (0xE0 + c div 0x1000), word_of_nat (0x80 + c div 0x40 mod 0x40),
         word_of_nat (0x80 + c mod 0x40)]
      else
        [word_of_nat (0xF0 + c div 0x40000), word_of_nat (0x80 + c div 0x1000 mod 0x40),
         word_of_nat (0x80 + c div 0x40 mod 0x40), word_of_nat (0x80 + c mod 0x40)])"

definition as_bytes :: "rstring \<Rightarrow> bytes" where
  "as_bytes s = concat (map char_utf8 s)"

text \<open>\<^verbatim>\<open>&s[n..]\<close>: a byte offset that is not on a character boundary panics.\<close>

fun str_from :: "rstring \<Rightarrow> nat \<Rightarrow> rstring option" where
  "str_from s 0 = Some s"
| "str_from [] (Suc n) = None"
| "str_from (c # s) (Suc n) =
     (if length (char_utf8 c) \<le> Suc n then str_from s (Suc n - length (char_utf8 c)) else None)"

definition is_ascii :: "u8 \<Rightarrow> bool" where
  "is_ascii b \<longleftrightarrow> unat b < 128"


section \<open>The encoder\<close>

record utf16_units =
  uu_rest :: rstring
  uu_pending_low :: "u16 option"

definition uu_new :: "rstring \<Rightarrow> utf16_units" where
  "uu_new s = \<lparr>uu_rest = s, uu_pending_low = None\<rparr>"

definition next_unit :: "utf16_units \<Rightarrow> u16 option \<times> utf16_units" where
  "next_unit u =
     (case uu_pending_low u of
        Some low \<Rightarrow> (Some low, u\<lparr>uu_pending_low := None\<rparr>)
      | None \<Rightarrow>
          (case uu_rest u of
             [] \<Rightarrow> (None, u)
           | c # rest \<Rightarrow>
               (case char_utf16 c of
                  [] \<Rightarrow> (None, u\<lparr>uu_rest := rest, uu_pending_low := None\<rparr>)
                | h # ls \<Rightarrow>
                    (Some h, u\<lparr>uu_rest := rest,
                               uu_pending_low := (case ls of [] \<Rightarrow> None | l # _ \<Rightarrow> Some l)\<rparr>))))"

function ascii_blocks :: "bytes \<Rightarrow> nat \<Rightarrow> nat" where
  "ascii_blocks bs len =
     (if len + 16 \<le> length bs \<and> list_all is_ascii (seg len (len + 16) bs)
      then ascii_blocks bs (len + 16) else len)"
  by pat_completeness auto
termination by (relation "measure (\<lambda>(bs, len). length bs - len)") auto

declare ascii_blocks.simps [simp del]

definition ascii_prefix_len :: "bytes \<Rightarrow> nat" where
  "ascii_prefix_len bs =
     (let len = ascii_blocks bs 0 in len + length (takeWhile is_ascii (drop len bs)))"

definition widen :: "bytes \<Rightarrow> bytes" where
  "widen bs = concat (map (\<lambda>b. [b, 0]) bs)"

lemma length_widen [simp]: "length (widen bs) = 2 * length bs"
  by (induction bs) (simp_all add: widen_def)

lemma length_ascii_prefix: "ascii_prefix_len bs \<le> length bs"
proof -
  have "ascii_blocks bs n \<le> length bs" if "n \<le> length bs" for n
    using that
  proof (induction bs n rule: ascii_blocks.induct)
    case (1 bs len)
    then show ?case by (subst ascii_blocks.simps) auto
  qed
  from this [of 0] have "ascii_blocks bs 0 \<le> length bs" by simp
  moreover have "length (takeWhile is_ascii (drop (ascii_blocks bs 0) bs)) \<le> length bs - ascii_blocks bs 0"
    using length_takeWhile_le [of is_ascii "drop (ascii_blocks bs 0) bs"] by simp
  ultimately show ?thesis by (simp add: ascii_prefix_len_def Let_def)
qed

text \<open>
  The body of the loop of \<^verbatim>\<open>stage_le\<close>, on the part \<open>out\<close> of the stage filled so far: an ASCII run
  is widened (\<open>None\<close> is a panic of the string slice), then one character is encoded. The loop
  goes on (\<open>Inl\<close>) or the stage is done (\<open>Inr\<close>).
\<close>

definition stage_ascii :: "nat \<Rightarrow> bytes \<Rightarrow> rstring \<Rightarrow> (bytes \<times> rstring) option" where
  "stage_ascii capacity out rest =
     (let bs = as_bytes rest;
          ascii = ascii_prefix_len (take (min (length bs) (capacity - length out div 2)) bs)
      in map_option (Pair (out @ widen (take ascii bs))) (str_from rest ascii))"

definition stage_char :: "nat \<Rightarrow> bytes \<Rightarrow> rstring \<Rightarrow> (bytes \<times> rstring) + (bytes \<times> utf16_units)" where
  "stage_char capacity out rest =
     (if length out div 2 = capacity then Inr (out, \<lparr>uu_rest = rest, uu_pending_low = None\<rparr>)
      else
        (case rest of
           [] \<Rightarrow> Inr (out, \<lparr>uu_rest = [], uu_pending_low = None\<rparr>)
         | c # rest' \<Rightarrow>
             (case char_utf16 c of
                h # low # _ \<Rightarrow>
                  if length out div 2 + 1 < capacity
                  then Inl (out @ to_le_u16 h @ to_le_u16 low, rest')
                  else Inr (out @ to_le_u16 h, \<lparr>uu_rest = rest', uu_pending_low = Some low\<rparr>)
              | us \<Rightarrow> Inl (out @ units_le us, rest'))))"

lemma char_utf16_cases: obtains h where "char_utf16 c = [h]" | h l where "char_utf16 c = [h, l]"
  by (cases "c < 0x10000") (auto simp: char_utf16_def)

lemma stage_ascii_length: "stage_ascii capacity out rest = Some (out', rest') \<Longrightarrow> length out \<le> length out'"
  by (auto simp: stage_ascii_def Let_def)

lemma stage_char_length: "stage_char capacity out rest = Inl (out', rest') \<Longrightarrow> length out + 2 \<le> length out'"
proof (cases rest)
  case (Cons c rest'')
  then show "stage_char capacity out rest = Inl (out', rest') \<Longrightarrow> length out + 2 \<le> length out'"
    by (cases c rule: char_utf16_cases) (auto simp: stage_char_def codec_simps split: if_splits)
qed (simp add: stage_char_def split: if_splits)

function stage_loop :: "nat \<Rightarrow> bytes \<Rightarrow> rstring \<Rightarrow> (bytes \<times> utf16_units) option" where
  "stage_loop capacity out rest =
     (if \<not> length out div 2 < capacity then Some (out, \<lparr>uu_rest = rest, uu_pending_low = None\<rparr>)
      else
        (case stage_ascii capacity out rest of
           None \<Rightarrow> None
         | Some (out1, rest1) \<Rightarrow>
             (case stage_char capacity out1 rest1 of
                Inl (out2, rest2) \<Rightarrow> stage_loop capacity out2 rest2
              | Inr done \<Rightarrow> Some done)))"
  by pat_completeness auto
termination
  by (relation "measure (\<lambda>(capacity, out, rest). capacity - length out div 2)")
     (auto dest!: stage_ascii_length stage_char_length)

declare stage_loop.simps [simp del]

definition stage_le :: "nat \<Rightarrow> utf16_units \<Rightarrow> (bytes \<times> utf16_units) option" where
  "stage_le capacity u =
     (case uu_pending_low u of
        Some low \<Rightarrow>
          if capacity > 0 then stage_loop capacity (to_le_u16 low) (uu_rest u) else Some ([], u)
      | None \<Rightarrow> stage_loop capacity [] (uu_rest u))"



section \<open>The encoder emits the units of the string\<close>

definition all_units :: "utf16_units \<Rightarrow> u16 list" where
  "all_units u = (case uu_pending_low u of None \<Rightarrow> [] | Some l \<Rightarrow> [l]) @ encode_utf16 (uu_rest u)"

lemma all_units_new [simp]: "all_units (uu_new s) = encode_utf16 s"
  by (simp add: all_units_def uu_new_def)

lemma next_unit_units:
  "next_unit u = (None, u') \<Longrightarrow> all_units u = [] \<and> u' = u"
  "next_unit u = (Some x, u') \<Longrightarrow> all_units u = x # all_units u'"
  by (auto simp: next_unit_def all_units_def char_utf16_def split: option.splits list.splits if_splits)

lemma next_unit_rest: "next_unit u = (r, u') \<Longrightarrow> valid_string (uu_rest u) \<Longrightarrow> valid_string (uu_rest u')"
  by (auto simp: next_unit_def split: option.splits list.splits)

lemma ascii_blocks_prefix:
  assumes "list_all is_ascii (take n bs)" and "n \<le> length bs"
  shows "list_all is_ascii (take (ascii_blocks bs n) bs) \<and> ascii_blocks bs n \<le> length bs"
  using assms
proof (induction bs n rule: ascii_blocks.induct)
  case (1 bs len)
  show ?case
  proof (cases "len + 16 \<le> length bs \<and> list_all is_ascii (seg len (len + 16) bs)")
    case True
    then have "list_all is_ascii (take len bs @ seg len (len + 16) bs)"
      using "1.prems" by simp
    then have "list_all is_ascii (take (len + 16) bs)"
      by (simp add: seg_def take_add)
    with True "1.IH" [OF True] show ?thesis by (simp add: ascii_blocks.simps [of bs len])
  next
    case False
    then have "ascii_blocks bs len = len" by (auto simp: ascii_blocks.simps [of bs len])
    with "1.prems" show ?thesis by simp
  qed
qed

lemma ascii_prefix_len_takeWhile: "ascii_prefix_len bs = length (takeWhile is_ascii bs)"
proof -
  define m where "m = ascii_blocks bs 0"
  have m: "list_all is_ascii (take m bs)" "m \<le> length bs"
    using ascii_blocks_prefix [of 0 bs] by (simp_all add: m_def)
  have "takeWhile is_ascii (take m bs @ drop m bs) = take m bs @ takeWhile is_ascii (drop m bs)"
    using m(1) by (intro takeWhile_append2) (auto simp: list_all_iff)
  then have "length (takeWhile is_ascii bs) = m + length (takeWhile is_ascii (drop m bs))"
    using m(2) by simp
  then show ?thesis by (simp add: ascii_prefix_len_def m_def Let_def)
qed

lemma as_bytes_simps [simp]: "as_bytes [] = []" "as_bytes (c # s) = char_utf8 c @ as_bytes s"
  by (simp_all add: as_bytes_def)

lemma char_utf8_ascii: "c < 0x80 \<Longrightarrow> char_utf8 c = [word_of_nat c]"
  by (simp add: char_utf8_def)

lemma not_ascii_lead: "128 \<le> k \<Longrightarrow> k < 256 \<Longrightarrow> \<not> is_ascii (word_of_nat k)"
  using unat_of_nat_u8 [of k] by (simp add: is_ascii_def)

lemma char_utf8_not_ascii:
  assumes "is_scalar c" and "\<not> c < 0x80"
  obtains b bs where "char_utf8 c = b # bs" and "\<not> is_ascii b"
proof -
  from assms have c: "c < 0x110000" by (auto simp: is_scalar_def)
  consider "c < 0x800" | "0x800 \<le> c" "c < 0x10000" | "0x10000 \<le> c" by linarith
  then show thesis
  proof cases
    case 1
    then have "0xC0 + c div 0x40 < 256" by simp
    then have "\<not> is_ascii (word_of_nat (0xC0 + c div 0x40))" by (intro not_ascii_lead) simp_all
    moreover from 1 assms(2) have "char_utf8 c = word_of_nat (0xC0 + c div 0x40) #
        [word_of_nat (0x80 + c mod 0x40)]"
      by (simp add: char_utf8_def)
    ultimately show thesis by (intro that)
  next
    case 2
    then have "0xE0 + c div 0x1000 < 256" by simp
    then have n: "\<not> is_ascii (word_of_nat (0xE0 + c div 0x1000))" by (intro not_ascii_lead) simp_all
    from 2 have "char_utf8 c = word_of_nat (0xE0 + c div 0x1000) #
        [word_of_nat (0x80 + c div 0x40 mod 0x40), word_of_nat (0x80 + c mod 0x40)]"
      by (simp only: char_utf8_def if_True if_False) simp
    from this n show thesis by (rule that)
  next
    case 3
    from c have "0xF0 + c div 0x40000 < 256" by simp
    then have n: "\<not> is_ascii (word_of_nat (0xF0 + c div 0x40000))" by (intro not_ascii_lead) simp_all
    from 3 have "char_utf8 c = word_of_nat (0xF0 + c div 0x40000) #
        [word_of_nat (0x80 + c div 0x1000 mod 0x40), word_of_nat (0x80 + c div 0x40 mod 0x40),
         word_of_nat (0x80 + c mod 0x40)]"
      by (simp only: char_utf8_def if_True if_False) simp
    from this n show thesis by (rule that)
  qed
qed

lemma to_le_u16_ascii: "c < 128 \<Longrightarrow> to_le_u16 (word_of_nat c) = [word_of_nat c, 0]"
  by (simp add: to_le_u16_def unat_of_nat_u16 numeral_2_eq_2)

text \<open>The ASCII run found in the bytes is a run of characters, and widening it encodes it.\<close>

lemma ascii_run:
  assumes "valid_string s" and "a = length (takeWhile is_ascii (take k (as_bytes s)))"
  shows "str_from s a = Some (drop a s) \<and> a \<le> k \<and> a \<le> length s \<and>
         widen (take a (as_bytes s)) = units_le (encode_utf16 (take a s)) \<and>
         length (encode_utf16 (take a s)) = a"
  using assms
proof (induction s arbitrary: a k)
  case Nil
  then show ?case by (simp add: widen_def)
next
  case (Cons c s)
  show ?case
  proof (cases "c < 0x80 \<and> k > 0")
    case True
    then obtain k' where k: "k = Suc k'" by (cases k) auto
    have asc: "is_ascii (word_of_nat c)"
      using True unat_of_nat_u8 [of c] by (simp add: is_ascii_def)
    define b where "b = length (takeWhile is_ascii (take k' (as_bytes s)))"
    have a: "a = Suc b" using Cons.prems(2) True asc by (simp add: k b_def char_utf8_ascii)
    have IH: "str_from s b = Some (drop b s) \<and> b \<le> k' \<and> b \<le> length s \<and>
         widen (take b (as_bytes s)) = units_le (encode_utf16 (take b s)) \<and>
         length (encode_utf16 (take b s)) = b"
      using Cons.prems(1) by (intro Cons.IH) (simp_all add: b_def)
    have u16: "char_utf16 c = [word_of_nat c]" using True by (simp add: char_utf16_def)
    show ?thesis
      using True IH
      by (simp add: a k char_utf8_ascii u16 to_le_u16_ascii widen_def)
  next
    case False
    have "a = 0"
    proof (cases "k = 0")
      case True with Cons.prems show ?thesis by simp
    next
      case kn: False
      from Cons.prems(1) False kn obtain b bs where "char_utf8 c = b # bs" "\<not> is_ascii b"
        by (auto elim: char_utf8_not_ascii)
      with kn Cons.prems(2) show ?thesis by (cases k) auto
    qed
    then show ?thesis by (simp add: widen_def)
  qed
qed

lemma stage_ascii_units:
  assumes "valid_string rest" and "even (length out)" and "length out div 2 \<le> capacity"
  obtains us rest' where "stage_ascii capacity out rest = Some (out @ units_le us, rest')"
    and "encode_utf16 rest = us @ encode_utf16 rest'" and "valid_string rest'"
    and "length out div 2 + length us \<le> capacity"
proof -
  define k where "k = capacity - length out div 2"
  define a where "a = length (takeWhile is_ascii (take k (as_bytes rest)))"
  note run = ascii_run [OF assms(1) a_def]
  have "ascii_prefix_len (take (min (length (as_bytes rest)) k) (as_bytes rest)) = a"
    by (simp add: ascii_prefix_len_takeWhile a_def min_def)
  then have "stage_ascii capacity out rest = Some (out @ units_le (encode_utf16 (take a rest)), drop a rest)"
    using run by (simp add: stage_ascii_def k_def)
  moreover have "encode_utf16 rest = encode_utf16 (take a rest) @ encode_utf16 (drop a rest)"
    by (metis append_take_drop_id encode_utf16_simps(3))
  moreover have "valid_string (drop a rest)"
    using assms(1) by (metis append_take_drop_id list_all_append)
  moreover have "length out div 2 + length (encode_utf16 (take a rest)) \<le> capacity"
    using run assms(3) by (auto simp: k_def)
  ultimately show thesis by (rule that)
qed

lemma stage_char_Inl:
  assumes "stage_char capacity out rest = Inl (out', rest')" and "valid_string rest" and "length out div 2 \<le> capacity"
  obtains us where "out' = out @ units_le us" and "encode_utf16 rest = us @ encode_utf16 rest'"
    and "valid_string rest'" and "length out div 2 + length us \<le> capacity"
proof (cases rest)
  case (Cons c rest'')
  then show thesis
    using assms that
    by (cases c rule: char_utf16_cases)
       (fastforce simp: stage_char_def split: if_splits)+
qed (use assms in \<open>simp add: stage_char_def split: if_splits\<close>)

lemma stage_char_Inr:
  assumes "stage_char capacity out rest = Inr (out', u)" and "valid_string rest" and "length out div 2 \<le> capacity"
  defines "n \<equiv> capacity - length out div 2"
  shows "out' = out @ units_le (take n (encode_utf16 rest)) \<and>
         all_units u = drop n (encode_utf16 rest) \<and> valid_string (uu_rest u)"
proof (cases "length out div 2 = capacity")
  case True
  with assms show ?thesis by (auto simp: stage_char_def all_units_def)
next
  case False
  with assms(3) have n: "n \<noteq> 0" "length out div 2 + 1 < capacity \<longleftrightarrow> n \<noteq> 1" by (auto simp: n_def)
  show ?thesis
  proof (cases rest)
    case Nil
    with False assms(1) show ?thesis by (auto simp: stage_char_def all_units_def)
  next
    case (Cons c rest'')
    with False assms(1,2) n show ?thesis
      by (cases c rule: char_utf16_cases)
         (auto simp: stage_char_def all_units_def split: if_splits)
  qed
qed

text \<open>
  One stage emits the next \<open>capacity\<close> units and leaves the others, a cut surrogate pair
  included.
\<close>

lemma stage_loop_units:
  assumes "valid_string rest" and "even (length out)" and "length out div 2 \<le> capacity"
  shows "\<exists>u'. stage_loop capacity out rest =
                Some (out @ units_le (take (capacity - length out div 2) (encode_utf16 rest)), u') \<and>
              all_units u' = drop (capacity - length out div 2) (encode_utf16 rest) \<and>
              valid_string (uu_rest u')"
  using assms
proof (induction capacity out rest rule: stage_loop.induct)
  case (1 capacity out rest)
  show ?case
  proof (cases "length out div 2 < capacity")
    case False
    with "1.prems" show ?thesis by (simp add: stage_loop.simps [of capacity out rest] all_units_def)
  next
    case True
    from "1.prems" obtain us rest1 where
      asc: "stage_ascii capacity out rest = Some (out @ units_le us, rest1)"
        "encode_utf16 rest = us @ encode_utf16 rest1" "valid_string rest1"
        "length out div 2 + length us \<le> capacity"
      by (rule stage_ascii_units)
    let ?out1 = "out @ units_le us"
    have out1: "length ?out1 div 2 = length out div 2 + length us" "even (length ?out1)"
      using "1.prems"(2) by auto
    show ?thesis
    proof (cases "stage_char capacity ?out1 rest1")
      case (Inl p)
      then obtain out2 rest2 where p: "stage_char capacity ?out1 rest1 = Inl (out2, rest2)" by (cases p) auto
      with asc out1 obtain vs where ch: "out2 = ?out1 @ units_le vs"
        "encode_utf16 rest1 = vs @ encode_utf16 rest2" "valid_string rest2"
        "length ?out1 div 2 + length vs \<le> capacity"
        by (metis stage_char_Inl)
      have len2: "length out2 div 2 = length out div 2 + length us + length vs" "even (length out2)"
        using ch(1) out1 by auto
      show ?thesis
        using "1.IH" [OF _ asc(1) refl p refl] True asc ch out1 len2
        by (auto simp: stage_loop.simps [of capacity out rest] p diff_diff_left add.assoc)
    next
      case (Inr q)
      then obtain out2 u where q: "stage_char capacity ?out1 rest1 = Inr (out2, u)" by (cases q) auto
      from stage_char_Inr [OF this asc(3)] show ?thesis
        using True asc out1
        by (auto simp: stage_loop.simps [of capacity out rest] q diff_diff_left add.commute)
    qed
  qed
qed

lemma stage_le_units:
  assumes "valid_string (uu_rest u)"
  shows "\<exists>u'. stage_le capacity u = Some (units_le (take capacity (all_units u)), u') \<and>
              all_units u' = drop capacity (all_units u) \<and> valid_string (uu_rest u')"
proof (cases "uu_pending_low u")
  case None
  then show ?thesis
    using stage_loop_units [OF assms, of "[]" capacity] by (simp add: stage_le_def all_units_def)
next
  case (Some low)
  show ?thesis
  proof (cases capacity)
    case 0
    with Some assms show ?thesis by (simp add: stage_le_def all_units_def)
  next
    case (Suc k)
    with Some show ?thesis
      using stage_loop_units [OF assms, of "to_le_u16 low" capacity]
      by (simp add: stage_le_def all_units_def codec_simps)
  qed
qed

end
