(* ===== verification/Sql_Collation.thy ===== *)
theory Sql_Collation
  imports Utf16_Units
begin

text \<open>
  Collations and the narrow encodings they select: \<^verbatim>\<open>SqlCollation\<close> and the sort-ID table of
  \<^verbatim>\<open>mssql-tds/src/token/tokens.rs\<close>, the LCID tables of \<^verbatim>\<open>datatypes/lcid_encoding.rs\<close>, the
  resolution order and the lossy narrow encoder of \<^verbatim>\<open>datatypes/sql_string.rs\<close>, and the OEM
  codecs of \<^verbatim>\<open>datatypes/sql_string/encoding.rs\<close>. The codecs of the \<^verbatim>\<open>encoding_rs\<close> crate are a
  parameter of the definitions that call them.
\<close>

unbundle bit_operations_syntax


section \<open>SqlCollation\<close>

record sql_collation =
  sc_info :: u32
  sc_lcid_language_id :: u32
  sc_col_flags :: u8
  sc_sort_id :: u8

text \<open>\<^verbatim>\<open>u32::from_ne_bytes\<close> on the little-endian hosts the driver supports.\<close>

definition collation_try_from :: "bytes \<Rightarrow> sql_collation tds_result" where
  "collation_try_from bs =
     (if length bs \<noteq> 5 then Inl (Io ''Invalid collation length: (expected 5)'')
      else let info = from_le_u32 (take 4 bs) in
        Inr \<lparr>sc_info = info, sc_lcid_language_id = info AND 0x000FFFFF,
             sc_col_flags = ucast (drop_bit 20 info AND 0xFF), sc_sort_id = bs ! 4\<rparr>)"

definition lcid_language_id :: "sql_collation \<Rightarrow> u32" where
  "lcid_language_id c = sc_info c AND 0x000FFFFF"

definition comparison_style :: "sql_collation \<Rightarrow> u8" where
  "comparison_style c = ucast (drop_bit 20 (sc_info c) AND 0xFF)"

definition collation_version :: "sql_collation \<Rightarrow> u8" where
  "collation_version c = ucast (drop_bit 28 (sc_info c))"

definition ignore_case :: "sql_collation \<Rightarrow> bool" where "ignore_case c \<longleftrightarrow> sc_col_flags c AND 0x1 \<noteq> 0"
definition ignore_accent :: "sql_collation \<Rightarrow> bool" where "ignore_accent c \<longleftrightarrow> sc_col_flags c AND 0x2 \<noteq> 0"
definition ignore_kana :: "sql_collation \<Rightarrow> bool" where "ignore_kana c \<longleftrightarrow> sc_col_flags c AND 0x4 \<noteq> 0"
definition ignore_width :: "sql_collation \<Rightarrow> bool" where "ignore_width c \<longleftrightarrow> sc_col_flags c AND 0x8 \<noteq> 0"
definition binary_flag :: "sql_collation \<Rightarrow> bool" where "binary_flag c \<longleftrightarrow> sc_col_flags c AND 0x10 \<noteq> 0"
definition binary2_flag :: "sql_collation \<Rightarrow> bool" where "binary2_flag c \<longleftrightarrow> sc_col_flags c AND 0x20 \<noteq> 0"
definition utf8_flag :: "sql_collation \<Rightarrow> bool" where "utf8_flag c \<longleftrightarrow> sc_col_flags c AND 0x40 \<noteq> 0"

text \<open>The code page of every SQL sort ID, as runs of the 256-entry table.\<close>

definition CODE_PAGE_FROM_SORT_ID :: "nat option list" where
  "CODE_PAGE_FROM_SORT_ID =
     replicate 30 None @ replicate 5 (Some 437) @ replicate 5 None @ replicate 5 (Some 850) @
     replicate 4 None @ replicate 1 (Some 850) @ replicate 5 (Some 1252) @ replicate 7 (Some 850) @
     replicate 9 None @ replicate 5 (Some 1252) @ replicate 4 None @ replicate 18 (Some 1250) @
     replicate 6 None @ replicate 5 (Some 1251) @ replicate 3 None @ replicate 3 (Some 1253) @
     replicate 5 None @ replicate 3 (Some 1253) @ replicate 1 None @ replicate 1 (Some 1253) @
     replicate 3 None @ replicate 3 (Some 1254) @ replicate 5 None @ replicate 3 (Some 1255) @
     replicate 5 None @ replicate 3 (Some 1256) @ replicate 5 None @ replicate 9 (Some 1257) @
     replicate 22 None @ replicate 4 (Some 1252) @ replicate 5 None @ replicate 2 (Some 932) @
     replicate 2 (Some 949) @ replicate 2 (Some 950) @ replicate 2 (Some 936) @
     replicate 1 (Some 932) @ replicate 1 (Some 949) @ replicate 1 (Some 950) @
     replicate 1 (Some 936) @ replicate 3 (Some 874) @ replicate 3 None @ replicate 8 (Some 1252) @
     replicate 38 None"


section \<open>LCID tables\<close>

text \<open>The static encodings of \<^verbatim>\<open>encoding_rs\<close> that the crate names.\<close>

datatype encoding_rs =
    UTF_8 | UTF_16LE | WINDOWS_1250 | WINDOWS_1251 | WINDOWS_1252 | WINDOWS_1253 | WINDOWS_1254
  | WINDOWS_1255 | WINDOWS_1256 | WINDOWS_1257 | WINDOWS_1258 | WINDOWS_874 | SHIFT_JIS | GBK | EUC_KR | BIG5

definition lcid_encodings :: "(nat list \<times> encoding_rs) list" where
  "lcid_encodings =
     [
      ([0x0409, 0x0809, 0x0C09, 0x1009, 0x1409, 0x1809, 0x1C09, 0x2009, 0x2409, 0x2809, 0x2C09,
        0x3009, 0x3409, 0x0407, 0x0807, 0x0C07, 0x1007, 0x1407, 0x040C, 0x080C, 0x0C0C, 0x100C,
        0x140C, 0x180C, 0x040A, 0x080A, 0x0C0A, 0x100A, 0x140A, 0x180A, 0x1C0A, 0x200A, 0x240A,
        0x280A, 0x2C0A, 0x300A, 0x340A, 0x380A, 0x3C0A, 0x400A, 0x440A, 0x480A, 0x4C0A, 0x500A,
        0x0410, 0x0810, 0x0413, 0x0813, 0x0416, 0x0816, 0x041D, 0x081D, 0x0414, 0x0814, 0x0406,
        0x040B, 0x040F, 0x0438], WINDOWS_1252),
      ([0x0411], SHIFT_JIS),
      ([0x0804, 0x1004], GBK),
      ([0x0404, 0x0C04, 0x1404], BIG5),
      ([0x0412], EUC_KR),
      ([0x0415, 0x0405, 0x040E, 0x0418, 0x041A, 0x041B, 0x0424, 0x041C], WINDOWS_1250),
      ([0x0419, 0x0422, 0x0423, 0x0402, 0x0C1A, 0x1C1A, 0x281A, 0x042F, 0x043F, 0x0843, 0x0444,
        0x0440], WINDOWS_1251),
      ([0x0408], WINDOWS_1253),
      ([0x041F, 0x042C], WINDOWS_1254),
      ([0x040D], WINDOWS_1255),
      ([0x0401, 0x0801, 0x0C01, 0x1001, 0x1401, 0x1801, 0x1C01, 0x2001, 0x2401, 0x2801, 0x2C01,
        0x3001, 0x3401, 0x3801, 0x3C01, 0x4001, 0x0420, 0x0429], WINDOWS_1256),
      ([0x0425, 0x0426, 0x0427], WINDOWS_1257),
      ([0x042A], WINDOWS_1258),
      ([0x041E], WINDOWS_874)]"

definition lcid_to_encoding :: "u32 \<Rightarrow> encoding_rs tds_result" where
  "lcid_to_encoding lcid =
     (case find (\<lambda>(lcids, e). unat lcid \<in> set lcids) lcid_encodings of
        Some (_, e) \<Rightarrow> Inr e
      | None \<Rightarrow> Inl (UnsupportedEncoding lcid))"

definition lcid_code_pages :: "(nat \<times> nat) list" where
  "lcid_code_pages =
     [(0x0401, 1256), (0x0404, 950), (0x0405, 1250), (0x0406, 1252), (0x0408, 1253), (0x0409, 1252),
      (0x040A, 1252), (0x040B, 1252), (0x040C, 1252), (0x040D, 1255), (0x040E, 1250), (0x040F, 1252),
      (0x0411, 932), (0x0412, 949), (0x0414, 1252), (0x0415, 1250), (0x0417, 1252), (0x0418, 1250),
      (0x0419, 1251), (0x041A, 1250), (0x041B, 1250), (0x041C, 1250), (0x041E, 874), (0x041F, 1254),
      (0x0420, 1256), (0x0422, 1251), (0x0424, 1250), (0x0425, 1257), (0x0426, 1257), (0x0427, 1257),
      (0x0429, 1256), (0x042A, 1258), (0x042C, 1254), (0x042E, 1252), (0x042F, 1251), (0x043B, 1252),
      (0x043F, 1251), (0x0442, 1250), (0x0443, 1254), (0x0444, 1251), (0x0452, 1252), (0x0462, 1252),
      (0x046D, 1251), (0x047A, 1252), (0x047C, 1252), (0x047E, 1252), (0x0480, 1256), (0x0483, 1252),
      (0x0485, 1251), (0x048C, 1256), (0x0804, 936), (0x081A, 1250), (0x0827, 1257), (0x082C, 1251),
      (0x083B, 1252), (0x085F, 1252), (0x0C04, 950), (0x0C0A, 1252), (0x0C1A, 1251), (0x1404, 950),
      (0x141A, 1250), (0x201A, 1251), (0x10407, 1252), (0x1040E, 1250), (0x10411, 932), (0x10412, 949),
      (0x10437, 1252), (0x20804, 936), (0x21404, 950), (0x30404, 950), (0x40411, 932)]"

definition lcid_to_code_page :: "u32 \<Rightarrow> nat option" where
  "lcid_to_code_page lcid = map_of lcid_code_pages (unat lcid)"


section \<open>Resolving a collation\<close>

datatype resolved_encoding = EncodingRs encoding_rs | Oem437 | Oem850

definition as_encoding_rs :: "resolved_encoding \<Rightarrow> encoding_rs option" where
  "as_encoding_rs e = (case e of EncodingRs r \<Rightarrow> Some r | _ \<Rightarrow> None)"

text \<open>The match on the code page of a known sort ID.\<close>

definition code_page_encoding :: "nat \<Rightarrow> resolved_encoding option" where
  "code_page_encoding cp =
     (if cp = 437 then Some Oem437
      else if cp = 850 then Some Oem850
      else if cp = 874 then Some (EncodingRs WINDOWS_874)
      else if cp = 932 then Some (EncodingRs SHIFT_JIS)
      else if cp = 936 then Some (EncodingRs GBK)
      else if cp = 949 then Some (EncodingRs EUC_KR)
      else if cp = 950 then Some (EncodingRs BIG5)
      else if cp = 1250 then Some (EncodingRs WINDOWS_1250)
      else if cp = 1251 then Some (EncodingRs WINDOWS_1251)
      else if cp = 1252 then Some (EncodingRs WINDOWS_1252)
      else if cp = 1253 then Some (EncodingRs WINDOWS_1253)
      else if cp = 1254 then Some (EncodingRs WINDOWS_1254)
      else if cp = 1255 then Some (EncodingRs WINDOWS_1255)
      else if cp = 1256 then Some (EncodingRs WINDOWS_1256)
      else if cp = 1257 then Some (EncodingRs WINDOWS_1257)
      else None)"

definition lcid_resolved :: "u32 \<Rightarrow> resolved_encoding option" where
  "lcid_resolved lcid = (case lcid_to_encoding lcid of Inl _ \<Rightarrow> None | Inr e \<Rightarrow> Some (EncodingRs e))"

definition try_resolve_collation :: "sql_collation \<Rightarrow> resolved_encoding option" where
  "try_resolve_collation c =
     (if utf8_flag c then Some (EncodingRs UTF_8)
      else case CODE_PAGE_FROM_SORT_ID ! unat (sc_sort_id c) of
             Some cp \<Rightarrow>
               (case code_page_encoding cp of
                  Some e \<Rightarrow> Some e
                | None \<Rightarrow> lcid_resolved (sc_info c AND 0x000FFFFF))
           | None \<Rightarrow> lcid_resolved (sc_info c AND 0x000FFFFF))"

definition resolve_collation :: "sql_collation \<Rightarrow> resolved_encoding" where
  "resolve_collation c =
     (case try_resolve_collation c of Some e \<Rightarrow> e | None \<Rightarrow> EncodingRs WINDOWS_1252)"

definition collation_code_page :: "sql_collation \<Rightarrow> nat option" where
  "collation_code_page c =
     (if utf8_flag c then Some 65001
      else case CODE_PAGE_FROM_SORT_ID ! unat (sc_sort_id c) of
             Some cp \<Rightarrow> Some cp
           | None \<Rightarrow> lcid_to_code_page (sc_info c AND 0x000FFFFF))"

datatype encoding_type = Utf8 | Utf16 | LcidBased sql_collation | DelayedSet

definition resolved_encoding :: "encoding_type \<Rightarrow> resolved_encoding option" where
  "resolved_encoding t =
     (case t of
        Utf8 \<Rightarrow> Some (EncodingRs UTF_8)
      | Utf16 \<Rightarrow> Some (EncodingRs UTF_16LE)
      | LcidBased c \<Rightarrow> Some (resolve_collation c)
      | DelayedSet \<Rightarrow> None)"


section \<open>OEM codecs\<close>

definition CP437 :: "rchar list" where
  "CP437 =
     [0xc7, 0xfc, 0xe9, 0xe2, 0xe4, 0xe0, 0xe5, 0xe7, 0xea, 0xeb, 0xe8, 0xef, 0xee, 0xec, 0xc4, 0xc5,
      0xc9, 0xe6, 0xc6, 0xf4, 0xf6, 0xf2, 0xfb, 0xf9, 0xff, 0xd6, 0xdc, 0xa2, 0xa3, 0xa5, 0x20a7, 0x192,
      0xe1, 0xed, 0xf3, 0xfa, 0xf1, 0xd1, 0xaa, 0xba, 0xbf, 0x2310, 0xac, 0xbd, 0xbc, 0xa1, 0xab, 0xbb,
      0x2591, 0x2592, 0x2593, 0x2502, 0x2524, 0x2561, 0x2562, 0x2556, 0x2555, 0x2563, 0x2551, 0x2557, 0x255d, 0x255c, 0x255b, 0x2510,
      0x2514, 0x2534, 0x252c, 0x251c, 0x2500, 0x253c, 0x255e, 0x255f, 0x255a, 0x2554, 0x2569, 0x2566, 0x2560, 0x2550, 0x256c, 0x2567,
      0x2568, 0x2564, 0x2565, 0x2559, 0x2558, 0x2552, 0x2553, 0x256b, 0x256a, 0x2518, 0x250c, 0x2588, 0x2584, 0x258c, 0x2590, 0x2580,
      0x3b1, 0xdf, 0x393, 0x3c0, 0x3a3, 0x3c3, 0xb5, 0x3c4, 0x3a6, 0x398, 0x3a9, 0x3b4, 0x221e, 0x3c6, 0x3b5, 0x2229,
      0x2261, 0xb1, 0x2265, 0x2264, 0x2320, 0x2321, 0xf7, 0x2248, 0xb0, 0x2219, 0xb7, 0x221a, 0x207f, 0xb2, 0x25a0, 0xa0]"

definition CP850 :: "rchar list" where
  "CP850 =
     [0xc7, 0xfc, 0xe9, 0xe2, 0xe4, 0xe0, 0xe5, 0xe7, 0xea, 0xeb, 0xe8, 0xef, 0xee, 0xec, 0xc4, 0xc5,
      0xc9, 0xe6, 0xc6, 0xf4, 0xf6, 0xf2, 0xfb, 0xf9, 0xff, 0xd6, 0xdc, 0xf8, 0xa3, 0xd8, 0xd7, 0x192,
      0xe1, 0xed, 0xf3, 0xfa, 0xf1, 0xd1, 0xaa, 0xba, 0xbf, 0xae, 0xac, 0xbd, 0xbc, 0xa1, 0xab, 0xbb,
      0x2591, 0x2592, 0x2593, 0x2502, 0x2524, 0xc1, 0xc2, 0xc0, 0xa9, 0x2563, 0x2551, 0x2557, 0x255d, 0xa2, 0xa5, 0x2510,
      0x2514, 0x2534, 0x252c, 0x251c, 0x2500, 0x253c, 0xe3, 0xc3, 0x255a, 0x2554, 0x2569, 0x2566, 0x2560, 0x2550, 0x256c, 0xa4,
      0xf0, 0xd0, 0xca, 0xcb, 0xc8, 0x131, 0xcd, 0xce, 0xcf, 0x2518, 0x250c, 0x2588, 0x2584, 0xa6, 0xcc, 0x2580,
      0xd3, 0xdf, 0xd4, 0xd2, 0xf5, 0xd5, 0xb5, 0xfe, 0xde, 0xda, 0xdb, 0xd9, 0xfd, 0xdd, 0xaf, 0xb4,
      0xad, 0xb1, 0x2017, 0xbe, 0xb6, 0xa7, 0xf7, 0xb8, 0xb0, 0xa8, 0xb7, 0xb9, 0xb3, 0xb2, 0x25a0, 0xa0]"

definition decode_oem :: "rchar list \<Rightarrow> u8 \<Rightarrow> rchar" where
  "decode_oem table byte = (if byte < 128 then unat byte else table ! unat (byte - 128))"


text \<open>\<^verbatim>\<open>Iterator::position\<close>.\<close>

primrec iter_position :: "('a \<Rightarrow> bool) \<Rightarrow> 'a list \<Rightarrow> nat option" where
  "iter_position P [] = None"
| "iter_position P (x # xs) = (if P x then Some 0 else map_option Suc (iter_position P xs))"

definition ascii_bytes :: "string \<Rightarrow> bytes" where
  "ascii_bytes str = map of_char str"

fun oem_encode_loop :: "rchar list \<Rightarrow> rstring \<Rightarrow> bytes \<Rightarrow> bool \<Rightarrow> bytes \<times> bool" where
  "oem_encode_loop table [] out errors = (out, errors)"
| "oem_encode_loop table (c # cs) out errors =
     (if c < 128 then oem_encode_loop table cs (out @ [word_of_nat c]) errors
      else case iter_position (\<lambda>entry. entry = c) table of
             Some index \<Rightarrow> oem_encode_loop table cs (out @ [word_of_nat index + 128]) errors
           | None \<Rightarrow> oem_encode_loop table cs (out @ ascii_bytes (''&#'' @ show_nat c @ '';'')) True)"

definition oem_encode :: "rchar list \<Rightarrow> rstring \<Rightarrow> bytes \<times> bool" where
  "oem_encode table str =
     (if list_all (\<lambda>c. c < 128) str then (as_bytes str, False) else oem_encode_loop table str [] False)"

definition oem_decode :: "rchar list \<Rightarrow> bytes \<Rightarrow> rstring" where
  "oem_decode table bs = (if list_all is_ascii bs then map unat bs else map (decode_oem table) bs)"

text \<open>The codecs of the \<^verbatim>\<open>encoding_rs\<close> crate.\<close>

record rs_codec =
  rs_encode :: "encoding_rs \<Rightarrow> rstring \<Rightarrow> bytes \<times> encoding_rs \<times> bool"
  rs_decode :: "encoding_rs \<Rightarrow> bytes \<Rightarrow> rstring \<times> bool"

definition resolved_decode :: "rs_codec \<Rightarrow> resolved_encoding \<Rightarrow> bytes \<Rightarrow> rstring \<times> bool" where
  "resolved_decode rs e bs =
     (case e of
        EncodingRs r \<Rightarrow> rs_decode rs r bs
      | Oem437 \<Rightarrow> (oem_decode CP437 bs, False)
      | Oem850 \<Rightarrow> (oem_decode CP850 bs, False))"

definition resolved_encode :: "rs_codec \<Rightarrow> resolved_encoding \<Rightarrow> rstring \<Rightarrow> bytes \<times> resolved_encoding \<times> bool" where
  "resolved_encode rs e str =
     (case e of
        EncodingRs r \<Rightarrow> let (bs, used, errors) = rs_encode rs r str in (bs, EncodingRs used, errors)
      | Oem437 \<Rightarrow> let (bs, errors) = oem_encode CP437 str in (bs, e, errors)
      | Oem850 \<Rightarrow> let (bs, errors) = oem_encode CP850 str in (bs, e, errors))"


section \<open>Incremental OEM decoding\<close>

datatype coder_result = InputEmpty | OutputFull

text \<open>One pass of \<^verbatim>\<open>decode_to_utf8\<close>: how far it read and wrote, and the output buffer.\<close>

fun oem_utf8_loop :: "rchar list \<Rightarrow> bytes \<Rightarrow> nat \<Rightarrow> nat \<Rightarrow> bytes \<Rightarrow> coder_result \<times> nat \<times> nat \<times> bytes" where
  "oem_utf8_loop table [] rd written dst = (InputEmpty, rd, written, dst)"
| "oem_utf8_loop table (b # src) rd written dst =
     (let u = char_utf8 (decode_oem table b) in
      if length dst - written < length u then (OutputFull, rd, written, dst)
      else oem_utf8_loop table src (rd + 1) (written + length u) (overwrite written u dst))"

definition oem_decode_to_utf8 :: "rchar list \<Rightarrow> bytes \<Rightarrow> bytes \<Rightarrow> coder_result \<times> nat \<times> nat \<times> bytes" where
  "oem_decode_to_utf8 table src dst = oem_utf8_loop table src 0 0 dst"

definition oem_decode_to_utf16 :: "rchar list \<Rightarrow> bytes \<Rightarrow> u16 list \<Rightarrow> coder_result \<times> nat \<times> nat \<times> u16 list" where
  "oem_decode_to_utf16 table src dst =
     (let count = min (length src) (length dst);
          dst' = map (\<lambda>b. word_of_nat (decode_oem table b)) (take count src) @ drop count dst
      in (if count = length src then InputEmpty else OutputFull, count, count, dst'))"

definition oem_max_utf8_buffer_length :: "nat \<Rightarrow> nat option" where
  "oem_max_utf8_buffer_length n = (if n * 3 < 2 ^ 64 then Some (n * 3) else None)"

definition oem_max_utf16_buffer_length :: "nat \<Rightarrow> nat option" where
  "oem_max_utf16_buffer_length n = Some n"


section \<open>Narrow strings\<close>

definition fit_narrow_byte_limit :: "bytes \<Rightarrow> nat \<Rightarrow> bytes tds_result" where
  "fit_narrow_byte_limit bs maximum =
     (if length bs \<le> maximum then Inr bs
      else if list_all (\<lambda>b. b = 0x20) (drop maximum bs) then Inr (take maximum bs)
      else Inl (EncodedValueTooLong (length bs) maximum))"

record narrow_encoded =
  ne_bytes :: bytes
  ne_had_loss :: bool

definition NARROW_SUBSTITUTE_BYTE :: u8 where "NARROW_SUBSTITUTE_BYTE = 0x3F"

definition substitute_unmappable :: "rs_codec \<Rightarrow> rstring \<Rightarrow> resolved_encoding \<Rightarrow> bytes" where
  "substitute_unmappable rs str e =
     concat (map (\<lambda>c. let (bs, used, failed) = resolved_encode rs e [c] in
                       if failed then replicate (length (char_utf16 c)) NARROW_SUBSTITUTE_BYTE else bs) str)"

definition encode_narrow_with :: "rs_codec \<Rightarrow> rstring \<Rightarrow> resolved_encoding \<Rightarrow> narrow_encoded" where
  "encode_narrow_with rs str e =
     (let (encoded, encoding_used, had_errors) = resolved_encode rs e str in
      if \<not> had_errors then \<lparr>ne_bytes = encoded, ne_had_loss = False\<rparr>
      else \<lparr>ne_bytes = substitute_unmappable rs str encoding_used, ne_had_loss = True\<rparr>)"

definition encode_narrow :: "rs_codec \<Rightarrow> rstring \<Rightarrow> sql_collation \<Rightarrow> narrow_encoded" where
  "encode_narrow rs str c = encode_narrow_with rs str (resolve_collation c)"

record sql_string =
  ss_bytes :: bytes
  ss_encoding_type :: encoding_type
  ss_narrow_string_byte_limit :: "nat option"

definition sql_string_new :: "bytes \<Rightarrow> encoding_type \<Rightarrow> sql_string" where
  "sql_string_new bs t = \<lparr>ss_bytes = bs, ss_encoding_type = t, ss_narrow_string_byte_limit = None\<rparr>"

definition set_narrow_string_byte_limit :: "nat \<Rightarrow> sql_string \<Rightarrow> sql_string" where
  "set_narrow_string_byte_limit maximum str = str\<lparr>ss_narrow_string_byte_limit := Some maximum\<rparr>"

definition from_utf8_string :: "rstring \<Rightarrow> sql_string" where
  "from_utf8_string str = sql_string_new (units_le (encode_utf16 str)) Utf16"

definition is_utf16 :: "sql_string \<Rightarrow> bool" where
  "is_utf16 str \<longleftrightarrow> ss_encoding_type str = Utf16"

definition as_utf16_bytes :: "sql_string \<Rightarrow> bytes option" where
  "as_utf16_bytes str = (if is_utf16 str then Some (ss_bytes str) else None)"

definition as_raw_wire_bytes :: "sql_string \<Rightarrow> bytes option" where
  "as_raw_wire_bytes str =
     (case ss_encoding_type str of
        DelayedSet \<Rightarrow> Some (ss_bytes str)
      | LcidBased c \<Rightarrow> Some (ss_bytes str)
      | _ \<Rightarrow> None)"


section \<open>The tables\<close>

text \<open>The code page an encoding is for.\<close>

fun encoding_code_page :: "resolved_encoding \<Rightarrow> nat" where
  "encoding_code_page (EncodingRs UTF_8) = 65001"
| "encoding_code_page (EncodingRs UTF_16LE) = 1200"
| "encoding_code_page (EncodingRs WINDOWS_1250) = 1250"
| "encoding_code_page (EncodingRs WINDOWS_1251) = 1251"
| "encoding_code_page (EncodingRs WINDOWS_1252) = 1252"
| "encoding_code_page (EncodingRs WINDOWS_1253) = 1253"
| "encoding_code_page (EncodingRs WINDOWS_1254) = 1254"
| "encoding_code_page (EncodingRs WINDOWS_1255) = 1255"
| "encoding_code_page (EncodingRs WINDOWS_1256) = 1256"
| "encoding_code_page (EncodingRs WINDOWS_1257) = 1257"
| "encoding_code_page (EncodingRs WINDOWS_1258) = 1258"
| "encoding_code_page (EncodingRs WINDOWS_874) = 874"
| "encoding_code_page (EncodingRs SHIFT_JIS) = 932"
| "encoding_code_page (EncodingRs GBK) = 936"
| "encoding_code_page (EncodingRs EUC_KR) = 949"
| "encoding_code_page (EncodingRs BIG5) = 950"
| "encoding_code_page Oem437 = 437"
| "encoding_code_page Oem850 = 850"

lemma sort_id_table_length: "length CODE_PAGE_FROM_SORT_ID = 256"
  by (simp add: CODE_PAGE_FROM_SORT_ID_def)

lemma sort_id_code_pages: "\<forall>cp \<in> set CODE_PAGE_FROM_SORT_ID. \<forall>p. cp = Some p \<longrightarrow>
    (\<exists>e. code_page_encoding p = Some e \<and> encoding_code_page e = p)"
  by (simp add: CODE_PAGE_FROM_SORT_ID_def code_page_encoding_def ball_Un)

text \<open>Where both LCID tables have a locale, they mean the same code page.\<close>

lemma lcid_tables_agree_all:
  "\<forall>(lcid, cp) \<in> set lcid_code_pages. \<forall>(lcids, e) \<in> set lcid_encodings.
     lcid \<in> set lcids \<longrightarrow> encoding_code_page (EncodingRs e) = cp"
  by (simp add: lcid_code_pages_def lcid_encodings_def)

lemma lcid_resolved_Some:
  assumes "lcid_resolved lcid = Some e"
  obtains lcids r where "e = EncodingRs r" and "(lcids, r) \<in> set lcid_encodings" and "unat lcid \<in> set lcids"
proof -
  from assms obtain r where e: "e = EncodingRs r" and r: "lcid_to_encoding lcid = Inr r"
    by (auto simp: lcid_resolved_def split: sum.splits)
  from r obtain lcids where "find (\<lambda>(lcids, e). unat lcid \<in> set lcids) lcid_encodings = Some (lcids, r)"
    by (auto simp: lcid_to_encoding_def split: option.splits)
  then show thesis using that [OF e] by (auto simp: find_Some_iff) (metis nth_mem)
qed

lemma lcid_tables_agree:
  assumes "lcid_resolved lcid = Some e" and "lcid_to_code_page lcid = Some cp"
  shows "encoding_code_page e = cp"
proof -
  from assms(2) have "(unat lcid, cp) \<in> set lcid_code_pages" by (simp add: lcid_to_code_page_def map_of_SomeD)
  moreover from assms(1) obtain lcids r where
    "e = EncodingRs r" "(lcids, r) \<in> set lcid_encodings" "unat lcid \<in> set lcids" by (rule lcid_resolved_Some)
  ultimately show ?thesis using lcid_tables_agree_all by fast
qed


section \<open>Properties of the resolution\<close>

lemma sort_id_in_table: "CODE_PAGE_FROM_SORT_ID ! unat (b :: u8) \<in> set CODE_PAGE_FROM_SORT_ID"
  using unsigned_less [of b, where ?'a = nat] by (simp add: sort_id_table_length)




section \<open>The OEM codecs\<close>

definition oem_table :: "rchar list \<Rightarrow> bool" where
  "oem_table t \<longleftrightarrow> length t = 128 \<and> distinct t \<and> list_all (\<lambda>c. 128 \<le> c \<and> c < 0xD800) t"

lemma CP437_table [simp]: "oem_table CP437"
  by (simp add: oem_table_def CP437_def)

lemma CP850_table [simp]: "oem_table CP850"
  by (simp add: oem_table_def CP850_def)

definition oem_byte :: "rchar list \<Rightarrow> rchar \<Rightarrow> u8 option" where
  "oem_byte t c = (if c < 128 then Some (word_of_nat c)
     else map_option (\<lambda>i. word_of_nat i + 128) (iter_position (\<lambda>e. e = c) t))"

lemma iter_position_Some: "iter_position P xs = Some i \<Longrightarrow> i < length xs \<and> P (xs ! i)"
  by (induction xs arbitrary: i) (auto split: if_splits)

lemma iter_position_nth: "distinct xs \<Longrightarrow> i < length xs \<Longrightarrow> iter_position (\<lambda>e. e = xs ! i) xs = Some i"
proof (induction xs arbitrary: i)
  case (Cons x xs)
  then show ?case by (cases i) auto
qed simp

lemma high_byte: "i < 128 \<Longrightarrow> \<not> (word_of_nat i + 128 :: u8) < 128 \<and> unat (word_of_nat i + 128 - 128 :: u8) = i"
proof -
  assume "i < 128"
  then have "unat (word_of_nat i + 128 :: u8) = i + 128" by (subst unat_plus_if') (simp add: unat_of_nat_u8)
  then have "\<not> (word_of_nat i + 128 :: u8) < 128" by (simp add: word_less_nat_alt)
  then show ?thesis using \<open>i < 128\<close> by (simp add: unat_of_nat_u8)
qed

lemma decode_oem_byte:
  assumes "oem_table t" and "oem_byte t c = Some b"
  shows "decode_oem t b = c"
proof (cases "c < 128")
  case True
  with assms(2) have "b = word_of_nat c" by (simp add: oem_byte_def)
  with True show ?thesis by (simp add: decode_oem_def word_less_nat_alt unat_of_nat_u8)
next
  case False
  with assms(2) obtain i where i: "iter_position (\<lambda>e. e = c) t = Some i" "b = word_of_nat i + 128"
    by (auto simp: oem_byte_def)
  from iter_position_Some [OF i(1)] assms(1) have "i < 128" "t ! i = c" by (auto simp: oem_table_def)
  with high_byte [of i] i(2) show ?thesis by (simp add: decode_oem_def)
qed

lemma oem_byte_decode:
  assumes "oem_table t"
  shows "oem_byte t (decode_oem t b) = Some b"
proof (cases "b < 128")
  case True
  then show ?thesis by (simp add: decode_oem_def oem_byte_def word_less_nat_alt)
next
  case False
  let ?i = "unat (b - 128)"
  have i: "?i < 128" using False unsigned_less [of b, where ?'a = nat]
    by (simp add: unat_sub word_le_nat_alt not_less)
  then have "128 \<le> t ! ?i" using assms by (simp add: oem_table_def list_all_length)
  with False i assms show ?thesis
    by (simp add: decode_oem_def oem_byte_def oem_table_def iter_position_nth)
qed

lemma oem_encode_loop_spec:
  "oem_encode_loop t cs out err =
     (out @ concat (map (\<lambda>c. case oem_byte t c of Some b \<Rightarrow> [b] | None \<Rightarrow> ascii_bytes (''&#'' @ show_nat c @ '';'')) cs),
      err \<or> (\<exists>c \<in> set cs. oem_byte t c = None))"
proof (induction cs arbitrary: out err)
  case (Cons c cs)
  then show ?case by (auto simp: oem_byte_def split: option.splits)
qed simp

lemma ascii_as_bytes: "list_all (\<lambda>c. c < 128) cs \<Longrightarrow> as_bytes cs = map word_of_nat cs"
  by (induction cs) (simp_all add: char_utf8_ascii)

lemma oem_encode_spec:
  "oem_encode t cs =
     (concat (map (\<lambda>c. case oem_byte t c of Some b \<Rightarrow> [b] | None \<Rightarrow> ascii_bytes (''&#'' @ show_nat c @ '';'')) cs),
      \<exists>c \<in> set cs. oem_byte t c = None)"
proof (cases "list_all (\<lambda>c. c < 128) cs")
  case True
  then have "list_all (\<lambda>c. oem_byte t c = Some (word_of_nat c)) cs" by (auto simp: list_all_iff oem_byte_def)
  then have "map word_of_nat cs = concat (map (\<lambda>c. case oem_byte t c of Some b \<Rightarrow> [b] | None \<Rightarrow> ascii_bytes (''&#'' @ show_nat c @ '';'')) cs)"
    "\<not> (\<exists>c \<in> set cs. oem_byte t c = None)"
    by (induction cs) auto
  with True show ?thesis by (simp add: oem_encode_def ascii_as_bytes)
next
  case False
  then show ?thesis by (simp add: oem_encode_def oem_encode_loop_spec)
qed

lemma oem_decode_map: "oem_decode t bs = map (decode_oem t) bs"
  by (auto simp: oem_decode_def decode_oem_def list_all_iff is_ascii_def word_less_nat_alt)

definition oem_table_of :: "resolved_encoding \<Rightarrow> rchar list" where
  "oem_table_of e = (case e of Oem437 \<Rightarrow> CP437 | Oem850 \<Rightarrow> CP850 | EncodingRs r \<Rightarrow> [])"

lemma oem_cases:
  assumes "as_encoding_rs e = None"
  shows "oem_table (oem_table_of e) \<and> resolved_decode rs e bs = (oem_decode (oem_table_of e) bs, False) \<and>
    resolved_encode rs e str = (fst (oem_encode (oem_table_of e) str), e, snd (oem_encode (oem_table_of e) str))"
  using assms
  by (cases e) (auto simp: as_encoding_rs_def oem_table_of_def resolved_decode_def resolved_encode_def split: prod.splits)

text \<open>
  C38. The OEM codecs are inverse to each other: every byte string decodes without error to a
  text that encodes to the same bytes without loss, and a text that encodes without loss decodes
  to itself.
\<close>

theorem oem_codec_roundtrip:
  assumes "as_encoding_rs e = None"
  shows "resolved_encode rs e (fst (resolved_decode rs e bs)) = (bs, e, False) \<and>
         (snd (snd (resolved_encode rs e str)) = False \<longrightarrow>
          resolved_decode rs e (fst (resolved_encode rs e str)) = (str, False))"
proof -
  note oc = oem_cases [OF assms, of rs]
  let ?t = "oem_table_of e"
  have t: "oem_table ?t" using oc by blast
  have enc: "oem_encode ?t (map (decode_oem ?t) bs) = (bs, False)"
    using oem_byte_decode [OF t] unfolding oem_encode_spec by (induction bs) auto
  have dec: "map (decode_oem ?t) (fst (oem_encode ?t str)) = str" if "\<not> snd (oem_encode ?t str)"
    using that decode_oem_byte [OF t] unfolding oem_encode_spec by (induction str) (auto split: option.splits)
  show ?thesis using enc dec by (auto simp: oem_decode_map oc)
qed

theorem oem_codec_roundtrip_witness:
  "resolved_encode \<lparr>rs_encode = \<lambda>r t. ([], r, False), rs_decode = \<lambda>r b. ([], False)\<rparr> Oem437
     (fst (resolved_decode \<lparr>rs_encode = \<lambda>r t. ([], r, False), rs_decode = \<lambda>r b. ([], False)\<rparr> Oem437 [0x41, 0x80]))
   = ([0x41, 0x80], Oem437, False)"
  using oem_codec_roundtrip [of Oem437] by (simp add: as_encoding_rs_def)

text \<open>
  Text for an OEM column keeps every character the code page has, in order, and replaces any
  other by one question mark per UTF-16 unit; the loss flag is set exactly when that happened.
\<close>

theorem encode_narrow_substitutes:
  assumes "as_encoding_rs e = None"
  shows "encode_narrow_with rs str e =
    \<lparr>ne_bytes = concat (map (\<lambda>c. case oem_byte (oem_table_of e) c of Some b \<Rightarrow> [b]
        | None \<Rightarrow> replicate (length (char_utf16 c)) 0x3F) str),
     ne_had_loss = (\<exists>c \<in> set str. oem_byte (oem_table_of e) c = None)\<rparr>"
proof -
  let ?t = "oem_table_of e"
  have one: "resolved_encode rs e cs = (fst (oem_encode ?t cs), e, snd (oem_encode ?t cs))" for cs
    using oem_cases [OF assms, of rs _ cs] by blast
  have sub: "substitute_unmappable rs str e = concat (map (\<lambda>c. case oem_byte ?t c of Some b \<Rightarrow> [b]
        | None \<Rightarrow> replicate (length (char_utf16 c)) 0x3F) str)"
    unfolding substitute_unmappable_def one oem_encode_spec
    by (rule arg_cong [where f = concat]) (auto simp: NARROW_SUBSTITUTE_BYTE_def split: option.splits)
  have clean: "fst (oem_encode ?t str) = concat (map (\<lambda>c. case oem_byte ?t c of Some b \<Rightarrow> [b]
        | None \<Rightarrow> replicate (length (char_utf16 c)) 0x3F) str)" if "\<not> snd (oem_encode ?t str)"
    using that unfolding oem_encode_spec by (induction str) (auto split: option.splits)
  show ?thesis
    using sub clean by (simp add: encode_narrow_with_def one) (auto simp: oem_encode_spec)
qed


section \<open>Incremental decoding\<close>

definition decoded_upto :: "rchar list \<Rightarrow> bytes \<Rightarrow> bytes \<Rightarrow> nat \<Rightarrow> coder_result \<times> nat \<times> nat \<times> bytes \<Rightarrow> bool" where
  "decoded_upto t src dst w0 = (\<lambda>(res, k, w, dst').
     k \<le> length src \<and> length dst' = length dst \<and> w \<le> length dst \<and>
     take w dst' = take w0 dst @ as_bytes (map (decode_oem t) (take k src)) \<and>
     (res = InputEmpty \<longrightarrow> k = length src) \<and>
     (res = OutputFull \<longrightarrow> k < length src \<and> length dst - w < length (char_utf8 (decode_oem t (src ! k)))))"

lemma take_overwrite: "w + length u \<le> length xs \<Longrightarrow> take (w + length u) (overwrite w u xs) = take w xs @ u"
  by (simp add: overwrite_def)

lemma oem_utf8_loop_decodes:
  "oem_utf8_loop t src rd w dst = (res, rd', w', dst') \<Longrightarrow> w \<le> length dst \<Longrightarrow>
   rd \<le> rd' \<and> decoded_upto t src dst w (res, rd' - rd, w', dst')"
proof (induction src arbitrary: rd w dst)
  case Nil
  then show ?case by (auto simp: decoded_upto_def as_bytes_def)
next
  case (Cons b src)
  let ?u = "char_utf8 (decode_oem t b)"
  show ?case
  proof (cases "length dst - w < length ?u")
    case True
    with Cons.prems show ?thesis by (auto simp: decoded_upto_def as_bytes_def Let_def)
  next
    case False
    then have fits: "w + length ?u \<le> length dst" using Cons.prems(2) by simp
    from Cons.prems False have
      lp: "oem_utf8_loop t src (rd + 1) (w + length ?u) (overwrite w ?u dst) = (res, rd', w', dst')" by (simp add: Let_def)
    have "w + length ?u \<le> length (overwrite w ?u dst)" using fits by simp
    from Cons.IH [OF lp this] have ih: "rd + 1 \<le> rd'"
      "decoded_upto t src (overwrite w ?u dst) (w + length ?u) (res, rd' - (rd + 1), w', dst')" by simp_all
    obtain k where k: "rd' = rd + 1 + k" using ih(1) le_Suc_ex by blast
    from ih(2) show ?thesis using fits Cons.prems(2)
      by (simp add: k decoded_upto_def take_overwrite as_bytes_def)
  qed
qed

lemma char_utf8_BMP: "c < 0x10000 \<Longrightarrow> length (char_utf8 c) \<le> 3"
  by (simp add: char_utf8_def)

lemma decode_oem_BMP: "oem_table t \<Longrightarrow> decode_oem t b < 0xD800"
proof -
  assume t: "oem_table t"
  have "unat (b - 128) < 128" if "\<not> b < 128"
    using that unsigned_less [of b, where ?'a = nat] by (simp add: unat_sub word_le_nat_alt not_less)
  with t show ?thesis by (auto simp: decode_oem_def oem_table_def list_all_length word_less_nat_alt)
qed

lemma as_bytes_oem_bound: "oem_table t \<Longrightarrow> length (as_bytes (map (decode_oem t) bs)) \<le> 3 * length bs"
proof (induction bs)
  case (Cons b bs)
  with char_utf8_BMP [of "decode_oem t b"] decode_oem_BMP [of t b] show ?case by (simp add: as_bytes_def)
qed (simp add: as_bytes_def)



text \<open>
  A value is cut to a narrow column's byte limit only by dropping trailing spaces; if anything
  else is beyond the limit the call fails and says by how much.
\<close>

theorem fit_narrow_byte_limit_lossless:
  "case fit_narrow_byte_limit bs n of
     Inr out \<Rightarrow> length out \<le> n \<and> (\<exists>k. bs = out @ replicate k 0x20) \<and> (length bs \<le> n \<longrightarrow> out = bs)
   | Inl e \<Rightarrow> e = EncodedValueTooLong (length bs) n \<and> n < length bs \<and> (\<exists>b \<in> set (drop n bs). b \<noteq> 0x20)"
proof -
  have "bs = take n bs @ replicate (length bs - n) 0x20" if "list_all (\<lambda>b. b = 0x20) (drop n bs)"
  proof -
    have "drop n bs = replicate (length bs - n) 0x20" using that by (intro replicate_eqI) (auto simp: list_all_iff)
    then show ?thesis by (metis append_take_drop_id)
  qed
  then show ?thesis
    by (auto simp: fit_narrow_byte_limit_def list_all_iff intro: exI [of _ 0])
qed

end
