(* ===== verification/Tds_Tokens.thy ===== *)
theory Tds_Tokens
  imports Sql_Collation
begin

text \<open>
  The tokens of a server response: the enumerations and token structs of
  \<^verbatim>\<open>mssql-tds/src/token/tokens.rs\<close>, \<^verbatim>\<open>token/login_ack.rs\<close>, \<^verbatim>\<open>token/fed_auth_info.rs\<close> and
  \<^verbatim>\<open>token/tokenitems.rs\<close>, and the enumerations of \<^verbatim>\<open>message/login.rs\<close> and
  \<^verbatim>\<open>message/login_options.rs\<close> they carry.
\<close>

section \<open>Token types\<close>

datatype token_type =
    TT_AltMetadata | TT_AltRow | TT_ColMetadata | TT_ColInfo | TT_DataClassification | TT_Done |
    TT_DoneProc | TT_DoneInProc | TT_EnvChange | TT_Error | TT_FeatureExtAck | TT_FedAuthInfo |
    TT_Info | TT_LoginAck | TT_NbcRow | TT_Offset | TT_Order | TT_ReturnStatus | TT_ReturnValue |
    TT_Row | TT_SessionState | TT_SSPI | TT_TabName

primrec token_type_u8 :: "token_type \<Rightarrow> u8" where
  "token_type_u8 TT_AltMetadata = 0x88"
| "token_type_u8 TT_AltRow = 0xD3"
| "token_type_u8 TT_ColMetadata = 0x81"
| "token_type_u8 TT_ColInfo = 0xA5"
| "token_type_u8 TT_DataClassification = 0xA3"
| "token_type_u8 TT_Done = 0xFD"
| "token_type_u8 TT_DoneProc = 0xFE"
| "token_type_u8 TT_DoneInProc = 0xFF"
| "token_type_u8 TT_EnvChange = 0xE3"
| "token_type_u8 TT_Error = 0xAA"
| "token_type_u8 TT_FeatureExtAck = 0xAE"
| "token_type_u8 TT_FedAuthInfo = 0xEE"
| "token_type_u8 TT_Info = 0xAB"
| "token_type_u8 TT_LoginAck = 0xAD"
| "token_type_u8 TT_NbcRow = 0xD2"
| "token_type_u8 TT_Offset = 0x78"
| "token_type_u8 TT_Order = 0xA9"
| "token_type_u8 TT_ReturnStatus = 0x79"
| "token_type_u8 TT_ReturnValue = 0xAC"
| "token_type_u8 TT_Row = 0xD1"
| "token_type_u8 TT_SessionState = 0xE4"
| "token_type_u8 TT_SSPI = 0xED"
| "token_type_u8 TT_TabName = 0xA4"

definition UNKNOWN_TOKEN_PREFIX :: string where "UNKNOWN_TOKEN_PREFIX = ''Unknown token type: ''"
definition NO_PARSER_PREFIX :: string where "NO_PARSER_PREFIX = ''No parser implemented for token type: ''"

definition token_type_try_from :: "u8 \<Rightarrow> token_type tds_result" where
  "token_type_try_from v =
     (if v = 0x88 then Inr TT_AltMetadata
      else if v = 0xD3 then Inr TT_AltRow
      else if v = 0x81 then Inr TT_ColMetadata
      else if v = 0xA5 then Inr TT_ColInfo
      else if v = 0xA3 then Inr TT_DataClassification
      else if v = 0xFD then Inr TT_Done
      else if v = 0xFE then Inr TT_DoneProc
      else if v = 0xFF then Inr TT_DoneInProc
      else if v = 0xE3 then Inr TT_EnvChange
      else if v = 0xAA then Inr TT_Error
      else if v = 0xAE then Inr TT_FeatureExtAck
      else if v = 0xEE then Inr TT_FedAuthInfo
      else if v = 0xAB then Inr TT_Info
      else if v = 0xAD then Inr TT_LoginAck
      else if v = 0xD2 then Inr TT_NbcRow
      else if v = 0x78 then Inr TT_Offset
      else if v = 0xA9 then Inr TT_Order
      else if v = 0x79 then Inr TT_ReturnStatus
      else if v = 0xAC then Inr TT_ReturnValue
      else if v = 0xD1 then Inr TT_Row
      else if v = 0xE4 then Inr TT_SessionState
      else if v = 0xED then Inr TT_SSPI
      else if v = 0xA4 then Inr TT_TabName
      else Inl (ProtocolError UNKNOWN_TOKEN_PREFIX))"

definition no_parser_error :: "token_type \<Rightarrow> tds_error" where
  "no_parser_error t = ProtocolError (NO_PARSER_PREFIX @ ''. This token type is not supported yet.'')"

definition starts_with :: "string \<Rightarrow> string \<Rightarrow> bool" where
  "starts_with prefix str \<longleftrightarrow> take (length prefix) str = prefix"

definition is_unreadable_token_error :: "tds_error \<Rightarrow> bool" where
  "is_unreadable_token_error e =
     (case e of
        ProtocolError msg \<Rightarrow> starts_with UNKNOWN_TOKEN_PREFIX msg \<or> starts_with NO_PARSER_PREFIX msg
      | _ \<Rightarrow> False)"


section \<open>DONE\<close>

text \<open>The flag set \<^verbatim>\<open>DoneStatus\<close> keeps the bits it knows: \<^verbatim>\<open>from_bits_truncate\<close>.\<close>

type_synonym done_status = u16

definition DONE_MORE :: done_status where "DONE_MORE = 0x0001"
definition DONE_ERROR :: done_status where "DONE_ERROR = 0x0002"
definition DONE_IN_XACT :: done_status where "DONE_IN_XACT = 0x0004"
definition DONE_COUNT :: done_status where "DONE_COUNT = 0x0010"
definition DONE_ATTN :: done_status where "DONE_ATTN = 0x0020"
definition DONE_RPC_IN_BATCH :: done_status where "DONE_RPC_IN_BATCH = 0x0080"
definition DONE_SERVER_ERROR :: done_status where "DONE_SERVER_ERROR = 0x0100"

definition done_status_all :: u16 where
  "done_status_all = DONE_MORE OR DONE_ERROR OR DONE_IN_XACT OR DONE_COUNT OR DONE_ATTN OR DONE_RPC_IN_BATCH OR DONE_SERVER_ERROR"

definition done_status_from :: "u16 \<Rightarrow> done_status" where
  "done_status_from v = v AND done_status_all"

definition status_contains :: "done_status \<Rightarrow> done_status \<Rightarrow> bool" where
  "status_contains st flag \<longleftrightarrow> st AND flag = flag"

datatype current_command =
    CC_None | CC_Select | CC_Insert | CC_Delete | CC_Update | CC_Abort | CC_BeginXact |
    CC_EndXact | CC_BulkInsert | CC_OpenCursor | CC_Merge

primrec current_command_u16 :: "current_command \<Rightarrow> u16" where
  "current_command_u16 CC_None = 0x00"
| "current_command_u16 CC_Select = 0xC1"
| "current_command_u16 CC_Insert = 0xC3"
| "current_command_u16 CC_Delete = 0xC4"
| "current_command_u16 CC_Update = 0xC5"
| "current_command_u16 CC_Abort = 0xD2"
| "current_command_u16 CC_BeginXact = 0xD4"
| "current_command_u16 CC_EndXact = 0xD5"
| "current_command_u16 CC_BulkInsert = 0xF0"
| "current_command_u16 CC_OpenCursor = 0x20"
| "current_command_u16 CC_Merge = 0x117"

definition current_command_from :: "u16 \<Rightarrow> current_command" where
  "current_command_from v =
     (if v = 0xC1 then CC_Select
      else if v = 0xC3 then CC_Insert
      else if v = 0xC4 then CC_Delete
      else if v = 0xC5 then CC_Update
      else if v = 0xD2 then CC_Abort
      else if v = 0xD4 then CC_BeginXact
      else if v = 0xD5 then CC_EndXact
      else if v = 0xF0 then CC_BulkInsert
      else if v = 0x20 then CC_OpenCursor
      else if v = 0x117 then CC_Merge
      else CC_None)"

record done_token =
  dn_status :: done_status
  dn_cur_cmd :: current_command
  dn_row_count :: u64

definition has_more :: "done_token \<Rightarrow> bool" where "has_more t = status_contains (dn_status t) DONE_MORE"
definition has_error :: "done_token \<Rightarrow> bool" where "has_error t = status_contains (dn_status t) DONE_ERROR"
definition has_count :: "done_token \<Rightarrow> bool" where "has_count t = status_contains (dn_status t) DONE_COUNT"


section \<open>ENVCHANGE\<close>

datatype env_change_sub_type =
    ES_Database | ES_Language | ES_CharacterSet | ES_PacketSize | ES_UnicodeDataSortingLocalId |
    ES_UnicodeDataSortingComparisonFlags | ES_SqlCollation | ES_BeginTransaction |
    ES_CommitTransaction | ES_RollbackTransaction | ES_EnlistDtcTransaction |
    ES_DefectTransaction | ES_DatabaseMirroringPartner | ES_PromoteTransaction |
    ES_TransactionManagerAddress | ES_TransactionEnded | ES_ResetConnection | ES_UserInstanceName |
    ES_Routing | ES_EnhancedRouting | ES_Unknown u8

definition env_change_sub_type_from :: "u8 \<Rightarrow> env_change_sub_type" where
  "env_change_sub_type_from v =
     (if v = 0x01 then ES_Database
      else if v = 0x02 then ES_Language
      else if v = 0x03 then ES_CharacterSet
      else if v = 0x04 then ES_PacketSize
      else if v = 0x05 then ES_UnicodeDataSortingLocalId
      else if v = 0x06 then ES_UnicodeDataSortingComparisonFlags
      else if v = 0x07 then ES_SqlCollation
      else if v = 0x08 then ES_BeginTransaction
      else if v = 0x09 then ES_CommitTransaction
      else if v = 0x0A then ES_RollbackTransaction
      else if v = 0x0B then ES_EnlistDtcTransaction
      else if v = 0x0C then ES_DefectTransaction
      else if v = 0x0D then ES_DatabaseMirroringPartner
      else if v = 0x0F then ES_PromoteTransaction
      else if v = 0x10 then ES_TransactionManagerAddress
      else if v = 0x11 then ES_TransactionEnded
      else if v = 0x12 then ES_ResetConnection
      else if v = 0x13 then ES_UserInstanceName
      else if v = 0x14 then ES_Routing
      else if v = 0x15 then ES_EnhancedRouting
      else ES_Unknown v)"

primrec env_change_sub_type_u8 :: "env_change_sub_type \<Rightarrow> u8" where
  "env_change_sub_type_u8 ES_Database = 0x01"
| "env_change_sub_type_u8 ES_Language = 0x02"
| "env_change_sub_type_u8 ES_CharacterSet = 0x03"
| "env_change_sub_type_u8 ES_PacketSize = 0x04"
| "env_change_sub_type_u8 ES_UnicodeDataSortingLocalId = 0x05"
| "env_change_sub_type_u8 ES_UnicodeDataSortingComparisonFlags = 0x06"
| "env_change_sub_type_u8 ES_SqlCollation = 0x07"
| "env_change_sub_type_u8 ES_BeginTransaction = 0x08"
| "env_change_sub_type_u8 ES_CommitTransaction = 0x09"
| "env_change_sub_type_u8 ES_RollbackTransaction = 0x0A"
| "env_change_sub_type_u8 ES_EnlistDtcTransaction = 0x0B"
| "env_change_sub_type_u8 ES_DefectTransaction = 0x0C"
| "env_change_sub_type_u8 ES_DatabaseMirroringPartner = 0x0D"
| "env_change_sub_type_u8 ES_PromoteTransaction = 0x0F"
| "env_change_sub_type_u8 ES_TransactionManagerAddress = 0x10"
| "env_change_sub_type_u8 ES_TransactionEnded = 0x11"
| "env_change_sub_type_u8 ES_ResetConnection = 0x12"
| "env_change_sub_type_u8 ES_UserInstanceName = 0x13"
| "env_change_sub_type_u8 ES_Routing = 0x14"
| "env_change_sub_type_u8 ES_EnhancedRouting = 0x15"
| "env_change_sub_type_u8 (ES_Unknown v) = v"

record 'a value_pairs =
  old_value :: 'a
  new_value :: 'a

record routing_info =
  ri_protocol :: u8
  ri_port :: u16
  ri_server :: rstring
  ri_database :: "rstring option"

datatype env_change_container =
    EC_String "rstring value_pairs"
  | EC_SqlCollation "sql_collation option value_pairs"
  | EC_UInt32 "u32 value_pairs"
  | EC_RoutingType "routing_info option value_pairs"
  | EC_BytesType "bytes value_pairs"
  | EC_UInt64 "u64 value_pairs"

record env_change_token =
  ev_sub_type :: env_change_sub_type
  ev_change_type :: env_change_container


section \<open>Feature extensions\<close>

datatype feature_extension =
    FE_SRecovery | FE_FedAuth | FE_AlwaysEncrypted | FE_GlobalTransactions | FE_AzureSqlSupport |
    FE_DataClassification | FE_Utf8Support | FE_SqlDnsCaching | FE_Json | FE_Vector |
    FE_EnhancedRouting | FE_UserAgent | FE_Terminator | FE_Unknown u8

primrec feature_extension_u8 :: "feature_extension \<Rightarrow> u8" where
  "feature_extension_u8 FE_SRecovery = 0x01"
| "feature_extension_u8 FE_FedAuth = 0x02"
| "feature_extension_u8 FE_AlwaysEncrypted = 0x04"
| "feature_extension_u8 FE_GlobalTransactions = 0x05"
| "feature_extension_u8 FE_AzureSqlSupport = 0x08"
| "feature_extension_u8 FE_DataClassification = 0x09"
| "feature_extension_u8 FE_Utf8Support = 0x0A"
| "feature_extension_u8 FE_SqlDnsCaching = 0x0B"
| "feature_extension_u8 FE_Json = 0x0D"
| "feature_extension_u8 FE_Vector = 0x0E"
| "feature_extension_u8 FE_EnhancedRouting = 0x0F"
| "feature_extension_u8 FE_UserAgent = 0x10"
| "feature_extension_u8 FE_Terminator = 0xFF"
| "feature_extension_u8 (FE_Unknown v) = v"

definition feature_extension_from :: "u8 \<Rightarrow> feature_extension" where
  "feature_extension_from v =
     (if v = 0x01 then FE_SRecovery
      else if v = 0x02 then FE_FedAuth
      else if v = 0x04 then FE_AlwaysEncrypted
      else if v = 0x05 then FE_GlobalTransactions
      else if v = 0x08 then FE_AzureSqlSupport
      else if v = 0x09 then FE_DataClassification
      else if v = 0x0A then FE_Utf8Support
      else if v = 0x0B then FE_SqlDnsCaching
      else if v = 0x0D then FE_Json
      else if v = 0x0E then FE_Vector
      else if v = 0x0F then FE_EnhancedRouting
      else if v = 0x10 then FE_UserAgent
      else if v = 0xFF then FE_Terminator
      else FE_Unknown v)"


section \<open>LOGINACK, FEDAUTHINFO, SESSIONSTATE and the rest\<close>

datatype sql_interface_type = SI_Default | SI_TSql | SI_Unknown u8

definition sql_interface_type_from :: "u8 \<Rightarrow> sql_interface_type" where
  "sql_interface_type_from v = (if v = 0 then SI_Default else if v = 1 then SI_TSql else SI_Unknown v)"

primrec sql_interface_type_u8 :: "sql_interface_type \<Rightarrow> u8" where
  "sql_interface_type_u8 SI_Default = 0"
| "sql_interface_type_u8 SI_TSql = 1"
| "sql_interface_type_u8 (SI_Unknown v) = v"

datatype tds_version = V7_4 | V8_0 | TV_Unknown u32

definition tds_version_from :: "u32 \<Rightarrow> tds_version" where
  "tds_version_from v = (if v = 0x74000004 then V7_4 else if v = 0x08000000 then V8_0 else TV_Unknown v)"

primrec tds_version_u32 :: "tds_version \<Rightarrow> u32" where
  "tds_version_u32 V7_4 = 0x74000004"
| "tds_version_u32 V8_0 = 0x08000000"
| "tds_version_u32 (TV_Unknown v) = v"

record version =
  vr_major :: u8
  vr_minor :: u8
  vr_build :: u16
  vr_revision :: u16

record login_ack_token =
  la_interface_type :: sql_interface_type
  la_tds_version :: tds_version
  la_prog_name :: rstring
  la_prog_version :: version

datatype fed_auth_info_id = FA_SPN | FA_STSUrl | FA_Unknown u8

definition fed_auth_info_id_from :: "u8 \<Rightarrow> fed_auth_info_id" where
  "fed_auth_info_id_from v = (if v = 0x02 then FA_SPN else if v = 0x01 then FA_STSUrl else FA_Unknown v)"

primrec fed_auth_info_id_u8 :: "fed_auth_info_id \<Rightarrow> u8" where
  "fed_auth_info_id_u8 FA_SPN = 0x02"
| "fed_auth_info_id_u8 FA_STSUrl = 0x01"
| "fed_auth_info_id_u8 (FA_Unknown v) = v"

record fed_auth_info_token =
  fa_spn :: rstring
  fa_sts_url :: rstring

record session_state_entry =
  se_state_id :: u8
  se_recoverable :: bool
  se_data :: bytes

record session_state_token =
  st_sequence_number :: u32
  st_status :: u8
  st_states :: "session_state_entry list"

text \<open>ERROR and INFO have the same fields.\<close>

record error_token =
  er_number :: u32
  er_state :: u8
  er_severity :: u8
  er_message :: rstring
  er_server_name :: rstring
  er_proc_name :: rstring
  er_line_number :: u32

datatype return_value_status = RV_OutputParam | RV_Udf | RV_Unknown u8

definition return_value_status_from :: "u8 \<Rightarrow> return_value_status" where
  "return_value_status_from v = (if v = 0x01 then RV_OutputParam else if v = 0x02 then RV_Udf else RV_Unknown v)"


section \<open>Round trips of the enumerations\<close>

text \<open>
  The wire values of the token enumerations are exact: a byte is accepted as a token type
  exactly when it is that type's value and is reported as unreadable otherwise, and the open
  enumerations keep every byte they do not know.
\<close>

theorem token_enumerations_roundtrip:
  "(token_type_try_from b = Inr t \<longleftrightarrow> token_type_u8 t = b) \<and>
   (\<forall>e. token_type_try_from b = Inl e \<longrightarrow> is_unreadable_token_error e) \<and>
   env_change_sub_type_u8 (env_change_sub_type_from b) = b \<and>
   feature_extension_u8 (feature_extension_from b) = b \<and>
   sql_interface_type_u8 (sql_interface_type_from b) = b \<and>
   tds_version_u32 (tds_version_from v) = v \<and>
   fed_auth_info_id_u8 (fed_auth_info_id_from b) = b"
proof (intro conjI)
  show "token_type_try_from b = Inr t \<longleftrightarrow> token_type_u8 t = b"
    by (cases t) (auto simp: token_type_try_from_def)
  show "\<forall>e. token_type_try_from b = Inl e \<longrightarrow> is_unreadable_token_error e"
    by (auto simp: token_type_try_from_def is_unreadable_token_error_def starts_with_def split: if_splits)
qed (auto simp: env_change_sub_type_from_def feature_extension_from_def sql_interface_type_from_def
      tds_version_from_def fed_auth_info_id_from_def)

end
