(* ===== verification/Read_Buffer.thy ===== *)
theory Read_Buffer
  imports Tds_Prelude
begin

text \<open>
  \<^verbatim>\<open>TdsReadBuffer\<close> (\<^verbatim>\<open>mssql-tds/src/connection/transport/buffers.rs\<close>): the buffer of two packets
  the reader frames packets in. Slices out of range are panics of the model, and the invariant
  \<open>rb_inv\<close> excludes them. \<open>unread\<close> is the payload framed and not consumed, \<open>pending\<close> the bytes
  received beyond the current packet.
\<close>

section \<open>State\<close>

record tds_read_buffer =
  buffer_position :: nat
  buffer_length :: nat
  max_packet_size :: nat
  working_buffer :: bytes
  pending_bytes :: nat
  pending_bytes_offset :: nat
  end_of_message :: bool

definition rb_new :: "nat \<Rightarrow> tds_read_buffer" where
  "rb_new packet_size =
     \<lparr>buffer_position = 0, buffer_length = 0, max_packet_size = packet_size,
      working_buffer = replicate (packet_size * 2) 0, pending_bytes = 0, pending_bytes_offset = 0,
      end_of_message = False\<rparr>"

definition vec_resize :: "nat \<Rightarrow> 'a \<Rightarrow> 'a list \<Rightarrow> 'a list" where
  "vec_resize n x xs = take n xs @ replicate (n - length xs) x"

definition change_packet_size :: "nat \<Rightarrow> tds_read_buffer \<Rightarrow> tds_read_buffer" where
  "change_packet_size packet_size b =
     (if packet_size \<noteq> max_packet_size b
      then b\<lparr>max_packet_size := packet_size,
             working_buffer := vec_resize (packet_size * 2) 0 (working_buffer b),
             buffer_position := 0, buffer_length := 0, pending_bytes := 0,
             pending_bytes_offset := 0, end_of_message := False\<rparr>
      else b)"

definition get_remaining_byte_count :: "tds_read_buffer \<Rightarrow> nat" where
  "get_remaining_byte_count b = buffer_length b - buffer_position b"

definition do_we_have_enough_data :: "nat \<Rightarrow> tds_read_buffer \<Rightarrow> bool" where
  "do_we_have_enough_data byte_count b = (get_remaining_byte_count b \<ge> byte_count)"

definition consume_bytes :: "nat \<Rightarrow> (tds_read_buffer, unit) action" where
  "consume_bytes byte_count b =
     (if byte_count > get_remaining_byte_count b
      then (Inl (ProtocolError (''Cannot consume '' @ show_nat byte_count @
              '' byte(s) from the packet buffer: only '' @ show_nat (get_remaining_byte_count b) @ '' remain'')), b)
      else if buffer_length b = buffer_position b + byte_count
      then (Inr (), b\<lparr>buffer_length := 0, buffer_position := 0\<rparr>)
      else (Inr (), b\<lparr>buffer_position := buffer_position b + byte_count\<rparr>))"

definition try_read_array :: "nat \<Rightarrow> (tds_read_buffer, bytes option) action" where
  "try_read_array n b =
     (if \<not> do_we_have_enough_data n b then (Inr None, b)
      else case slice_get (buffer_position b) (buffer_position b + n) (working_buffer b) of
             None \<Rightarrow> (Inl Panic, b)
           | Some bs \<Rightarrow>
               (case consume_bytes n b of
                  (Inl _, b') \<Rightarrow> (Inr None, b')
                | (Inr _, b') \<Rightarrow> (Inr (Some bs), b')))"

definition try_read_slice :: "nat \<Rightarrow> (tds_read_buffer, bytes option) action" where
  "try_read_slice len b =
     (if \<not> do_we_have_enough_data len b then (Inr None, b)
      else case consume_bytes len b of
             (Inl _, b') \<Rightarrow> (Inr None, b')
           | (Inr _, b') \<Rightarrow>
               (case slice_get (buffer_position b) (buffer_position b + len) (working_buffer b') of
                  None \<Rightarrow> (Inl Panic, b')
                | Some bs \<Rightarrow> (Inr (Some bs), b')))"

definition try_read_map :: "nat \<Rightarrow> (bytes \<Rightarrow> 'a) \<Rightarrow> (tds_read_buffer, 'a option) action" where
  "try_read_map n f = rbind (try_read_array n) (\<lambda>r. rret (map_option f r))"

text \<open>Three and five byte integers are widened with zero bytes; floats are their bit patterns.\<close>

definition le_u24 :: "bytes \<Rightarrow> u32" where
  "le_u24 bs = from_le_u32 (bs @ [0])"

definition le_u40 :: "bytes \<Rightarrow> u64" where
  "le_u40 bs = from_le_u64 (bs @ [0, 0, 0])"

definition try_read_byte :: "(tds_read_buffer, u8 option) action" where
  "try_read_byte = try_read_map 1 hd"

definition try_read_uint16 :: "(tds_read_buffer, u16 option) action" where
  "try_read_uint16 = try_read_map 2 from_le_u16"

definition try_read_uint24 :: "(tds_read_buffer, u32 option) action" where
  "try_read_uint24 = try_read_map 3 le_u24"

definition try_read_uint32 :: "(tds_read_buffer, u32 option) action" where
  "try_read_uint32 = try_read_map 4 from_le_u32"

definition try_read_uint40 :: "(tds_read_buffer, u64 option) action" where
  "try_read_uint40 = try_read_map 5 le_u40"

definition try_read_int64 :: "(tds_read_buffer, u64 option) action" where
  "try_read_int64 = try_read_map 8 from_le_u64"

definition reset_to_length :: "nat \<Rightarrow> tds_read_buffer \<Rightarrow> tds_read_buffer" where
  "reset_to_length len b = b\<lparr>buffer_position := 0, buffer_length := len, end_of_message := False\<rparr>"

definition shift_data_to_front :: "(tds_read_buffer, unit) action" where
  "shift_data_to_front b =
     (let remaining = get_remaining_byte_count b in
      case copy_within (buffer_position b) (buffer_length b) 0 (working_buffer b) of
        None \<Rightarrow> (Inl Panic, b)
      | Some wb \<Rightarrow>
          let b1 = b\<lparr>working_buffer := wb, buffer_position := 0, buffer_length := remaining\<rparr> in
          if pending_bytes b > 0 then
            (case copy_within (pending_bytes_offset b) (pending_bytes_offset b + pending_bytes b) remaining wb of
               None \<Rightarrow> (Inl Panic, b1)
             | Some wb' \<Rightarrow> (Inr (), b1\<lparr>working_buffer := wb', pending_bytes_offset := remaining\<rparr>))
          else (Inr (), b1))"

definition remove_header_from_packet :: "nat \<Rightarrow> (tds_read_buffer, unit) action" where
  "remove_header_from_packet new_packet_size b =
     (case copy_within (buffer_length b + 8) (buffer_length b + new_packet_size) (buffer_length b) (working_buffer b) of
        None \<Rightarrow> (Inl Panic, b)
      | Some wb \<Rightarrow>
          (Inr (), b\<lparr>working_buffer := wb, buffer_length := buffer_length b + (new_packet_size - 8)\<rparr>))"

definition get_slice :: "tds_read_buffer \<Rightarrow> bytes option" where
  "get_slice b = slice_get (buffer_position b) (length (working_buffer b)) (working_buffer b)"

definition get_buffered_slice :: "tds_read_buffer \<Rightarrow> bytes option" where
  "get_buffered_slice b = slice_get (buffer_position b) (buffer_length b) (working_buffer b)"


section \<open>Invariant and abstraction\<close>

definition rb_inv :: "tds_read_buffer \<Rightarrow> bool" where
  "rb_inv b \<longleftrightarrow>
     buffer_position b \<le> buffer_length b \<and> buffer_length b \<le> length (working_buffer b) \<and>
     length (working_buffer b) = 2 * max_packet_size b \<and>
     (pending_bytes b > 0 \<longrightarrow> buffer_length b \<le> pending_bytes_offset b \<and>
        pending_bytes_offset b + pending_bytes b \<le> length (working_buffer b))"

definition unread :: "tds_read_buffer \<Rightarrow> bytes" where
  "unread b = seg (buffer_position b) (buffer_length b) (working_buffer b)"

definition pending :: "tds_read_buffer \<Rightarrow> bytes" where
  "pending b = seg (pending_bytes_offset b) (pending_bytes_offset b + pending_bytes b) (working_buffer b)"

lemma length_unread: "rb_inv b \<Longrightarrow> length (unread b) = get_remaining_byte_count b"
  by (simp add: rb_inv_def unread_def get_remaining_byte_count_def)

lemma length_pending: "rb_inv b \<Longrightarrow> length (pending b) = pending_bytes b"
  by (cases "pending_bytes b > 0") (simp_all add: rb_inv_def pending_def)

lemma rb_inv_new [simp]: "rb_inv (rb_new n)" "unread (rb_new n) = []" "pending (rb_new n) = []"
  by (simp_all add: rb_new_def rb_inv_def unread_def pending_def)

lemma rb_inv_change: "rb_inv b \<Longrightarrow> rb_inv (change_packet_size n b)"
  by (auto simp: rb_inv_def change_packet_size_def vec_resize_def)

lemma rb_inv_reset: "rb_inv b \<Longrightarrow> rb_inv (reset_to_length 0 b) \<and> unread (reset_to_length 0 b) = [] \<and>
    pending (reset_to_length 0 b) = pending b"
  by (auto simp: rb_inv_def reset_to_length_def unread_def pending_def)

lemma consume_ok:
  assumes "rb_inv b" and "n \<le> length (unread b)"
  shows "\<exists>b'. consume_bytes n b = (Inr (), b') \<and> rb_inv b' \<and> unread b' = drop n (unread b) \<and>
     pending b' = pending b \<and> end_of_message b' = end_of_message b \<and> max_packet_size b' = max_packet_size b"
  using assms length_unread [OF assms(1)]
  by (auto simp: consume_bytes_def get_remaining_byte_count_def rb_inv_def unread_def pending_def drop_seg)

lemma try_read_array_None:
  "rb_inv b \<Longrightarrow> length (unread b) < n \<Longrightarrow> try_read_array n b = (Inr None, b)"
  using length_unread [of b] by (simp add: try_read_array_def do_we_have_enough_data_def)

lemma try_read_array_Some:
  assumes "rb_inv b" and "n \<le> length (unread b)"
  shows "\<exists>b'. try_read_array n b = (Inr (Some (take n (unread b))), b') \<and> rb_inv b' \<and>
     unread b' = drop n (unread b) \<and> pending b' = pending b \<and>
     end_of_message b' = end_of_message b \<and> max_packet_size b' = max_packet_size b"
proof -
  have le: "buffer_position b + n \<le> buffer_length b" "buffer_length b \<le> length (working_buffer b)"
    using assms length_unread [OF assms(1)] by (auto simp: rb_inv_def get_remaining_byte_count_def)
  then have "slice_get (buffer_position b) (buffer_position b + n) (working_buffer b) = Some (take n (unread b))"
    by (simp add: slice_get_def unread_def take_seg)
  moreover have "do_we_have_enough_data n b"
    using assms length_unread [OF assms(1)] by (simp add: do_we_have_enough_data_def)
  ultimately show ?thesis using consume_ok [OF assms] by (auto simp: try_read_array_def)
qed

text \<open>Consuming first or copying first makes no difference.\<close>

lemma try_read_slice_array: "rb_inv b \<Longrightarrow> try_read_slice n b = try_read_array n b"
  by (auto simp: try_read_slice_def try_read_array_def consume_bytes_def rb_inv_def slice_get_def
      do_we_have_enough_data_def get_remaining_byte_count_def)

lemma shift_ok:
  assumes inv: "rb_inv b"
  shows "\<exists>b'. shift_data_to_front b = (Inr (), b') \<and> rb_inv b' \<and> unread b' = unread b \<and> pending b' = pending b \<and>
     buffer_position b' = 0 \<and> buffer_length b' = length (unread b) \<and> max_packet_size b' = max_packet_size b \<and>
     end_of_message b' = end_of_message b"
proof -
  let ?n = "buffer_length b - buffer_position b"
  have b: "buffer_position b \<le> buffer_length b" "buffer_length b \<le> length (working_buffer b)"
    "length (unread b) = ?n" using inv length_unread [OF inv] by (auto simp: rb_inv_def get_remaining_byte_count_def)
  define wb where "wb = overwrite 0 (unread b) (working_buffer b)"
  have cp: "copy_within (buffer_position b) (buffer_length b) 0 (working_buffer b) = Some wb"
    using b by (simp add: copy_within_def wb_def unread_def)
  have lw: "length wb = length (working_buffer b)" using b by (simp add: wb_def)
  have un: "take ?n wb = unread b" using b by (simp add: wb_def overwrite_def)
  show ?thesis
  proof (cases "pending_bytes b > 0")
    case False
    with cp lw un b inv show ?thesis
      by (auto simp: shift_data_to_front_def Let_def get_remaining_byte_count_def rb_inv_def unread_def pending_def)
  next
    case True
    let ?p = "seg (pending_bytes_offset b) (pending_bytes_offset b + pending_bytes b) wb"
    from True inv have p: "buffer_length b \<le> pending_bytes_offset b"
      "pending_bytes_offset b + pending_bytes b \<le> length wb" by (auto simp: rb_inv_def lw)
    then have "?p = pending b" using b unfolding wb_def pending_def by (intro seg_overwrite_after) auto
    with p have lp: "length (pending b) = pending_bytes b" by (metis add_diff_cancel_left' le_add1 length_seg)
    let ?wb = "overwrite ?n (pending b) wb"
    have cp2: "copy_within (pending_bytes_offset b) (pending_bytes_offset b + pending_bytes b) ?n wb = Some ?wb"
      using p b lw \<open>?p = pending b\<close> by (simp add: copy_within_def)
    have le: "?n + length (pending b) \<le> length wb" using p b lp by simp
    then have "seg 0 ?n ?wb = unread b"
      using seg_overwrite_before [of ?n ?n wb 0 "pending b"] un by simp
    moreover have "seg ?n (?n + pending_bytes b) ?wb = pending b"
      using seg_overwrite_here [of ?n wb "?n + pending_bytes b" "pending b"] le lp by simp
    ultimately show ?thesis using True cp cp2 lw b inv le lp
      by (auto simp: shift_data_to_front_def Let_def get_remaining_byte_count_def rb_inv_def unread_def pending_def)
  qed
qed

end
