(* ===== verification/Network_Writer.thy ===== *)
theory Network_Writer
  imports Tds_Prelude
begin

text \<open>
  The write half of the transport: the packet types, status flags and reset modes of
  \<^verbatim>\<open>mssql-tds/src/message/messages.rs\<close> and the \<^verbatim>\<open>NetworkWriter\<close> and \<^verbatim>\<open>TransportSslHandler\<close>
  operations of \<^verbatim>\<open>NetworkTransport\<close>
  (\<^verbatim>\<open>mssql-tds/src/connection/transport/network_transport.rs\<close>). Time, cancellation and the
  socket are the environment: the transport carries the list of what happens at each send.
\<close>

unbundle bit_operations_syntax

section \<open>Packet types, status flags, reset modes\<close>

datatype packet_type =
    UnknownPacket
  | SqlBatch
  | RpcRequest
  | TabularResult
  | Attention
  | BulkLoad
  | FedAuthToken
  | TransactionManager
  | Login7
  | SSPI_Packet
  | PreLogin

fun packet_type_u8 :: "packet_type \<Rightarrow> u8" where
  "packet_type_u8 UnknownPacket = 0x00"
| "packet_type_u8 SqlBatch = 0x01"
| "packet_type_u8 RpcRequest = 0x03"
| "packet_type_u8 TabularResult = 0x04"
| "packet_type_u8 Attention = 0x06"
| "packet_type_u8 BulkLoad = 0x07"
| "packet_type_u8 FedAuthToken = 0x08"
| "packet_type_u8 TransactionManager = 0x0E"
| "packet_type_u8 Login7 = 0x10"
| "packet_type_u8 SSPI_Packet = 0x11"
| "packet_type_u8 PreLogin = 0x12"

datatype packet_status_flags = Normal | Eom | Ignore | ResetConnection | ResetConnectionSkipTran

fun status_flag_u8 :: "packet_status_flags \<Rightarrow> u8" where
  "status_flag_u8 Normal = 0x00"
| "status_flag_u8 Eom = 0x01"
| "status_flag_u8 Ignore = 0x02"
| "status_flag_u8 ResetConnection = 0x08"
| "status_flag_u8 ResetConnectionSkipTran = 0x10"

datatype reset_connection_mode = ResetNone | Reset | ResetSkipTran

fun reset_mode_u8 :: "reset_connection_mode \<Rightarrow> u8" where
  "reset_mode_u8 ResetNone = 0"
| "reset_mode_u8 Reset = status_flag_u8 ResetConnection"
| "reset_mode_u8 ResetSkipTran = status_flag_u8 ResetConnectionSkipTran"

datatype negotiated_encryption = Strict | LoginOnly | Mandatory | NoEncryption


section \<open>The environment of a send\<close>

text \<open>
  What can end the race of \<^verbatim>\<open>PacketWriter::populate_header_and_send\<close>: the write completes or
  fails, the request deadline elapses, or the cancellation token fires. The flag of the last
  two says whether the write had been polled, so bytes may have left. With a settlement
  budget a cancelled write is carried to its end, which has an outcome of its own.
\<close>

datatype cancel_tail = TailSent | TailFailed string | TailTimedOut

datatype send_race =
    RaceSent
  | RaceFailed string
  | RaceElapsed bool
  | RaceCancelled bool cancel_tail

record send_env =
  cancelled_at_start :: bool
  expired_at_start :: bool
  race :: send_race
  expired_at_end :: bool

definition calm :: send_env where
  "calm = \<lparr>cancelled_at_start = False, expired_at_start = False, race = RaceSent,
           expired_at_end = False\<rparr>"


section \<open>The write half of NetworkTransport\<close>

text \<open>
  \<open>nw_wire\<close> lists the packets that reached the stream whole, each with whether it went
  through TLS; \<open>nw_torn\<close> records that a write was polled and did not complete.
\<close>

record network_writer =
  nw_packet_size :: nat
  nw_encryption :: "negotiated_encryption option"
  nw_stream_open :: bool
  nw_tls :: bool
  nw_extractable :: bool
  nw_pending_reset :: reset_connection_mode
  nw_reset_dispatched :: bool
  nw_known_dead :: bool
  nw_wire :: "(bool \<times> bytes) list"
  nw_torn :: bool
  nw_env :: "send_env list"

definition get_encryption_setting :: "network_writer \<Rightarrow> negotiated_encryption" where
  "get_encryption_setting n =
     (case nw_encryption n of None \<Rightarrow> NoEncryption | Some e \<Rightarrow> e)"

definition set_reset_mode :: "reset_connection_mode \<Rightarrow> network_writer \<Rightarrow> network_writer" where
  "set_reset_mode mode n = n\<lparr>nw_pending_reset := mode, nw_reset_dispatched := False\<rparr>"

definition take_reset_mode :: "network_writer \<Rightarrow> reset_connection_mode \<times> network_writer" where
  "take_reset_mode n = (nw_pending_reset n, n\<lparr>nw_pending_reset := ResetNone\<rparr>)"

definition note_reset_dispatched :: "network_writer \<Rightarrow> network_writer" where
  "note_reset_dispatched n = n\<lparr>nw_reset_dispatched := True\<rparr>"

definition take_reset_dispatched :: "network_writer \<Rightarrow> bool \<times> network_writer" where
  "take_reset_dispatched n = (nw_reset_dispatched n, n\<lparr>nw_reset_dispatched := False\<rparr>)"

definition notify_encryption_negotiation ::
  "negotiated_encryption \<Rightarrow> (network_writer, unit) action" where
  "notify_encryption_negotiation e n =
     (if nw_encryption n \<noteq> None then (Inl Panic, n)
      else (Inr (), n\<lparr>nw_encryption := Some e\<rparr>))"

text \<open>\<^verbatim>\<open>NetworkTransport::send\<close> when its write runs to the end.\<close>

definition send_done :: "bytes \<Rightarrow> (network_writer, unit) action" where
  "send_done data n =
     (if \<not> nw_stream_open n
      then (Inl (ConnectionClosed ''Cannot send: connection has been closed''), n)
      else (Inr (), n\<lparr>nw_wire := nw_wire n @ [(nw_tls n, data)]\<rparr>))"

definition send_failed :: "string \<Rightarrow> (network_writer, 'a) action" where
  "send_failed e n =
     (if \<not> nw_stream_open n
      then (Inl (ConnectionClosed ''Cannot send: connection has been closed''), n)
      else (Inl (Io e), n\<lparr>nw_known_dead := True, nw_torn := True\<rparr>))"

definition disable_ssl :: "(network_writer, unit) action" where
  "disable_ssl n =
     (if \<not> nw_stream_open n
      then (Inl (ImplementationError ''disable_ssl called but stream is not available''), n)
      else if \<not> nw_extractable n
      then (Inl (ImplementationError ''Cannot disable TLS: TLS was never enabled (no extractable stream handle)''),
            n\<lparr>nw_stream_open := False\<rparr>)
      else (Inr (), n\<lparr>nw_extractable := False, nw_tls := False\<rparr>))"

text \<open>
  \<^verbatim>\<open>enable_ssl\<close> with the outcome of the TLS engine's handshake, and \<^verbatim>\<open>close_transport\<close> with the
  outcome of the stream's shutdown.
\<close>

definition enable_ssl :: "unit tds_result \<Rightarrow> (network_writer, unit) action" where
  "enable_ssl handshake n =
     (if \<not> nw_stream_open n then (Inl Panic, n)
      else (case handshake of
              Inl e \<Rightarrow> (Inl e, n\<lparr>nw_stream_open := False, nw_extractable := True\<rparr>)
            | Inr _ \<Rightarrow> (Inr (), n\<lparr>nw_extractable := True, nw_tls := True\<rparr>)))"

definition close_transport :: "unit tds_result \<Rightarrow> (network_writer, unit) action" where
  "close_transport shutdown n =
     (case (nw_stream_open n, shutdown) of
        (True, Inl e) \<Rightarrow> (Inl e, n)
      | _ \<Rightarrow> (Inr (), n\<lparr>nw_stream_open := False, nw_known_dead := True\<rparr>))"

definition abort_transport :: "network_writer \<Rightarrow> network_writer" where
  "abort_transport n =
     n\<lparr>nw_stream_open := False, nw_extractable := False, nw_known_dead := True\<rparr>"

definition first_packet_callback :: "packet_type \<Rightarrow> (network_writer, unit) action" where
  "first_packet_callback ty n =
     (case ty of
        Login7 \<Rightarrow> if get_encryption_setting n = LoginOnly then disable_ssl n else (Inr (), n)
      | _ \<Rightarrow> (Inr (), n))"

lemma first_packet_callback_frame:
  assumes "first_packet_callback ty n = (r, n')"
  shows "nw_wire n' = nw_wire n" and "nw_torn n' = nw_torn n" and "nw_env n' = nw_env n"
    and "nw_packet_size n' = nw_packet_size n" and "nw_pending_reset n' = nw_pending_reset n"
    and "nw_reset_dispatched n' = nw_reset_dispatched n"
  using assms
  by (auto simp: first_packet_callback_def disable_ssl_def split: packet_type.splits if_splits)

lemma first_packet_callback_error:
  assumes "first_packet_callback ty n = (Inl e, n')"
  shows "e \<noteq> Panic \<and> e \<noteq> Diverge"
  using assms
  by (auto simp: first_packet_callback_def disable_ssl_def split: packet_type.splits if_splits)

lemma first_packet_callback_tls:
  assumes "first_packet_callback ty n = (Inr (), n')"
  shows "nw_encryption n' = nw_encryption n" and
    "nw_tls n' = (nw_tls n \<and> \<not> (ty = Login7 \<and> get_encryption_setting n = LoginOnly))"
  using assms
  by (auto simp: first_packet_callback_def disable_ssl_def split: packet_type.splits if_splits)

lemma send_done_Inr:
  "send_done data n = (Inr (), n') \<longleftrightarrow>
     nw_stream_open n \<and> n' = n\<lparr>nw_wire := nw_wire n @ [(nw_tls n, data)]\<rparr>"
  by (auto simp: send_done_def)

end
