(* ===== verification/Packet_Reader.thy ===== *)
theory Packet_Reader
  imports Read_Buffer Network_Writer
begin

text \<open>
  The read half of \<^verbatim>\<open>NetworkTransport\<close>
  (\<^verbatim>\<open>mssql-tds/src/connection/transport/network_transport.rs\<close>): framing of packets from reads
  that may end anywhere, and the typed readers of \<^verbatim>\<open>TdsPacketReader\<close>. The socket is the list of
  what its reads will find; every loop is shown to end because it uses that list up.
\<close>

section \<open>The stream\<close>

text \<open>
  What a read of the stream finds: bytes, of which it takes as many as fit, nothing yet, or an
  error. After the last event the peer has closed the connection and a read returns zero bytes.
\<close>

datatype read_event = Arrive bytes | NotReady | ReadError string

definition take_bytes :: "nat \<Rightarrow> bytes \<Rightarrow> read_event list \<Rightarrow> bytes \<times> read_event list" where
  "take_bytes capacity bs es =
     (if capacity = 0 then ([], Arrive bs # es)
      else (take capacity bs, if length bs \<le> capacity then es else Arrive (drop capacity bs) # es))"

fun stream_read :: "nat \<Rightarrow> read_event list \<Rightarrow> bytes tds_result \<times> read_event list" where
  "stream_read capacity [] = (Inr [], [])"
| "stream_read capacity (NotReady # es) = stream_read capacity es"
| "stream_read capacity (ReadError e # es) = (Inl (Io e), es)"
| "stream_read capacity (Arrive bs # es) = (case take_bytes capacity bs es of (xs, es') \<Rightarrow> (Inr xs, es'))"

text \<open>\<^verbatim>\<open>poll_read\<close> under a waker that does nothing: \<^const>\<open>None\<close> is \<^verbatim>\<open>Poll::Pending\<close>.\<close>

fun stream_poll :: "nat \<Rightarrow> read_event list \<Rightarrow> bytes tds_result option \<times> read_event list" where
  "stream_poll capacity [] = (Some (Inr []), [])"
| "stream_poll capacity (NotReady # es) = (None, es)"
| "stream_poll capacity (ReadError e # es) = (Some (Inl (Io e)), es)"
| "stream_poll capacity (Arrive bs # es) =
     (case take_bytes capacity bs es of (xs, es') \<Rightarrow> (Some (Inr xs), es'))"

primrec event_size :: "read_event \<Rightarrow> nat" where
  "event_size (Arrive bs) = Suc (length bs)"
| "event_size NotReady = 1"
| "event_size (ReadError e) = 1"

definition stream_size :: "read_event list \<Rightarrow> nat" where
  "stream_size es = sum_list (map event_size es)"

lemma take_bytes_size:
  "take_bytes capacity bs es = (xs, es') \<Longrightarrow> xs \<noteq> [] \<Longrightarrow>
   stream_size es' + length xs \<le> stream_size (Arrive bs # es) \<and> stream_size es' < stream_size (Arrive bs # es)"
  by (auto simp: take_bytes_def stream_size_def split: if_splits)

lemma stream_read_size:
  "stream_read capacity es = (Inr xs, es') \<Longrightarrow> xs \<noteq> [] \<Longrightarrow>
   stream_size es' + length xs \<le> stream_size es \<and> stream_size es' < stream_size es"
proof (induction capacity es rule: stream_read.induct)
  case (4 capacity bs es)
  then show ?case using take_bytes_size [of capacity bs es xs es'] by (auto split: prod.splits)
qed (auto simp: stream_size_def)

lemma stream_poll_size:
  "stream_poll capacity es = (Some (Inr xs), es') \<Longrightarrow> xs \<noteq> [] \<Longrightarrow> stream_size es' < stream_size es"
  by (cases "(capacity, es)" rule: stream_poll.cases)
     (auto split: prod.splits dest: take_bytes_size)


section \<open>Framing packets\<close>

record network_reader =
  nr_buf :: tds_read_buffer
  nr_packet_size :: nat
  nr_stream_open :: bool
  nr_incoming :: "read_event list"
  nr_known_dead :: bool

definition on_buf :: "(tds_read_buffer, 'a) action \<Rightarrow> (network_reader, 'a) action" where
  "on_buf f r = (case f (nr_buf r) of (x, b) \<Rightarrow> (x, r\<lparr>nr_buf := b\<rparr>))"

definition move_pending_packet_bytes :: "nat \<Rightarrow> (tds_read_buffer, nat) action" where
  "move_pending_packet_bytes base b =
     (let available = pending_bytes b; src = pending_bytes_offset b;
          len = length (working_buffer b) in
      if available > 0 then
        if src + available > len \<or> base + available > len
        then (Inl (ProtocolError (''Invalid pending bytes range: src '' @ show_nat src @ ''..'' @
                show_nat (src + available) @ '', dest '' @ show_nat base @ '', buffer_len '' @ show_nat len)), b)
        else (case copy_within src (src + available) base (working_buffer b) of
                None \<Rightarrow> (Inl Panic, b)
              | Some wb \<Rightarrow>
                  (Inr available, b\<lparr>working_buffer := wb, pending_bytes := 0, pending_bytes_offset := 0\<rparr>))
      else (Inr available, b))"

definition header_length :: "nat \<Rightarrow> tds_read_buffer \<Rightarrow> nat option" where
  "header_length base b =
     map_option (\<lambda>bs. unat (from_be_u16 bs)) (slice_get (base + 2) (base + 4) (working_buffer b))"

definition complete_tds_packet_if_available ::
  "nat \<Rightarrow> nat \<Rightarrow> (tds_read_buffer, nat option) action" where
  "complete_tds_packet_if_available base available b =
     (if available < 8 then (Inr None, b)
      else case header_length base b of
        None \<Rightarrow> (Inl Panic, b)
      | Some psize \<Rightarrow>
          if psize < 8
          then (Inl (ProtocolError (''Invalid TDS packet length '' @ show_nat psize @
                  '': must be at least 8 bytes (header size)'')), b)
          else if psize > max_packet_size b
          then (Inl (ProtocolError (''TDS packet length '' @ show_nat psize @
                  '' exceeds negotiated max packet size '' @ show_nat (max_packet_size b))), b)
          else if base + psize > length (working_buffer b)
          then (Inl (ProtocolError (''TDS packet length '' @ show_nat psize @ '' at offset '' @ show_nat base @
                  '' exceeds buffer capacity '' @ show_nat (length (working_buffer b)))), b)
          else if available < psize then (Inr None, b)
          else
            let eom = (working_buffer b ! (base + 1) AND status_flag_u8 Eom \<noteq> 0) in
            if psize = 8 \<and> \<not> eom
            then (Inl (ProtocolError ''Received a payload-free TDS packet that is not end-of-message''), b)
            else (Inr (Some psize),
                  b\<lparr>end_of_message := eom,
                    pending_bytes := available - psize,
                    pending_bytes_offset := (if available - psize > 0 then base + psize else 0)\<rparr>))"

definition park_partial_packet :: "nat \<Rightarrow> nat \<Rightarrow> tds_read_buffer \<Rightarrow> tds_read_buffer" where
  "park_partial_packet base available b =
     b\<lparr>pending_bytes := available, pending_bytes_offset := base\<rparr>"

definition closed_while_reading :: "nat \<Rightarrow> tds_error" where
  "closed_while_reading available =
     ConnectionClosed (''Connection closed by server while reading TDS packet '' @
       (if available < 8 then ''header'' else ''payload''))"

text \<open>What one read of the stream brought is written behind what is there.\<close>

definition received :: "nat \<Rightarrow> bytes \<Rightarrow> read_event list \<Rightarrow> network_reader \<Rightarrow> network_reader" where
  "received at bs es r =
     r\<lparr>nr_buf := (nr_buf r)\<lparr>working_buffer := overwrite at bs (working_buffer (nr_buf r))\<rparr>, nr_incoming := es\<rparr>"

lemma complete_incoming:
  "on_buf (complete_tds_packet_if_available base n) r = (x, r') \<Longrightarrow> nr_incoming r' = nr_incoming r"
  by (auto simp: on_buf_def split: prod.splits)

function packet_loop :: "nat \<Rightarrow> nat \<Rightarrow> (network_reader, nat) action" where
  "packet_loop base available r =
     (case on_buf (complete_tds_packet_if_available base available) r of
        (Inl e, r') \<Rightarrow> (Inl e, r')
      | (Inr (Some psize), r') \<Rightarrow> (Inr psize, r')
      | (Inr None, r') \<Rightarrow>
          if \<not> nr_stream_open r'
          then (Inl (ConnectionClosed ''Cannot read TDS packet: connection has been closed''), r')
          else if base + available > length (working_buffer (nr_buf r')) then (Inl Panic, r')
          else
            (case stream_read (length (working_buffer (nr_buf r')) - (base + available)) (nr_incoming r') of
               (Inl e, es) \<Rightarrow> (Inl e, r'\<lparr>nr_incoming := es, nr_known_dead := True\<rparr>)
             | (Inr bs, es) \<Rightarrow>
                 if bs = [] then (Inl (closed_while_reading available), r'\<lparr>nr_incoming := es, nr_known_dead := True\<rparr>)
                 else packet_loop base (available + length bs) (received (base + available) bs es r')))"
  by pat_completeness auto
termination
  by (relation "measure (\<lambda>(base, available, r). stream_size (nr_incoming r))")
     (auto simp: received_def dest!: complete_incoming [OF sym] stream_read_size [OF sym])

declare packet_loop.simps [simp del]

definition get_new_tds_packet :: "(network_reader, nat) action" where
  "get_new_tds_packet r =
     (let base = buffer_length (nr_buf r) in
      rbind (on_buf (move_pending_packet_bytes base)) (packet_loop base) r)"

function try_packet_loop :: "nat \<Rightarrow> nat \<Rightarrow> (network_reader, nat option) action" where
  "try_packet_loop base available r =
     (case on_buf (complete_tds_packet_if_available base available) r of
        (Inl e, r') \<Rightarrow> (Inl e, r')
      | (Inr (Some psize), r') \<Rightarrow> (Inr (Some psize), r')
      | (Inr None, r') \<Rightarrow>
          if \<not> nr_stream_open r'
          then (Inl (ConnectionClosed ''Cannot read TDS packet: connection has been closed''), r')
          else if base + available > length (working_buffer (nr_buf r')) then (Inl Panic, r')
          else
            (case stream_poll (length (working_buffer (nr_buf r')) - (base + available)) (nr_incoming r') of
               (None, es) \<Rightarrow>
                 (Inr None, r'\<lparr>nr_incoming := es, nr_buf := park_partial_packet base available (nr_buf r')\<rparr>)
             | (Some (Inl e), es) \<Rightarrow> (Inl e, r'\<lparr>nr_incoming := es, nr_known_dead := True\<rparr>)
             | (Some (Inr bs), es) \<Rightarrow>
                 if bs = [] then (Inl (closed_while_reading available), r'\<lparr>nr_incoming := es, nr_known_dead := True\<rparr>)
                 else try_packet_loop base (available + length bs) (received (base + available) bs es r')))"
  by pat_completeness auto
termination
  by (relation "measure (\<lambda>(base, available, r). stream_size (nr_incoming r))")
     (auto simp: received_def dest!: complete_incoming [OF sym] stream_poll_size [OF sym])

declare try_packet_loop.simps [simp del]

definition try_get_new_tds_packet :: "(network_reader, nat option) action" where
  "try_get_new_tds_packet r =
     (let base = buffer_length (nr_buf r) in
      rbind (on_buf (move_pending_packet_bytes base)) (try_packet_loop base) r)"

definition update_buf :: "(tds_read_buffer \<Rightarrow> tds_read_buffer) \<Rightarrow> (network_reader, unit) action" where
  "update_buf f r = (Inr (), r\<lparr>nr_buf := f (nr_buf r)\<rparr>)"

definition read_tds_packet :: "(network_reader, unit) action" where
  "read_tds_packet r =
     (if get_remaining_byte_count (nr_buf r) > 0
      then rbind (on_buf shift_data_to_front) (\<lambda>_. rbind get_new_tds_packet
             (\<lambda>n. on_buf (remove_header_from_packet n))) r
      else rbind (update_buf (reset_to_length 0)) (\<lambda>_. rbind get_new_tds_packet
             (\<lambda>n. on_buf (remove_header_from_packet n))) r)"

definition try_read_tds_packet :: "(network_reader, bool) action" where
  "try_read_tds_packet r =
     (let b = nr_buf r; remaining = get_remaining_byte_count b in
      if end_of_message b then (Inr False, r)
      else if remaining + max_packet_size b > length (working_buffer b) then (Inr False, r)
      else rbind (if remaining > 0 then on_buf shift_data_to_front else update_buf (reset_to_length 0))
             (\<lambda>_. rbind try_get_new_tds_packet
               (\<lambda>x. case x of
                       None \<Rightarrow> rret False
                     | Some n \<Rightarrow> rbind (on_buf (remove_header_from_packet n)) (\<lambda>_. rret True))) r)"

section \<open>Every packet uses up input\<close>

definition inflow :: "network_reader \<Rightarrow> nat" where
  "inflow r = pending_bytes (nr_buf r) + stream_size (nr_incoming r)"

lemma on_buf_InrE:
  assumes "on_buf f r = (Inr a, r')"
  obtains b where "f (nr_buf r) = (Inr a, b)" and "r' = r\<lparr>nr_buf := b\<rparr>"
  using assms by (auto simp: on_buf_def split: prod.splits)

lemma complete_None:
  assumes "complete_tds_packet_if_available base n b = (Inr None, b')"
  shows "b' = b"
  using assms
  by (auto simp: complete_tds_packet_if_available_def Let_def split: if_splits option.splits)

lemma complete_Some:
  assumes "complete_tds_packet_if_available base n b = (Inr (Some k), b')"
  shows "8 \<le> k \<and> k \<le> n \<and> pending_bytes b' + k = n"
  using assms
  by (auto simp: complete_tds_packet_if_available_def Let_def split: if_splits option.splits)

lemma packet_loop_inflow:
  "packet_loop base n r = (Inr k, r') \<Longrightarrow> inflow r' + 8 \<le> n + stream_size (nr_incoming r)"
proof (induction base n r rule: packet_loop.induct)
  case (1 base n r)
  obtain x r1 where c: "on_buf (complete_tds_packet_if_available base n) r = (x, r1)" by fastforce
  note step = "1.prems" [unfolded packet_loop.simps [of base n r] c]
  from step obtain o' where x: "x = Inr o'" by (cases x) auto
  obtain b where b: "complete_tds_packet_if_available base n (nr_buf r) = (Inr o', b)" "r1 = r\<lparr>nr_buf := b\<rparr>"
    using c x by (auto elim: on_buf_InrE)
  show ?case
  proof (cases o')
    case (Some m)
    with step x have "r' = r1" by simp
    with complete_Some [of base n "nr_buf r" m b] b Some show ?thesis by (simp add: inflow_def)
  next
    case None
    with complete_None b have r1: "r1 = r" by fastforce
    note step' = step [unfolded x None r1 prod.case sum.case option.case]
    from step' obtain bs es where
      rd: "stream_read (length (working_buffer (nr_buf r)) - (base + n)) (nr_incoming r) = (Inr bs, es)" "bs \<noteq> []"
      and st: "nr_stream_open r" "\<not> length (working_buffer (nr_buf r)) < base + n"
      and rest: "packet_loop base (n + length bs) (received (base + n) bs es r) = (Inr k, r')"
      by (auto split: if_splits prod.splits sum.splits)
    have "inflow r' + 8 \<le> n + length bs + stream_size (nr_incoming (received (base + n) bs es r))"
      by (rule "1.IH" [OF c [unfolded x None r1, symmetric] refl refl _ st(2) rd(1) [symmetric] refl rd(2) rest])
         (use st in simp)
    with stream_read_size [OF rd] show ?thesis by (simp add: received_def)
  qed
qed

lemma read_tds_packet_inflow:
  assumes "read_tds_packet r = (Inr u, r')"
  shows "inflow r' < inflow r"
proof -
  have get: "inflow r2 + 8 \<le> inflow r1" if g: "get_new_tds_packet r1 = (Inr n, r2)" for r1 r2 n
  proof -
    from g obtain k r3 where mv: "on_buf (move_pending_packet_bytes (buffer_length (nr_buf r1))) r1 = (Inr k, r3)"
      and lp: "packet_loop (buffer_length (nr_buf r1)) k r3 = (Inr n, r2)"
      by (auto simp: get_new_tds_packet_def Let_def elim: rbind_InrE)
    from mv have "k = pending_bytes (nr_buf r1)" "nr_incoming r3 = nr_incoming r1"
      by (auto simp: move_pending_packet_bytes_def Let_def split: if_splits option.splits elim!: on_buf_InrE)
    with packet_loop_inflow [OF lp] show ?thesis by (simp add: inflow_def)
  qed
  have rm: "inflow r2 = inflow r1" if "on_buf (remove_header_from_packet n) r1 = (Inr v, r2)" for r1 r2 n v
    using that by (auto simp: remove_header_from_packet_def inflow_def split: option.splits elim!: on_buf_InrE)
  have sh: "inflow r2 = inflow r1" if "on_buf shift_data_to_front r1 = (Inr v, r2)" for r1 r2 v
    using that by (auto simp: shift_data_to_front_def Let_def inflow_def split: option.splits if_splits elim!: on_buf_InrE)
  have up: "inflow r2 = inflow r1" if "update_buf (reset_to_length 0) r1 = (Inr v, r2)" for r1 r2 v
    using that by (auto simp: update_buf_def reset_to_length_def inflow_def)
  from assms show ?thesis
    unfolding read_tds_packet_def by (auto split: if_splits elim!: rbind_InrE dest!: get rm sh up)
qed

section \<open>Reading values\<close>

definition stalled_on_empty_messages_error :: "nat \<Rightarrow> tds_error" where
  "stalled_on_empty_messages_error outstanding =
     ProtocolError (''TDS read stalled: '' @ show_nat outstanding @ '' more byte(s) required but the peer sent 2 '' @
       ''consecutive payload-free end-of-message packets without advancing.'')"

definition no_progress_error :: "nat \<Rightarrow> tds_error" where
  "no_progress_error outstanding =
     ProtocolError (''TDS read made no progress: '' @ show_nat outstanding @ '' more byte(s) required but the packet '' @
       ''carried no payload. The value extends past the end of the message.'')"

definition past_end_of_message_error :: "nat \<Rightarrow> nat \<Rightarrow> tds_error" where
  "past_end_of_message_error outstanding available =
     ProtocolError (''TDS read extends past the end of the message: '' @ show_nat outstanding @
       '' more byte(s) required but only '' @ show_nat available @ '' remain in the final packet of the message.'')"

abbreviation MAX_CONSECUTIVE_EMPTY_MESSAGES :: nat where "MAX_CONSECUTIVE_EMPTY_MESSAGES \<equiv> 1"

definition message_cannot_satisfy :: "nat \<Rightarrow> network_reader \<Rightarrow> bool" where
  "message_cannot_satisfy needed r \<longleftrightarrow>
     end_of_message (nr_buf r) \<and> needed > get_remaining_byte_count (nr_buf r)"

definition value_truncated_by_message_end :: "bool \<Rightarrow> nat \<Rightarrow> network_reader \<Rightarrow> bool" where
  "value_truncated_by_message_end consumed_any needed r \<longleftrightarrow>
     (consumed_any \<or> get_remaining_byte_count (nr_buf r) > 0) \<and> message_cannot_satisfy needed r"

definition refill_for :: "nat \<Rightarrow> (network_reader, unit) action" where
  "refill_for needed r =
     (if value_truncated_by_message_end False needed r
      then (Inl (past_end_of_message_error needed (get_remaining_byte_count (nr_buf r))), r)
      else read_tds_packet r)"

lemma refill_for_inflow: "refill_for k r = (Inr u, r') \<Longrightarrow> inflow r' < inflow r"
  by (auto simp: refill_for_def split: if_splits dest: read_tds_packet_inflow)

lemma try_read_array_inflow: "on_buf (try_read_array k) r = (Inr None, r') \<Longrightarrow> inflow r' = inflow r"
  by (auto simp: try_read_array_def consume_bytes_def inflow_def split: if_splits option.splits prod.splits sum.splits
      elim!: on_buf_InrE)

text \<open>The loop of the readers that retry \<^verbatim>\<open>try_read_*\<close> after each refill.\<close>

function read_retry :: "nat \<Rightarrow> (network_reader, bytes) action" where
  "read_retry k r =
     (case on_buf (try_read_array k) r of
        (Inl e, r') \<Rightarrow> (Inl e, r')
      | (Inr (Some bs), r') \<Rightarrow> (Inr bs, r')
      | (Inr None, r') \<Rightarrow> rbind (refill_for k) (\<lambda>_. read_retry k) r')"
  by pat_completeness auto
termination
  by (relation "measure (\<lambda>(k, r). inflow r)")
     (auto dest!: refill_for_inflow try_read_array_inflow [OF sym])

declare read_retry.simps [simp del]

text \<open>The loop of the readers that refill until there is enough and then take a slice.\<close>

function ensure_data :: "nat \<Rightarrow> (network_reader, unit) action" where
  "ensure_data k r =
     (if do_we_have_enough_data k (nr_buf r) then (Inr (), r)
      else rbind (refill_for k) (\<lambda>_. ensure_data k) r)"
  by pat_completeness auto
termination
  by (relation "measure (\<lambda>(k, r). inflow r)") (auto dest!: refill_for_inflow)

declare ensure_data.simps [simp del]

definition read_sliced :: "nat \<Rightarrow> (network_reader, bytes) action" where
  "read_sliced k =
     rbind (ensure_data k) (\<lambda>_ r.
       case get_slice (nr_buf r) of
         None \<Rightarrow> (Inl Panic, r)
       | Some s \<Rightarrow> if length s < k then (Inl Panic, r)
                   else rbind (on_buf (consume_bytes k)) (\<lambda>_. rret (take k s)) r)"

definition read_byte :: "(network_reader, u8) action" where
  "read_byte = rbind (read_retry 1) (\<lambda>bs. rret (hd bs))"

definition read_int16_big_endian :: "(network_reader, u16) action" where
  "read_int16_big_endian = rbind (read_sliced 2) (\<lambda>bs. rret (from_be_u16 bs))"

definition read_int32_big_endian :: "(network_reader, u32) action" where
  "read_int32_big_endian = rbind (read_sliced 4) (\<lambda>bs. rret (from_be_u32 bs))"

definition read_uint16 :: "(network_reader, u16) action" where
  "read_uint16 = rbind (read_retry 2) (\<lambda>bs. rret (from_le_u16 bs))"

definition read_uint24 :: "(network_reader, u32) action" where
  "read_uint24 = rbind (read_retry 3) (\<lambda>bs. rret (le_u24 bs))"

definition read_uint32 :: "(network_reader, u32) action" where
  "read_uint32 = rbind (read_retry 4) (\<lambda>bs. rret (from_le_u32 bs))"

definition read_uint40 :: "(network_reader, u64) action" where
  "read_uint40 = rbind (read_retry 5) (\<lambda>bs. rret (le_u40 bs))"

text \<open>The signed and the floating reads decode the same bytes: an \<^verbatim>\<open>i16\<close> is its two's complement word, an \<^verbatim>\<open>f32\<close> its bits.\<close>

definition read_int16 :: "(network_reader, u16) action" where
  "read_int16 = rbind (read_retry 2) (\<lambda>bs. rret (from_le_u16 bs))"

definition read_int32 :: "(network_reader, u32) action" where
  "read_int32 = rbind (read_retry 4) (\<lambda>bs. rret (from_le_u32 bs))"

definition read_float32 :: "(network_reader, u32) action" where
  "read_float32 = rbind (read_retry 4) (\<lambda>bs. rret (from_le_u32 bs))"

definition read_float64 :: "(network_reader, u64) action" where
  "read_float64 = rbind (read_retry 8) (\<lambda>bs. rret (from_le_u64 bs))"

definition read_int64 :: "(network_reader, u64) action" where
  "read_int64 = rbind (read_retry 8) (\<lambda>bs. rret (from_le_u64 bs))"

definition read_uint64 :: "(network_reader, u64) action" where
  "read_uint64 = rbind (read_sliced 8) (\<lambda>bs. rret (from_le_u64 bs))"


section \<open>Bulk reads\<close>

text \<open>
  One round of the bulk loops: refill if there is less than the threshold, then say how much of
  the value the round can take. \<open>max_packet_size - 8\<close> underflows for sizes below a header.
\<close>

definition bulk_round :: "nat \<Rightarrow> nat \<Rightarrow> (network_reader, nat) action" where
  "bulk_round threshold left =
     rbind (\<lambda>r. if do_we_have_enough_data threshold (nr_buf r) then (Inr (), r) else read_tds_packet r)
       (\<lambda>_ r. if max_packet_size (nr_buf r) < 8 then (Inl Panic, r)
              else (Inr (min (get_remaining_byte_count (nr_buf r)) (min left (max_packet_size (nr_buf r) - 8))), r))"

text \<open>What a round that found nothing does: fail, or go round once more at a message boundary.\<close>

definition empty_round :: "bool \<Rightarrow> nat \<Rightarrow> nat \<Rightarrow> network_reader \<Rightarrow> tds_error option" where
  "empty_round consumed_any left empty_messages r =
     (if \<not> end_of_message (nr_buf r) then Some (no_progress_error left)
      else if consumed_any then Some (past_end_of_message_error left (get_remaining_byte_count (nr_buf r)))
      else if empty_messages + 1 > MAX_CONSECUTIVE_EMPTY_MESSAGES then Some (stalled_on_empty_messages_error left)
      else None)"

definition copy_out :: "nat \<Rightarrow> (network_reader, bytes) action" where
  "copy_out to_read r =
     (let b = nr_buf r in
      case slice_get (buffer_position b) (buffer_position b + to_read) (working_buffer b) of
        None \<Rightarrow> (Inl Panic, r)
      | Some bs \<Rightarrow> rbind (on_buf (consume_bytes to_read)) (\<lambda>_. rret bs) r)"

function read_bytes_loop :: "nat \<Rightarrow> bytes \<Rightarrow> nat \<Rightarrow> (network_reader, bytes) action" where
  "read_bytes_loop n acc empty_messages r =
     (let left = n - length acc in
      if left = 0 then (Inr acc, r)
      else if value_truncated_by_message_end (acc \<noteq> []) left r
      then (Inl (past_end_of_message_error left (get_remaining_byte_count (nr_buf r))), r)
      else rbind (bulk_round (min (max_packet_size (nr_buf r)) left) left)
             (\<lambda>to_read r'.
                if to_read = 0 then
                  (case empty_round (acc \<noteq> []) left empty_messages r' of
                     Some e \<Rightarrow> (Inl e, r')
                   | None \<Rightarrow> read_bytes_loop n acc (empty_messages + 1) r')
                else rbind (copy_out to_read) (\<lambda>bs. read_bytes_loop n (acc @ bs) empty_messages) r') r)"
  by pat_completeness auto
termination
proof (relation "measures [\<lambda>(n, acc, e, r). n - length acc, \<lambda>(n, acc, e, r). 1 - e]", goal_cases)
  case 1 show ?case by simp
next
  case (2 n acc e r left to_read r')
  then show ?case by (auto simp: empty_round_def split: if_splits)
next
  case (3 n acc e r left to_read r' bs r'')
  then have "length bs = to_read" "to_read > 0"
    by (auto simp: copy_out_def slice_get_def Let_def split: option.splits if_splits elim!: rbind_InrE)
  with 3 show ?case by auto
qed

declare read_bytes_loop.simps [simp del]

definition read_bytes :: "nat \<Rightarrow> (network_reader, bytes) action" where
  "read_bytes n = read_bytes_loop n [] 0"

text \<open>The variant that fills an uninitialised buffer runs the same loop.\<close>

definition read_bytes_uninit :: "nat \<Rightarrow> (network_reader, bytes) action" where
  "read_bytes_uninit n = read_bytes_loop n [] 0"

function skip_bytes_loop :: "nat \<Rightarrow> nat \<Rightarrow> nat \<Rightarrow> (network_reader, unit) action" where
  "skip_bytes_loop skip_count left empty_messages r =
     (if left = 0 then (Inr (), r)
      else if value_truncated_by_message_end (left < skip_count) left r
      then (Inl (past_end_of_message_error left (get_remaining_byte_count (nr_buf r))), r)
      else if max_packet_size (nr_buf r) < 8 then (Inl Panic, r)
      else rbind (bulk_round (min (max_packet_size (nr_buf r) - 8) left) left)
             (\<lambda>to_read r'.
                if to_read = 0 then
                  (case empty_round (left < skip_count) left empty_messages r' of
                     Some e \<Rightarrow> (Inl e, r')
                   | None \<Rightarrow> skip_bytes_loop skip_count left (empty_messages + 1) r')
                else rbind (on_buf (consume_bytes to_read))
                       (\<lambda>_. skip_bytes_loop skip_count (left - to_read) empty_messages) r') r)"
  by pat_completeness auto
termination
  by (relation "measures [\<lambda>(n, left, e, r). left, \<lambda>(n, left, e, r). 1 - e]")
     (auto simp: empty_round_def split: if_splits)

declare skip_bytes_loop.simps [simp del]

definition skip_bytes :: "nat \<Rightarrow> (network_reader, unit) action" where
  "skip_bytes skip_count = skip_bytes_loop skip_count skip_count 0"

definition read_u8_varbyte :: "(network_reader, bytes) action" where
  "read_u8_varbyte = rbind read_byte (\<lambda>len. read_bytes (unat len))"

definition read_u16_varbyte :: "(network_reader, bytes) action" where
  "read_u16_varbyte = rbind read_uint16 (\<lambda>len. read_bytes (unat len))"

text \<open>An odd number of bytes leaves a last chunk of one byte, and indexing it panics.\<close>

definition decode_unicode :: "bytes \<Rightarrow> rstring tds_result" where
  "decode_unicode bs =
     (if odd (length bs) then Inl Panic
      else case from_utf16 (le_units bs) of
             None \<Rightarrow> Inl (Io ''invalid utf-16: lone surrogate found'')
           | Some s \<Rightarrow> Inr s)"

definition read_unicode_with_byte_length :: "nat \<Rightarrow> (network_reader, rstring) action" where
  "read_unicode_with_byte_length byte_length =
     rbind (read_bytes byte_length) (\<lambda>bs r. (decode_unicode bs, r))"

definition read_unicode :: "nat \<Rightarrow> (network_reader, rstring) action" where
  "read_unicode string_length = read_unicode_with_byte_length (string_length * 2)"

definition read_varchar_u16_length :: "(network_reader, rstring option) action" where
  "read_varchar_u16_length =
     rbind read_uint16 (\<lambda>len.
       if len = 0xFFFF then rret None
       else rbind (read_unicode_with_byte_length (unat len * 2)) (\<lambda>s. rret (Some s)))"

definition read_varchar_u8_length :: "(network_reader, rstring) action" where
  "read_varchar_u8_length = rbind read_byte (\<lambda>len. read_unicode_with_byte_length (unat len * 2))"

definition reset_reader :: "network_reader \<Rightarrow> network_reader" where
  "reset_reader r = r\<lparr>nr_buf := reset_to_length 0 (change_packet_size (nr_packet_size r) (nr_buf r))\<rparr>"

end
