(* ===== verification/Reader_Messages.thy ===== *)
theory Reader_Messages
  imports Packet_Reader
begin

text \<open>
  The contract of the read half of \<^verbatim>\<open>NetworkTransport\<close>. Whatever way the network cuts the bytes
  of a message into reads, the typed readers return exactly its payload in order; they fail when
  a value runs past the end of the message, and never panic on a buffer that satisfies \<open>rb_inv\<close>.
\<close>

section \<open>Bytes still to be framed\<close>

fun stream_bytes :: "read_event list \<Rightarrow> bytes" where
  "stream_bytes [] = []"
| "stream_bytes (NotReady # es) = stream_bytes es"
| "stream_bytes (ReadError e # es) = []"
| "stream_bytes (Arrive bs # es) = (if bs = [] then [] else bs @ stream_bytes es)"

lemma stream_read_bytes:
  "capacity > 0 \<Longrightarrow> stream_bytes es \<noteq> [] \<Longrightarrow>
   \<exists>xs es'. stream_read capacity es = (Inr xs, es') \<and> xs \<noteq> [] \<and> length xs \<le> capacity \<and>
     stream_bytes es = xs @ stream_bytes es'"
  by (induction capacity es rule: stream_read.induct) (auto simp: take_bytes_def split: if_splits)

definition raw :: "network_reader \<Rightarrow> bytes" where
  "raw r = pending (nr_buf r) @ stream_bytes (nr_incoming r)"

definition is_eom :: "bytes \<Rightarrow> bool" where
  "is_eom p \<longleftrightarrow> p ! 1 AND status_flag_u8 Eom \<noteq> 0"

definition packet_ok :: "nat \<Rightarrow> bytes \<Rightarrow> bool" where
  "packet_ok psize p \<longleftrightarrow>
     8 \<le> length p \<and> length p \<le> psize \<and> unat (from_be_u16 (seg 2 4 p)) = length p \<and>
     (length p = 8 \<longrightarrow> is_eom p)"

lemma seg_of_seg: "b \<le> stop - start \<Longrightarrow> seg a b (seg start stop xs) = seg (start + a) (start + b) xs"
  unfolding seg_def by (simp add: drop_take) (metis add.commute drop_drop min.absorb1 diff_le_mono)

lemma seg_append_left: "b \<le> length xs \<Longrightarrow> seg a b (xs @ ys) = seg a b xs"
  by (cases "a \<le> length xs") (simp_all add: seg_def)

lemma nth_of_seg: "start + i < stop \<Longrightarrow> stop \<le> length xs \<Longrightarrow> seg start stop xs ! i = xs ! (start + i)"
  by (simp add: seg_def)

text \<open>
  \<open>n\<close> bytes of the packet \<open>p\<close> and what follows it are in the buffer at \<open>base\<close>, \<open>coming\<close> is to come.
\<close>

definition arriving :: "nat \<Rightarrow> nat \<Rightarrow> nat \<Rightarrow> bytes \<Rightarrow> bytes \<Rightarrow> bytes \<Rightarrow> bytes \<Rightarrow> bool" where
  "arriving base n psize wb p rest coming \<longleftrightarrow>
     base + psize \<le> length wb \<and> base + n \<le> length wb \<and> packet_ok psize p \<and>
     seg base (base + n) wb @ coming = p @ rest"

lemma header_arrived:
  assumes arr: "arriving base n psize wb p rest coming" and n: "8 \<le> n"
  shows "seg (base + 2) (base + 4) wb = seg 2 4 p" and "wb ! (base + 1) = p ! 1"
proof -
  let ?s = "seg base (base + n) wb"
  have len: "length ?s = n" and split: "?s @ coming = p @ rest" and p: "8 \<le> length p"
    using arr by (auto simp: arriving_def packet_ok_def)
  have "seg (base + 2) (base + 4) wb = seg 2 4 ?s" using n by (simp add: seg_of_seg)
  also have "\<dots> = seg 2 4 (p @ rest)" unfolding split [symmetric] using n len by (simp add: seg_append_left)
  also have "\<dots> = seg 2 4 p" using p by (simp add: seg_append_left)
  finally show "seg (base + 2) (base + 4) wb = seg 2 4 p" .
  have "wb ! (base + 1) = ?s ! 1" using arr n by (simp add: nth_of_seg arriving_def)
  also have "\<dots> = (p @ rest) ! 1" unfolding split [symmetric] using n len by (simp add: nth_append)
  also have "\<dots> = p ! 1" using p by (simp add: nth_append)
  finally show "wb ! (base + 1) = p ! 1" .
qed

lemma packet_arrived:
  assumes arr: "arriving base n psize wb p rest coming" and n: "length p \<le> n"
  shows "seg base (base + length p) wb = p" and "seg (base + length p) (base + n) wb @ coming = rest"
proof -
  let ?s = "seg base (base + n) wb"
  have len: "length ?s = n" and split: "?s @ coming = p @ rest" using arr by (auto simp: arriving_def)
  from arg_cong [OF split, of "take (length p)"] arg_cong [OF split, of "drop (length p)"] n len
  have "take (length p) ?s = p" "drop (length p) ?s @ coming = rest" by simp_all
  with n show "seg base (base + length p) wb = p" "seg (base + length p) (base + n) wb @ coming = rest"
    by (simp_all add: take_seg drop_seg)
qed

lemma needs_coming:
  assumes arr: "arriving base n psize wb p rest coming" and "n < length p"
  shows "coming \<noteq> []" and "base + n < length wb"
proof -
  have "length (seg base (base + n) wb @ coming) = length (p @ rest)" using arr by (simp add: arriving_def)
  then have "n + length coming = length p + length rest" using arr by (simp add: arriving_def)
  with assms show "coming \<noteq> []" "base + n < length wb" by (auto simp: arriving_def packet_ok_def)
qed

lemma arriving_more:
  assumes arr: "arriving base n psize wb p rest (xs @ coming)" and "base + n + length xs \<le> length wb"
  shows "arriving base (n + length xs) psize (overwrite (base + n) xs wb) p rest coming"
proof -
  let ?wb = "overwrite (base + n) xs wb"
  have "seg base (base + (n + length xs)) ?wb = seg base (base + n) ?wb @ seg (base + n) (base + n + length xs) ?wb"
    by (subst seg_append_seg) (simp_all add: add.assoc)
  also have "\<dots> = seg base (base + n) wb @ xs"
    using arr by (simp add: slice_simps arriving_def)
  finally show ?thesis using assms by (simp add: arriving_def)
qed

lemma complete_waits:
  assumes arr: "arriving base n (max_packet_size b) (working_buffer b) p rest coming" and "n < length p"
  shows "complete_tds_packet_if_available base n b = (Inr None, b)"
proof (cases "n < 8")
  case False
  then have "header_length base b = Some (length p)"
    using header_arrived(1) [OF arr] arr by (simp add: header_length_def slice_get_def arriving_def packet_ok_def)
  with False assms show ?thesis
    by (simp add: complete_tds_packet_if_available_def arriving_def packet_ok_def)
qed (simp add: complete_tds_packet_if_available_def)

lemma complete_frames:
  assumes arr: "arriving base n (max_packet_size b) (working_buffer b) p rest coming" and n: "length p \<le> n"
  shows "complete_tds_packet_if_available base n b =
    (Inr (Some (length p)), b\<lparr>end_of_message := is_eom p, pending_bytes := n - length p,
       pending_bytes_offset := (if n - length p > 0 then base + length p else 0)\<rparr>)"
proof -
  have n8: "8 \<le> n" using arr n by (auto simp: arriving_def packet_ok_def)
  then have "header_length base b = Some (length p)"
    using header_arrived(1) [OF arr] arr by (simp add: header_length_def slice_get_def arriving_def packet_ok_def)
  moreover have "(working_buffer b ! (base + 1) AND status_flag_u8 Eom \<noteq> 0) = is_eom p"
    using header_arrived(2) [OF arr n8] by (simp add: is_eom_def)
  ultimately show ?thesis using assms n8
    by (auto simp: complete_tds_packet_if_available_def Let_def arriving_def packet_ok_def)
qed

text \<open>
  Framing one packet: the loop returns its length, leaves it at \<open>base\<close> and what came with it
  pending, however the stream delivers the bytes.
\<close>

definition framed :: "nat \<Rightarrow> bytes \<Rightarrow> bytes \<Rightarrow> network_reader \<Rightarrow> network_reader \<Rightarrow> bool" where
  "framed base p rest r r' \<longleftrightarrow>
     (\<exists>wb k off es. r' = r\<lparr>nr_incoming := es, nr_buf := (nr_buf r)\<lparr>working_buffer := wb, pending_bytes := k,
          pending_bytes_offset := off, end_of_message := is_eom p\<rparr>\<rparr> \<and>
        length wb = length (working_buffer (nr_buf r)) \<and> take base wb = take base (working_buffer (nr_buf r)) \<and>
        seg base (base + length p) wb = p \<and> seg off (off + k) wb @ stream_bytes es = rest \<and>
        (k > 0 \<longrightarrow> off = base + length p \<and> off + k \<le> length wb))"

lemma framed_trans:
  assumes "framed base p rest (received at xs es r) r'" and "base \<le> at" and "at + length xs \<le> length (working_buffer (nr_buf r))"
  shows "framed base p rest r r'"
  using assms unfolding framed_def received_def
  by (auto simp: overwrite_def min_absorb1)

lemma packet_loop_frames:
  assumes "arriving base n (max_packet_size (nr_buf r)) (working_buffer (nr_buf r)) p rest (stream_bytes (nr_incoming r))"
    and "nr_stream_open r"
  shows "\<exists>r'. packet_loop base n r = (Inr (length p), r') \<and> framed base p rest r r'"
  using assms
proof (induction base n r rule: packet_loop.induct)
  case (1 base n r)
  let ?wb = "working_buffer (nr_buf r)"
  note arr = "1.prems"(1)
  show ?case
  proof (cases "length p \<le> n")
    case True
    let ?off = "if n - length p > 0 then base + length p else 0"
    let ?r' = "r\<lparr>nr_buf := (nr_buf r)\<lparr>end_of_message := is_eom p, pending_bytes := n - length p,
       pending_bytes_offset := ?off\<rparr>\<rparr>"
    have "packet_loop base n r = (Inr (length p), ?r')"
      using complete_frames [OF arr True] by (subst packet_loop.simps) (simp add: on_buf_def)
    moreover have "framed base p rest r ?r'"
      unfolding framed_def using packet_arrived [OF arr True] True arr
      by (intro exI [of _ ?wb] exI [of _ "n - length p"] exI [of _ ?off] exI [of _ "nr_incoming r"])
         (auto simp: arriving_def)
    ultimately show ?thesis by blast
  next
    case False
    then have n: "n < length p" by simp
    have c: "on_buf (complete_tds_packet_if_available base n) r = (Inr None, r)"
      using complete_waits [OF arr n] by (simp add: on_buf_def)
    from stream_read_bytes [of "length ?wb - (base + n)"] needs_coming [OF arr n] obtain xs es where
      rd: "stream_read (length ?wb - (base + n)) (nr_incoming r) = (Inr xs, es)" "xs \<noteq> []"
        "length xs \<le> length ?wb - (base + n)" "stream_bytes (nr_incoming r) = xs @ stream_bytes es"
      by fastforce
    have fits: "base + n + length xs \<le> length ?wb" "\<not> length ?wb < base + n"
      using rd(3) needs_coming(2) [OF arr n] by simp_all
    let ?r = "received (base + n) xs es r"
    have "arriving base (n + length xs) (max_packet_size (nr_buf ?r)) (working_buffer (nr_buf ?r)) p rest (stream_bytes (nr_incoming ?r))"
      using arriving_more [OF arr [unfolded rd(4)] fits(1)] by (simp add: received_def)
    from "1.IH" [OF c [symmetric] refl refl _ fits(2) rd(1) [symmetric] refl rd(2) this] "1.prems"(2)
    obtain r' where r': "packet_loop base (n + length xs) ?r = (Inr (length p), r')" "framed base p rest ?r r'"
      by (auto simp: received_def)
    have "packet_loop base n r = packet_loop base (n + length xs) ?r"
      using c rd "1.prems"(2) fits by (subst packet_loop.simps) simp
    with r' framed_trans [OF r'(2)] fits(1) show ?thesis by simp
  qed
qed

section \<open>Reading the next packet of a message\<close>

definition same_stream :: "network_reader \<Rightarrow> network_reader \<Rightarrow> bool" where
  "same_stream r r' \<longleftrightarrow> nr_stream_open r' = nr_stream_open r \<and> nr_packet_size r' = nr_packet_size r \<and>
     nr_known_dead r' = nr_known_dead r \<and> max_packet_size (nr_buf r') = max_packet_size (nr_buf r)"

lemma same_stream_trans: "same_stream r r1 \<Longrightarrow> same_stream r1 r2 \<Longrightarrow> same_stream r r2"
  by (simp add: same_stream_def)

text \<open>A buffer whose unread bytes are at the front, ready for a packet behind them.\<close>

definition fronted :: "tds_read_buffer \<Rightarrow> bool" where
  "fronted b \<longleftrightarrow> rb_inv b \<and> buffer_position b = 0"

lemma fronted_unread: "fronted b \<Longrightarrow> buffer_length b = length (unread b) \<and> take (buffer_length b) (working_buffer b) = unread b"
  using length_unread [of b] by (simp add: fronted_def get_remaining_byte_count_def unread_def)

lemma move_pending_ok:
  assumes f: "fronted b"
  shows "\<exists>wb. move_pending_packet_bytes (buffer_length b) b =
      (Inr (pending_bytes b), b\<lparr>working_buffer := wb, pending_bytes := 0,
         pending_bytes_offset := (if pending_bytes b > 0 then 0 else pending_bytes_offset b)\<rparr>) \<and>
    length wb = length (working_buffer b) \<and> take (buffer_length b) wb = unread b \<and>
    seg (buffer_length b) (buffer_length b + pending_bytes b) wb = pending b \<and>
    buffer_length b + pending_bytes b \<le> length wb"
proof (cases "pending_bytes b > 0")
  case True
  let ?wb = "overwrite (buffer_length b) (pending b) (working_buffer b)"
  have inv: "rb_inv b" and le: "buffer_length b \<le> pending_bytes_offset b"
    "pending_bytes_offset b + pending_bytes b \<le> length (working_buffer b)"
    using f True by (auto simp: fronted_def rb_inv_def)
  have lp: "length (pending b) = pending_bytes b" using length_pending [OF inv] .
  have "copy_within (pending_bytes_offset b) (pending_bytes_offset b + pending_bytes b) (buffer_length b) (working_buffer b) = Some ?wb"
    using le by (simp add: copy_within_def pending_def)
  moreover have "take (buffer_length b) ?wb = unread b"
    using seg_overwrite_before [of "buffer_length b" "buffer_length b" "working_buffer b" 0]
      fronted_unread [OF f, THEN conjunct2] le by simp
  moreover have "seg (buffer_length b) (buffer_length b + pending_bytes b) ?wb = pending b"
    using le lp by (intro seg_overwrite_here) auto
  ultimately show ?thesis using True le lp
    by (intro exI [of _ ?wb]) (simp add: move_pending_packet_bytes_def Let_def)
next
  case False
  with f fronted_unread [OF f] show ?thesis
    by (intro exI [of _ "working_buffer b"]) (auto simp: move_pending_packet_bytes_def fronted_def rb_inv_def pending_def)
qed

lemma get_new_packet_frames:
  assumes f: "fronted (nr_buf r)" and "open": "nr_stream_open r" and raw: "raw r = p @ rest"
    and ok: "packet_ok (max_packet_size (nr_buf r)) p" and small: "length (unread (nr_buf r)) \<le> max_packet_size (nr_buf r)"
  shows "\<exists>r1 r'. get_new_tds_packet r = (Inr (length p), r') \<and> framed (buffer_length (nr_buf r)) p rest r1 r' \<and>
    (\<exists>wb off. r1 = r\<lparr>nr_buf := (nr_buf r)\<lparr>working_buffer := wb, pending_bytes := 0, pending_bytes_offset := off\<rparr>\<rparr> \<and>
       length wb = length (working_buffer (nr_buf r)) \<and> take (buffer_length (nr_buf r)) wb = unread (nr_buf r))"
proof -
  let ?b = "nr_buf r"
  let ?base = "buffer_length ?b"
  from move_pending_ok [OF f] obtain wb off where
    mv: "move_pending_packet_bytes ?base ?b = (Inr (pending_bytes ?b), ?b\<lparr>working_buffer := wb, pending_bytes := 0, pending_bytes_offset := off\<rparr>)"
    and wb: "length wb = length (working_buffer ?b)" "take ?base wb = unread ?b"
      "seg ?base (?base + pending_bytes ?b) wb = pending ?b" "?base + pending_bytes ?b \<le> length wb" by metis
  let ?r1 = "r\<lparr>nr_buf := ?b\<lparr>working_buffer := wb, pending_bytes := 0, pending_bytes_offset := off\<rparr>\<rparr>"
  have "arriving ?base (pending_bytes ?b) (max_packet_size (nr_buf ?r1)) (working_buffer (nr_buf ?r1)) p rest (stream_bytes (nr_incoming ?r1))"
    using wb ok small raw f fronted_unread [OF f] by (simp add: arriving_def raw_def fronted_def rb_inv_def)
  from packet_loop_frames [OF this] "open" obtain r' where
    "packet_loop ?base (pending_bytes ?b) ?r1 = (Inr (length p), r')" "framed ?base p rest ?r1 r'" by auto
  moreover have "on_buf (move_pending_packet_bytes ?base) r = (Inr (pending_bytes ?b), ?r1)"
    by (simp add: on_buf_def mv)
  ultimately have "get_new_tds_packet r = (Inr (length p), r') \<and> framed ?base p rest ?r1 r'"
    by (simp add: get_new_tds_packet_def Let_def rbind_def)
  with wb show ?thesis by blast
qed

lemma remove_header_frames:
  assumes f: "fronted b" and b': "b' = b\<lparr>working_buffer := wb, pending_bytes := k, pending_bytes_offset := off, end_of_message := eom\<rparr>"
    and wb: "length wb = length (working_buffer b)" "take (buffer_length b) wb = unread b"
      "seg (buffer_length b) (buffer_length b + length p) wb = p" "buffer_length b + length p \<le> length wb" "8 \<le> length p"
    and pend: "k > 0 \<longrightarrow> off = buffer_length b + length p \<and> off + k \<le> length wb"
  shows "\<exists>b''. remove_header_from_packet (length p) b' = (Inr (), b'') \<and> rb_inv b'' \<and>
      unread b'' = unread b @ drop 8 p \<and> pending b'' = seg off (off + k) wb \<and>
      end_of_message b'' = eom \<and> max_packet_size b'' = max_packet_size b"
proof -
  let ?base = "buffer_length b"
  let ?wb = "overwrite ?base (drop 8 p) wb"
  have sg: "seg (?base + 8) (?base + length p) wb = drop 8 p"
    using wb(3) by (metis drop_seg)
  have cp: "copy_within (?base + 8) (?base + length p) ?base wb = Some ?wb"
    using wb by (simp add: copy_within_def sg)
  let ?b = "b'\<lparr>working_buffer := ?wb, buffer_length := ?base + (length p - 8)\<rparr>"
  have rm: "remove_header_from_packet (length p) b' = (Inr (), ?b)"
    using cp by (simp add: remove_header_from_packet_def b')
  have len: "length ?wb = length wb" using wb by simp
  have "take (?base + (length p - 8)) ?wb = take ?base wb @ drop 8 p"
    using wb fronted_unread [OF f, THEN conjunct1, symmetric] by (simp add: overwrite_def)
  then have un: "unread ?b = unread b @ drop 8 p"
    using f wb by (simp add: unread_def b' fronted_def)
  have "pending ?b = seg off (off + k) wb"
    using pend wb by (cases "k > 0") (simp_all add: pending_def b' seg_overwrite_after)
  with rm un len f pend wb show ?thesis
    by (intro exI [of _ ?b]) (auto simp: b' fronted_def rb_inv_def)
qed

lemma frame_after_prepare:
  assumes f: "fronted (nr_buf r)" and "open": "nr_stream_open r" and raw: "raw r = p @ rest"
    and ok: "packet_ok (max_packet_size (nr_buf r)) p" and small: "length (unread (nr_buf r)) \<le> max_packet_size (nr_buf r)"
  shows "\<exists>r'. rbind get_new_tds_packet (\<lambda>n. on_buf (remove_header_from_packet n)) r = (Inr (), r') \<and>
    rb_inv (nr_buf r') \<and> unread (nr_buf r') = unread (nr_buf r) @ drop 8 p \<and> raw r' = rest \<and>
    end_of_message (nr_buf r') = is_eom p \<and> same_stream r r'"
proof -
  let ?b = "nr_buf r"
  let ?base = "buffer_length ?b"
  from get_new_packet_frames [OF assms] obtain r1 r2 wb0 off0 where
    get: "get_new_tds_packet r = (Inr (length p), r2)" "framed ?base p rest r1 r2"
    and r1: "r1 = r\<lparr>nr_buf := ?b\<lparr>working_buffer := wb0, pending_bytes := 0, pending_bytes_offset := off0\<rparr>\<rparr>"
      "length wb0 = length (working_buffer ?b)" "take ?base wb0 = unread ?b" by blast
  from get(2) r1 obtain wb k off es where
    r2: "r2 = r\<lparr>nr_incoming := es, nr_buf := ?b\<lparr>working_buffer := wb, pending_bytes := k,
          pending_bytes_offset := off, end_of_message := is_eom p\<rparr>\<rparr>"
    and wb: "length wb = length (working_buffer ?b)" "take ?base wb = unread ?b"
      "seg ?base (?base + length p) wb = p" "seg off (off + k) wb @ stream_bytes es = rest"
    and pend: "k > 0 \<longrightarrow> off = ?base + length p \<and> off + k \<le> length wb"
    unfolding framed_def by auto
  have le: "?base + length p \<le> length wb" "8 \<le> length p"
    using ok small f wb(1) fronted_unread [OF f] by (auto simp: packet_ok_def fronted_def rb_inv_def)
  from remove_header_frames [OF f refl wb(1-3) le pend, of "is_eom p"] obtain b where
    b: "remove_header_from_packet (length p) (nr_buf r2) = (Inr (), b)" "rb_inv b"
      "unread b = unread ?b @ drop 8 p" "pending b = seg off (off + k) wb"
      "end_of_message b = is_eom p" "max_packet_size b = max_packet_size ?b" by (auto simp: r2)
  let ?r = "r2\<lparr>nr_buf := b\<rparr>"
  have "rbind get_new_tds_packet (\<lambda>n. on_buf (remove_header_from_packet n)) r = (Inr (), ?r)"
    using get(1) b(1) by (simp add: rbind_def on_buf_def)
  with b wb(4) show ?thesis by (auto simp: raw_def r2 same_stream_def)
qed

lemma read_tds_packet_frames:
  assumes inv: "rb_inv (nr_buf r)" and "open": "nr_stream_open r" and raw: "raw r = p @ rest"
    and ok: "packet_ok (max_packet_size (nr_buf r)) p" and small: "length (unread (nr_buf r)) \<le> max_packet_size (nr_buf r)"
  shows "\<exists>r'. read_tds_packet r = (Inr (), r') \<and> rb_inv (nr_buf r') \<and>
    unread (nr_buf r') = unread (nr_buf r) @ drop 8 p \<and> raw r' = rest \<and>
    end_of_message (nr_buf r') = is_eom p \<and> same_stream r r'"
proof (cases "get_remaining_byte_count (nr_buf r) > 0")
  case True
  from shift_ok [OF inv] obtain b where b: "shift_data_to_front (nr_buf r) = (Inr (), b)" "rb_inv b" "unread b = unread (nr_buf r)"
    "pending b = pending (nr_buf r)" "buffer_position b = 0" "max_packet_size b = max_packet_size (nr_buf r)" by blast
  have "on_buf shift_data_to_front r = (Inr (), r\<lparr>nr_buf := b\<rparr>)" using b by (simp add: on_buf_def)
  with True frame_after_prepare [of "r\<lparr>nr_buf := b\<rparr>" p rest] assms b show ?thesis
    by (auto simp: read_tds_packet_def rbind_def fronted_def raw_def same_stream_def)
next
  case False
  let ?b = "reset_to_length 0 (nr_buf r)"
  have "unread (nr_buf r) = []" using False length_unread [OF inv] by simp
  with False frame_after_prepare [of "r\<lparr>nr_buf := ?b\<rparr>" p rest] assms rb_inv_reset [OF inv] show ?thesis
    by (auto simp: read_tds_packet_def rbind_def fronted_def raw_def same_stream_def update_buf_def reset_to_length_def)
qed

section \<open>The content of a message\<close>

definition msg_packets :: "nat \<Rightarrow> bytes list \<Rightarrow> bool" where
  "msg_packets psize pkts \<longleftrightarrow>
     pkts \<noteq> [] \<and> (\<forall>p \<in> set pkts. packet_ok psize p) \<and> is_eom (last pkts) \<and> (\<forall>p \<in> set (butlast pkts). \<not> is_eom p)"

text \<open>
  \<open>delivers started r content tail\<close>: the reader will deliver \<open>content\<close>, the rest of a message,
  and \<open>tail\<close> follows it on the stream. Unless reading of the message has \<open>started\<close>, the
  end-of-message flag may still be that of the message before it.
\<close>

definition queued :: "bool \<Rightarrow> network_reader \<Rightarrow> bytes list \<Rightarrow> bytes \<Rightarrow> bytes \<Rightarrow> bool" where
  "queued started r pkts content tail \<longleftrightarrow>
     rb_inv (nr_buf r) \<and> nr_stream_open r \<and> 8 < max_packet_size (nr_buf r) \<and>
     raw r = concat pkts @ tail \<and> content = unread (nr_buf r) @ concat (map (drop 8) pkts) \<and>
     (if pkts = [] then end_of_message (nr_buf r)
      else msg_packets (max_packet_size (nr_buf r)) pkts \<and>
           (end_of_message (nr_buf r) \<longrightarrow> \<not> started \<and> unread (nr_buf r) = []))"

definition delivers :: "bool \<Rightarrow> network_reader \<Rightarrow> bytes \<Rightarrow> bytes \<Rightarrow> bool" where
  "delivers started r content tail \<longleftrightarrow> (\<exists>pkts. queued started r pkts content tail)"

lemma delivers_weaken: "delivers started r content tail \<Longrightarrow> delivers False r content tail"
  unfolding delivers_def by (erule ex_forward) (simp add: queued_def)

lemma msg_packets_Cons:
  assumes "msg_packets psize (p # ps)"
  shows "packet_ok psize p" and "is_eom p \<longleftrightarrow> ps = []" and "ps \<noteq> [] \<Longrightarrow> msg_packets psize ps"
    and "drop 8 p = [] \<Longrightarrow> ps = []"
  using assms by (auto simp: msg_packets_def packet_ok_def split: if_splits)

text \<open>A refill while bytes of the content are outstanding adds at least one of them.\<close>

lemma refill_delivers:
  assumes d: "delivers started r content tail" and short: "length (unread (nr_buf r)) < length content"
    and small: "length (unread (nr_buf r)) \<le> max_packet_size (nr_buf r)"
  shows "\<exists>r'. read_tds_packet r = (Inr (), r') \<and> delivers True r' content tail \<and> same_stream r r' \<and>
     length (unread (nr_buf r)) < length (unread (nr_buf r'))"
proof -
  from d obtain pkts where pk: "raw r = concat pkts @ tail" "content = unread (nr_buf r) @ concat (map (drop 8) pkts)"
    "pkts \<noteq> [] \<Longrightarrow> msg_packets (max_packet_size (nr_buf r)) pkts"
    and st: "rb_inv (nr_buf r)" "nr_stream_open r" "8 < max_packet_size (nr_buf r)"
    unfolding delivers_def by (elim exE) (simp add: queued_def split: if_splits)
  from pk(2) short obtain p ps where ps: "pkts = p # ps" by (cases pkts) auto
  note m = msg_packets_Cons [OF pk(3) [unfolded ps, simplified]]
  from read_tds_packet_frames [OF st(1,2) _ m(1) small, of "concat ps @ tail"] pk(1) obtain r' where
    r': "read_tds_packet r = (Inr (), r')" "rb_inv (nr_buf r')" "unread (nr_buf r') = unread (nr_buf r) @ drop 8 p"
      "raw r' = concat ps @ tail" "end_of_message (nr_buf r') = is_eom p" "same_stream r r'"
    by (auto simp: ps)
  have "delivers True r' content tail"
    using r' st pk(2) m(2,3) unfolding delivers_def
    by (intro exI [of _ ps]) (simp add: queued_def ps same_stream_def)
  moreover have "drop 8 p \<noteq> []" using m(4) short pk(2) by (auto simp: ps)
  ultimately show ?thesis using r' by auto
qed

text \<open>Once all of the message is framed the end-of-message flag is set.\<close>

lemma refill_empty_tail:
  assumes d: "delivers started r content tail" and all: "length (unread (nr_buf r)) = length content"
    and small: "length (unread (nr_buf r)) \<le> max_packet_size (nr_buf r)" and more: "\<not> end_of_message (nr_buf r)"
  shows "\<exists>r'. read_tds_packet r = (Inr (), r') \<and> delivers True r' content tail \<and> same_stream r r' \<and>
     unread (nr_buf r') = unread (nr_buf r) \<and> end_of_message (nr_buf r')"
proof -
  from d more obtain pkts where pk: "raw r = concat pkts @ tail" "content = unread (nr_buf r) @ concat (map (drop 8) pkts)"
    "pkts \<noteq> []" "msg_packets (max_packet_size (nr_buf r)) pkts"
    and st: "rb_inv (nr_buf r)" "nr_stream_open r" "8 < max_packet_size (nr_buf r)"
    unfolding delivers_def by (elim exE) (simp add: queued_def split: if_splits)
  from pk(3) obtain p ps where ps: "pkts = p # ps" by (cases pkts) auto
  note m = msg_packets_Cons [OF pk(4) [unfolded ps]]
  have p8: "drop 8 p = []" using pk(2) all by (simp add: ps)
  then have nil: "ps = []" by (rule m(4))
  from read_tds_packet_frames [OF st(1,2) _ m(1) small, of tail] pk(1) obtain r' where
    r': "read_tds_packet r = (Inr (), r')" "rb_inv (nr_buf r')" "unread (nr_buf r') = unread (nr_buf r) @ drop 8 p"
      "raw r' = tail" "end_of_message (nr_buf r') = is_eom p" "same_stream r r'"
    by (auto simp: ps nil)
  moreover have "delivers True r' content tail"
    using r' st pk(2) m(2) nil unfolding delivers_def
    by (intro exI [of _ "[]"]) (simp add: queued_def ps same_stream_def)
  ultimately show ?thesis using p8 m(2) nil by auto
qed

lemma consume_delivers:
  assumes d: "delivers started r content tail" and n: "n \<le> length (unread (nr_buf r))" "0 < n"
    and b: "rb_inv b" "unread b = drop n (unread (nr_buf r))" "pending b = pending (nr_buf r)"
      "end_of_message b = end_of_message (nr_buf r)" "max_packet_size b = max_packet_size (nr_buf r)"
  shows "delivers True (r\<lparr>nr_buf := b\<rparr>) (drop n content) tail" and "same_stream r (r\<lparr>nr_buf := b\<rparr>)"
proof -
  have "unread (nr_buf r) \<noteq> []" using n by auto
  with n b show "delivers True (r\<lparr>nr_buf := b\<rparr>) (drop n content) tail"
    using d unfolding delivers_def by (elim ex_forward) (simp add: queued_def raw_def split: if_splits)
  show "same_stream r (r\<lparr>nr_buf := b\<rparr>)" using b by (simp add: same_stream_def)
qed

lemma unread_prefix: "delivers started r content tail \<Longrightarrow> k \<le> length (unread (nr_buf r)) \<Longrightarrow>
   take k (unread (nr_buf r)) = take k content"
  unfolding delivers_def queued_def by auto

section \<open>Scalar readers\<close>

lemma delivers_D:
  assumes "delivers started r content tail"
  shows "rb_inv (nr_buf r)" and "length (unread (nr_buf r)) \<le> length content"
    and "get_remaining_byte_count (nr_buf r) = length (unread (nr_buf r))"
    and "8 < max_packet_size (nr_buf r)"
    and "end_of_message (nr_buf r) \<Longrightarrow> started \<or> unread (nr_buf r) \<noteq> [] \<Longrightarrow> content = unread (nr_buf r)"
  using assms length_unread [of "nr_buf r"]
  unfolding delivers_def by (auto simp: queued_def split: if_splits)

lemma refill_for_delivers:
  assumes d: "delivers started r content tail" and k: "length (unread (nr_buf r)) < k" "k \<le> length content" "k \<le> 8"
  shows "\<exists>r'. refill_for k r = (Inr (), r') \<and> delivers True r' content tail \<and> same_stream r r' \<and>
     length (unread (nr_buf r)) < length (unread (nr_buf r'))"
proof -
  note D = delivers_D [OF d]
  have "\<not> value_truncated_by_message_end False k r"
    using D(5) k by (auto simp: value_truncated_by_message_end_def message_cannot_satisfy_def D(3))
  with refill_delivers [OF d] k D(4) show ?thesis by (simp add: refill_for_def)
qed

lemma read_retry_delivers:
  assumes "delivers started r content tail" and "k \<le> length content" and "0 < k" and "k \<le> 8"
  shows "\<exists>r'. read_retry k r = (Inr (take k content), r') \<and> delivers True r' (drop k content) tail \<and> same_stream r r'"
  using assms
proof (induction "length content - length (unread (nr_buf r))" arbitrary: started r rule: less_induct)
  case less
  note d = less.prems(1)
  show ?case
  proof (cases "k \<le> length (unread (nr_buf r))")
    case True
    from try_read_array_Some [OF delivers_D(1) [OF d] True] obtain b where
      b: "try_read_array k (nr_buf r) = (Inr (Some (take k (unread (nr_buf r)))), b)" "rb_inv b"
        "unread b = drop k (unread (nr_buf r))" "pending b = pending (nr_buf r)"
        "end_of_message b = end_of_message (nr_buf r)" "max_packet_size b = max_packet_size (nr_buf r)" by blast
    from b(1) consume_delivers [OF d True less.prems(3) b(2-6)] unread_prefix [OF d True] show ?thesis
      by (subst read_retry.simps) (simp add: on_buf_def)
  next
    case False
    then have "on_buf (try_read_array k) r = (Inr None, r)"
      using try_read_array_None [OF delivers_D(1) [OF d]] by (simp add: on_buf_def)
    then have step: "read_retry k r = rbind (refill_for k) (\<lambda>_. read_retry k) r"
      by (subst read_retry.simps) simp
    from refill_for_delivers [OF d _ less.prems(2,4)] False obtain r1 where
      r1: "refill_for k r = (Inr (), r1)" "delivers True r1 content tail" "same_stream r r1"
        "length (unread (nr_buf r)) < length (unread (nr_buf r1))" by auto
    from less.hyps [OF _ r1(2) less.prems(2-4)] r1(4) delivers_D(2) [OF r1(2)] less.prems(2) False
    obtain r' where "read_retry k r1 = (Inr (take k content), r')" "delivers True r' (drop k content) tail" "same_stream r1 r'"
      by (auto simp: diff_less_mono2)
    with r1 step same_stream_trans show ?thesis by (auto simp: rbind_def)
  qed
qed

lemma ensure_data_delivers:
  assumes "delivers started r content tail" and "k \<le> length content" and "0 < k" and "k \<le> 8"
  shows "\<exists>r' started'. ensure_data k r = (Inr (), r') \<and> delivers started' r' content tail \<and> same_stream r r' \<and>
     k \<le> length (unread (nr_buf r'))"
  using assms
proof (induction "length content - length (unread (nr_buf r))" arbitrary: started r rule: less_induct)
  case less
  note d = less.prems(1)
  show ?case
  proof (cases "k \<le> length (unread (nr_buf r))")
    case True
    with d show ?thesis
      by (subst ensure_data.simps) (auto simp: do_we_have_enough_data_def delivers_D(3) [OF d] same_stream_def)
  next
    case False
    then have step: "ensure_data k r = rbind (refill_for k) (\<lambda>_. ensure_data k) r"
      by (subst ensure_data.simps) (simp add: do_we_have_enough_data_def delivers_D(3) [OF d])
    from refill_for_delivers [OF d _ less.prems(2,4)] False obtain r1 where
      r1: "refill_for k r = (Inr (), r1)" "delivers True r1 content tail" "same_stream r r1"
        "length (unread (nr_buf r)) < length (unread (nr_buf r1))" by auto
    from less.hyps [OF _ r1(2) less.prems(2-4)] r1(4) delivers_D(2) [OF r1(2)]
    obtain r' started' where "ensure_data k r1 = (Inr (), r')" "delivers started' r' content tail" "same_stream r1 r'"
      "k \<le> length (unread (nr_buf r'))" by (auto simp: diff_less_mono2)
    with r1 step same_stream_trans show ?thesis by (fastforce simp: rbind_def)
  qed
qed

lemma read_sliced_delivers:
  assumes "delivers started r content tail" and "k \<le> length content" and "0 < k" and "k \<le> 8"
  shows "\<exists>r'. read_sliced k r = (Inr (take k content), r') \<and> delivers True r' (drop k content) tail \<and> same_stream r r'"
proof -
  from ensure_data_delivers [OF assms] obtain r1 started' where
    r1: "ensure_data k r = (Inr (), r1)" "delivers started' r1 content tail" "same_stream r r1"
      "k \<le> length (unread (nr_buf r1))" by blast
  let ?b = "nr_buf r1"
  note D = delivers_D [OF r1(2)]
  from consume_ok [OF D(1) r1(4)] obtain b where
    b: "consume_bytes k ?b = (Inr (), b)" "rb_inv b" "unread b = drop k (unread ?b)" "pending b = pending ?b"
      "end_of_message b = end_of_message ?b" "max_packet_size b = max_packet_size ?b" by blast
  have sl: "get_slice ?b = Some (drop (buffer_position ?b) (working_buffer ?b))"
    "take k (drop (buffer_position ?b) (working_buffer ?b)) = take k (unread ?b)"
    "k \<le> length (drop (buffer_position ?b) (working_buffer ?b))"
    using D(1,3) r1(4) by (auto simp: get_slice_def slice_get_def seg_def unread_def rb_inv_def get_remaining_byte_count_def min_def)
  have "read_sliced k r = (Inr (take k content), r1\<lparr>nr_buf := b\<rparr>)"
    using r1(1) sl b(1) unread_prefix [OF r1(2,4)] by (simp add: read_sliced_def rbind_def on_buf_def)
  with consume_delivers [OF r1(2,4) assms(3) b(2-6)] same_stream_trans [OF r1(3)] show ?thesis by blast
qed

section \<open>Bulk readers\<close>

lemma not_truncated:
  assumes "delivers started r content tail" and "left \<le> length content"
  shows "\<not> value_truncated_by_message_end started left r"
proof
  assume "value_truncated_by_message_end started left r"
  then have "started \<or> unread (nr_buf r) \<noteq> []" "end_of_message (nr_buf r)" "length (unread (nr_buf r)) < left"
    by (auto simp: value_truncated_by_message_end_def message_cannot_satisfy_def delivers_D(3) [OF assms(1)])
  with delivers_D(5) [OF assms(1)] assms(2) show False by simp
qed

lemma bulk_round_delivers:
  assumes d: "delivers started r content tail" and left: "0 < left" "left \<le> length content"
    and th: "0 < threshold" "threshold \<le> max_packet_size (nr_buf r)" "threshold \<le> left"
  shows "\<exists>t r' started'. bulk_round threshold left r = (Inr t, r') \<and> delivers started' r' content tail \<and>
     0 < t \<and> t \<le> left \<and> t \<le> length (unread (nr_buf r')) \<and> same_stream r r'"
proof -
  note D = delivers_D [OF d]
  have ex: "\<exists>r' started'. (if do_we_have_enough_data threshold (nr_buf r) then (Inr (), r) else read_tds_packet r) = (Inr (), r') \<and>
     delivers started' r' content tail \<and> same_stream r r' \<and> 0 < length (unread (nr_buf r'))"
  proof (cases "threshold \<le> length (unread (nr_buf r))")
    case True
    with d th(1) show ?thesis by (auto simp: do_we_have_enough_data_def D(3) same_stream_def)
  next
    case False
    with refill_delivers [OF d] left th show ?thesis by (fastforce simp: do_we_have_enough_data_def D(3))
  qed
  then obtain r' started' where
    r': "(if do_we_have_enough_data threshold (nr_buf r) then (Inr (), r) else read_tds_packet r) = (Inr (), r')"
      "delivers started' r' content tail" "same_stream r r'" "0 < length (unread (nr_buf r'))" by blast
  let ?t = "min (length (unread (nr_buf r'))) (min left (max_packet_size (nr_buf r') - 8))"
  have "bulk_round threshold left r = (Inr ?t, r')"
    using r'(1) delivers_D(3,4) [OF r'(2)] by (simp add: bulk_round_def rbind_def)
  with r' left(1) delivers_D(4) [OF r'(2)] show ?thesis
    by (intro exI [of _ ?t] exI [of _ r'] exI [of _ started']) auto
qed

lemma copy_out_delivers:
  assumes d: "delivers started r content tail" and t: "t \<le> length (unread (nr_buf r))" "0 < t"
  shows "\<exists>r'. copy_out t r = (Inr (take t content), r') \<and> delivers True r' (drop t content) tail \<and> same_stream r r'"
proof -
  let ?b = "nr_buf r"
  note D = delivers_D [OF d]
  from consume_ok [OF D(1) t(1)] obtain b where
    b: "consume_bytes t ?b = (Inr (), b)" "rb_inv b" "unread b = drop t (unread ?b)" "pending b = pending ?b"
      "end_of_message b = end_of_message ?b" "max_packet_size b = max_packet_size ?b" by blast
  have "buffer_position ?b + t \<le> length (working_buffer ?b)" "seg (buffer_position ?b) (buffer_position ?b + t) (working_buffer ?b) = take t (unread ?b)"
    using D(1,3) t by (auto simp: rb_inv_def get_remaining_byte_count_def unread_def take_seg)
  then have "copy_out t r = (Inr (take t content), r\<lparr>nr_buf := b\<rparr>)"
    using b(1) unread_prefix [OF d t(1)] by (simp add: copy_out_def slice_get_def rbind_def on_buf_def)
  with consume_delivers [OF d t b(2-6)] show ?thesis by blast
qed

lemma read_bytes_loop_delivers:
  assumes "delivers (acc \<noteq> []) r content tail" and "n - length acc \<le> length content"
  shows "\<exists>r' started'. read_bytes_loop n acc e r = (Inr (acc @ take (n - length acc) content), r') \<and>
     delivers started' r' (drop (n - length acc) content) tail \<and> same_stream r r'"
  using assms
proof (induction "n - length acc" arbitrary: acc r content rule: less_induct)
  case less
  note d = less.prems(1) and le = less.prems(2)
  let ?left = "n - length acc"
  show ?case
  proof (cases "?left = 0")
    case True
    with d show ?thesis by (subst read_bytes_loop.simps) (auto simp: same_stream_def)
  next
    case False
    let ?th = "min (max_packet_size (nr_buf r)) ?left"
    from bulk_round_delivers [OF d _ le, of ?th] False delivers_D(4) [OF d] obtain t r1 started1 where
      r1: "bulk_round ?th ?left r = (Inr t, r1)" "delivers started1 r1 content tail" "0 < t" "t \<le> ?left"
        "t \<le> length (unread (nr_buf r1))" "same_stream r r1" by auto
    from copy_out_delivers [OF r1(2,5,3)] obtain r2 where
      r2: "copy_out t r1 = (Inr (take t content), r2)" "delivers True r2 (drop t content) tail" "same_stream r1 r2" by blast
    let ?acc = "acc @ take t content"
    have t: "length (take t content) = t" "?acc \<noteq> []" using r1(3,4) le by auto
    then have left': "n - length ?acc = ?left - t" by simp
    have step: "read_bytes_loop n acc e r = read_bytes_loop n ?acc e r2"
      using False not_truncated [OF d le] r1(1,3) r2(1) by (subst read_bytes_loop.simps) (simp add: rbind_def Let_def)
    have "n - length ?acc < ?left" "delivers (?acc \<noteq> []) r2 (drop t content) tail" "n - length ?acc \<le> length (drop t content)"
      using left' r1(3,4) r2(2) t(2) le by simp_all
    from less.hyps [OF this] obtain r3 started3 where
      "read_bytes_loop n ?acc e r2 = (Inr (?acc @ take (?left - t) (drop t content)), r3)"
      and r3: "delivers started3 r3 (drop (?left - t) (drop t content)) tail" "same_stream r2 r3" unfolding left' by blast
    moreover have "take t content @ take (?left - t) (drop t content) = take ?left content"
      using r1(4) by (metis le_add_diff_inverse take_add)
    ultimately have "read_bytes_loop n acc e r = (Inr (acc @ take ?left content), r3)" using step by simp
    moreover have "delivers started3 r3 (drop ?left content) tail"
      using r3(1) unfolding drop_drop le_add_diff_inverse2 [OF r1(4)] .
    moreover have "same_stream r r3" using r1(6) r2(3) r3(2) by (simp add: same_stream_def)
    ultimately show ?thesis by blast
  qed
qed

lemma skip_bytes_loop_delivers:
  assumes "delivers (left < skip_count) r content tail" and "left \<le> length content" and "left \<le> skip_count"
  shows "\<exists>r' started'. skip_bytes_loop skip_count left e r = (Inr (), r') \<and>
     delivers started' r' (drop left content) tail \<and> same_stream r r'"
  using assms
proof (induction left arbitrary: r content rule: less_induct)
  case (less left)
  note d = less.prems(1) and le = less.prems(2)
  show ?case
  proof (cases "left = 0")
    case True
    with d show ?thesis by (subst skip_bytes_loop.simps) (auto simp: same_stream_def)
  next
    case False
    let ?th = "min (max_packet_size (nr_buf r) - 8) left"
    have "?th \<le> max_packet_size (nr_buf r)" by (simp add: min_le_iff_disj)
    with bulk_round_delivers [OF d _ le, of ?th] False delivers_D(4) [OF d] obtain t r1 started1 where
      r1: "bulk_round ?th left r = (Inr t, r1)" "delivers started1 r1 content tail" "0 < t" "t \<le> left"
        "t \<le> length (unread (nr_buf r1))" "same_stream r r1" by auto
    from consume_ok [OF delivers_D(1) [OF r1(2)] r1(5)] obtain b where
      b: "consume_bytes t (nr_buf r1) = (Inr (), b)" "rb_inv b" "unread b = drop t (unread (nr_buf r1))"
        "pending b = pending (nr_buf r1)" "end_of_message b = end_of_message (nr_buf r1)"
        "max_packet_size b = max_packet_size (nr_buf r1)" by blast
    let ?r2 = "r1\<lparr>nr_buf := b\<rparr>"
    note c = consume_delivers [OF r1(2,5,3) b(2-6)]
    have step: "skip_bytes_loop skip_count left e r = skip_bytes_loop skip_count (left - t) e ?r2"
      using False not_truncated [OF d le] r1(1,3) b(1) delivers_D(4) [OF d]
      by (subst skip_bytes_loop.simps) (simp add: rbind_def on_buf_def)
    have sc: "left - t < skip_count" using r1(3) less.prems(3) False by simp
    have "left - t < left" "delivers (left - t < skip_count) ?r2 (drop t content) tail"
      "left - t \<le> length (drop t content)" "left - t \<le> skip_count"
      using r1(3) less.prems(3) False c(1) le sc by simp_all
    from less.IH [OF this] obtain r3 started3 where
      "skip_bytes_loop skip_count (left - t) e ?r2 = (Inr (), r3)"
      and r3: "delivers started3 r3 (drop (left - t) (drop t content)) tail" "same_stream ?r2 r3" by blast
    moreover have "delivers started3 r3 (drop left content) tail"
      using r3(1) unfolding drop_drop le_add_diff_inverse2 [OF r1(4)] .
    moreover have "same_stream r r3" using r1(6) c(2) r3(2) by (simp add: same_stream_def)
    ultimately show ?thesis using step by auto
  qed
qed

lemma read_bytes_delivers:
  assumes "delivers started r content tail" and "n \<le> length content"
  shows "\<exists>r' started'. read_bytes n r = (Inr (take n content), r') \<and>
     delivers started' r' (drop n content) tail \<and> same_stream r r'"
  using read_bytes_loop_delivers [of "[]" r content tail n 0] assms delivers_weaken by (auto simp: read_bytes_def)

lemma skip_bytes_delivers:
  assumes "delivers started r content tail" and "n \<le> length content"
  shows "\<exists>r' started'. skip_bytes n r = (Inr (), r') \<and> delivers started' r' (drop n content) tail \<and> same_stream r r'"
  using skip_bytes_loop_delivers [of n n r content tail 0] assms delivers_weaken by (auto simp: skip_bytes_def)

end
