(* ===== verification/Reader_Safety.thy ===== *)
theory Reader_Safety
  imports Packet_Reader
begin

text \<open>
  What the read half of \<^verbatim>\<open>NetworkTransport\<close> guarantees for any bytes a peer may send and any way
  they arrive: no reader panics or loops, and the buffer invariant holds afterwards, whether the
  call succeeded or failed.
\<close>

definition reader_safe :: "network_reader \<Rightarrow> bool" where
  "reader_safe r \<longleftrightarrow> rb_inv (nr_buf r) \<and> 8 < max_packet_size (nr_buf r)"

definition out_safe :: "'a tds_result \<times> network_reader \<Rightarrow> bool" where
  "out_safe xr \<longleftrightarrow> fst xr \<noteq> Inl Panic \<and> fst xr \<noteq> Inl Diverge \<and> reader_safe (snd xr)"

lemma out_safe_Inr [simp]: "out_safe (Inr a, r) = reader_safe r"
  by (simp add: out_safe_def)

lemma out_safe_Inl [simp]: "out_safe (Inl e, r) = (e \<noteq> Panic \<and> e \<noteq> Diverge \<and> reader_safe r)"
  by (simp add: out_safe_def)

lemma out_safe_rbind [intro]:
  assumes "out_safe (m r)" and "\<And>a r'. m r = (Inr a, r') \<Longrightarrow> reader_safe r' \<Longrightarrow> out_safe (f a r')"
  shows "out_safe (rbind m f r)"
proof (cases "m r")
  case (Pair x r')
  with assms show ?thesis by (cases x) (auto simp: rbind_def)
qed


section \<open>Framing\<close>

text \<open>
  The loop keeps \<open>n\<close> bytes behind the unread ones, at \<open>base\<close>, inside the buffer, and nothing
  parked.
\<close>

definition collecting :: "nat \<Rightarrow> nat \<Rightarrow> network_reader \<Rightarrow> bool" where
  "collecting base n r \<longleftrightarrow>
     reader_safe r \<and> base = buffer_length (nr_buf r) \<and> base \<le> max_packet_size (nr_buf r) \<and>
     base + n \<le> length (working_buffer (nr_buf r)) \<and> pending_bytes (nr_buf r) = 0"

definition collected :: "nat \<Rightarrow> nat tds_result \<times> network_reader \<Rightarrow> bool" where
  "collected base xr \<longleftrightarrow> out_safe xr \<and> base = buffer_length (nr_buf (snd xr)) \<and>
     (\<forall>k. fst xr = Inr k \<longrightarrow> 8 \<le> k \<and> base + k \<le> length (working_buffer (nr_buf (snd xr))) \<and>
        (pending_bytes (nr_buf (snd xr)) > 0 \<longrightarrow> base + k \<le> pending_bytes_offset (nr_buf (snd xr))))"

lemma header_length_Some: "base + 4 \<le> length (working_buffer b) \<Longrightarrow> \<exists>k. header_length base b = Some k"
  by (auto simp: header_length_def slice_get_def)

lemma complete_collecting:
  assumes c: "collecting base n r"
  shows "case on_buf (complete_tds_packet_if_available base n) r of
      (Inl e, r') \<Rightarrow> e \<noteq> Panic \<and> e \<noteq> Diverge \<and> r' = r
    | (Inr None, r') \<Rightarrow> r' = r
    | (Inr (Some k), r') \<Rightarrow> collected base (Inr k, r')"
proof (cases "n < 8")
  case True
  then show ?thesis by (simp add: on_buf_def complete_tds_packet_if_available_def)
next
  case False
  let ?b = "nr_buf r"
  from False c obtain k where k: "header_length base ?b = Some k"
    using header_length_Some [of base ?b] by (auto simp: collecting_def)
  consider (err) e where "complete_tds_packet_if_available base n ?b = (Inl (ProtocolError e), ?b)"
    | (wait) "complete_tds_packet_if_available base n ?b = (Inr None, ?b)"
    | (finished) "8 \<le> k" "k \<le> n" "base + k \<le> length (working_buffer ?b)"
        "\<exists>eom. complete_tds_packet_if_available base n ?b = (Inr (Some k), ?b\<lparr>end_of_message := eom, pending_bytes := n - k,
           pending_bytes_offset := (if n - k > 0 then base + k else 0)\<rparr>)"
    using False k by (fastforce simp: complete_tds_packet_if_available_def Let_def split: if_splits)
  then show ?thesis
  proof cases
    case finished
    with c show ?thesis
      by (auto simp: on_buf_def collecting_def collected_def reader_safe_def rb_inv_def)
  qed (simp_all add: on_buf_def)
qed

lemma collecting_received:
  assumes c: "collecting base n r" and "base + n + length xs \<le> length (working_buffer (nr_buf r))"
  shows "collecting base (n + length xs) (received (base + n) xs es r)"
  using assms by (simp add: collecting_def received_def reader_safe_def rb_inv_def)

lemma stream_read_capacity: "stream_read capacity es = (Inr xs, es') \<Longrightarrow> length xs \<le> capacity"
  by (induction capacity es rule: stream_read.induct) (auto simp: take_bytes_def split: prod.splits if_splits)

lemma stream_read_error: "stream_read capacity es = (Inl e, es') \<Longrightarrow> e \<noteq> Panic \<and> e \<noteq> Diverge"
  by (induction capacity es rule: stream_read.induct) (auto split: prod.splits)

lemma stream_poll_capacity: "stream_poll capacity es = (Some (Inr xs), es') \<Longrightarrow> length xs \<le> capacity"
  by (cases "(capacity, es)" rule: stream_poll.cases) (auto simp: take_bytes_def split: prod.splits if_splits)

lemma stream_poll_error: "stream_poll capacity es = (Some (Inl e), es') \<Longrightarrow> e \<noteq> Panic \<and> e \<noteq> Diverge"
  by (cases "(capacity, es)" rule: stream_poll.cases) (auto split: prod.splits)

lemma collecting_fail:
  "collecting base n r \<Longrightarrow> e \<noteq> Panic \<Longrightarrow> e \<noteq> Diverge \<Longrightarrow>
     collected base (Inl e, r) \<and> collected base (Inl e, r\<lparr>nr_incoming := es, nr_known_dead := d\<rparr>)"
  by (simp add: collecting_def collected_def reader_safe_def)

lemma packet_loop_safe: "collecting base n r \<Longrightarrow> collected base (packet_loop base n r)"
proof (induction base n r rule: packet_loop.induct)
  case (1 base n r)
  note c = "1.prems"
  let ?wb = "working_buffer (nr_buf r)"
  obtain x r1 where cp: "on_buf (complete_tds_packet_if_available base n) r = (x, r1)" by fastforce
  note cc = complete_collecting [OF c, unfolded cp prod.case]
  consider (fail) e where "x = Inl e" | (got) k where "x = Inr (Some k)" | (wait) "x = Inr None"
    by (metis sum.exhaust option.exhaust)
  then show ?case
  proof cases
    case fail
    with cc cp collecting_fail [OF c] show ?thesis by (subst packet_loop.simps) auto
  next
    case got
    with cc cp show ?thesis by (subst packet_loop.simps) auto
  next
    case wait
    with cc have r1: "r1 = r" by simp
    obtain y es where rd: "stream_read (length ?wb - (base + n)) (nr_incoming r) = (y, es)" by fastforce
    have le: "\<not> length ?wb < base + n" using c by (simp add: collecting_def)
    note step = packet_loop.simps [of base n r, unfolded cp wait r1, simplified, unfolded rd prod.case]
    show ?thesis
    proof (cases "nr_stream_open r")
      case False
      then show ?thesis using collecting_fail [OF c] by (simp add: step)
    next
      case True
      show ?thesis
      proof (cases y)
        case (Inl e)
        with True le collecting_fail [OF c] stream_read_error rd show ?thesis by (auto simp: step)
      next
        case (Inr bs)
        show ?thesis
        proof (cases "bs = []")
          case nil: True
          with True le Inr collecting_fail [OF c] show ?thesis by (simp add: step closed_while_reading_def)
        next
          case False
          have "base + n + length bs \<le> length ?wb" using stream_read_capacity rd Inr le by fastforce
          from "1.IH" [OF cp [unfolded wait r1, symmetric] refl refl _ le rd [unfolded Inr, symmetric] refl False
              collecting_received [OF c this]] True
          show ?thesis using True le Inr False by (simp add: step)
        qed
      qed
    qed
  qed
qed

text \<open>The probing loop differs in parking what it has when nothing more is there yet.\<close>

definition try_collected :: "nat \<Rightarrow> nat option tds_result \<times> network_reader \<Rightarrow> bool" where
  "try_collected base xr \<longleftrightarrow> out_safe xr \<and> base = buffer_length (nr_buf (snd xr)) \<and>
     (\<forall>k. fst xr = Inr (Some k) \<longrightarrow> collected base (Inr k, snd xr))"

lemma try_collected_simps [simp]:
  "try_collected base (Inl e, r) = collected base (Inl e, r)"
  "try_collected base (Inr (Some k), r) = collected base (Inr k, r)"
  "try_collected base (Inr None, r) = (reader_safe r \<and> base = buffer_length (nr_buf r))"
  by (auto simp: try_collected_def collected_def)

lemma try_packet_loop_safe: "collecting base n r \<Longrightarrow> try_collected base (try_packet_loop base n r)"
proof (induction base n r rule: try_packet_loop.induct)
  case (1 base n r)
  note c = "1.prems"
  let ?wb = "working_buffer (nr_buf r)"
  obtain x r1 where cp: "on_buf (complete_tds_packet_if_available base n) r = (x, r1)" by fastforce
  note cc = complete_collecting [OF c, unfolded cp prod.case]
  consider (fail) e where "x = Inl e" | (got) k where "x = Inr (Some k)" | (wait) "x = Inr None"
    by (metis sum.exhaust option.exhaust)
  then show ?case
  proof cases
    case fail
    with cc cp collecting_fail [OF c] show ?thesis by (subst try_packet_loop.simps) auto
  next
    case got
    with cc cp show ?thesis by (subst try_packet_loop.simps) auto
  next
    case wait
    with cc have r1: "r1 = r" by simp
    obtain y es where rd: "stream_poll (length ?wb - (base + n)) (nr_incoming r) = (y, es)" by fastforce
    have le: "\<not> length ?wb < base + n" using c by (simp add: collecting_def)
    note step = try_packet_loop.simps [of base n r, unfolded cp wait r1, simplified, unfolded rd prod.case]
    consider (closed) "\<not> nr_stream_open r" | (park) "nr_stream_open r" "y = None"
      | (err) e where "nr_stream_open r" "y = Some (Inl e)" | (eof) "nr_stream_open r" "y = Some (Inr [])"
      | (more) bs where "nr_stream_open r" "y = Some (Inr bs)" "bs \<noteq> []"
      by (metis sum.exhaust option.exhaust)
    then show ?thesis
    proof cases
      case closed
      then show ?thesis using collecting_fail [OF c] by (simp add: step)
    next
      case park
      with c le show ?thesis unfolding step
        by (simp add: park_partial_packet_def collecting_def reader_safe_def rb_inv_def)
    next
      case err
      with collecting_fail [OF c] stream_poll_error rd show ?thesis by (auto simp: step collecting_def le)
    next
      case eof
      with collecting_fail [OF c] show ?thesis by (simp add: step le closed_while_reading_def)
    next
      case more
      have "base + n + length bs \<le> length ?wb" using stream_poll_capacity rd more(2) le by fastforce
      from "1.IH" [OF cp [unfolded wait r1, symmetric] refl refl _ le rd [unfolded more(2), symmetric] refl refl more(3)
          collecting_received [OF c this]] more(1)
      show ?thesis using more by (simp add: step le)
    qed
  qed
qed

lemma move_pending_collecting:
  assumes "reader_safe r" and "buffer_length (nr_buf r) \<le> max_packet_size (nr_buf r)"
  defines "base \<equiv> buffer_length (nr_buf r)"
  shows "\<exists>n r'. on_buf (move_pending_packet_bytes base) r = (Inr n, r') \<and> collecting base n r'"
proof (cases "pending_bytes (nr_buf r) > 0")
  case True
  with assms show ?thesis
    by (simp add: on_buf_def move_pending_packet_bytes_def Let_def copy_within_def reader_safe_def rb_inv_def collecting_def)
next
  case False
  with assms show ?thesis
    by (simp add: on_buf_def move_pending_packet_bytes_def Let_def reader_safe_def rb_inv_def collecting_def)
qed

lemma remove_header_safe:
  assumes "collected base (Inr k, r)"
  shows "out_safe (on_buf (remove_header_from_packet k) r)"
  using assms
  by (auto simp: on_buf_def remove_header_from_packet_def copy_within_def collected_def reader_safe_def rb_inv_def
      split: if_splits)

lemma get_new_safe:
  assumes "reader_safe r" and "buffer_length (nr_buf r) \<le> max_packet_size (nr_buf r)"
  shows "collected (buffer_length (nr_buf r)) (get_new_tds_packet r)"
    and "try_collected (buffer_length (nr_buf r)) (try_get_new_tds_packet r)"
  using move_pending_collecting [OF assms] packet_loop_safe try_packet_loop_safe
  by (auto simp: get_new_tds_packet_def try_get_new_tds_packet_def Let_def rbind_def)

lemma collected_remove:
  assumes "collected base (get_new_tds_packet r)"
  shows "out_safe (rbind get_new_tds_packet (\<lambda>n. on_buf (remove_header_from_packet n)) r)"
proof (cases "get_new_tds_packet r")
  case (Pair x r')
  with assms show ?thesis
    by (cases x) (auto simp: rbind_def collected_def intro: remove_header_safe)
qed

lemma shift_safe:
  assumes "reader_safe r"
  shows "\<exists>r'. on_buf shift_data_to_front r = (Inr (), r') \<and> reader_safe r' \<and>
     buffer_length (nr_buf r') = get_remaining_byte_count (nr_buf r) \<and>
     max_packet_size (nr_buf r') = max_packet_size (nr_buf r)"
  using shift_ok [of "nr_buf r"] assms length_unread [of "nr_buf r"]
  by (auto simp: on_buf_def reader_safe_def)

lemma reset_safe:
  assumes "reader_safe r"
  shows "\<exists>r'. update_buf (reset_to_length 0) r = (Inr (), r') \<and> reader_safe r' \<and> buffer_length (nr_buf r') = 0"
  using rb_inv_reset [of "nr_buf r"] assms
  by (auto simp: update_buf_def reader_safe_def reset_to_length_def)

lemma read_tds_packet_safe:
  assumes "reader_safe r" and "get_remaining_byte_count (nr_buf r) \<le> max_packet_size (nr_buf r)"
  shows "out_safe (read_tds_packet r)"
proof (cases "get_remaining_byte_count (nr_buf r) > 0")
  case True
  from shift_safe [OF assms(1)] obtain r' where r': "on_buf shift_data_to_front r = (Inr (), r')" "reader_safe r'"
    "buffer_length (nr_buf r') \<le> max_packet_size (nr_buf r')" using assms(2) by auto
  with True collected_remove [OF get_new_safe(1) [OF r'(2,3)]] show ?thesis
    by (simp add: read_tds_packet_def rbind_def)
next
  case False
  from reset_safe [OF assms(1)] obtain r' where r': "update_buf (reset_to_length 0) r = (Inr (), r')" "reader_safe r'"
    "buffer_length (nr_buf r') \<le> max_packet_size (nr_buf r')" by auto
  with False collected_remove [OF get_new_safe(1) [OF r'(2,3)]] show ?thesis
    by (simp add: read_tds_packet_def rbind_def)
qed

section \<open>Readers\<close>

lemma refill_for_safe:
  assumes "reader_safe r" and "get_remaining_byte_count (nr_buf r) < k" and "k \<le> 8"
  shows "out_safe (refill_for k r)"
  using assms read_tds_packet_safe [of r]
  by (auto simp: refill_for_def past_end_of_message_error_def reader_safe_def)

lemma try_read_array_safe:
  assumes "reader_safe r"
  shows "case on_buf (try_read_array k) r of
      (Inl e, r') \<Rightarrow> False
    | (Inr None, r') \<Rightarrow> r' = r \<and> get_remaining_byte_count (nr_buf r) < k
    | (Inr (Some bs), r') \<Rightarrow> reader_safe r' \<and> length bs = k"
proof (cases "k \<le> length (unread (nr_buf r))")
  case True
  with assms try_read_array_Some [of "nr_buf r" k] show ?thesis
    by (auto simp: reader_safe_def on_buf_def)
next
  case False
  with assms try_read_array_None [of "nr_buf r" k] length_unread [of "nr_buf r"] show ?thesis
    by (auto simp: reader_safe_def on_buf_def)
qed

lemma read_retry_safe: "reader_safe r \<Longrightarrow> k \<le> 8 \<Longrightarrow> out_safe (read_retry k r)"
proof (induction k r rule: read_retry.induct)
  case (1 k r)
  obtain x r1 where t: "on_buf (try_read_array k) r = (x, r1)" by fastforce
  note ts = try_read_array_safe [OF "1.prems"(1), of k, unfolded t prod.case]
  then consider (got) bs where "x = Inr (Some bs)" "reader_safe r1"
    | (wait) "x = Inr None" "r1 = r" "get_remaining_byte_count (nr_buf r) < k"
    by (auto split: sum.splits option.splits)
  then show ?case
  proof cases
    case got
    with t show ?thesis by (subst read_retry.simps) simp
  next
    case wait
    with refill_for_safe [OF "1.prems"(1) _ "1.prems"(2)] have "out_safe (refill_for k r)" by simp
    with wait t "1.IH" [OF t [unfolded wait, symmetric] refl refl] "1.prems"(2) show ?thesis
      by (subst read_retry.simps) auto
  qed
qed

lemma ensure_data_safe:
  "reader_safe r \<Longrightarrow> k \<le> 8 \<Longrightarrow> out_safe (ensure_data k r) \<and>
     (\<forall>r'. ensure_data k r = (Inr (), r') \<longrightarrow> k \<le> get_remaining_byte_count (nr_buf r'))"
proof (induction k r rule: ensure_data.induct)
  case (1 k r)
  show ?case
  proof (cases "do_we_have_enough_data k (nr_buf r)")
    case True
    with "1.prems" show ?thesis by (subst (1 2) ensure_data.simps) (simp add: do_we_have_enough_data_def)
  next
    case False
    then have step: "ensure_data k r = rbind (refill_for k) (\<lambda>_. ensure_data k) r" by (subst ensure_data.simps) simp
    have "out_safe (refill_for k r)"
      using refill_for_safe [OF "1.prems"(1) _ "1.prems"(2)] False by (simp add: do_we_have_enough_data_def)
    with "1.IH" [OF False] "1.prems"(2) show ?thesis unfolding step
      by (cases "refill_for k r") (auto simp: rbind_def split: sum.splits)
  qed
qed

lemma consume_safe:
  assumes "reader_safe r" and "n \<le> get_remaining_byte_count (nr_buf r)"
  shows "\<exists>r'. on_buf (consume_bytes n) r = (Inr (), r') \<and> reader_safe r'"
  using consume_ok [of "nr_buf r" n] assms length_unread [of "nr_buf r"]
  by (auto simp: reader_safe_def on_buf_def)

lemma read_sliced_safe:
  assumes "reader_safe r" and "k \<le> 8"
  shows "out_safe (read_sliced k r)"
  unfolding read_sliced_def
proof (rule out_safe_rbind)
  show "out_safe (ensure_data k r)" using ensure_data_safe [OF assms] ..
  fix a r' assume e: "ensure_data k r = (Inr a, r')" and s: "reader_safe r'"
  with ensure_data_safe [OF assms] have k: "k \<le> get_remaining_byte_count (nr_buf r')" by simp
  have "get_slice (nr_buf r') = Some (drop (buffer_position (nr_buf r')) (working_buffer (nr_buf r')))"
    "k \<le> length (drop (buffer_position (nr_buf r')) (working_buffer (nr_buf r')))"
    using s k by (auto simp: get_slice_def slice_get_def seg_def reader_safe_def rb_inv_def get_remaining_byte_count_def)
  with consume_safe [OF s k] show "out_safe (case get_slice (nr_buf r') of
         None \<Rightarrow> (Inl Panic, r')
       | Some s \<Rightarrow> if length s < k then (Inl Panic, r')
                   else rbind (on_buf (consume_bytes k)) (\<lambda>_. rret (take k s)) r')"
    by (auto simp: rbind_def)
qed

lemma bulk_round_safe:
  assumes "reader_safe r" and "threshold \<le> max_packet_size (nr_buf r)"
  shows "out_safe (bulk_round threshold left r) \<and>
    (\<forall>t r'. bulk_round threshold left r = (Inr t, r') \<longrightarrow> t \<le> get_remaining_byte_count (nr_buf r'))"
proof -
  have "out_safe (if do_we_have_enough_data threshold (nr_buf r) then (Inr (), r) else read_tds_packet r)"
    using assms read_tds_packet_safe [of r] by (auto simp: do_we_have_enough_data_def)
  then show ?thesis
    by (cases "if do_we_have_enough_data threshold (nr_buf r) then (Inr (), r) else read_tds_packet r")
       (auto simp: bulk_round_def rbind_def reader_safe_def split: sum.splits)
qed

lemma empty_round_safe: "empty_round c left e r = Some x \<Longrightarrow> x \<noteq> Panic \<and> x \<noteq> Diverge"
  by (auto simp: empty_round_def no_progress_error_def past_end_of_message_error_def
      stalled_on_empty_messages_error_def split: if_splits)

lemma copy_out_safe:
  assumes "reader_safe r" and "t \<le> get_remaining_byte_count (nr_buf r)"
  shows "out_safe (copy_out t r)"
proof -
  have "buffer_position (nr_buf r) + t \<le> length (working_buffer (nr_buf r))"
    using assms by (auto simp: reader_safe_def rb_inv_def get_remaining_byte_count_def)
  with consume_safe [OF assms] show ?thesis by (auto simp: copy_out_def slice_get_def rbind_def Let_def)
qed

lemma read_bytes_loop_safe: "reader_safe r \<Longrightarrow> out_safe (read_bytes_loop n acc e r)"
proof (induction n acc e r rule: read_bytes_loop.induct)
  case (1 n acc e r)
  define left where "left = n - length acc"
  define th where "th = min (max_packet_size (nr_buf r)) left"
  note step = read_bytes_loop.simps [of n acc e r, unfolded Let_def, folded left_def, folded th_def]
  note B = bulk_round_safe [OF "1.prems", of th left]
  show ?case
  proof (cases "left = 0 \<or> value_truncated_by_message_end (acc \<noteq> []) left r")
    case True
    with "1.prems" show ?thesis by (auto simp: step past_end_of_message_error_def)
  next
    case False
    then have nz: "left \<noteq> 0" and nt: "\<not> value_truncated_by_message_end (acc \<noteq> []) left r" by auto
    have "out_safe (rbind (bulk_round th left) (\<lambda>to_read r'.
                if to_read = 0 then
                  (case empty_round (acc \<noteq> []) left e r' of
                     Some x \<Rightarrow> (Inl x, r') | None \<Rightarrow> read_bytes_loop n acc (e + 1) r')
                else rbind (copy_out to_read) (\<lambda>bs. read_bytes_loop n (acc @ bs) e) r') r)"
    proof (rule out_safe_rbind)
      show "out_safe (bulk_round th left r)" using B by (simp add: th_def)
      fix t r' assume t: "bulk_round th left r = (Inr t, r')" and s: "reader_safe r'"
      then have le: "t \<le> get_remaining_byte_count (nr_buf r')" using B by (simp add: th_def)
      note IH = "1.IH" [OF left_def nz nt t [unfolded th_def]]
      show "out_safe (if t = 0 then
                  (case empty_round (acc \<noteq> []) left e r' of
                     Some x \<Rightarrow> (Inl x, r') | None \<Rightarrow> read_bytes_loop n acc (e + 1) r')
                else rbind (copy_out t) (\<lambda>bs. read_bytes_loop n (acc @ bs) e) r')"
        using IH s copy_out_safe [OF s le] empty_round_safe [of "acc \<noteq> []" left e r']
        by (auto split: option.splits)
    qed
    with nz nt show ?thesis by (simp add: step)
  qed
qed

lemma skip_bytes_loop_safe: "reader_safe r \<Longrightarrow> out_safe (skip_bytes_loop n left e r)"
proof (induction n left e r rule: skip_bytes_loop.induct)
  case (1 n left e r)
  define th where "th = min (max_packet_size (nr_buf r) - 8) left"
  note step = skip_bytes_loop.simps [of n left e r, folded th_def]
  have "th \<le> max_packet_size (nr_buf r)" by (simp add: th_def min_le_iff_disj)
  note B = bulk_round_safe [OF "1.prems" this, of left]
  have m: "\<not> max_packet_size (nr_buf r) < 8" using "1.prems" by (simp add: reader_safe_def)
  show ?case
  proof (cases "left = 0 \<or> value_truncated_by_message_end (left < n) left r")
    case True
    with "1.prems" show ?thesis by (auto simp: step past_end_of_message_error_def)
  next
    case False
    then have nz: "left \<noteq> 0" and nt: "\<not> value_truncated_by_message_end (left < n) left r" by auto
    have "out_safe (rbind (bulk_round th left) (\<lambda>to_read r'.
                if to_read = 0 then
                  (case empty_round (left < n) left e r' of
                     Some x \<Rightarrow> (Inl x, r') | None \<Rightarrow> skip_bytes_loop n left (e + 1) r')
                else rbind (on_buf (consume_bytes to_read)) (\<lambda>_. skip_bytes_loop n (left - to_read) e) r') r)"
    proof (rule out_safe_rbind)
      show "out_safe (bulk_round th left r)" using B by simp
      fix t r' assume t: "bulk_round th left r = (Inr t, r')" and s: "reader_safe r'"
      then have le: "t \<le> get_remaining_byte_count (nr_buf r')" using B by simp
      note IH = "1.IH" [OF nz nt m t [unfolded th_def]]
      show "out_safe (if t = 0 then
                  (case empty_round (left < n) left e r' of
                     Some x \<Rightarrow> (Inl x, r') | None \<Rightarrow> skip_bytes_loop n left (e + 1) r')
                else rbind (on_buf (consume_bytes t)) (\<lambda>_. skip_bytes_loop n (left - t) e) r')"
        using IH s consume_safe [OF s le] empty_round_safe [of "left < n" left e r']
        by (auto split: option.splits)
    qed
    with nz nt m show ?thesis by (simp add: step)
  qed
qed

lemma read_bytes_safe: "reader_safe r \<Longrightarrow> out_safe (read_bytes n r)"
  by (simp add: read_bytes_def read_bytes_loop_safe)

lemma skip_bytes_safe: "reader_safe r \<Longrightarrow> out_safe (skip_bytes n r)"
  by (simp add: skip_bytes_def skip_bytes_loop_safe)

lemma rret_safe: "reader_safe r \<Longrightarrow> out_safe (rret a r)"
  by simp

lemma read_bytes_length:
  assumes "read_bytes n r = (Inr bs, r')"
  shows "length bs = n"
proof -
  have "length acc \<le> n \<Longrightarrow> read_bytes_loop n acc e r = (Inr bs, r') \<Longrightarrow> length bs = n" for acc e r
  proof (induction n acc e r rule: read_bytes_loop.induct)
    case (1 n acc e r)
    define left where "left = n - length acc"
    define th where "th = min (max_packet_size (nr_buf r)) left"
    note step = "1.prems"(2) [unfolded read_bytes_loop.simps [of n acc e r] Let_def, folded left_def, folded th_def]
    show ?case
    proof (cases "left = 0")
      case True
      with step "1.prems"(1) show ?thesis by (simp add: left_def)
    next
      case False
      with step have nt: "\<not> value_truncated_by_message_end (acc \<noteq> []) left r" by (auto split: if_splits)
      from step False nt obtain t r1 where t: "bulk_round th left r = (Inr t, r1)"
        and rest: "(if t = 0 then
                  (case empty_round (acc \<noteq> []) left e r1 of
                     Some x \<Rightarrow> (Inl x, r1) | None \<Rightarrow> read_bytes_loop n acc (e + 1) r1)
                else rbind (copy_out t) (\<lambda>bs. read_bytes_loop n (acc @ bs) e) r1) = (Inr bs, r')"
        by (auto elim!: rbind_InrE)
      note IH = "1.IH" [OF left_def False nt t [unfolded th_def]]
      show ?thesis
      proof (cases "t = 0")
        case True
        with rest IH(1) "1.prems"(1) show ?thesis by (auto split: option.splits)
      next
        case nz: False
        with rest obtain xs r2 where xs: "copy_out t r1 = (Inr xs, r2)"
          and lp: "read_bytes_loop n (acc @ xs) e r2 = (Inr bs, r')" by (auto elim: rbind_InrE)
        from xs have "length xs = t"
          by (auto simp: copy_out_def slice_get_def Let_def split: if_splits elim!: rbind_InrE)
        moreover from t have "t \<le> left" by (auto simp: bulk_round_def split: if_splits elim!: rbind_InrE)
        ultimately have "length (acc @ xs) \<le> n" using False by (simp add: left_def)
        from IH(2) [OF nz xs this lp] show ?thesis .
      qed
    qed
  qed
  from this [of "[]" 0 r] assms show ?thesis by (simp add: read_bytes_def)
qed

lemma read_unicode_safe:
  assumes "reader_safe r" and "even n"
  shows "out_safe (read_unicode_with_byte_length n r)"
  unfolding read_unicode_with_byte_length_def
proof (rule out_safe_rbind)
  fix bs r' assume "read_bytes n r = (Inr bs, r')" "reader_safe r'"
  with read_bytes_length [of n r bs r'] assms(2) show "out_safe (decode_unicode bs, r')"
    by (auto simp: decode_unicode_def split: option.splits)
qed (rule read_bytes_safe [OF assms(1)])

lemma read_byte_safe: "reader_safe r \<Longrightarrow> out_safe (read_byte r)"
  unfolding read_byte_def by (intro out_safe_rbind read_retry_safe rret_safe) simp_all

lemma read_uint16_safe: "reader_safe r \<Longrightarrow> out_safe (read_uint16 r)"
  unfolding read_uint16_def by (intro out_safe_rbind read_retry_safe rret_safe) simp_all

lemma try_read_tds_packet_safe:
  assumes "reader_safe r"
  shows "out_safe (try_read_tds_packet r)"
proof -
  let ?prep = "if get_remaining_byte_count (nr_buf r) > 0 then on_buf shift_data_to_front else update_buf (reset_to_length 0)"
  show ?thesis
  proof (cases "end_of_message (nr_buf r) \<or>
      get_remaining_byte_count (nr_buf r) + max_packet_size (nr_buf r) > length (working_buffer (nr_buf r))")
    case True
    with assms show ?thesis by (auto simp: try_read_tds_packet_def Let_def)
  next
    case False
    then have small: "get_remaining_byte_count (nr_buf r) \<le> max_packet_size (nr_buf r)"
      using assms by (auto simp: reader_safe_def rb_inv_def)
    from shift_safe [OF assms] reset_safe [OF assms] small obtain r1 where
      r1: "?prep r = (Inr (), r1)" "reader_safe r1" "buffer_length (nr_buf r1) \<le> max_packet_size (nr_buf r1)"
      by (cases "get_remaining_byte_count (nr_buf r) > 0") auto
    obtain x r2 where g: "try_get_new_tds_packet r1 = (x, r2)" by fastforce
    note tc = get_new_safe(2) [OF r1(2,3), unfolded g]
    then have "out_safe (rbind try_get_new_tds_packet (\<lambda>x. case x of None \<Rightarrow> rret False
        | Some n \<Rightarrow> rbind (on_buf (remove_header_from_packet n)) (\<lambda>_. rret True)) r1)"
      using remove_header_safe g
      by (cases x) (auto simp: rbind_def collected_def split: option.splits dest!: remove_header_safe intro!: out_safe_rbind [unfolded rbind_def])
    with False r1(1) show ?thesis by (simp add: try_read_tds_packet_def Let_def rbind_def)
  qed
qed

end
