(* ===== verification/Packet_Source.thy ===== *)
theory Packet_Source
  imports Reader_Messages Reader_Safety
begin

text \<open>
  The trait \<^verbatim>\<open>TdsPacketReader\<close> (\<^verbatim>\<open>mssql-tds/src/io/packet_reader.rs\<close>) the token parsers are
  generic in, as a record of operations, with the two contracts its clients rely on as locales:
  \<open>packet_source\<close> says the operations return the content of the message, \<open>safe_source\<close> that no
  operation panics whatever the peer sends. \<^verbatim>\<open>NetworkTransport\<close> satisfies both.
\<close>

section \<open>The trait\<close>

record 's packet_reader_ops =
  rd_byte :: "('s, u8) action"
  rd_u16 :: "('s, u16) action"
  rd_u24 :: "('s, u32) action"
  rd_u32 :: "('s, u32) action"
  rd_u40 :: "('s, u64) action"
  rd_i64 :: "('s, u64) action"
  rd_u64 :: "('s, u64) action"
  rd_i16 :: "('s, u16) action"
  rd_i32 :: "('s, u32) action"
  rd_f32 :: "('s, u32) action"
  rd_f64 :: "('s, u64) action"
  rd_i16_be :: "('s, u16) action"
  rd_i32_be :: "('s, u32) action"
  rd_bytes :: "nat \<Rightarrow> ('s, bytes) action"
  rd_skip :: "nat \<Rightarrow> ('s, unit) action"
  rd_u8_varbyte :: "('s, bytes) action"
  rd_u16_varbyte :: "('s, bytes) action"
  rd_varchar_u16 :: "('s, rstring option) action"
  rd_varchar_u8 :: "('s, rstring) action"
  rd_unicode :: "nat \<Rightarrow> ('s, rstring) action"
  rd_unicode_bytes :: "nat \<Rightarrow> ('s, rstring) action"
  rd_try_slice :: "nat \<Rightarrow> ('s, bytes option) action"
  rd_buffered :: "('s, bytes) action"

definition buffered_slice :: "(network_reader, bytes) action" where
  "buffered_slice r = (case get_buffered_slice (nr_buf r) of Some bs \<Rightarrow> (Inr bs, r) | None \<Rightarrow> (Inl Panic, r))"

definition network_ops :: "network_reader packet_reader_ops" where
  "network_ops =
     \<lparr>rd_byte = read_byte, rd_u16 = read_uint16, rd_u24 = read_uint24, rd_u32 = read_uint32,
      rd_u40 = read_uint40, rd_i64 = read_int64, rd_u64 = read_uint64,
      rd_i16 = read_int16, rd_i32 = read_int32, rd_f32 = read_float32, rd_f64 = read_float64,
      rd_i16_be = read_int16_big_endian, rd_i32_be = read_int32_big_endian,
      rd_bytes = read_bytes, rd_skip = skip_bytes, rd_u8_varbyte = read_u8_varbyte,
      rd_u16_varbyte = read_u16_varbyte, rd_varchar_u16 = read_varchar_u16_length,
      rd_varchar_u8 = read_varchar_u8_length, rd_unicode = read_unicode,
      rd_unicode_bytes = read_unicode_with_byte_length, rd_try_slice = (\<lambda>n. on_buf (try_read_slice n)),
      rd_buffered = buffered_slice\<rparr>"

text \<open>The wire forms the readers with a length prefix expect.\<close>

definition b_varbyte :: "bytes \<Rightarrow> bytes" where
  "b_varbyte bs = word_of_nat (length bs) # bs"

definition us_varbyte :: "bytes \<Rightarrow> bytes" where
  "us_varbyte bs = to_le_u16 (word_of_nat (length bs)) @ bs"

definition utf16_le :: "rstring \<Rightarrow> bytes" where
  "utf16_le str = units_le (encode_utf16 str)"

definition b_varchar :: "rstring \<Rightarrow> bytes" where
  "b_varchar str = word_of_nat (length (encode_utf16 str)) # utf16_le str"

definition us_varchar :: "rstring \<Rightarrow> bytes" where
  "us_varchar str = to_le_u16 (word_of_nat (length (encode_utf16 str))) @ utf16_le str"

definition fits_b :: "rstring \<Rightarrow> bool" where
  "fits_b str \<longleftrightarrow> valid_string str \<and> length (encode_utf16 str) < 256"

definition fits_us :: "rstring \<Rightarrow> bool" where
  "fits_us str \<longleftrightarrow> valid_string str \<and> length (encode_utf16 str) < 65535"


section \<open>Content\<close>

text \<open>\<open>supplies c s\<close>: the source in state \<open>s\<close> will deliver the bytes \<open>c\<close>.\<close>

locale packet_source =
  fixes ops :: "'s packet_reader_ops" and supplies :: "bytes \<Rightarrow> 's \<Rightarrow> bool"
  assumes byte: "supplies (b # c) s \<Longrightarrow> \<exists>s'. rd_byte ops s = (Inr b, s') \<and> supplies c s'"
    and u16: "supplies (to_le_u16 x @ c) s \<Longrightarrow> \<exists>s'. rd_u16 ops s = (Inr x, s') \<and> supplies c s'"
    and u32: "supplies (to_le_u32 y @ c) s \<Longrightarrow> \<exists>s'. rd_u32 ops s = (Inr y, s') \<and> supplies c s'"
    and i64: "supplies (to_le_u64 z @ c) s \<Longrightarrow> \<exists>s'. rd_i64 ops s = (Inr z, s') \<and> supplies c s'"
    and u64: "supplies (to_le_u64 z @ c) s \<Longrightarrow> \<exists>s'. rd_u64 ops s = (Inr z, s') \<and> supplies c s'"
    and i16_be: "supplies (to_be_u16 x @ c) s \<Longrightarrow> \<exists>s'. rd_i16_be ops s = (Inr x, s') \<and> supplies c s'"
    and i32_be: "supplies (to_be_u32 y @ c) s \<Longrightarrow> \<exists>s'. rd_i32_be ops s = (Inr y, s') \<and> supplies c s'"
    and bytes: "supplies (bs @ c) s \<Longrightarrow> n = length bs \<Longrightarrow> \<exists>s'. rd_bytes ops n s = (Inr bs, s') \<and> supplies c s'"
    and skip: "supplies (bs @ c) s \<Longrightarrow> n = length bs \<Longrightarrow> \<exists>s'. rd_skip ops n s = (Inr (), s') \<and> supplies c s'"
    and u8_varbyte: "supplies (b_varbyte bs @ c) s \<Longrightarrow> length bs < 256 \<Longrightarrow>
        \<exists>s'. rd_u8_varbyte ops s = (Inr bs, s') \<and> supplies c s'"
    and u16_varbyte: "supplies (us_varbyte bs @ c) s \<Longrightarrow> length bs < 65536 \<Longrightarrow>
        \<exists>s'. rd_u16_varbyte ops s = (Inr bs, s') \<and> supplies c s'"
    and varchar_u8: "supplies (b_varchar str @ c) s \<Longrightarrow> fits_b str \<Longrightarrow>
        \<exists>s'. rd_varchar_u8 ops s = (Inr str, s') \<and> supplies c s'"
    and varchar_u16: "supplies (us_varchar str @ c) s \<Longrightarrow> fits_us str \<Longrightarrow>
        \<exists>s'. rd_varchar_u16 ops s = (Inr (Some str), s') \<and> supplies c s'"
    and unicode: "supplies (utf16_le str @ c) s \<Longrightarrow> valid_string str \<Longrightarrow> n = length (encode_utf16 str) \<Longrightarrow>
        \<exists>s'. rd_unicode ops n s = (Inr str, s') \<and> supplies c s'"
    and unicode_bytes: "supplies (utf16_le str @ c) s \<Longrightarrow> valid_string str \<Longrightarrow> n = 2 * length (encode_utf16 str) \<Longrightarrow>
        \<exists>s'. rd_unicode_bytes ops n s = (Inr str, s') \<and> supplies c s'"
    and varchar_null: "supplies (0xFF # 0xFF # c) s \<Longrightarrow> \<exists>s'. rd_varchar_u16 ops s = (Inr None, s') \<and> supplies c s'"
    and u24: "supplies (bs @ c) s \<Longrightarrow> length bs = 3 \<Longrightarrow> \<exists>s'. rd_u24 ops s = (Inr (le_u24 bs), s') \<and> supplies c s'"
    and u40: "supplies (bs @ c) s \<Longrightarrow> length bs = 5 \<Longrightarrow> \<exists>s'. rd_u40 ops s = (Inr (le_u40 bs), s') \<and> supplies c s'"
    and i16: "supplies (to_le_u16 x @ c) s \<Longrightarrow> \<exists>s'. rd_i16 ops s = (Inr x, s') \<and> supplies c s'"
    and i32: "supplies (to_le_u32 y @ c) s \<Longrightarrow> \<exists>s'. rd_i32 ops s = (Inr y, s') \<and> supplies c s'"
    and f32: "supplies (to_le_u32 y @ c) s \<Longrightarrow> \<exists>s'. rd_f32 ops s = (Inr y, s') \<and> supplies c s'"
    and f64: "supplies (to_le_u64 z @ c) s \<Longrightarrow> \<exists>s'. rd_f64 ops s = (Inr z, s') \<and> supplies c s'"
    and try_slice: "supplies (bs @ c) s \<Longrightarrow> n = length bs \<Longrightarrow> bs \<noteq> [] \<Longrightarrow>
        rd_try_slice ops n s = (Inr None, s) \<or> (\<exists>s'. rd_try_slice ops n s = (Inr (Some bs), s') \<and> supplies c s')"
    and buffered: "supplies c s \<Longrightarrow> \<exists>bs rest. rd_buffered ops s = (Inr bs, s) \<and> c = bs @ rest"
    and buffered_take: "supplies c s \<Longrightarrow> rd_buffered ops s = (Inr bs, s) \<Longrightarrow> 0 < n \<Longrightarrow> n \<le> length bs \<Longrightarrow>
        \<exists>s'. rd_try_slice ops n s = (Inr (Some (take n bs)), s') \<and> supplies (drop n c) s'"


section \<open>Safety\<close>

definition guarded :: "('s \<Rightarrow> bool) \<Rightarrow> 'a tds_result \<times> 's \<Rightarrow> bool" where
  "guarded safe xs \<longleftrightarrow> fst xs \<noteq> Inl Panic \<and> fst xs \<noteq> Inl Diverge \<and> safe (snd xs)"

lemma guarded_simps [simp]:
  "guarded safe (Inr a, s) = safe s"
  "guarded safe (Inl e, s) = (e \<noteq> Panic \<and> e \<noteq> Diverge \<and> safe s)"
  by (simp_all add: guarded_def)

lemma guarded_rbind [intro]:
  assumes "guarded safe (m s)" and "\<And>a s'. m s = (Inr a, s') \<Longrightarrow> safe s' \<Longrightarrow> guarded safe (f a s')"
  shows "guarded safe (rbind m f s)"
proof (cases "m s")
  case (Pair x s')
  with assms show ?thesis by (cases x) (auto simp: rbind_def)
qed

locale safe_source =
  fixes ops :: "'s packet_reader_ops" and safe :: "'s \<Rightarrow> bool"
  assumes byte_safe: "safe s \<Longrightarrow> guarded safe (rd_byte ops s)"
    and u16_safe: "safe s \<Longrightarrow> guarded safe (rd_u16 ops s)"
    and u24_safe: "safe s \<Longrightarrow> guarded safe (rd_u24 ops s)"
    and u32_safe: "safe s \<Longrightarrow> guarded safe (rd_u32 ops s)"
    and u40_safe: "safe s \<Longrightarrow> guarded safe (rd_u40 ops s)"
    and i64_safe: "safe s \<Longrightarrow> guarded safe (rd_i64 ops s)"
    and u64_safe: "safe s \<Longrightarrow> guarded safe (rd_u64 ops s)"
    and i16_be_safe: "safe s \<Longrightarrow> guarded safe (rd_i16_be ops s)"
    and i32_be_safe: "safe s \<Longrightarrow> guarded safe (rd_i32_be ops s)"
    and bytes_safe: "safe s \<Longrightarrow> guarded safe (rd_bytes ops n s)"
    and bytes_length: "rd_bytes ops n s = (Inr bs, s') \<Longrightarrow> length bs = n"
    and skip_safe: "safe s \<Longrightarrow> guarded safe (rd_skip ops n s)"
    and u8_varbyte_safe: "safe s \<Longrightarrow> guarded safe (rd_u8_varbyte ops s)"
    and u16_varbyte_safe: "safe s \<Longrightarrow> guarded safe (rd_u16_varbyte ops s)"
    and varchar_u16_safe: "safe s \<Longrightarrow> guarded safe (rd_varchar_u16 ops s)"
    and varchar_u8_safe: "safe s \<Longrightarrow> guarded safe (rd_varchar_u8 ops s)"
    and unicode_safe: "safe s \<Longrightarrow> guarded safe (rd_unicode ops n s)"
    and unicode_bytes_safe: "safe s \<Longrightarrow> even n \<Longrightarrow> guarded safe (rd_unicode_bytes ops n s)"
    and i16_safe: "safe s \<Longrightarrow> guarded safe (rd_i16 ops s)"
    and i32_safe: "safe s \<Longrightarrow> guarded safe (rd_i32 ops s)"
    and f32_safe: "safe s \<Longrightarrow> guarded safe (rd_f32 ops s)"
    and f64_safe: "safe s \<Longrightarrow> guarded safe (rd_f64 ops s)"
    and try_slice_safe: "safe s \<Longrightarrow> guarded safe (rd_try_slice ops n s)"
    and try_slice_length: "safe s \<Longrightarrow> rd_try_slice ops n s = (Inr (Some bs), s') \<Longrightarrow> length bs = n"
    and buffered_safe: "safe s \<Longrightarrow> \<exists>bs. rd_buffered ops s = (Inr bs, s)"


section \<open>NetworkTransport implements the trait\<close>

lemma guarded_out_safe: "guarded reader_safe x = out_safe x"
  by (simp add: guarded_def out_safe_def)

lemma network_try_slice: "reader_safe r \<Longrightarrow> rd_try_slice network_ops n r = on_buf (try_read_array n) r"
  by (simp add: network_ops_def on_buf_def reader_safe_def try_read_slice_array)

lemma buffered_slice_unread: "rb_inv (nr_buf r) \<Longrightarrow> buffered_slice r = (Inr (unread (nr_buf r)), r)"
  by (simp add: buffered_slice_def get_buffered_slice_def slice_get_def unread_def rb_inv_def)

interpretation net: safe_source network_ops reader_safe
proof (unfold_locales, goal_cases)
  case (25 s)
  then show ?case by (simp add: network_ops_def buffered_slice_unread reader_safe_def)
next
  case (23 s n)
  with try_read_array_safe [of s n] show ?case
    by (auto simp: network_try_slice guarded_def split: prod.splits sum.splits option.splits)
next
  case (24 s n bs s')
  with try_read_array_safe [of s n] show ?case by (simp add: network_try_slice)
next
  case (11 n s bs s')
  then show ?case by (simp add: network_ops_def read_bytes_length)
next
  case (13 s)
  then show ?case
    by (auto simp: network_ops_def guarded_out_safe read_u8_varbyte_def intro!: read_byte_safe read_bytes_safe)
next
  case (14 s)
  then show ?case
    by (auto simp: network_ops_def guarded_out_safe read_u16_varbyte_def intro!: read_uint16_safe read_bytes_safe)
next
  case (15 s)
  then show ?case
    by (auto simp: network_ops_def guarded_out_safe read_varchar_u16_length_def
        intro!: out_safe_rbind [where m = read_uint16] out_safe_rbind [where m = "read_unicode_with_byte_length n" for n]
          read_uint16_safe read_unicode_safe)
next
  case (16 s)
  then show ?case
    by (auto simp: network_ops_def guarded_out_safe read_varchar_u8_length_def intro!: read_byte_safe read_unicode_safe)
qed (auto simp: network_ops_def guarded_out_safe read_byte_safe read_uint16_safe read_bytes_safe skip_bytes_safe
      read_unicode_safe read_unicode_def read_uint24_def read_uint32_def read_uint40_def read_int64_def
      read_uint64_def read_int16_big_endian_def read_int32_big_endian_def
      read_int16_def read_int32_def read_float32_def read_float64_def
      intro!: read_retry_safe read_sliced_safe)

definition net_supplies :: "bytes \<Rightarrow> bytes \<Rightarrow> network_reader \<Rightarrow> bool" where
  "net_supplies tail c r \<longleftrightarrow> (\<exists>started. delivers started r c tail)"

lemma net_retry:
  assumes "net_supplies tail (bs @ c) r" and "length bs = k" and "0 < k" and "k \<le> 8"
  shows "\<exists>r'. read_retry k r = (Inr bs, r') \<and> net_supplies tail c r'"
  using assms read_retry_delivers [of _ r "bs @ c" tail k] by (fastforce simp: net_supplies_def)

lemma net_sliced:
  assumes "net_supplies tail (bs @ c) r" and "length bs = k" and "0 < k" and "k \<le> 8"
  shows "\<exists>r'. read_sliced k r = (Inr bs, r') \<and> net_supplies tail c r'"
  using assms read_sliced_delivers [of _ r "bs @ c" tail k] by (fastforce simp: net_supplies_def)

lemma net_bytes:
  assumes "net_supplies tail (bs @ c) r" and "n = length bs"
  shows "\<exists>r'. read_bytes n r = (Inr bs, r') \<and> net_supplies tail c r'"
  using assms read_bytes_delivers [of _ r "bs @ c" tail n] by (fastforce simp: net_supplies_def)

lemma net_skip:
  assumes "net_supplies tail (bs @ c) r" and "n = length bs"
  shows "\<exists>r'. skip_bytes n r = (Inr (), r') \<and> net_supplies tail c r'"
  using assms skip_bytes_delivers [of _ r "bs @ c" tail n] by (fastforce simp: net_supplies_def)

lemma net_byte:
  assumes "net_supplies tail (b # c) r"
  shows "\<exists>r'. read_byte r = (Inr b, r') \<and> net_supplies tail c r'"
  using net_retry [of tail "[b]" c r 1] assms by (auto simp: read_byte_def rbind_def)

lemma net_u16:
  assumes "net_supplies tail (to_le_u16 x @ c) r"
  shows "\<exists>r'. read_uint16 r = (Inr x, r') \<and> net_supplies tail c r'"
  using net_retry [of tail "to_le_u16 x" c r 2] assms by (auto simp: read_uint16_def rbind_def codec_simps)

lemma decode_utf16_le: "valid_string str \<Longrightarrow> decode_unicode (utf16_le str) = Inr str"
  by (simp add: decode_unicode_def utf16_le_def from_utf16_encode)

lemma net_unicode_bytes:
  assumes "net_supplies tail (utf16_le str @ c) r" and "valid_string str" and "n = 2 * length (encode_utf16 str)"
  shows "\<exists>r'. read_unicode_with_byte_length n r = (Inr str, r') \<and> net_supplies tail c r'"
  using net_bytes [of tail "utf16_le str" c r n] assms decode_utf16_le [of str]
  by (auto simp: read_unicode_with_byte_length_def rbind_def utf16_le_def)

lemma nat_le_2: "nat_le 2 v = [word_of_nat (v mod 256), word_of_nat (v div 256 mod 256)]"
  by (simp add: numeral_2_eq_2)

lemma us_length_not_null: "k < 65535 \<Longrightarrow> (word_of_nat k :: u16) \<noteq> 0xFFFF"
  using unat_of_nat_u16 [of k] by auto

lemma net_try_slice:
  assumes "net_supplies tail (bs @ c) r" and "bs \<noteq> []"
  shows "on_buf (try_read_slice (length bs)) r = (Inr None, r) \<or>
    (\<exists>r'. on_buf (try_read_slice (length bs)) r = (Inr (Some bs), r') \<and> net_supplies tail c r')"
proof -
  from assms(1) obtain st where d: "delivers st r (bs @ c) tail" by (auto simp: net_supplies_def)
  have inv: "rb_inv (nr_buf r)" using delivers_D(1) [OF d] .
  show ?thesis
  proof (cases "length bs \<le> length (unread (nr_buf r))")
    case True
    from try_read_array_Some [OF inv True] obtain b where
      b: "try_read_array (length bs) (nr_buf r) = (Inr (Some (take (length bs) (unread (nr_buf r)))), b)" "rb_inv b"
        "unread b = drop (length bs) (unread (nr_buf r))" "pending b = pending (nr_buf r)"
        "end_of_message b = end_of_message (nr_buf r)" "max_packet_size b = max_packet_size (nr_buf r)" by blast
    from consume_delivers(1) [OF d True _ b(2-6)] assms(2) unread_prefix [OF d True] b(1) show ?thesis
      by (auto simp: on_buf_def try_read_slice_array [OF inv] net_supplies_def)
  next
    case False
    then show ?thesis by (simp add: on_buf_def try_read_slice_array [OF inv] try_read_array_None [OF inv])
  qed
qed

lemma net_buffered:
  assumes "net_supplies tail c r"
  shows "buffered_slice r = (Inr (unread (nr_buf r)), r)" and "\<exists>rest. c = unread (nr_buf r) @ rest"
proof -
  from assms obtain st where d: "delivers st r c tail" by (auto simp: net_supplies_def)
  show "buffered_slice r = (Inr (unread (nr_buf r)), r)" using delivers_D(1) [OF d] by (rule buffered_slice_unread)
  show "\<exists>rest. c = unread (nr_buf r) @ rest" using unread_prefix [OF d order_refl] by (metis append_take_drop_id take_all order_refl)
qed

lemma net_buffered_take:
  assumes "net_supplies tail c r" and "0 < n" and "n \<le> length (unread (nr_buf r))"
  shows "\<exists>r'. on_buf (try_read_slice n) r = (Inr (Some (take n (unread (nr_buf r)))), r') \<and> net_supplies tail (drop n c) r'"
proof -
  from assms(1) obtain st where d: "delivers st r c tail" by (auto simp: net_supplies_def)
  have inv: "rb_inv (nr_buf r)" using delivers_D(1) [OF d] .
  from try_read_array_Some [OF inv assms(3)] obtain b where
    b: "try_read_array n (nr_buf r) = (Inr (Some (take n (unread (nr_buf r)))), b)" "rb_inv b"
      "unread b = drop n (unread (nr_buf r))" "pending b = pending (nr_buf r)"
      "end_of_message b = end_of_message (nr_buf r)" "max_packet_size b = max_packet_size (nr_buf r)" by blast
  from consume_delivers(1) [OF d assms(3) assms(2) b(2-6)] b(1) show ?thesis
    by (auto simp: on_buf_def try_read_slice_array [OF inv] net_supplies_def)
qed

interpretation net: packet_source network_ops "net_supplies tail" for tail
proof (unfold_locales, goal_cases)
  case (24 c s)
  with net_buffered [of tail c s] show ?case by (simp add: network_ops_def)
next
  case (25 c s bs n)
  with net_buffered [of tail c s] net_buffered_take [of tail c s n] show ?case by (simp add: network_ops_def)
next
  case (23 bs c s n)
  with net_try_slice [of tail bs c s] show ?case by (simp add: network_ops_def)
next
  case (10 bs c s)
  then have "net_supplies tail (word_of_nat (length bs) # bs @ c) s" by (simp add: b_varbyte_def)
  from net_byte [OF this] obtain s1 where "read_byte s = (Inr (word_of_nat (length bs)), s1)" "net_supplies tail (bs @ c) s1" by blast
  with net_bytes [of tail bs c s1] 10(2) show ?case
    by (auto simp: network_ops_def read_u8_varbyte_def rbind_def unat_of_nat_u8)
next
  case (11 bs c s)
  then have "net_supplies tail (to_le_u16 (word_of_nat (length bs)) @ bs @ c) s" by (simp add: us_varbyte_def)
  from net_u16 [OF this] obtain s1 where "read_uint16 s = (Inr (word_of_nat (length bs)), s1)" "net_supplies tail (bs @ c) s1" by blast
  with net_bytes [of tail bs c s1] 11(2) show ?case
    by (auto simp: network_ops_def read_u16_varbyte_def rbind_def unat_of_nat_u16)
next
  case (12 str c s)
  let ?n = "length (encode_utf16 str)"
  from 12 have "net_supplies tail (word_of_nat ?n # utf16_le str @ c) s" by (simp add: b_varchar_def)
  from net_byte [OF this] obtain s1 where "read_byte s = (Inr (word_of_nat ?n), s1)" "net_supplies tail (utf16_le str @ c) s1" by blast
  with net_unicode_bytes [of tail str c s1 "?n * 2"] 12(2) show ?case
    by (auto simp: network_ops_def read_varchar_u8_length_def rbind_def unat_of_nat_u8 fits_b_def)
next
  case (13 str c s)
  let ?n = "length (encode_utf16 str)"
  from 13 have "net_supplies tail (to_le_u16 (word_of_nat ?n) @ utf16_le str @ c) s" by (simp add: us_varchar_def)
  from net_u16 [OF this] obtain s1 where "read_uint16 s = (Inr (word_of_nat ?n), s1)" "net_supplies tail (utf16_le str @ c) s1" by blast
  with net_unicode_bytes [of tail str c s1 "?n * 2"] 13(2) us_length_not_null [of ?n] show ?case
    by (auto simp: network_ops_def read_varchar_u16_length_def rbind_def unat_of_nat_u16 fits_us_def)
next
  case (16 c s)
  moreover have "to_le_u16 0xFFFF = [0xFF, 0xFF]" by (simp add: to_le_u16_def nat_le_2)
  ultimately have "net_supplies tail (to_le_u16 0xFFFF @ c) s" by simp
  from net_u16 [OF this] show ?case by (auto simp: network_ops_def read_varchar_u16_length_def rbind_def)
next
  case (17 bs c s)
  with net_retry [of tail bs c s 3] show ?case by (auto simp: network_ops_def rbind_def read_uint24_def)
next
  case (18 bs c s)
  with net_retry [of tail bs c s 5] show ?case by (auto simp: network_ops_def rbind_def read_uint40_def)
next
  case (19 x c s)
  with net_retry [of tail "to_le_u16 x" c s 2] show ?case
    by (auto simp: network_ops_def rbind_def codec_simps read_int16_def)
next
  case (20 y c s)
  with net_retry [of tail "to_le_u32 y" c s 4] show ?case
    by (auto simp: network_ops_def rbind_def codec_simps read_int32_def)
next
  case (21 y c s)
  with net_retry [of tail "to_le_u32 y" c s 4] show ?case
    by (auto simp: network_ops_def rbind_def codec_simps read_float32_def)
next
  case (22 z c s)
  with net_retry [of tail "to_le_u64 z" c s 8] show ?case
    by (auto simp: network_ops_def rbind_def codec_simps read_float64_def)
qed (use net_byte net_u16 net_bytes net_skip net_unicode_bytes
      net_retry [where k = 4] net_retry [where k = 8] net_sliced [where k = 2] net_sliced [where k = 4] net_sliced [where k = 8]
      in \<open>fastforce simp: network_ops_def rbind_def codec_simps read_uint32_def read_int64_def read_uint64_def
        read_int16_big_endian_def read_int32_big_endian_def read_unicode_def mult.commute\<close>)+

end
