(* ===== verification/Reader_Progress.thy ===== *)
theory Reader_Progress
  imports Packet_Source
begin

text \<open>
  Every read uses up input. The measure \<open>nr_left\<close> counts the unread bytes of the buffer and what
  the connection may still bring; a read of \<open>k\<close> bytes lowers it by at least \<open>k\<close>. The loops of the
  token layer that run until the peer says stop rely on it through the locale \<open>finite_source\<close>.
\<close>

definition nr_left :: "network_reader \<Rightarrow> nat" where
  "nr_left r = get_remaining_byte_count (nr_buf r) + inflow r"

definition uses :: "nat \<Rightarrow> network_reader \<Rightarrow> 'a tds_result \<times> network_reader \<Rightarrow> bool" where
  "uses k r x \<longleftrightarrow> (\<forall>a. fst x = Inr a \<longrightarrow> nr_left (snd x) + k \<le> nr_left r)"

lemma usesI: "(\<And>a r'. x = (Inr a, r') \<Longrightarrow> nr_left r' + k \<le> nr_left r) \<Longrightarrow> uses k r x"
  by (cases x) (auto simp: uses_def)

lemma uses_Inr [simp]: "uses k r (Inr a, r') \<longleftrightarrow> nr_left r' + k \<le> nr_left r"
  by (simp add: uses_def)

lemma uses_Inl [simp]: "uses k r (Inl e, r')"
  by (simp add: uses_def)

lemma uses_rbind:
  assumes "uses j r (m r)" and "\<And>a r'. m r = (Inr a, r') \<Longrightarrow> uses k r' (f a r')" and "n \<le> j + k"
  shows "uses n r (rbind m f r)"
proof (cases "m r")
  case (Pair x r')
  show ?thesis
  proof (cases x)
    case (Inr a)
    with Pair assms show ?thesis by (fastforce simp: uses_def rbind_def)
  qed (simp add: Pair rbind_def)
qed

lemma uses_map: "uses k r (m r) \<Longrightarrow> uses k r (rbind m (\<lambda>a. rret (f a)) r)"
  by (rule uses_rbind [where k = 0]) auto


section \<open>Packets\<close>

lemma packet_loop_left:
  "packet_loop base n r = (Inr k, r') \<Longrightarrow> inflow r' + k \<le> n + stream_size (nr_incoming r) \<and> 8 \<le> k \<and>
     buffer_length (nr_buf r') = buffer_length (nr_buf r) \<and> buffer_position (nr_buf r') = buffer_position (nr_buf r)"
proof (induction base n r rule: packet_loop.induct)
  case (1 base n r)
  obtain x r1 where c: "on_buf (complete_tds_packet_if_available base n) r = (x, r1)" by fastforce
  note step = "1.prems" [unfolded packet_loop.simps [of base n r] c]
  from step obtain o' where x: "x = Inr o'" by (cases x) auto
  obtain b where b: "complete_tds_packet_if_available base n (nr_buf r) = (Inr o', b)" "r1 = r\<lparr>nr_buf := b\<rparr>"
    using c x by (auto elim: on_buf_InrE)
  show ?case
  proof (cases o')
    case (Some m)
    from step x Some have "r' = r1" "k = m" by simp_all
    moreover have "buffer_length b = buffer_length (nr_buf r)" "buffer_position b = buffer_position (nr_buf r)"
      using b(1) Some
      by (auto simp: complete_tds_packet_if_available_def Let_def split: if_splits option.splits)
    ultimately show ?thesis
      using complete_Some [of base n "nr_buf r" m b] b Some by (simp add: inflow_def)
  next
    case None
    with complete_None b have r1: "r1 = r" by fastforce
    note step' = step [unfolded x None r1 prod.case sum.case option.case]
    from step' obtain bs es where
      rd: "stream_read (length (working_buffer (nr_buf r)) - (base + n)) (nr_incoming r) = (Inr bs, es)" "bs \<noteq> []"
      and st: "nr_stream_open r" "\<not> length (working_buffer (nr_buf r)) < base + n"
      and rest: "packet_loop base (n + length bs) (received (base + n) bs es r) = (Inr k, r')"
      by (auto split: if_splits prod.splits sum.splits)
    have "inflow r' + k \<le> n + length bs + stream_size (nr_incoming (received (base + n) bs es r)) \<and> 8 \<le> k \<and>
      buffer_length (nr_buf r') = buffer_length (nr_buf (received (base + n) bs es r)) \<and>
      buffer_position (nr_buf r') = buffer_position (nr_buf (received (base + n) bs es r))"
      by (rule "1.IH" [OF c [unfolded x None r1, symmetric] refl refl _ st(2) rd(1) [symmetric] refl rd(2) rest])
         (use st in simp)
    with stream_read_size [OF rd] show ?thesis by (simp add: received_def)
  qed
qed

lemma get_new_left:
  assumes "get_new_tds_packet r = (Inr k, r')"
  shows "inflow r' + k \<le> inflow r \<and> 8 \<le> k \<and> buffer_length (nr_buf r') = buffer_length (nr_buf r) \<and>
    buffer_position (nr_buf r') = buffer_position (nr_buf r)"
proof -
  from assms obtain n r3 where mv: "on_buf (move_pending_packet_bytes (buffer_length (nr_buf r))) r = (Inr n, r3)"
    and lp: "packet_loop (buffer_length (nr_buf r)) n r3 = (Inr k, r')"
    by (auto simp: get_new_tds_packet_def Let_def elim: rbind_InrE)
  from mv have "n = pending_bytes (nr_buf r)" "nr_incoming r3 = nr_incoming r"
    "buffer_length (nr_buf r3) = buffer_length (nr_buf r)" "buffer_position (nr_buf r3) = buffer_position (nr_buf r)"
    by (auto simp: move_pending_packet_bytes_def Let_def split: if_splits option.splits elim!: on_buf_InrE)
  with packet_loop_left [OF lp] show ?thesis by (simp add: inflow_def)
qed

lemma read_tds_packet_uses: "uses 8 r (read_tds_packet r)"
proof (rule usesI)
  fix u r' assume rd: "read_tds_packet r = (Inr u, r')"
  let ?prep = "if get_remaining_byte_count (nr_buf r) > 0 then on_buf shift_data_to_front else update_buf (reset_to_length 0)"
  have "rbind ?prep (\<lambda>_. rbind get_new_tds_packet (\<lambda>n. on_buf (remove_header_from_packet n))) r = (Inr u, r')"
    using rd by (simp add: read_tds_packet_def split: if_splits)
  then obtain v r1 k r2 where p: "?prep r = (Inr v, r1)" and g: "get_new_tds_packet r1 = (Inr k, r2)"
    and h: "on_buf (remove_header_from_packet k) r2 = (Inr u, r')" by (auto elim!: rbind_InrE)
  have p': "inflow r1 = inflow r" "buffer_position (nr_buf r1) = 0"
    "buffer_length (nr_buf r1) = get_remaining_byte_count (nr_buf r)"
    using p by (auto simp: shift_data_to_front_def update_buf_def reset_to_length_def inflow_def get_remaining_byte_count_def Let_def
        split: if_splits option.splits elim!: on_buf_InrE)
  note g' = get_new_left [OF g]
  have "inflow r' = inflow r2" "buffer_position (nr_buf r') = buffer_position (nr_buf r2)"
    "buffer_length (nr_buf r') = buffer_length (nr_buf r2) + (k - 8)"
    using h by (auto simp: remove_header_from_packet_def inflow_def split: option.splits if_splits elim!: on_buf_InrE)
  with p' g' show "nr_left r' + 8 \<le> nr_left r" by (simp add: nr_left_def get_remaining_byte_count_def)
qed



section \<open>Reads\<close>

lemma refill_for_uses: "uses 8 r (refill_for k r)"
  using read_tds_packet_uses by (simp add: refill_for_def)

lemma consume_uses: "uses n r (on_buf (consume_bytes n) r)"
  by (rule usesI)
     (auto simp: consume_bytes_def nr_left_def inflow_def get_remaining_byte_count_def split: if_splits elim!: on_buf_InrE)

lemma try_read_array_uses:
  "on_buf (try_read_array n) r = (Inr obs, r') \<Longrightarrow> nr_left r' + (case obs of None \<Rightarrow> 0 | Some bs \<Rightarrow> n) \<le> nr_left r"
  using consume_uses [of n r]
  by (auto simp: try_read_array_def on_buf_def consume_bytes_def split: if_splits option.splits prod.splits sum.splits)

lemma try_read_slice_uses:
  "on_buf (try_read_slice n) r = (Inr obs, r') \<Longrightarrow> nr_left r' + (case obs of None \<Rightarrow> 0 | Some bs \<Rightarrow> n) \<le> nr_left r"
  using consume_uses [of n r]
  by (auto simp: try_read_slice_def on_buf_def consume_bytes_def split: if_splits option.splits prod.splits sum.splits)

lemma read_retry_uses: "uses k r (read_retry k r)"
proof (induction k r rule: read_retry.induct)
  case (1 k r)
  show ?case
  proof (cases "on_buf (try_read_array k) r")
    case (Pair x r1)
    note t = this
    show ?thesis
    proof (cases x)
      case (Inl e)
      with t show ?thesis by (subst read_retry.simps) simp
    next
      case (Inr obs)
      show ?thesis
      proof (cases obs)
        case None
        have "uses k r1 (rbind (refill_for k) (\<lambda>_. read_retry k) r1)"
          using refill_for_uses by (rule uses_rbind) (use "1.IH" [OF t [symmetric]] Inr None in auto)
        moreover have "nr_left r1 \<le> nr_left r" using try_read_array_uses [of k r] t Inr None by simp
        moreover have "read_retry k r = rbind (refill_for k) (\<lambda>_. read_retry k) r1"
          using t Inr None by (subst read_retry.simps) simp
        ultimately show ?thesis by (auto simp: uses_def)
      next
        case (Some bs)
        with t Inr try_read_array_uses [of k r] show ?thesis by (subst read_retry.simps) simp
      qed
    qed
  qed
qed

lemma ensure_data_uses: "uses 0 r (ensure_data k r)"
proof (induction k r rule: ensure_data.induct)
  case (1 k r)
  show ?case
  proof (cases "do_we_have_enough_data k (nr_buf r)")
    case True
    then show ?thesis by (subst ensure_data.simps) simp
  next
    case False
    have "uses 0 r (rbind (refill_for k) (\<lambda>_. ensure_data k) r)"
      using refill_for_uses by (rule uses_rbind) (use "1.IH" [OF False] in auto)
    with False show ?thesis by (subst ensure_data.simps) simp
  qed
qed

lemma read_sliced_uses: "uses k r (read_sliced k r)"
  unfolding read_sliced_def
proof (rule uses_rbind [OF ensure_data_uses])
  fix u r1 assume "ensure_data k r = (Inr u, r1)"
  show "uses k r1 (case get_slice (nr_buf r1) of None \<Rightarrow> (Inl Panic, r1)
      | Some s \<Rightarrow> if length s < k then (Inl Panic, r1) else rbind (on_buf (consume_bytes k)) (\<lambda>_. rret (take k s)) r1)"
    using uses_map [of k r1 "on_buf (consume_bytes k)"] consume_uses [of k r1] by (auto split: option.splits)
qed simp

lemma bulk_round_uses: "uses 0 r (bulk_round th n r)"
  unfolding bulk_round_def
  by (rule uses_rbind [where j = 0 and k = 0]) (use read_tds_packet_uses [of r] in \<open>auto simp: uses_def split: if_splits\<close>)

lemma copy_out_uses: "uses n r (copy_out n r)"
  using uses_map [of n r "on_buf (consume_bytes n)"] consume_uses [of n r] by (auto simp: copy_out_def Let_def split: option.splits)

lemma copy_out_length: "copy_out n r = (Inr bs, r') \<Longrightarrow> length bs = n"
  by (auto simp: copy_out_def slice_get_def Let_def split: option.splits if_splits elim!: rbind_InrE)

lemma read_bytes_loop_uses: "uses (n - length acc) r (read_bytes_loop n acc e r)"
proof (induction n acc e r rule: read_bytes_loop.induct)
  case (1 n acc e r)
  let ?left = "n - length acc" and ?th = "min (max_packet_size (nr_buf r)) (n - length acc)"
  show ?case
  proof (cases "?left = 0 \<or> value_truncated_by_message_end (acc \<noteq> []) ?left r")
    case True
    then show ?thesis by (subst read_bytes_loop.simps) (auto simp: Let_def)
  next
    case False
    let ?next = "\<lambda>to_read r'. if to_read = 0 then
        (case empty_round (acc \<noteq> []) ?left e r' of Some x \<Rightarrow> (Inl x, r') | None \<Rightarrow> read_bytes_loop n acc (e + 1) r')
      else rbind (copy_out to_read) (\<lambda>bs. read_bytes_loop n (acc @ bs) e) r'"
    have "uses ?left r (rbind (bulk_round ?th ?left) ?next r)"
    proof (rule uses_rbind [OF bulk_round_uses])
      fix k r1 assume b: "bulk_round ?th ?left r = (Inr k, r1)"
      have more: "uses (n - length (acc @ bs)) r2 (read_bytes_loop n (acc @ bs) e r2)"
        if "copy_out k r1 = (Inr bs, r2)" "k \<noteq> 0" for bs r2
        using "1.IH"(2) [OF refl _ _ b that(2,1)] False by auto
      have "uses ?left r1 (rbind (copy_out k) (\<lambda>bs. read_bytes_loop n (acc @ bs) e) r1)" if "k \<noteq> 0"
        by (rule uses_rbind [OF copy_out_uses, where k = "?left - k"])
           (use more [OF _ that] copy_out_length in fastforce)+
      moreover have "uses ?left r1 (read_bytes_loop n acc (e + 1) r1)" if "k = 0" "empty_round (acc \<noteq> []) ?left e r1 = None"
        using "1.IH"(1) [OF refl _ _ b that] False by auto
      ultimately show "uses ?left r1 (?next k r1)" by (auto split: option.splits)
    qed simp
    with False show ?thesis by (subst read_bytes_loop.simps) (simp add: Let_def)
  qed
qed

lemma read_bytes_uses: "uses n r (read_bytes n r)"
  using read_bytes_loop_uses [of n "[]" r 0] by (simp add: read_bytes_def)

lemma skip_bytes_loop_uses: "uses left r (skip_bytes_loop n left e r)"
proof (induction n left e r rule: skip_bytes_loop.induct)
  case (1 n left e r)
  let ?th = "min (max_packet_size (nr_buf r) - 8) left"
  show ?case
  proof (cases "left = 0 \<or> value_truncated_by_message_end (left < n) left r \<or> max_packet_size (nr_buf r) < 8")
    case True
    then show ?thesis by (subst skip_bytes_loop.simps) auto
  next
    case False
    let ?next = "\<lambda>to_read r'. if to_read = 0 then
        (case empty_round (left < n) left e r' of Some x \<Rightarrow> (Inl x, r') | None \<Rightarrow> skip_bytes_loop n left (e + 1) r')
      else rbind (on_buf (consume_bytes to_read)) (\<lambda>_. skip_bytes_loop n (left - to_read) e) r'"
    have "uses left r (rbind (bulk_round ?th left) ?next r)"
    proof (rule uses_rbind [OF bulk_round_uses])
      fix k r1 assume b: "bulk_round ?th left r = (Inr k, r1)"
      have "uses left r1 (rbind (on_buf (consume_bytes k)) (\<lambda>_. skip_bytes_loop n (left - k) e) r1)" if "k \<noteq> 0"
        by (rule uses_rbind [OF consume_uses, where k = "left - k"]) (use "1.IH"(2) [OF _ _ _ b that] False in auto)
      moreover have "uses left r1 (skip_bytes_loop n left (e + 1) r1)" if "k = 0" "empty_round (left < n) left e r1 = None"
        using "1.IH"(1) [OF _ _ _ b that] False by auto
      ultimately show "uses left r1 (?next k r1)" by (auto split: option.splits)
    qed simp
    with False show ?thesis by (subst skip_bytes_loop.simps) simp
  qed
qed

lemma read_byte_uses: "uses 1 r (read_byte r)"
  unfolding read_byte_def by (intro uses_map read_retry_uses)

lemma read_uint16_uses: "uses 2 r (read_uint16 r)"
  unfolding read_uint16_def by (intro uses_map read_retry_uses)

lemma unicode_bytes_uses: "uses n r (read_unicode_with_byte_length n r)"
  unfolding read_unicode_with_byte_length_def
  by (rule uses_rbind [OF read_bytes_uses, where k = 0]) (auto simp: uses_def)

lemma varbyte_uses:
  "uses 1 r (read_u8_varbyte r)" "uses 2 r (read_u16_varbyte r)"
  "uses 1 r (read_varchar_u8_length r)" "uses 2 r (read_varchar_u16_length r)"
proof -
  have any: "uses 0 r' (read_bytes n r')" "uses 0 r' (read_unicode_with_byte_length n r')" for n r'
    using read_bytes_uses [of n r'] unicode_bytes_uses [of n r'] by (auto simp: uses_def)
  show "uses 1 r (read_u8_varbyte r)" "uses 2 r (read_u16_varbyte r)" "uses 1 r (read_varchar_u8_length r)"
    unfolding read_u8_varbyte_def read_u16_varbyte_def read_varchar_u8_length_def
    by (rule uses_rbind [OF read_byte_uses any(1)], simp, rule uses_rbind [OF read_uint16_uses any(1)], simp,
        rule uses_rbind [OF read_byte_uses any(2)], simp)
  have map: "uses 0 r' (rbind (read_unicode_with_byte_length n) (\<lambda>s. rret (Some s)) r')" for n r'
    using any(2) by (rule uses_map)
  show "uses 2 r (read_varchar_u16_length r)"
    unfolding read_varchar_u16_length_def
    by (rule uses_rbind [OF read_uint16_uses, where k = 0]) (use map in auto)
qed


section \<open>The interface\<close>

locale finite_source = safe_source ops safe for ops :: "'s packet_reader_ops" and safe +
  fixes left :: "'s \<Rightarrow> nat"
  assumes byte_left: "rd_byte ops s = (Inr x8, s') \<Longrightarrow> left s' + 1 \<le> left s"
    and u16_left: "rd_u16 ops s = (Inr x16, s') \<Longrightarrow> left s' + 2 \<le> left s"
    and u24_left: "rd_u24 ops s = (Inr x32, s') \<Longrightarrow> left s' + 3 \<le> left s"
    and u32_left: "rd_u32 ops s = (Inr x32, s') \<Longrightarrow> left s' + 4 \<le> left s"
    and u40_left: "rd_u40 ops s = (Inr x64, s') \<Longrightarrow> left s' + 5 \<le> left s"
    and i64_left: "rd_i64 ops s = (Inr x64, s') \<Longrightarrow> left s' + 8 \<le> left s"
    and u64_left: "rd_u64 ops s = (Inr x64, s') \<Longrightarrow> left s' + 8 \<le> left s"
    and i16_left: "rd_i16 ops s = (Inr x16, s') \<Longrightarrow> left s' + 2 \<le> left s"
    and i32_left: "rd_i32 ops s = (Inr x32, s') \<Longrightarrow> left s' + 4 \<le> left s"
    and f32_left: "rd_f32 ops s = (Inr x32, s') \<Longrightarrow> left s' + 4 \<le> left s"
    and f64_left: "rd_f64 ops s = (Inr x64, s') \<Longrightarrow> left s' + 8 \<le> left s"
    and i16_be_left: "rd_i16_be ops s = (Inr x16, s') \<Longrightarrow> left s' + 2 \<le> left s"
    and i32_be_left: "rd_i32_be ops s = (Inr x32, s') \<Longrightarrow> left s' + 4 \<le> left s"
    and bytes_left: "rd_bytes ops n s = (Inr bs, s') \<Longrightarrow> left s' + n \<le> left s"
    and skip_left: "rd_skip ops n s = (Inr u, s') \<Longrightarrow> left s' + n \<le> left s"
    and u8_varbyte_left: "rd_u8_varbyte ops s = (Inr bs, s') \<Longrightarrow> left s' + 1 \<le> left s"
    and u16_varbyte_left: "rd_u16_varbyte ops s = (Inr bs, s') \<Longrightarrow> left s' + 2 \<le> left s"
    and varchar_u16_left: "rd_varchar_u16 ops s = (Inr ostr, s') \<Longrightarrow> left s' + 2 \<le> left s"
    and varchar_u8_left: "rd_varchar_u8 ops s = (Inr str, s') \<Longrightarrow> left s' + 1 \<le> left s"
    and unicode_left: "rd_unicode ops n s = (Inr str, s') \<Longrightarrow> left s' + 2 * n \<le> left s"
    and unicode_bytes_left: "rd_unicode_bytes ops n s = (Inr str, s') \<Longrightarrow> left s' + n \<le> left s"
    and try_slice_left: "rd_try_slice ops n s = (Inr obs, s') \<Longrightarrow> left s' + (case obs of None \<Rightarrow> 0 | Some bs \<Rightarrow> n) \<le> left s"

lemmas scalar_read_defs = read_uint24_def read_uint32_def read_uint40_def read_int64_def read_uint64_def
  read_int16_def read_int32_def read_float32_def read_float64_def read_int16_big_endian_def read_int32_big_endian_def

lemma scalar_read_uses:
  "uses 3 r (read_uint24 r)" "uses 4 r (read_uint32 r)" "uses 5 r (read_uint40 r)" "uses 8 r (read_int64 r)"
  "uses 8 r (read_uint64 r)" "uses 2 r (read_int16 r)" "uses 4 r (read_int32 r)" "uses 4 r (read_float32 r)"
  "uses 8 r (read_float64 r)" "uses 2 r (read_int16_big_endian r)" "uses 4 r (read_int32_big_endian r)"
  unfolding scalar_read_defs by (intro uses_map read_retry_uses read_sliced_uses)+

lemma bulk_read_uses:
  "uses n r (skip_bytes n r)" "uses (2 * n) r (read_unicode n r)"
  using skip_bytes_loop_uses [of n r n 0] unicode_bytes_uses [of "n * 2" r]
  by (simp_all add: skip_bytes_def read_unicode_def mult.commute)

lemmas read_uses = read_byte_uses read_uint16_uses scalar_read_uses read_bytes_uses bulk_read_uses varbyte_uses unicode_bytes_uses

interpretation net: finite_source network_ops reader_safe nr_left
  by (unfold_locales; unfold network_ops_def packet_reader_ops.simps)
     (erule try_read_slice_uses | (rule uses_Inr [THEN iffD1], erule subst, rule read_uses))+

end
