(* ===== verification/Token_Parsers.thy ===== *)
theory Token_Parsers
  imports Tds_Tokens Reader_Progress
begin

text \<open>
  The token parsers of \<^verbatim>\<open>mssql-tds/src/token/parsers\<close> that need no column metadata. As in the
  source they are generic in the packet reader, here a record of operations. Inside the reader
  interfaces each parser is shown to return the token of its wire form, never to panic, and to
  use up input.
\<close>

definition rlift :: "'a tds_result \<Rightarrow> ('s, 'a) action" where
  "rlift r s = (r, s)"

definition unwrap_or_default :: "rstring option \<Rightarrow> rstring" where
  "unwrap_or_default str = (case str of None \<Rightarrow> [] | Some v \<Rightarrow> v)"


section \<open>DONE, DONEPROC and DONEINPROC\<close>

definition DONE_PAYLOAD_LEN :: nat where "DONE_PAYLOAD_LEN = 12"

definition buffered_done_token :: "bytes \<Rightarrow> done_token option" where
  "buffered_done_token bs =
     (if length bs < DONE_PAYLOAD_LEN then None
      else Some \<lparr>dn_status = done_status_from (from_le_u16 (seg 0 2 bs)),
                 dn_cur_cmd = current_command_from (from_le_u16 (seg 2 4 bs)),
                 dn_row_count = from_le_u64 (seg 4 12 bs)\<rparr>)"

definition read_done_token :: "'s packet_reader_ops \<Rightarrow> ('s, done_token) action" where
  "read_done_token ops =
     rbind (rd_try_slice ops DONE_PAYLOAD_LEN) (\<lambda>buffered.
       case buffered of
         Some bs \<Rightarrow> (case buffered_done_token bs of
             Some t \<Rightarrow> rret t
           | None \<Rightarrow> rfail (ProtocolError ''Buffered DONE payload is incomplete''))
       | None \<Rightarrow>
           rbind (rd_u16 ops) (\<lambda>status.
           rbind (rd_u16 ops) (\<lambda>command.
           rbind (rd_u64 ops) (\<lambda>row_count.
           rret \<lparr>dn_status = done_status_from status, dn_cur_cmd = current_command_from command,
                 dn_row_count = row_count\<rparr>))))"


section \<open>ERROR and INFO\<close>

definition parse_error :: "'s packet_reader_ops \<Rightarrow> ('s, error_token) action" where
  "parse_error ops =
     rbind (rd_u16 ops) (\<lambda>_.
     rbind (rd_u32 ops) (\<lambda>number.
     rbind (rd_byte ops) (\<lambda>state.
     rbind (rd_byte ops) (\<lambda>severity.
     rbind (rd_varchar_u16 ops) (\<lambda>msg.
     rbind (rd_varchar_u8 ops) (\<lambda>server_name.
     rbind (rd_varchar_u8 ops) (\<lambda>proc_name.
     rbind (rd_u32 ops) (\<lambda>line_number.
     rret \<lparr>er_number = number, er_state = state, er_severity = severity,
           er_message = unwrap_or_default msg, er_server_name = server_name,
           er_proc_name = proc_name, er_line_number = line_number\<rparr>))))))))"

text \<open>The INFO parser reads the same fields in the same order.\<close>

definition parse_info :: "'s packet_reader_ops \<Rightarrow> ('s, error_token) action" where
  "parse_info ops =
     rbind (rd_u16 ops) (\<lambda>_.
     rbind (rd_u32 ops) (\<lambda>number.
     rbind (rd_byte ops) (\<lambda>state.
     rbind (rd_byte ops) (\<lambda>severity.
     rbind (rd_varchar_u16 ops) (\<lambda>msg.
     rbind (rd_varchar_u8 ops) (\<lambda>server_name.
     rbind (rd_varchar_u8 ops) (\<lambda>proc_name.
     rbind (rd_u32 ops) (\<lambda>line_number.
     rret \<lparr>er_number = number, er_state = state, er_severity = severity,
           er_message = unwrap_or_default msg, er_server_name = server_name,
           er_proc_name = proc_name, er_line_number = line_number\<rparr>))))))))"


section \<open>ORDER, RETURNSTATUS, SSPI, TABNAME, COLINFO\<close>

primrec read_u16s :: "'s packet_reader_ops \<Rightarrow> nat \<Rightarrow> ('s, u16 list) action" where
  "read_u16s ops 0 = rret []"
| "read_u16s ops (Suc n) = rbind (rd_u16 ops) (\<lambda>x. rbind (read_u16s ops n) (\<lambda>xs. rret (x # xs)))"

definition parse_order :: "'s packet_reader_ops \<Rightarrow> ('s, u16 list) action" where
  "parse_order ops = rbind (rd_u16 ops) (\<lambda>len. read_u16s ops (unat (len div 2)))"

definition read_return_status :: "'s packet_reader_ops \<Rightarrow> ('s, u32) action" where
  "read_return_status ops =
     rbind (rd_try_slice ops 4) (\<lambda>buffered.
       case buffered of
         Some bs \<Rightarrow> if length bs < 4 then rfail Panic else rret (from_le_u32 (take 4 bs))
       | None \<Rightarrow> rd_i32 ops)"

definition parse_sspi :: "'s packet_reader_ops \<Rightarrow> ('s, bytes) action" where
  "parse_sspi ops =
     rbind (rd_u16 ops) (\<lambda>len. if 0 < len then rd_bytes ops (unat len) else rret [])"

definition parse_tab_name :: "'s packet_reader_ops \<Rightarrow> ('s, unit) action" where
  "parse_tab_name ops = rbind (rd_u16 ops) (\<lambda>len. rd_skip ops (unat len))"

definition parse_col_info :: "'s packet_reader_ops \<Rightarrow> ('s, unit) action" where
  "parse_col_info ops = rbind (rd_u16 ops) (\<lambda>len. rd_skip ops (unat len))"


section \<open>LOGINACK\<close>

definition parse_login_ack :: "'s packet_reader_ops \<Rightarrow> ('s, login_ack_token) action" where
  "parse_login_ack ops =
     rbind (rd_u16 ops) (\<lambda>_.
     rbind (rd_byte ops) (\<lambda>interface.
     rbind (rd_i32_be ops) (\<lambda>tds_version.
     rbind (rd_varchar_u8 ops) (\<lambda>prog_name.
     rbind (rd_byte ops) (\<lambda>major.
     rbind (rd_byte ops) (\<lambda>minor.
     rbind (rd_byte ops) (\<lambda>build_hi.
     rbind (rd_byte ops) (\<lambda>build_low.
     rret \<lparr>la_interface_type = sql_interface_type_from interface,
           la_tds_version = tds_version_from tds_version, la_prog_name = prog_name,
           la_prog_version = \<lparr>vr_major = major, vr_minor = minor,
             vr_build = push_bit 8 (ucast build_hi) OR ucast build_low, vr_revision = 0\<rparr>\<rparr>))))))))"


section \<open>FEATUREEXTACK\<close>

definition MAX_ALLOWED_FE_DATA_IN_BYTES :: nat where "MAX_ALLOWED_FE_DATA_IN_BYTES = 1024"

text \<open>
  The source loops until the terminator. A step of fuel is one feature; without fuel the loop has
  not returned.
\<close>

primrec feature_loop :: "'s packet_reader_ops \<Rightarrow> nat \<Rightarrow> (feature_extension \<times> bytes) list \<Rightarrow>
    ('s, (feature_extension \<times> bytes) list) action" where
  "feature_loop ops 0 features = rfail Diverge"
| "feature_loop ops (Suc fuel) features =
     rbind (rd_byte ops) (\<lambda>b.
       if feature_extension_from b = FE_Terminator then rret features
       else rbind (rd_u32 ops) (\<lambda>data_length.
         if unat data_length > MAX_ALLOWED_FE_DATA_IN_BYTES
         then rfail (ProtocolError ''FeatureExtAck data length too large: bytes. Possible DoS attack.'')
         else rbind (if data_length > 0 then rd_bytes ops (unat data_length) else rret [])
           (\<lambda>data. feature_loop ops fuel (features @ [(feature_extension_from b, data)]))))"

definition parse_feature_ext_ack :: "'s packet_reader_ops \<Rightarrow> nat \<Rightarrow> ('s, (feature_extension \<times> bytes) list) action" where
  "parse_feature_ext_ack ops fuel = feature_loop ops fuel []"


section \<open>SESSIONSTATE\<close>

definition MAX_SESSION_STATE_TOKEN_BYTES :: nat where "MAX_SESSION_STATE_TOKEN_BYTES = 1024 * 1024"

text \<open>The length of one state: one byte, or four more after \<^verbatim>\<open>0xFF\<close>. It returns the count of bytes read.\<close>

definition read_state_len :: "'s packet_reader_ops \<Rightarrow> nat \<Rightarrow> nat \<Rightarrow> ('s, nat \<times> nat) action" where
  "read_state_len ops total_length bytes_read =
     rbind (rd_byte ops) (\<lambda>len_byte.
       if len_byte = 0xFF then
         if bytes_read + 1 + 4 > total_length
         then rfail (ProtocolError ''SESSIONSTATE: unexpected end of token reading extended state_len'')
         else rbind (rd_u32 ops) (\<lambda>extended_len. rret (unat extended_len, bytes_read + 1 + 4))
       else rret (unat len_byte, bytes_read + 1))"

lemma read_state_len_bytes:
  "read_state_len ops total_length n s = (Inr (len, n'), s') \<Longrightarrow> n < n'"
  by (auto simp: read_state_len_def split: if_splits elim!: rbind_InrE)

function session_states :: "'s packet_reader_ops \<Rightarrow> u8 \<Rightarrow> nat \<Rightarrow> nat \<Rightarrow> session_state_entry list \<Rightarrow>
    ('s, session_state_entry list) action" where
  "session_states ops status total_length bytes_read states s =
     (if \<not> bytes_read < total_length then (Inr states, s)
      else if bytes_read + 1 > total_length
      then (Inl (ProtocolError ''SESSIONSTATE: unexpected end of token reading state_id''), s)
      else rbind (rd_byte ops) (\<lambda>state_id s.
        if bytes_read + 1 + 1 > total_length
        then (Inl (ProtocolError ''SESSIONSTATE: unexpected end of token reading state_len''), s)
        else rbind (read_state_len ops total_length (bytes_read + 1)) (\<lambda>len_read s.
          if fst len_read > total_length - snd len_read
          then (Inl (ProtocolError ''SESSIONSTATE: state data length exceeds remaining token bytes''), s)
          else rbind (if fst len_read > 0 then rd_bytes ops (fst len_read) else rret []) (\<lambda>data.
            session_states ops status total_length (snd len_read + fst len_read)
              (states @ [\<lparr>se_state_id = state_id, se_recoverable = (status AND 0x01 \<noteq> 0), se_data = data\<rparr>])) s) s) s)"
  by pat_completeness auto
termination
proof (relation "measure (\<lambda>(ops, status, total_length, n, states, s). total_length - n)", goal_cases)
  case (2 ops status total_length n states s state_id s1 len_read s2 data s3)
  then show ?case using read_state_len_bytes [of ops total_length "n + 1" s1 "fst len_read" "snd len_read" s2] by simp
qed simp

declare session_states.simps [simp del]

lemma session_states_done: "\<not> n < total_length \<Longrightarrow> session_states ops status total_length n states = rret states"
  by (rule ext) (simp add: session_states.simps)

lemma session_states_step:
  assumes "n < total_length"
  shows "session_states ops status total_length n states =
    rbind (rd_byte ops) (\<lambda>i.
      if n + 1 + 1 > total_length then rfail (ProtocolError ''SESSIONSTATE: unexpected end of token reading state_len'')
      else rbind (read_state_len ops total_length (n + 1)) (\<lambda>lr.
        if fst lr > total_length - snd lr
        then rfail (ProtocolError ''SESSIONSTATE: state data length exceeds remaining token bytes'')
        else rbind (if fst lr > 0 then rd_bytes ops (fst lr) else rret []) (\<lambda>d.
          session_states ops status total_length (snd lr + fst lr)
            (states @ [\<lparr>se_state_id = i, se_recoverable = (status AND 0x01 \<noteq> 0), se_data = d\<rparr>]))))"
  by (rule ext, subst session_states.simps)
     (use assms in \<open>auto simp: rbind_def rfail_def split: prod.splits sum.splits\<close>)

definition parse_session_state :: "'s packet_reader_ops \<Rightarrow> ('s, session_state_token) action" where
  "parse_session_state ops =
     rbind (rd_u32 ops) (\<lambda>total_length.
       if unat total_length > MAX_SESSION_STATE_TOKEN_BYTES
       then rfail (ProtocolError ''SESSIONSTATE token length too large: bytes. Possible DoS attack.'')
       else if unat total_length < 5
       then rfail (ProtocolError ''SESSIONSTATE token too short: bytes (minimum 5)'')
       else rbind (rd_u32 ops) (\<lambda>sequence_number.
         rbind (rd_byte ops) (\<lambda>status.
         rbind (session_states ops status (unat total_length) 5 []) (\<lambda>states.
         rret \<lparr>st_sequence_number = sequence_number, st_status = status, st_states = states\<rparr>))))"


section \<open>FEDAUTHINFO\<close>

definition FEDAUTH_OPTIONS_SIZE :: nat where "FEDAUTH_OPTIONS_SIZE = 9"

text \<open>
  One option of the table: its text lies at an offset counted from the option count field, four
  bytes before the token data. On a 64-bit target the end of the text cannot overflow.
\<close>

definition fed_option_text :: "bytes \<Rightarrow> nat \<Rightarrow> rstring tds_result" where
  "fed_option_text token_data offset =
     (case slice_get (offset + 1) (offset + 5) token_data of
        None \<Rightarrow> Inl (Io ''FedAuth option data length out of bounds'')
      | Some length_slice \<Rightarrow>
        (case slice_get (offset + 5) (offset + 9) token_data of
           None \<Rightarrow> Inl (Io ''FedAuth option offset out of bounds'')
         | Some offset_slice \<Rightarrow>
             let data_length = unat (from_le_u32 length_slice); raw_offset = unat (from_le_u32 offset_slice) in
             if raw_offset < 4 then Inl (Io ''FedAuth option offset too small (underflow)'')
             else case slice_get (raw_offset - 4) (raw_offset - 4 + data_length) token_data of
                    None \<Rightarrow> Inl (Io ''FedAuth string data out of bounds'')
                  | Some string_bytes \<Rightarrow>
                      (case from_utf16 (le_units string_bytes) of
                         None \<Rightarrow> Inl (Io ''Invalid UTF-16 sequence'')
                       | Some v \<Rightarrow> Inr v)))"

text \<open>The loop over the options: \<open>k\<close> are left, the next one is \<open>i\<close>.\<close>

primrec fed_options :: "bytes \<Rightarrow> nat \<Rightarrow> nat \<Rightarrow> fed_auth_info_token \<Rightarrow> fed_auth_info_token tds_result" where
  "fed_options token_data 0 i t = Inr t"
| "fed_options token_data (Suc k) i t =
     (let offset = i * FEDAUTH_OPTIONS_SIZE in
      if \<not> offset < length token_data then Inl Panic
      else case fed_option_text token_data offset of
             Inl e \<Rightarrow> Inl e
           | Inr v \<Rightarrow>
               (case fed_auth_info_id_from (token_data ! offset) of
                  FA_STSUrl \<Rightarrow> fed_options token_data k (i + 1) (t\<lparr>fa_sts_url := v\<rparr>)
                | FA_SPN \<Rightarrow> fed_options token_data k (i + 1) (t\<lparr>fa_spn := v\<rparr>)
                | FA_Unknown u \<Rightarrow> fed_options token_data k (i + 1) t))"

definition parse_fed_auth_info :: "'s packet_reader_ops \<Rightarrow> ('s, fed_auth_info_token) action" where
  "parse_fed_auth_info ops =
     rbind (rd_i32 ops) (\<lambda>len.
     rbind (rd_u32 ops) (\<lambda>options_count.
       let data_left = sint len - 4; required_size = unat options_count * FEDAUTH_OPTIONS_SIZE in
       if data_left < - (2 ^ 31)
       then rfail (ProtocolError ''Invalid FedAuthInfo token length: (would overflow when subtracting header size)'')
       else if \<not> (0 \<le> data_left \<and> data_left \<le> 1024 * 1024)
       then rfail (ProtocolError ''Invalid FedAuthInfo token data size: bytes'')
       else if \<not> required_size < 2 ^ 32
       then rfail (ProtocolError ''FedAuthInfo options_count overflow'')
       else if sint (word_of_nat required_size :: u32) > data_left
       then rfail (ProtocolError ''Invalid FedAuthInfo token: options_count requires more bytes than available'')
       else rbind (rd_bytes ops (nat data_left)) (\<lambda>token_data.
         if length token_data < required_size
         then rfail (ProtocolError ''Invalid FedAuthInfo token: token data size is less than required size'')
         else rlift (fed_options token_data (unat options_count) 0 \<lparr>fa_spn = [], fa_sts_url = []\<rparr>))))"


section \<open>ENVCHANGE\<close>

definition malformed_routing :: "string \<Rightarrow> tds_error" where
  "malformed_routing detail = ProtocolError (''Malformed Routing ENVCHANGE: '' @ detail)"

definition MAX_ALTERNATE_SERVER_CHARS :: nat where "MAX_ALTERNATE_SERVER_CHARS = 1024"
definition MAX_ALTERNATE_DATABASE_CHARS :: nat where "MAX_ALTERNATE_DATABASE_CHARS = 128"

definition split_us_varchar :: "bytes \<Rightarrow> string \<Rightarrow> nat \<Rightarrow> (rstring \<times> bytes) tds_result" where
  "split_us_varchar data field max_chars =
     (if length data < 2 then Inl (malformed_routing (''truncated '' @ field @ '' length''))
      else let chars = unat (from_le_u16 (take 2 data)); rest = drop 2 data in
        if chars = 0 \<or> chars > max_chars
        then Inl (malformed_routing (field @ '' length is outside the allowed range''))
        else if length rest < chars * 2 then Inl (malformed_routing (''truncated '' @ field))
        else case from_utf16 (le_units (take (chars * 2) rest)) of
               None \<Rightarrow> Inl (malformed_routing (field @ '' is not valid UTF-16''))
             | Some v \<Rightarrow> Inr (v, drop (chars * 2) rest))"

definition routing_database :: "bytes \<Rightarrow> bool \<Rightarrow> (rstring option \<times> bytes) tds_result" where
  "routing_database rest enhanced =
     (if enhanced then
        (case split_us_varchar rest ''alternate database'' MAX_ALTERNATE_DATABASE_CHARS of
           Inl e \<Rightarrow> Inl e
         | Inr (db, rest') \<Rightarrow> Inr (Some db, rest'))
      else Inr (None, rest))"

definition parse_routing_data :: "bytes \<Rightarrow> bool \<Rightarrow> routing_info tds_result" where
  "parse_routing_data data enhanced =
     (case data of
        protocol # port_low # port_high # rest \<Rightarrow>
          (case split_us_varchar rest ''alternate server'' MAX_ALTERNATE_SERVER_CHARS of
             Inl e \<Rightarrow> Inl e
           | Inr (server, rest) \<Rightarrow>
               (case routing_database rest enhanced of
                  Inl e \<Rightarrow> Inl e
                | Inr (database, rest) \<Rightarrow>
                    if rest \<noteq> [] then Inl (malformed_routing ''trailing routing data'')
                    else if protocol \<noteq> 0 then Inl (malformed_routing ''protocol is not TCP'')
                    else if from_le_u16 [port_low, port_high] = 0 then Inl (malformed_routing ''port 0'')
                    else Inr \<lparr>ri_protocol = protocol, ri_port = from_le_u16 [port_low, port_high],
                              ri_server = server, ri_database = database\<rparr>))
      | _ \<Rightarrow> Inl (malformed_routing ''truncated protocol and port''))"

text \<open>\<^verbatim>\<open>str::parse::<u32>\<close>: an optional plus sign, then decimal digits whose value fits.\<close>

definition parse_u32 :: "rstring \<Rightarrow> u32 option" where
  "parse_u32 str =
     (let ds = (case str of c # d # rest \<Rightarrow> if c = 43 then d # rest else str | _ \<Rightarrow> str);
          n = foldl (\<lambda>a c. a * 10 + (c - 48)) 0 ds
      in if ds = [] \<or> \<not> list_all (\<lambda>c. 48 \<le> c \<and> c \<le> 57) ds then None
         else if n < 2 ^ 32 then Some (word_of_nat n) else None)"

definition parse_size :: "string \<Rightarrow> rstring \<Rightarrow> u32 tds_result" where
  "parse_size msg str = (case parse_u32 str of None \<Rightarrow> Inl (Io msg) | Some n \<Rightarrow> Inr n)"

definition env_collation :: "bytes \<Rightarrow> sql_collation option" where
  "env_collation bs =
     (if length bs = 5 then (case collation_try_from bs of Inl _ \<Rightarrow> None | Inr c \<Rightarrow> Some c) else None)"

text \<open>A transaction descriptor that must be there, and one that must not.\<close>

definition descriptor :: "string \<Rightarrow> bytes \<Rightarrow> u64 tds_result" where
  "descriptor msg bs = (if length bs = 8 then Inr (from_le_u64 bs) else Inl (Io msg))"

definition no_descriptor :: "tds_error \<Rightarrow> bytes \<Rightarrow> u64 tds_result" where
  "no_descriptor e bs = (if length bs = 0 then Inr 0 else Inl e)"

definition unimplemented_env :: "string \<Rightarrow> tds_error" where
  "unimplemented_env feature = UnimplementedFeature feature"

definition env_strings :: "'s packet_reader_ops \<Rightarrow> ('s, env_change_container) action" where
  "env_strings ops =
     rbind (rd_varchar_u8 ops) (\<lambda>new. rbind (rd_varchar_u8 ops) (\<lambda>old.
     rret (EC_String \<lparr>old_value = old, new_value = new\<rparr>)))"

definition env_packet_size :: "'s packet_reader_ops \<Rightarrow> ('s, env_change_container) action" where
  "env_packet_size ops =
     rbind (rd_varchar_u8 ops) (\<lambda>new_str. rbind (rd_varchar_u8 ops) (\<lambda>old_str.
     rbind (rlift (parse_size ''Invalid new packet size'' new_str)) (\<lambda>new.
     rbind (rlift (parse_size ''Invalid old packet size'' old_str)) (\<lambda>old.
     rret (EC_UInt32 \<lparr>old_value = old, new_value = new\<rparr>)))))"

definition env_sql_collation :: "'s packet_reader_ops \<Rightarrow> ('s, env_change_container) action" where
  "env_sql_collation ops =
     rbind (rd_u8_varbyte ops) (\<lambda>new. rbind (rd_u8_varbyte ops) (\<lambda>old.
     rret (EC_SqlCollation \<lparr>old_value = env_collation old, new_value = env_collation new\<rparr>)))"

text \<open>Begin, enlist and defect carry the new descriptor; they differ in the error for an old one.\<close>

definition env_new_descriptor :: "'s packet_reader_ops \<Rightarrow> tds_error \<Rightarrow> ('s, env_change_container) action" where
  "env_new_descriptor ops old_error =
     rbind (rd_u8_varbyte ops) (\<lambda>new_value.
     rbind (rlift (descriptor ''Invalid new transaction descriptor'' new_value)) (\<lambda>new.
     rbind (rd_u8_varbyte ops) (\<lambda>old_value.
     rbind (rlift (no_descriptor old_error old_value)) (\<lambda>old.
     rret (EC_UInt64 \<lparr>old_value = old, new_value = new\<rparr>)))))"

text \<open>Commit and rollback carry the old descriptor.\<close>

definition env_old_descriptor :: "'s packet_reader_ops \<Rightarrow> ('s, env_change_container) action" where
  "env_old_descriptor ops =
     rbind (rd_u8_varbyte ops) (\<lambda>new_value.
     rbind (rlift (no_descriptor (Io ''Invalid new transaction descriptor'') new_value)) (\<lambda>new.
     rbind (rd_u8_varbyte ops) (\<lambda>old_value.
     rbind (rlift (descriptor ''Invalid old transaction descriptor'' old_value)) (\<lambda>old.
     rret (EC_UInt64 \<lparr>old_value = old, new_value = new\<rparr>)))))"

definition env_reset_connection :: "'s packet_reader_ops \<Rightarrow> ('s, env_change_container) action" where
  "env_reset_connection ops =
     rbind (rd_u8_varbyte ops) (\<lambda>new. rbind (rd_u8_varbyte ops) (\<lambda>old.
     rret (EC_BytesType \<lparr>old_value = old, new_value = new\<rparr>)))"

definition env_routing :: "'s packet_reader_ops \<Rightarrow> u16 \<Rightarrow> bool \<Rightarrow> ('s, env_change_container) action" where
  "env_routing ops token_length enhanced =
     (if token_length < 5 then rfail (malformed_routing ''truncated routing length fields'')
      else rbind (rd_u16 ops) (\<lambda>routing_data_length.
        if unat token_length \<noteq> 1 + 2 + unat routing_data_length + 2
        then rfail (malformed_routing ''token length does not match routing data length'')
        else rbind (rd_bytes ops (unat routing_data_length)) (\<lambda>routing_data.
          if length routing_data \<noteq> unat routing_data_length then rfail (malformed_routing ''truncated routing data'')
          else rbind (rd_u16 ops) (\<lambda>old_length.
            if old_length \<noteq> 0 then rfail (malformed_routing ''non-empty old value'')
            else rbind (rlift (parse_routing_data routing_data enhanced)) (\<lambda>info.
              rret (EC_RoutingType \<lparr>old_value = None, new_value = Some info\<rparr>))))))"

definition env_change_value :: "'s packet_reader_ops \<Rightarrow> u16 \<Rightarrow> env_change_sub_type \<Rightarrow> ('s, env_change_container) action" where
  "env_change_value ops token_length sub_type =
     (case sub_type of
        ES_Database \<Rightarrow> env_strings ops
      | ES_Language \<Rightarrow> env_strings ops
      | ES_CharacterSet \<Rightarrow> env_strings ops
      | ES_PacketSize \<Rightarrow> env_packet_size ops
      | ES_UnicodeDataSortingLocalId \<Rightarrow> rfail (unimplemented_env ''UnicodeDataSortingLocalId'')
      | ES_UnicodeDataSortingComparisonFlags \<Rightarrow> rfail (unimplemented_env ''UnicodeDataSortingComparisonFlags'')
      | ES_SqlCollation \<Rightarrow> env_sql_collation ops
      | ES_BeginTransaction \<Rightarrow> env_new_descriptor ops (Io ''Invalid old transaction descriptor'')
      | ES_EnlistDtcTransaction \<Rightarrow> env_new_descriptor ops (Io ''Invalid old transaction descriptor'')
      | ES_CommitTransaction \<Rightarrow> env_old_descriptor ops
      | ES_RollbackTransaction \<Rightarrow> env_old_descriptor ops
      | ES_DefectTransaction \<Rightarrow> env_new_descriptor ops (ProtocolError ''Invalid old transaction descriptor'')
      | ES_DatabaseMirroringPartner \<Rightarrow> env_strings ops
      | ES_PromoteTransaction \<Rightarrow> rfail (unimplemented_env ''PromoteTransaction'')
      | ES_TransactionManagerAddress \<Rightarrow> rfail (unimplemented_env ''TransactionManagerAddress'')
      | ES_TransactionEnded \<Rightarrow> rfail (unimplemented_env ''TransactionEnded'')
      | ES_ResetConnection \<Rightarrow> env_reset_connection ops
      | ES_UserInstanceName \<Rightarrow> rfail (unimplemented_env ''UserInstanceName'')
      | ES_Routing \<Rightarrow> env_routing ops token_length False
      | ES_EnhancedRouting \<Rightarrow> env_routing ops token_length True
      | ES_Unknown v \<Rightarrow> env_strings ops)"

definition parse_env_change :: "'s packet_reader_ops \<Rightarrow> ('s, env_change_token) action" where
  "parse_env_change ops =
     rbind (rd_u16 ops) (\<lambda>token_length.
     rbind (rd_byte ops) (\<lambda>b.
     rbind (env_change_value ops token_length (env_change_sub_type_from b)) (\<lambda>change.
     rret \<lparr>ev_sub_type = env_change_sub_type_from b, ev_change_type = change\<rparr>)))"

end
