(* ===== verification/Token_Safety.thy ===== *)
theory Token_Safety
  imports Token_Parsers
begin

text \<open>
  On any input a token parser returns: it does not panic, it uses up what it reads, and its loops
  end. \<open>tame k m\<close> says that of an operation \<open>m\<close> that takes at least \<open>k\<close> bytes; it is proved once
  per parser for every reader that satisfies \<open>finite_source\<close>.
\<close>

definition tame :: "('s \<Rightarrow> bool) \<Rightarrow> ('s \<Rightarrow> nat) \<Rightarrow> nat \<Rightarrow> ('s, 'a) action \<Rightarrow> bool" where
  "tame safe left k m \<longleftrightarrow>
     (\<forall>s. safe s \<longrightarrow> guarded safe (m s) \<and> (\<forall>v s'. m s = (Inr v, s') \<longrightarrow> left s' + k \<le> left s))"

named_theorems tame_rules \<open>operations that return on any input\<close>

lemma tame_rret [tame_rules]: "tame safe left 0 (rret a)"
  by (simp add: tame_def)

lemma tame_rfail [tame_rules]: "e \<noteq> Panic \<Longrightarrow> e \<noteq> Diverge \<Longrightarrow> tame safe left k (rfail e)"
  by (simp add: tame_def)

lemma tame_rlift [tame_rules]: "r \<noteq> Inl Panic \<Longrightarrow> r \<noteq> Inl Diverge \<Longrightarrow> tame safe left 0 (rlift r)"
  by (cases r) (auto simp: tame_def rlift_def)

lemma tame_weaken: "tame safe left k m \<Longrightarrow> j \<le> k \<Longrightarrow> tame safe left j m"
  by (fastforce simp: tame_def)

lemma tame_bind_if:
  assumes "tame safe left k m"
    and "\<And>s v s'. safe s \<Longrightarrow> m s = (Inr v, s') \<Longrightarrow> safe s' \<Longrightarrow>
      guarded safe (f v s') \<and> (\<forall>w s''. f v s' = (Inr w, s'') \<longrightarrow> left s'' \<le> left s')"
  shows "tame safe left k (rbind m f)"
  unfolding tame_def
proof (intro allI impI)
  fix s assume s: "safe s"
  obtain x s' where m: "m s = (x, s')" by fastforce
  from assms(1) s m have g: "guarded safe (x, s')" by (fastforce simp: tame_def)
  show "guarded safe (rbind m f s) \<and> (\<forall>v s'. rbind m f s = (Inr v, s') \<longrightarrow> left s' + k \<le> left s)"
  proof (cases x)
    case (Inr v)
    with assms(1) s m have "left s' + k \<le> left s" by (auto simp: tame_def)
    with assms(2) [OF s, of v s'] m Inr g show ?thesis by fastforce
  qed (use m g in simp)
qed

lemma tame_bind: "tame safe left k m \<Longrightarrow> (\<And>v. tame safe left 0 (f v)) \<Longrightarrow> tame safe left k (rbind m f)"
  by (rule tame_bind_if) (auto simp: tame_def)

lemma tame_bind0 [tame_rules]: "tame safe left 0 m \<Longrightarrow> (\<And>v. tame safe left 0 (f v)) \<Longrightarrow> tame safe left 0 (rbind m f)"
  using tame_bind tame_weaken le0 by blast

lemma tame_if [tame_rules]: "(P \<Longrightarrow> tame safe left k m) \<Longrightarrow> (\<not> P \<Longrightarrow> tame safe left k n) \<Longrightarrow> tame safe left k (if P then m else n)"
  by simp

lemma tame_option [tame_rules]:
  "tame safe left k m \<Longrightarrow> (\<And>x. tame safe left k (f x)) \<Longrightarrow> tame safe left k (case v of None \<Rightarrow> m | Some x \<Rightarrow> f x)"
  by (cases v) simp_all

lemma tame_Let [tame_rules]: "(\<And>x. tame safe left k (f x)) \<Longrightarrow> tame safe left k (let x = v in f x)"
  by (simp add: Let_def)

lemma tameD: "tame safe left k m \<Longrightarrow> safe s \<Longrightarrow> guarded safe (m s)"
  by (simp add: tame_def)

text \<open>The same for an operation that is only started with fewer than \<open>n\<close> bytes left.\<close>

definition tame_upto :: "('s \<Rightarrow> bool) \<Rightarrow> ('s \<Rightarrow> nat) \<Rightarrow> nat \<Rightarrow> nat \<Rightarrow> ('s, 'a) action \<Rightarrow> bool" where
  "tame_upto safe left n k m \<longleftrightarrow>
     (\<forall>s. safe s \<longrightarrow> left s < n \<longrightarrow> guarded safe (m s) \<and> (\<forall>v s'. m s = (Inr v, s') \<longrightarrow> left s' + k \<le> left s))"

lemma tame_upto_tame: "tame safe left k m \<Longrightarrow> tame_upto safe left n k m"
  by (simp add: tame_def tame_upto_def)

lemma tame_upto_bind:
  assumes "tame_upto safe left n k m" and "\<And>v. tame_upto safe left (n - k) 0 (f v)"
  shows "tame_upto safe left n k (rbind m f)"
  unfolding tame_upto_def
proof (intro allI impI)
  fix s assume s: "safe s" "left s < n"
  obtain x s' where m: "m s = (x, s')" by fastforce
  from assms(1) s m have g: "guarded safe (x, s')" by (fastforce simp: tame_upto_def)
  show "guarded safe (rbind m f s) \<and> (\<forall>v s'. rbind m f s = (Inr v, s') \<longrightarrow> left s' + k \<le> left s)"
  proof (cases x)
    case (Inr v)
    with assms(1) s m have l: "left s' + k \<le> left s" by (auto simp: tame_upto_def)
    with s(2) have "left s' < n - k" by simp
    with assms(2) [of v] Inr g have "guarded safe (f v s')" "\<And>w s''. f v s' = (Inr w, s'') \<Longrightarrow> left s'' \<le> left s'"
      by (simp_all add: tame_upto_def)
    with m Inr l show ?thesis by fastforce
  qed (use m g in simp)
qed

lemma tame_upto_weaken: "tame_upto safe left n k m \<Longrightarrow> j \<le> k \<Longrightarrow> tame_upto safe left n j m"
  by (fastforce simp: tame_upto_def)


section \<open>Pure parts\<close>

lemma fed_option_text_safe: "fed_option_text d i \<noteq> Inl Panic \<and> fed_option_text d i \<noteq> Inl Diverge"
  by (auto simp: fed_option_text_def Let_def split: option.splits)

lemma fed_options_safe:
  "(i + k) * 9 \<le> length d \<Longrightarrow> fed_options d k i t \<noteq> Inl Panic \<and> fed_options d k i t \<noteq> Inl Diverge"
proof (induction k arbitrary: i t)
  case (Suc k)
  then have "i * 9 < length d" "(i + 1 + k) * 9 \<le> length d" by simp_all
  with Suc.IH [OF this(2)] fed_option_text_safe [of d "i * 9"] show ?case
    by (auto simp: Let_def FEDAUTH_OPTIONS_SIZE_def split: sum.splits fed_auth_info_id.splits)
qed simp

lemma split_us_varchar_safe: "split_us_varchar d f n \<noteq> Inl Panic \<and> split_us_varchar d f n \<noteq> Inl Diverge"
  by (auto simp: split_us_varchar_def malformed_routing_def Let_def split: option.splits)

lemma routing_database_safe: "routing_database d b \<noteq> Inl Panic \<and> routing_database d b \<noteq> Inl Diverge"
  using split_us_varchar_safe [of d] by (auto simp: routing_database_def split: sum.splits)

lemma parse_routing_data_safe: "parse_routing_data d b \<noteq> Inl Panic \<and> parse_routing_data d b \<noteq> Inl Diverge"
  using split_us_varchar_safe routing_database_safe
  by (auto simp: parse_routing_data_def malformed_routing_def split: list.splits sum.splits if_splits)

lemma env_lifts_safe:
  "parse_size m str \<noteq> Inl Panic" "parse_size m str \<noteq> Inl Diverge"
  "descriptor m bs \<noteq> Inl Panic" "descriptor m bs \<noteq> Inl Diverge"
  "e \<noteq> Panic \<Longrightarrow> no_descriptor e bs \<noteq> Inl Panic" "e \<noteq> Diverge \<Longrightarrow> no_descriptor e bs \<noteq> Inl Diverge"
  by (auto simp: parse_size_def descriptor_def no_descriptor_def split: option.splits)


section \<open>The parsers\<close>

context finite_source
begin

lemma scalars_tame:
  "tame safe left 1 (rd_byte ops)" "tame safe left 2 (rd_u16 ops)" "tame safe left 4 (rd_u32 ops)"
  "tame safe left 8 (rd_u64 ops)" "tame safe left 8 (rd_i64 ops)" "tame safe left 4 (rd_i32 ops)" "tame safe left 2 (rd_i16 ops)"
  "tame safe left 4 (rd_f32 ops)" "tame safe left 8 (rd_f64 ops)" "tame safe left 4 (rd_i32_be ops)" "tame safe left 2 (rd_i16_be ops)"
  "tame safe left 3 (rd_u24 ops)" "tame safe left 5 (rd_u40 ops)"
  by (auto simp: tame_def byte_safe u16_safe u32_safe u64_safe i64_safe i32_safe i16_safe f32_safe f64_safe i32_be_safe i16_be_safe
      u24_safe u40_safe dest: byte_left u16_left u32_left u64_left i64_left i32_left i16_left f32_left f64_left i32_be_left i16_be_left
      u24_left u40_left)

lemma strings_tame:
  "tame safe left n (rd_bytes ops n)" "tame safe left n (rd_skip ops n)"
  "tame safe left 1 (rd_u8_varbyte ops)" "tame safe left 2 (rd_u16_varbyte ops)"
  "tame safe left 1 (rd_varchar_u8 ops)" "tame safe left 2 (rd_varchar_u16 ops)"
  "tame safe left (2 * n) (rd_unicode ops n)"
  by (auto simp: tame_def bytes_safe skip_safe u8_varbyte_safe u16_varbyte_safe varchar_u8_safe varchar_u16_safe
      unicode_safe dest: bytes_left skip_left u8_varbyte_left u16_varbyte_left varchar_u8_left varchar_u16_left unicode_left)

lemma unicode_bytes_tame [tame_rules]: "even n \<Longrightarrow> tame safe left 0 (rd_unicode_bytes ops n)"
  by (auto simp: tame_def unicode_bytes_safe dest: unicode_bytes_left)

lemmas scalars_tame0 [tame_rules] = scalars_tame [THEN tame_weaken, OF le0]
lemmas strings_tame0 [tame_rules] = strings_tame [THEN tame_weaken, OF le0]

lemma try_slice_tame [tame_rules]: "tame safe left 0 (rd_try_slice ops n)"
  by (auto simp: tame_def try_slice_safe dest!: try_slice_left)

lemma read_done_token_tame: "tame safe left 0 (read_done_token ops)"
  unfolding read_done_token_def by (intro tame_rules) simp_all

lemma error_info_tame: "tame safe left 0 (parse_error ops)" "tame safe left 0 (parse_info ops)"
  unfolding parse_error_def parse_info_def by (intro tame_rules)+

lemma login_ack_tame: "tame safe left 0 (parse_login_ack ops)"
  unfolding parse_login_ack_def by (intro tame_rules)

lemma read_u16s_tame: "tame safe left 0 (read_u16s ops n)"
proof (induction n)
  case 0 show ?case unfolding read_u16s.simps by (intro tame_rules)
next
  case (Suc n) then show ?case unfolding read_u16s.simps by (intro tame_rules)
qed

lemma order_tame: "tame safe left 0 (parse_order ops)"
  unfolding parse_order_def by (intro tame_rules read_u16s_tame)

lemma skips_tame: "tame safe left 0 (parse_tab_name ops)" "tame safe left 0 (parse_col_info ops)"
  unfolding parse_tab_name_def parse_col_info_def by (intro tame_rules)+

lemma sspi_tame: "tame safe left 0 (parse_sspi ops)"
  unfolding parse_sspi_def by (intro tame_rules)

lemma return_status_tame: "tame safe left 0 (read_return_status ops)"
  unfolding read_return_status_def
proof (rule tame_bind_if [OF try_slice_tame])
  fix s v s' assume "safe s" "rd_try_slice ops 4 s = (Inr v, s')" "safe s'"
  then show "guarded safe ((case v of Some bs \<Rightarrow> if length bs < 4 then rfail Panic else rret (from_le_u32 (take 4 bs)) | None \<Rightarrow> rd_i32 ops) s') \<and>
    (\<forall>w s''. (case v of Some bs \<Rightarrow> if length bs < 4 then rfail Panic else rret (from_le_u32 (take 4 bs)) | None \<Rightarrow> rd_i32 ops) s' = (Inr w, s'') \<longrightarrow> left s'' \<le> left s')"
    using try_slice_length [of s 4 _ s'] i32_safe [of s'] i32_left [of s'] by (cases v) fastforce+
qed


text \<open>
  The terminator loop: one feature takes a byte at least, so more fuel than there is input is
  never used up.
\<close>

lemma feature_loop_returns: "tame_upto safe left fuel 0 (feature_loop ops fuel acc)"
proof (induction fuel arbitrary: acc)
  case 0
  show ?case by (simp add: tame_upto_def)
next
  case (Suc fuel)
  let ?data = "\<lambda>len. if len > 0 then rd_bytes ops (unat (len :: u32)) else rret []"
  have data: "tame_upto safe left fuel 0 (?data len)" for len by (intro tame_upto_tame tame_rules)
  have "tame_upto safe left fuel 0 (if unat len > MAX_ALLOWED_FE_DATA_IN_BYTES
      then rfail (ProtocolError ''FeatureExtAck data length too large: bytes. Possible DoS attack.'')
      else rbind (?data len) (\<lambda>data. feature_loop ops fuel (acc @ [(f, data)])))" for len f
    using tame_upto_bind [OF data, of "\<lambda>data. feature_loop ops fuel (acc @ [(f, data)])"] Suc.IH
    by (simp add: tame_upto_tame tame_rfail)
  then have "tame_upto safe left fuel 0 (rbind (rd_u32 ops) (\<lambda>len. if unat len > MAX_ALLOWED_FE_DATA_IN_BYTES
      then rfail (ProtocolError ''FeatureExtAck data length too large: bytes. Possible DoS attack.'')
      else rbind (?data len) (\<lambda>data. feature_loop ops fuel (acc @ [(f, data)]))))" for f
    by (intro tame_upto_bind [OF tame_upto_tame [OF scalars_tame0(3)]]) simp
  then have "tame_upto safe left (Suc fuel) 1 (feature_loop ops (Suc fuel) acc)"
    unfolding feature_loop.simps
    by (intro tame_upto_bind [OF tame_upto_tame [OF scalars_tame(1)]]) (simp add: tame_upto_tame tame_rret)
  then show ?case by (rule tame_upto_weaken) simp
qed

lemma feature_ext_tame: "safe s \<Longrightarrow> left s < fuel \<Longrightarrow> guarded safe (parse_feature_ext_ack ops fuel s)"
  using feature_loop_returns [of fuel "[]"] by (simp add: tame_upto_def parse_feature_ext_ack_def)

lemma read_state_len_tame: "tame safe left 0 (read_state_len ops total_length n)"
  unfolding read_state_len_def by (intro tame_rules) simp_all

lemma session_states_tame: "tame safe left 0 (session_states ops status total_length n states)"
proof (induction "total_length - n" arbitrary: n states rule: less_induct)
  case less
  show ?case
  proof (cases "n < total_length")
    case False
    then show ?thesis unfolding session_states_done [OF False] by (intro tame_rules)
  next
    case True
    let ?data = "\<lambda>lr. if fst lr > 0 then rd_bytes ops (fst lr) else rret []"
    let ?entry = "\<lambda>i d. states @ [\<lparr>se_state_id = i, se_recoverable = (status AND 0x01 \<noteq> 0), se_data = d\<rparr>]"
    let ?one = "\<lambda>i lr. if fst lr > total_length - snd lr
          then rfail (ProtocolError ''SESSIONSTATE: state data length exceeds remaining token bytes'')
          else rbind (?data lr) (\<lambda>d. session_states ops status total_length (snd lr + fst lr) (?entry i d))"
    let ?len = "\<lambda>i. if n + 1 + 1 > total_length then rfail (ProtocolError ''SESSIONSTATE: unexpected end of token reading state_len'')
        else rbind (read_state_len ops total_length (n + 1)) (?one i)"
    have one: "tame safe left 0 (?one i lr)" if "n < snd lr" for i lr
      by (intro tame_rules less) (use that True in auto)
    have "tame safe left 0 (rbind (read_state_len ops total_length (n + 1)) (?one i))" for i
    proof (rule tame_bind_if [OF read_state_len_tame])
      fix s lr s' assume rd: "read_state_len ops total_length (n + 1) s = (Inr lr, s')" "safe s'"
      then have "n < snd lr" using read_state_len_bytes [of ops total_length "n + 1" s "fst lr" "snd lr" s'] by simp
      from one [OF this, of i] rd(2)
      show "guarded safe (?one i lr s') \<and> (\<forall>w s''. ?one i lr s' = (Inr w, s'') \<longrightarrow> left s'' \<le> left s')"
        unfolding tame_def by fastforce
    qed
    then have "tame safe left 0 (?len i)" for i by (intro tame_if tame_rfail) simp_all
    with scalars_tame0(1) show ?thesis unfolding session_states_step [OF True] by (rule tame_bind0)
  qed
qed

lemma session_state_tame: "tame safe left 0 (parse_session_state ops)"
  unfolding parse_session_state_def by (intro tame_rules session_states_tame) simp_all

lemma fed_auth_tame: "tame safe left 0 (parse_fed_auth_info ops)"
  unfolding parse_fed_auth_info_def Let_def
  by (intro tame_rules) (use fed_options_safe [of 0] in \<open>auto simp: FEDAUTH_OPTIONS_SIZE_def\<close>)

lemma env_pieces_tame [tame_rules]:
  "tame safe left 0 (env_strings ops)" "tame safe left 0 (env_packet_size ops)"
  "tame safe left 0 (env_sql_collation ops)" "tame safe left 0 (env_reset_connection ops)"
  "tame safe left 0 (env_old_descriptor ops)"
  unfolding env_strings_def env_packet_size_def env_sql_collation_def env_reset_connection_def env_old_descriptor_def
  by (intro tame_rules env_lifts_safe; simp)+

lemma env_new_descriptor_tame [tame_rules]:
  "e \<noteq> Panic \<Longrightarrow> e \<noteq> Diverge \<Longrightarrow> tame safe left 0 (env_new_descriptor ops e)"
  unfolding env_new_descriptor_def by (intro tame_rules env_lifts_safe)

lemma env_routing_tame [tame_rules]: "tame safe left 0 (env_routing ops len enhanced)"
  unfolding env_routing_def
  by (intro tame_rules parse_routing_data_safe [THEN conjunct1] parse_routing_data_safe [THEN conjunct2])
     (simp_all add: malformed_routing_def)

lemma env_change_tame: "tame safe left 0 (parse_env_change ops)"
proof -
  have "tame safe left 0 (env_change_value ops len t)" for len t
    by (cases t; simp only: env_change_value_def env_change_sub_type.case; intro tame_rules; simp add: unimplemented_env_def)
  then show ?thesis unfolding parse_env_change_def by (intro tame_rules)
qed

end

end
