(* ===== verification/Token_Content.thy ===== *)
theory Token_Content
  imports Token_Parsers
begin

text \<open>
  What the token parsers return: for every token, the parser applied to its wire form gives the
  token back and leaves the reader right after it. \<open>yields c m v\<close> says that of an operation \<open>m\<close>, the
  bytes \<open>c\<close> and the value \<open>v\<close>; it is proved once per parser for every reader that satisfies
  \<open>packet_source\<close>.
\<close>

definition yields :: "(bytes \<Rightarrow> 's \<Rightarrow> bool) \<Rightarrow> bytes \<Rightarrow> ('s, 'a) action \<Rightarrow> 'a \<Rightarrow> bool" where
  "yields supplies c m v \<longleftrightarrow>
     (\<forall>rest s. supplies (c @ rest) s \<longrightarrow> (\<exists>s'. m s = (Inr v, s') \<and> supplies rest s'))"

named_theorems yields_rules \<open>operations and the bytes they take\<close>

lemma yields_rret: "c = [] \<Longrightarrow> yields supplies c (rret v) v"
  by (simp add: yields_def)

lemma yields_Pair [simp]: "yields supplies [] (Pair (Inr v)) v"
  by (simp add: yields_def)

lemma yields_rlift: "c = [] \<Longrightarrow> r = Inr v \<Longrightarrow> yields supplies c (rlift r) v"
  by (simp add: yields_def rlift_def)

lemma yields_bind:
  assumes "yields supplies c m v" and "yields supplies d (f v) w"
  shows "yields supplies (c @ d) (rbind m f) w"
  unfolding yields_def
proof (intro allI impI)
  fix rest s assume "supplies ((c @ d) @ rest) s"
  then have "supplies (c @ d @ rest) s" by simp
  with assms(1) obtain s1 where "m s = (Inr v, s1)" "supplies (d @ rest) s1" unfolding yields_def by blast
  moreover with assms(2) obtain s2 where "f v s1 = (Inr w, s2)" "supplies rest s2" unfolding yields_def by blast
  ultimately show "\<exists>s'. rbind m f s = (Inr w, s') \<and> supplies rest s'" by (simp add: rbind_def)
qed

lemma yields_bind_byte:
  "yields supplies [b] m v \<Longrightarrow> yields supplies d (f v) w \<Longrightarrow> yields supplies (b # d) (rbind m f) w"
  using yields_bind [of supplies "[b]" m v d f w] by simp

lemma yields_bind_nil: "yields supplies [] m v \<Longrightarrow> yields supplies d (f v) w \<Longrightarrow> yields supplies d (rbind m f) w"
  using yields_bind [of supplies "[]" m v d f w] by simp

text \<open>A last read whose value is only wrapped.\<close>

lemma yields_last: "yields supplies c m v \<Longrightarrow> f v = rret w \<Longrightarrow> yields supplies c (rbind m f) w"
  using yields_bind [of supplies c m v "[]" f w] by (simp add: yields_rret)

lemma yields_if: "P \<Longrightarrow> yields supplies c m v \<Longrightarrow> yields supplies c (if P then m else n) v"
  by simp

lemma yields_else: "\<not> P \<Longrightarrow> yields supplies c n v \<Longrightarrow> yields supplies c (if P then m else n) v"
  by simp

lemma yields_exact: "yields supplies c m v \<Longrightarrow> supplies c s \<Longrightarrow> \<exists>s'. m s = (Inr v, s') \<and> supplies [] s'"
  by (metis append_Nil2 yields_def)


section \<open>Wire forms\<close>

definition done_bytes :: "done_token \<Rightarrow> bytes" where
  "done_bytes t = to_le_u16 (dn_status t) @ to_le_u16 (current_command_u16 (dn_cur_cmd t)) @ to_le_u64 (dn_row_count t)"

text \<open>ERROR and INFO; the leading length is not used by the parsers.\<close>

definition error_bytes :: "u16 \<Rightarrow> error_token \<Rightarrow> bytes" where
  "error_bytes len t = to_le_u16 len @ to_le_u32 (er_number t) @ er_state t # er_severity t #
     us_varchar (er_message t) @ b_varchar (er_server_name t) @ b_varchar (er_proc_name t) @ to_le_u32 (er_line_number t)"

definition error_wf :: "error_token \<Rightarrow> bool" where
  "error_wf t \<longleftrightarrow> fits_us (er_message t) \<and> fits_b (er_server_name t) \<and> fits_b (er_proc_name t)"

definition order_bytes :: "u16 list \<Rightarrow> bytes" where
  "order_bytes cols = to_le_u16 (word_of_nat (2 * length cols)) @ concat (map to_le_u16 cols)"

definition login_ack_bytes :: "u16 \<Rightarrow> login_ack_token \<Rightarrow> bytes" where
  "login_ack_bytes len t = to_le_u16 len @ sql_interface_type_u8 (la_interface_type t) #
     to_be_u32 (tds_version_u32 (la_tds_version t)) @ b_varchar (la_prog_name t) @
     [vr_major (la_prog_version t), vr_minor (la_prog_version t),
      ucast (drop_bit 8 (vr_build (la_prog_version t))), ucast (vr_build (la_prog_version t))]"

definition feature_bytes :: "feature_extension \<times> bytes \<Rightarrow> bytes" where
  "feature_bytes f = feature_extension_u8 (fst f) # to_le_u32 (word_of_nat (length (snd f))) @ snd f"

definition feature_wf :: "feature_extension \<times> bytes \<Rightarrow> bool" where
  "feature_wf f \<longleftrightarrow> feature_extension_from (feature_extension_u8 (fst f)) = fst f \<and> fst f \<noteq> FE_Terminator \<and>
     length (snd f) \<le> 1024"

definition feature_ext_bytes :: "(feature_extension \<times> bytes) list \<Rightarrow> bytes" where
  "feature_ext_bytes fs = concat (map feature_bytes fs) @ [0xFF]"

text \<open>A state is sent with the short length when that fits.\<close>

definition state_len_bytes :: "nat \<Rightarrow> bytes" where
  "state_len_bytes n = (if n < 255 then [word_of_nat n] else 0xFF # to_le_u32 (word_of_nat n))"

definition state_bytes :: "session_state_entry \<Rightarrow> bytes" where
  "state_bytes e = se_state_id e # state_len_bytes (length (se_data e)) @ se_data e"

definition session_state_bytes :: "session_state_token \<Rightarrow> bytes" where
  "session_state_bytes t =
     (let body = to_le_u32 (st_sequence_number t) @ st_status t # concat (map state_bytes (st_states t))
      in to_le_u32 (word_of_nat (length body)) @ body)"

definition session_state_wf :: "session_state_token \<Rightarrow> bool" where
  "session_state_wf t \<longleftrightarrow> 5 + length (concat (map state_bytes (st_states t))) \<le> 1024 * 1024 \<and>
     list_all (\<lambda>e. se_recoverable e = (st_status t AND 0x01 \<noteq> 0)) (st_states t)"


text \<open>ENVCHANGE: the new value comes first on the wire.\<close>

definition routing_data :: "routing_info \<Rightarrow> bytes" where
  "routing_data r = ri_protocol r # to_le_u16 (ri_port r) @ us_varchar (ri_server r) @
     (case ri_database r of None \<Rightarrow> [] | Some db \<Rightarrow> us_varchar db)"

definition routing_wf :: "routing_info \<Rightarrow> bool" where
  "routing_wf r \<longleftrightarrow> ri_protocol r = 0 \<and> ri_port r \<noteq> 0 \<and> valid_string (ri_server r) \<and>
     0 < length (encode_utf16 (ri_server r)) \<and> length (encode_utf16 (ri_server r)) \<le> 1024 \<and>
     (\<forall>db. ri_database r = Some db \<longrightarrow> valid_string db \<and> 0 < length (encode_utf16 db) \<and> length (encode_utf16 db) \<le> 128)"

definition decimal :: "u32 \<Rightarrow> rstring" where
  "decimal n = ustr (show_nat (unat n))"

definition collation_bytes :: "sql_collation option \<Rightarrow> bytes" where
  "collation_bytes c = (case c of None \<Rightarrow> [] | Some c \<Rightarrow> to_le_u32 (sc_info c) @ [sc_sort_id c])"

definition descriptor_bytes :: "u64 \<Rightarrow> bytes" where
  "descriptor_bytes d = (if d = 0 then [] else to_le_u64 d)"

fun env_value_bytes :: "env_change_container \<Rightarrow> bytes" where
  "env_value_bytes (EC_String p) = b_varchar (new_value p) @ b_varchar (old_value p)"
| "env_value_bytes (EC_UInt32 p) = b_varchar (decimal (new_value p)) @ b_varchar (decimal (old_value p))"
| "env_value_bytes (EC_SqlCollation p) = b_varbyte (collation_bytes (new_value p)) @ b_varbyte (collation_bytes (old_value p))"
| "env_value_bytes (EC_UInt64 p) = b_varbyte (descriptor_bytes (new_value p)) @ b_varbyte (descriptor_bytes (old_value p))"
| "env_value_bytes (EC_BytesType p) = b_varbyte (new_value p) @ b_varbyte (old_value p)"
| "env_value_bytes (EC_RoutingType p) =
     (case new_value p of None \<Rightarrow> [] | Some r \<Rightarrow> us_varbyte (routing_data r) @ to_le_u16 0)"

definition env_change_bytes :: "env_change_token \<Rightarrow> bytes" where
  "env_change_bytes t =
     (let body = env_change_sub_type_u8 (ev_sub_type t) # env_value_bytes (ev_change_type t)
      in to_le_u16 (word_of_nat (length body)) @ body)"

text \<open>Which values a sub type carries, and that they fit their length fields.\<close>

definition collation_wf :: "sql_collation option \<Rightarrow> bool" where
  "collation_wf oc \<longleftrightarrow> (\<forall>c. oc = Some c \<longrightarrow> sc_lcid_language_id c = sc_info c AND 0x000FFFFF \<and>
     sc_col_flags c = ucast (drop_bit 20 (sc_info c) AND 0xFF))"

fun env_value_wf :: "env_change_sub_type \<Rightarrow> env_change_container \<Rightarrow> bool" where
  "env_value_wf t (EC_String p) \<longleftrightarrow> fits_b (new_value p) \<and> fits_b (old_value p) \<and>
     (t \<in> {ES_Database, ES_Language, ES_CharacterSet, ES_DatabaseMirroringPartner} \<or> (\<exists>v. t = ES_Unknown v))"
| "env_value_wf t (EC_UInt32 p) \<longleftrightarrow> t = ES_PacketSize"
| "env_value_wf t (EC_SqlCollation p) \<longleftrightarrow> t = ES_SqlCollation \<and> collation_wf (new_value p) \<and> collation_wf (old_value p)"
| "env_value_wf t (EC_UInt64 p) \<longleftrightarrow>
     (t \<in> {ES_BeginTransaction, ES_EnlistDtcTransaction, ES_DefectTransaction} \<and> new_value p \<noteq> 0 \<and> old_value p = 0) \<or>
     (t \<in> {ES_CommitTransaction, ES_RollbackTransaction} \<and> new_value p = 0 \<and> old_value p \<noteq> 0)"
| "env_value_wf t (EC_BytesType p) \<longleftrightarrow> t = ES_ResetConnection \<and> length (new_value p) < 256 \<and> length (old_value p) < 256"
| "env_value_wf t (EC_RoutingType p) \<longleftrightarrow> old_value p = None \<and>
     (\<exists>r. new_value p = Some r \<and> routing_wf r \<and> t = (case ri_database r of None \<Rightarrow> ES_Routing | Some _ \<Rightarrow> ES_EnhancedRouting))"

definition env_change_wf :: "env_change_token \<Rightarrow> bool" where
  "env_change_wf t \<longleftrightarrow> env_value_wf (ev_sub_type t) (ev_change_type t) \<and>
     env_change_sub_type_from (env_change_sub_type_u8 (ev_sub_type t)) = ev_sub_type t"

lemma digits_of_show_nat: "list_all (\<lambda>c. (48 :: nat) \<le> of_char c \<and> of_char c \<le> (57 :: nat)) (show_nat n)"
proof (induction n rule: show_nat.induct)
  case (1 n)
  have d: "48 + k \<le> 57 \<Longrightarrow> of_char (digit_char k) = (48 + k :: nat)" for k by (simp add: digit_char_def)
  show ?case
  proof (cases "n < 10")
    case True
    then show ?thesis using d [of n] by (subst show_nat.simps) simp
  next
    case False
    have "n mod 10 < 10" by simp
    then show ?thesis using 1 False d [of "n mod 10"] by (subst show_nat.simps) simp
  qed
qed

lemma value_of_show_nat: "foldl (\<lambda>a c. a * 10 + (c - 48)) 0 (ustr (show_nat n)) = n"
proof (induction n rule: show_nat.induct)
  case (1 n)
  have d: "k < 10 \<Longrightarrow> of_char (digit_char k) - 48 = k" for k by (simp add: digit_char_def)
  show ?case
  proof (cases "n < 10")
    case True
    then show ?thesis using d [of n] by (subst show_nat.simps) (simp add: ustr_def)
  next
    case False
    have "n mod 10 < 10" by simp
    then show ?thesis using 1 [OF False] False d [of "n mod 10"] by (subst show_nat.simps) (simp add: ustr_def)
  qed
qed

lemma show_nat_ne: "show_nat n \<noteq> []"
  by (subst show_nat.simps) simp

lemma parse_decimal: "parse_u32 (decimal n) = Some n"
proof -
  have "list_all (\<lambda>c. 48 \<le> c \<and> c \<le> 57) (decimal n)"
    using digits_of_show_nat [of "unat n"] by (simp add: decimal_def ustr_def list_all_iff)
  moreover from this have "(case decimal n of c # d # rest \<Rightarrow> if c = 43 then d # rest else decimal n | _ \<Rightarrow> decimal n) = decimal n"
    by (auto split: list.splits)
  moreover have "foldl (\<lambda>a c. a * 10 + (c - 48)) 0 (decimal n) = unat n" by (simp add: decimal_def value_of_show_nat)
  moreover have "unat n < 2 ^ 32" using unsigned_less [of n, where ?'a = nat] by simp
  moreover have "decimal n \<noteq> []" by (simp add: decimal_def ustr_def show_nat_ne)
  ultimately show ?thesis unfolding parse_u32_def Let_def by simp
qed

lemma value_pairs_eta [simp]: "\<lparr>old_value = old_value p, new_value = new_value p\<rparr> = p"
  by (cases p) simp

lemma show_nat_length: "n < 10 ^ Suc k \<Longrightarrow> length (show_nat n) \<le> Suc k"
proof (induction k arbitrary: n)
  case (Suc k)
  then have "n div 10 < 10 ^ Suc k" by (simp add: less_mult_imp_div_less)
  with Suc.IH show ?case by (subst show_nat.simps) auto
qed (subst show_nat.simps, simp)

lemma ascii_utf16: "list_all (\<lambda>c. c < 128) str \<Longrightarrow> valid_string str \<and> length (encode_utf16 str) = length str"
  by (induction str) (auto simp: is_scalar_def char_utf16_def)

lemma fits_decimal: "fits_b (decimal n)"
proof -
  have "unat n < 10 ^ Suc 9" using unsigned_less [of n, where ?'a = nat] by simp
  then have "length (decimal n) \<le> 10" using show_nat_length [of "unat n" 9] by (simp add: decimal_def ustr_def)
  moreover have "list_all (\<lambda>c. c < 128) (decimal n)"
    using digits_of_show_nat [of "unat n"] by (fastforce simp: decimal_def ustr_def list_all_iff)
  ultimately show ?thesis using ascii_utf16 [of "decimal n"] by (simp add: fits_b_def)
qed

lemma env_collation_bytes: "collation_wf oc \<Longrightarrow> env_collation (collation_bytes oc) = oc"
proof (cases oc)
  case (Some c)
  assume "collation_wf oc"
  with Some show ?thesis
    by (cases c) (simp add: collation_wf_def env_collation_def collation_bytes_def collation_try_from_def Let_def
      le32.enc_length le32.dec_enc nth_append)
qed (simp add: env_collation_def collation_bytes_def)

lemma split_us_varchar_bytes:
  assumes "valid_string str" and "0 < length (encode_utf16 str)" and "length (encode_utf16 str) \<le> m" and "m < 65536"
  shows "split_us_varchar (us_varchar str @ rest) field m = Inr (str, rest)"
proof -
  let ?n = "length (encode_utf16 str)"
  have n: "unat (word_of_nat ?n :: u16) = ?n" using assms(3,4) by (intro unat_of_nat_u16) simp
  have l: "length (utf16_le str) = ?n * 2" by (simp add: utf16_le_def mult.commute)
  have "from_utf16 (le_units (utf16_le str)) = Some str"
    using assms(1) by (simp add: utf16_le_def from_utf16_encode)
  with n l assms show ?thesis
    by (simp add: split_us_varchar_def us_varchar_def Let_def le16.enc_length le16.dec_enc)
qed

lemma parse_routing_bytes:
  assumes "routing_wf r"
  shows "parse_routing_data (routing_data r) (ri_database r \<noteq> None) = Inr r"
proof -
  obtain a b where ab: "to_le_u16 (ri_port r) = [a, b]"
    using le16.enc_length [of "ri_port r"] by (auto simp: numeral_2_eq_2 length_Suc_conv)
  then have port: "from_le_u16 [a, b] = ri_port r" using le16.dec_enc [of "ri_port r"] by simp
  have srv: "split_us_varchar (us_varchar (ri_server r) @ rest) f MAX_ALTERNATE_SERVER_CHARS = Inr (ri_server r, rest)" for rest f
    using assms by (intro split_us_varchar_bytes) (auto simp: routing_wf_def MAX_ALTERNATE_SERVER_CHARS_def)
  have db: "routing_database (case ri_database r of None \<Rightarrow> [] | Some db \<Rightarrow> us_varchar db) (ri_database r \<noteq> None) = Inr (ri_database r, [])"
    using assms split_us_varchar_bytes [where rest = "[]" and m = MAX_ALTERNATE_DATABASE_CHARS]
    by (auto simp: routing_wf_def routing_database_def MAX_ALTERNATE_DATABASE_CHARS_def split: option.splits)
  have "parse_routing_data (routing_data r) (ri_database r \<noteq> None) =
      Inr \<lparr>ri_protocol = ri_protocol r, ri_port = ri_port r, ri_server = ri_server r, ri_database = ri_database r\<rparr>"
    using assms db by (simp add: parse_routing_data_def routing_data_def ab srv port routing_wf_def)
  then show ?thesis by simp
qed

lemma routing_data_length:
  assumes "routing_wf r"
  shows "length (routing_data r) < 65000"
  using assms
  by (auto simp: routing_wf_def routing_data_def us_varchar_def utf16_le_def le16.enc_length split: option.splits)

lemma current_command_roundtrip: "current_command_from (current_command_u16 c) = c"
  by (cases c) (simp_all add: current_command_from_def)

lemma buffered_done_bytes:
  assumes "done_status_from (dn_status t) = dn_status t"
  shows "buffered_done_token (done_bytes t) = Some t" and "length (done_bytes t) = 12"
  using assms
  by (simp_all add: buffered_done_token_def done_bytes_def DONE_PAYLOAD_LEN_def seg_def current_command_roundtrip
      le16.enc_length le64.enc_length le16.dec_enc le64.dec_enc)

lemma version_build: "push_bit 8 (ucast (ucast (drop_bit 8 b) :: u8)) OR ucast (ucast b :: u8) = (b :: u16)"
  by (rule bit_word_eqI) (auto simp: bit_simps)


section \<open>The reader operations\<close>

context packet_source
begin

lemma scalars_yield [yields_rules]:
  "yields supplies [b] (rd_byte ops) b"
  "yields supplies (to_le_u16 x) (rd_u16 ops) x"
  "yields supplies (to_le_u32 y) (rd_u32 ops) y"
  "yields supplies (to_le_u64 z) (rd_u64 ops) z"
  "yields supplies (to_le_u32 y) (rd_i32 ops) y"
  "yields supplies (to_le_u64 z) (rd_i64 ops) z"
  "yields supplies (to_le_u16 x) (rd_i16 ops) x"
  "yields supplies (to_be_u32 y) (rd_i32_be ops) y"
  "yields supplies (to_le_u32 y) (rd_f32 ops) y"
  "yields supplies (to_le_u64 z) (rd_f64 ops) z"
  using byte u16 u32 u64 i32 i64 i16 i32_be f32 f64 by (auto simp: yields_def)

lemma strings_yield:
  "n = length bs \<Longrightarrow> yields supplies bs (rd_bytes ops n) bs"
  "n = length bs \<Longrightarrow> yields supplies bs (rd_skip ops n) ()"
  "length bs < 256 \<Longrightarrow> yields supplies (b_varbyte bs) (rd_u8_varbyte ops) bs"
  "fits_b str \<Longrightarrow> yields supplies (b_varchar str) (rd_varchar_u8 ops) str"
  "fits_us str \<Longrightarrow> yields supplies (us_varchar str) (rd_varchar_u16 ops) (Some str)"
  "valid_string str \<Longrightarrow> n = length (encode_utf16 str) \<Longrightarrow> yields supplies (utf16_le str) (rd_unicode ops n) str"
  "valid_string str \<Longrightarrow> n = 2 * length (encode_utf16 str) \<Longrightarrow> yields supplies (utf16_le str) (rd_unicode_bytes ops n) str"
  using bytes skip u8_varbyte varchar_u8 varchar_u16 unicode unicode_bytes by (auto simp: yields_def)

lemmas bind_rules = yields_bind_byte [OF scalars_yield(1)] scalars_yield(2-10) [THEN yields_bind] strings_yield [THEN yields_bind]
lemmas last_rules = scalars_yield [THEN yields_last] strings_yield [THEN yields_last]

lemma maybe_bytes_yield: "n = length bs \<Longrightarrow> P = (0 < n) \<Longrightarrow> yields supplies bs (if P then rd_bytes ops n else rret []) bs"
  using strings_yield(1) [of n bs] yields_rret by (cases "bs = []") auto

text \<open>A buffered token is taken in one slice and an unbuffered one in pieces: the values agree.\<close>

lemma yields_try_slice:
  assumes "n = length c" and "c \<noteq> []" and "yields supplies [] (f (Some c)) v" and "yields supplies c (f None) v"
  shows "yields supplies c (rbind (rd_try_slice ops n) f) v"
  unfolding yields_def
proof (intro allI impI)
  fix rest s assume s: "supplies (c @ rest) s"
  from try_slice [OF s assms(1,2)] show "\<exists>s'. rbind (rd_try_slice ops n) f s = (Inr v, s') \<and> supplies rest s'"
  proof (elim disjE exE conjE)
    assume "rd_try_slice ops n s = (Inr None, s)"
    with assms(4) s show ?thesis by (auto simp: yields_def rbind_def)
  next
    fix s1 assume "rd_try_slice ops n s = (Inr (Some c), s1)" "supplies rest s1"
    with assms(3) show ?thesis by (auto simp: yields_def rbind_def)
  qed
qed



section \<open>The parsers\<close>

lemma done_yields:
  assumes "done_status_from (dn_status t) = dn_status t"
  shows "yields supplies (done_bytes t) (read_done_token ops) t"
  unfolding read_done_token_def
proof (rule yields_try_slice)
  note b = buffered_done_bytes [OF assms]
  show "DONE_PAYLOAD_LEN = length (done_bytes t)" "done_bytes t \<noteq> []" using b by (auto simp: DONE_PAYLOAD_LEN_def)
  show "yields supplies [] (case Some (done_bytes t) of Some bs \<Rightarrow> (case buffered_done_token bs of Some t \<Rightarrow> rret t
      | None \<Rightarrow> rfail (ProtocolError ''Buffered DONE payload is incomplete''))
    | None \<Rightarrow> rbind (rd_u16 ops) (\<lambda>status. rbind (rd_u16 ops) (\<lambda>command. rbind (rd_u64 ops) (\<lambda>row_count.
        rret \<lparr>dn_status = done_status_from status, dn_cur_cmd = current_command_from command, dn_row_count = row_count\<rparr>)))) t"
    using b by (simp add: yields_def)
  show "yields supplies (done_bytes t) (case None of Some bs \<Rightarrow> (case buffered_done_token bs of Some t \<Rightarrow> rret t
      | None \<Rightarrow> rfail (ProtocolError ''Buffered DONE payload is incomplete''))
    | None \<Rightarrow> rbind (rd_u16 ops) (\<lambda>status. rbind (rd_u16 ops) (\<lambda>command. rbind (rd_u64 ops) (\<lambda>row_count.
        rret \<lparr>dn_status = done_status_from status, dn_cur_cmd = current_command_from command, dn_row_count = row_count\<rparr>)))) t"
    unfolding done_bytes_def option.case
    by (intro bind_rules last_rules) (use assms in \<open>cases t, simp add: current_command_roundtrip\<close>)
qed

lemma error_yields:
  assumes "error_wf t"
  shows "yields supplies (error_bytes len t) (parse_error ops) t"
    and "yields supplies (error_bytes len t) (parse_info ops) t"
  using assms unfolding error_bytes_def parse_error_def parse_info_def error_wf_def
  by (elim conjE, intro bind_rules last_rules; cases t; simp add: unwrap_or_default_def)+

lemma login_ack_yields:
  assumes "fits_b (la_prog_name t)" and "vr_revision (la_prog_version t) = 0"
    and "sql_interface_type_from (sql_interface_type_u8 (la_interface_type t)) = la_interface_type t"
    and "tds_version_from (tds_version_u32 (la_tds_version t)) = la_tds_version t"
  shows "yields supplies (login_ack_bytes len t) (parse_login_ack ops) t"
  unfolding login_ack_bytes_def parse_login_ack_def
  by (intro bind_rules last_rules)
     (use assms in \<open>simp, cases t, cases "la_prog_version t", simp add: version_build\<close>)

lemma read_u16s_yields: "n = length xs \<Longrightarrow> yields supplies (concat (map to_le_u16 xs)) (read_u16s ops n) xs"
proof (induction xs arbitrary: n)
  case Nil
  then show ?case unfolding Nil by (simp add: yields_def)
next
  case (Cons x xs)
  then have "yields supplies (concat (map to_le_u16 xs)) (rbind (read_u16s ops (length xs)) (\<lambda>ys. rret (x # ys))) (x # xs)"
    by (intro yields_last) simp_all
  with Cons.prems show ?case by (simp add: yields_bind [OF scalars_yield(2)])
qed

lemma order_yields:
  assumes "2 * length cols < 65536"
  shows "yields supplies (order_bytes cols) (parse_order ops) cols"
proof -
  have "unat ((word_of_nat (2 * length cols) :: u16) div 2) = length cols"
    using assms unat_of_nat_u16 [of "2 * length cols"] by (simp add: unat_div)
  then show ?thesis unfolding order_bytes_def parse_order_def
    by (intro bind_rules) (simp add: read_u16s_yields)
qed

lemma return_status_yields: "yields supplies (to_le_u32 v) (read_return_status ops) v"
  unfolding read_return_status_def
  by (rule yields_try_slice) (use scalars_yield(5) in \<open>simp_all add: le32.enc_length le32.dec_enc yields_rret flip: length_greater_0_conv\<close>)

lemma sspi_yields:
  assumes "length bs < 65536"
  shows "yields supplies (us_varbyte bs) (parse_sspi ops) bs"
  unfolding us_varbyte_def parse_sspi_def
  by (intro bind_rules maybe_bytes_yield)
     (use assms in \<open>simp_all add: unat_of_nat_u16 word_less_nat_alt\<close>)

lemma skips_yield:
  assumes "length bs < 65536"
  shows "yields supplies (us_varbyte bs) (parse_tab_name ops) ()" and "yields supplies (us_varbyte bs) (parse_col_info ops) ()"
  unfolding us_varbyte_def parse_tab_name_def parse_col_info_def
  by (intro bind_rules strings_yield; use assms in \<open>simp add: unat_of_nat_u16\<close>)+

lemma feature_loop_yields:
  assumes "list_all feature_wf fs" and "length fs < fuel"
  shows "yields supplies (feature_ext_bytes fs) (feature_loop ops fuel acc) (acc @ fs)"
  using assms
proof (induction fs arbitrary: fuel acc)
  case Nil
  then obtain k where k: "fuel = Suc k" by (cases fuel) auto
  have "feature_extension_from 0xFF = FE_Terminator" by (simp add: feature_extension_from_def)
  then show ?case unfolding k feature_ext_bytes_def feature_loop.simps
    by (simp del: feature_loop.simps) (rule yields_last [OF scalars_yield(1)], simp)
next
  case (Cons f fs)
  then obtain k where k: "fuel = Suc k" "length fs < k" by (cases fuel) auto
  have wf: "feature_extension_from (feature_extension_u8 (fst f)) = fst f" "fst f \<noteq> FE_Terminator" "length (snd f) \<le> 1024"
    using Cons.prems(1) by (auto simp: feature_wf_def)
  have len: "unat (word_of_nat (length (snd f)) :: u32) = length (snd f)" using wf(3) by (intro unat_of_nat_u32) simp
  have "yields supplies (feature_ext_bytes fs) (feature_loop ops k (acc @ [f])) (acc @ f # fs)"
    using Cons.IH [of k "acc @ [f]"] Cons.prems(1) k(2) by simp
  then have "yields supplies (snd f @ feature_ext_bytes fs)
      (rbind (if (word_of_nat (length (snd f)) :: u32) > 0 then rd_bytes ops (unat (word_of_nat (length (snd f)) :: u32)) else rret [])
        (\<lambda>data. feature_loop ops k (acc @ [(fst f, data)]))) (acc @ f # fs)"
    by (intro yields_bind [OF maybe_bytes_yield]) (simp_all add: len word_less_nat_alt)
  then show ?case
    unfolding k feature_loop.simps feature_ext_bytes_def feature_bytes_def list.map concat.simps append_Cons append_assoc
    using wf len by (intro yields_bind_byte [OF scalars_yield(1)])
      (simp add: MAX_ALLOWED_FE_DATA_IN_BYTES_def yields_bind [OF scalars_yield(3)])
qed

lemma state_len_yields:
  assumes "n < 4294967296" and "k + length (state_len_bytes n) \<le> total_length"
  shows "yields supplies (state_len_bytes n) (read_state_len ops total_length k) (n, k + length (state_len_bytes n))"
proof (cases "n < 255")
  case True
  then have "unat (word_of_nat n :: u8) = n" by (simp add: unat_of_nat_u8)
  moreover from this True have "(word_of_nat n :: u8) \<noteq> 0xFF" by auto
  ultimately have "yields supplies [word_of_nat n] (read_state_len ops total_length k) (n, k + 1)"
    unfolding read_state_len_def by (intro last_rules) simp
  with True show ?thesis by (simp add: state_len_bytes_def)
next
  case False
  have "yields supplies (to_le_u32 (word_of_nat n)) (rbind (rd_u32 ops) (\<lambda>l. rret (unat l, k + 1 + 4))) (n, k + 5)"
    using assms(1) by (intro yields_last [OF scalars_yield(3)]) (simp add: unat_of_nat_u32 add.commute)
  then have "yields supplies (0xFF # to_le_u32 (word_of_nat n)) (read_state_len ops total_length k) (n, k + 5)"
    unfolding read_state_len_def
    by (intro bind_rules) (use False assms(2) in \<open>simp add: state_len_bytes_def le32.enc_length\<close>)
  with False show ?thesis by (simp add: state_len_bytes_def le32.enc_length)
qed

lemma session_states_yield:
  assumes "list_all (\<lambda>e. se_recoverable e = (status AND 0x01 \<noteq> 0)) es"
    and "n + length (concat (map state_bytes es)) = total_length" and "total_length < 4294967296"
  shows "yields supplies (concat (map state_bytes es)) (session_states ops status total_length n acc) (acc @ es)"
  using assms
proof (induction es arbitrary: n acc)
  case Nil
  then show ?case by (simp add: session_states_done yields_rret)
next
  case (Cons e es)
  let ?d = "length (se_data e)"
  let ?n = "n + 1 + length (state_len_bytes ?d)"
  have sl: "0 < length (state_len_bytes ?d)" by (simp add: state_len_bytes_def)
  have len: "?n + ?d + length (concat (map state_bytes es)) = total_length"
    using Cons.prems(2) by (simp add: state_bytes_def [of e])
  have e: "\<lparr>se_state_id = se_state_id e, se_recoverable = (status AND 0x01 \<noteq> 0), se_data = se_data e\<rparr> = e"
    using Cons.prems(1) by (cases e) auto
  have "yields supplies (concat (map state_bytes es)) (session_states ops status total_length (?n + ?d) (acc @ [e])) (acc @ e # es)"
    using Cons.IH [of "?n + ?d" "acc @ [e]"] Cons.prems(1,3) len by simp
  then have data: "yields supplies (se_data e @ concat (map state_bytes es))
      (rbind (if 0 < ?d then rd_bytes ops ?d else rret []) (\<lambda>d. session_states ops status total_length (?n + ?d)
         (acc @ [\<lparr>se_state_id = se_state_id e, se_recoverable = (status AND 0x01 \<noteq> 0), se_data = d\<rparr>]))) (acc @ e # es)"
    by (intro yields_bind [OF maybe_bytes_yield [OF refl refl]]) (simp only: e)
  have lr: "yields supplies (state_len_bytes ?d) (read_state_len ops total_length (n + 1)) (?d, ?n)"
    using len Cons.prems(3) by (intro state_len_yields) simp_all
  have n: "n < total_length" "\<not> n + 1 + 1 > total_length" "\<not> ?d > total_length - ?n" using len sl by linarith+
  show ?case
    unfolding session_states_step [OF n(1)] list.map concat.simps state_bytes_def [of e] append_Cons append_assoc
    by (intro yields_bind_byte [OF scalars_yield(1)] yields_else [OF n(2)] yields_bind [OF lr],
        unfold prod.sel, intro yields_else [OF n(3)] data)
qed

lemma session_state_yields:
  assumes "session_state_wf t"
  shows "yields supplies (session_state_bytes t) (parse_session_state ops) t"
proof -
  let ?es = "concat (map state_bytes (st_states t))"
  let ?body = "to_le_u32 (st_sequence_number t) @ st_status t # ?es"
  have len: "length ?body = 5 + length ?es" by (simp add: le32.enc_length)
  have small: "5 + length ?es \<le> 1024 * 1024" using assms by (simp add: session_state_wf_def)
  have u: "unat (word_of_nat (length ?body) :: u32) = 5 + length ?es"
    using small unfolding len by (intro unat_of_nat_u32) simp
  have "yields supplies ?es (session_states ops (st_status t) (5 + length ?es) 5 []) ([] @ st_states t)"
    using assms small by (intro session_states_yield) (simp_all add: session_state_wf_def)
  then have "yields supplies ?body (rbind (rd_u32 ops) (\<lambda>sequence_number. rbind (rd_byte ops) (\<lambda>status.
      rbind (session_states ops status (5 + length ?es) 5 []) (\<lambda>states.
      rret \<lparr>st_sequence_number = sequence_number, st_status = status, st_states = states\<rparr>)))) t"
    by (intro bind_rules) (erule yields_last, cases t, simp)
  with u small show ?thesis
    unfolding session_state_bytes_def Let_def parse_session_state_def
    by (intro bind_rules) (simp add: MAX_SESSION_STATE_TOKEN_BYTES_def)
qed

lemma env_strings_yield: "fits_b a \<Longrightarrow> fits_b b \<Longrightarrow>
    yields supplies (b_varchar a @ b_varchar b) (env_strings ops) (EC_String \<lparr>old_value = b, new_value = a\<rparr>)"
  unfolding env_strings_def by (intro bind_rules last_rules) simp_all

lemma env_bytes_yield: "length a < 256 \<Longrightarrow> length b < 256 \<Longrightarrow>
    yields supplies (b_varbyte a @ b_varbyte b) (env_reset_connection ops) (EC_BytesType \<lparr>old_value = b, new_value = a\<rparr>)"
  unfolding env_reset_connection_def by (intro bind_rules last_rules) simp_all

lemma env_packet_size_yield:
  "fits_b (decimal a) \<Longrightarrow> fits_b (decimal b) \<Longrightarrow>
   yields supplies (b_varchar (decimal a) @ b_varchar (decimal b)) (env_packet_size ops) (EC_UInt32 \<lparr>old_value = b, new_value = a\<rparr>)"
  unfolding env_packet_size_def
  by (intro bind_rules last_rules) (simp_all add: parse_size_def parse_decimal rlift_def rbind_def fun_eq_iff)

lemma env_new_descriptor_yield:
  assumes "a \<noteq> 0"
  shows "yields supplies (b_varbyte (descriptor_bytes a) @ b_varbyte (descriptor_bytes 0)) (env_new_descriptor ops e)
    (EC_UInt64 \<lparr>old_value = 0, new_value = a\<rparr>)"
  unfolding env_new_descriptor_def
  by (intro bind_rules yields_bind_nil [OF yields_rlift] last_rules)
     (use assms in \<open>simp_all add: descriptor_bytes_def descriptor_def no_descriptor_def le64.enc_length le64.dec_enc
        rlift_def rbind_def fun_eq_iff\<close>)

lemma env_old_descriptor_yield:
  assumes "b \<noteq> 0"
  shows "yields supplies (b_varbyte (descriptor_bytes 0) @ b_varbyte (descriptor_bytes b)) (env_old_descriptor ops)
    (EC_UInt64 \<lparr>old_value = b, new_value = 0\<rparr>)"
  unfolding env_old_descriptor_def
  by (intro bind_rules yields_bind_nil [OF yields_rlift] last_rules)
     (use assms in \<open>simp_all add: descriptor_bytes_def descriptor_def no_descriptor_def le64.enc_length le64.dec_enc
        rlift_def rbind_def fun_eq_iff\<close>)

lemma env_collation_yield:
  assumes "env_collation (collation_bytes a) = a" and "env_collation (collation_bytes b) = b"
  shows "yields supplies (b_varbyte (collation_bytes a) @ b_varbyte (collation_bytes b)) (env_sql_collation ops)
    (EC_SqlCollation \<lparr>old_value = b, new_value = a\<rparr>)"
  unfolding env_sql_collation_def
  by (intro bind_rules last_rules) (use assms in \<open>auto simp: collation_bytes_def le32.enc_length split: option.splits\<close>)

lemma env_routing_yield:
  assumes "routing_wf r" and "token_length = word_of_nat (length (us_varbyte (routing_data r)) + 3)"
  shows "yields supplies (us_varbyte (routing_data r) @ to_le_u16 0) (env_routing ops token_length (ri_database r \<noteq> None))
    (EC_RoutingType \<lparr>old_value = None, new_value = Some r\<rparr>)"
proof -
  let ?n = "length (routing_data r)"
  have n: "unat (word_of_nat ?n :: u16) = ?n" using routing_data_length [OF assms(1)] by (intro unat_of_nat_u16) simp
  have t: "unat token_length = ?n + 5"
    unfolding assms(2) using routing_data_length [OF assms(1)]
    by (subst unat_of_nat_u16) (simp_all add: us_varbyte_def le16.enc_length)
  then have "\<not> token_length < 5" by (simp add: word_less_nat_alt)
  with n t show ?thesis
    unfolding env_routing_def us_varbyte_def append_assoc
    by (intro yields_else bind_rules last_rules)
       (simp_all add: parse_routing_bytes [OF assms(1), simplified] rlift_def rbind_def fun_eq_iff)
qed

lemma env_value_yield:
  assumes "env_value_wf t v" and "len = word_of_nat (length (env_value_bytes v) + 1)"
  shows "yields supplies (env_value_bytes v) (env_change_value ops len t) v"
proof (cases v)
  case (EC_String p)
  with assms(1) env_strings_yield [of "new_value p" "old_value p"] show ?thesis
    by (cases t) (auto simp: env_change_value_def)
next
  case (EC_SqlCollation p)
  with assms(1) env_collation_yield [of "new_value p" "old_value p"] show ?thesis
    by (simp add: env_change_value_def env_collation_bytes)
next
  case (EC_UInt32 p)
  with assms(1) env_packet_size_yield [of "new_value p" "old_value p"] show ?thesis
    by (simp add: env_change_value_def fits_decimal)
next
  case (EC_UInt64 p)
  with assms(1) env_new_descriptor_yield [of "new_value p"] env_old_descriptor_yield [of "old_value p"] show ?thesis
    by (cases p) (auto simp: env_change_value_def)
next
  case (EC_BytesType p)
  with assms(1) env_bytes_yield [of "new_value p" "old_value p"] show ?thesis by (simp add: env_change_value_def)
next
  case (EC_RoutingType p)
  with assms obtain r where r: "new_value p = Some r" "old_value p = None" "routing_wf r"
    "t = (case ri_database r of None \<Rightarrow> ES_Routing | Some _ \<Rightarrow> ES_EnhancedRouting)" by auto
  have "env_change_value ops len t = env_routing ops len (ri_database r \<noteq> None)"
    using r(4) by (cases "ri_database r") (simp_all add: env_change_value_def)
  moreover have "v = EC_RoutingType \<lparr>old_value = None, new_value = Some r\<rparr>" using r EC_RoutingType by (cases p) simp
  ultimately show ?thesis
    using env_routing_yield [OF r(3), of len] assms(2) by (simp add: le16.enc_length)
qed

lemma env_change_yields:
  assumes "env_change_wf t"
  shows "yields supplies (env_change_bytes t) (parse_env_change ops) t"
proof -
  let ?b = "env_value_bytes (ev_change_type t)"
  have wf: "env_value_wf (ev_sub_type t) (ev_change_type t)"
    "env_change_sub_type_from (env_change_sub_type_u8 (ev_sub_type t)) = ev_sub_type t"
    using assms by (simp_all add: env_change_wf_def)
  have "yields supplies ?b (env_change_value ops (word_of_nat (length (env_change_sub_type_u8 (ev_sub_type t) # ?b))) (ev_sub_type t)) (ev_change_type t)"
    by (rule env_value_yield [OF wf(1)]) simp
  then show ?thesis
    unfolding env_change_bytes_def Let_def parse_env_change_def
    by (intro bind_rules) (rule yields_last, simp add: wf(2), use wf(2) in \<open>cases t, simp\<close>)
qed

end

end
