(* ===== verification/Sql_Data_Types.thy ===== *)
theory Sql_Data_Types
  imports Token_Safety Token_Content
begin

text \<open>
  The wire data types (\<^verbatim>\<open>mssql-tds/src/datatypes/sqldatatypes.rs\<close>), the TYPE_INFO descriptor and
  its parser \<^verbatim>\<open>read_type_info\<close>, and the column metadata record with its accessors
  (\<^verbatim>\<open>query/metadata.rs\<close>). \<open>type_info_wf\<close> is the invariant of the descriptors the parser builds; the
  value decoder relies on it.
\<close>

section \<open>Data types\<close>

datatype tds_data_type =
    DT_Void | DT_Image | DT_Text | DT_Guid | DT_VarBinary | DT_IntN | DT_VarChar | DT_DateN
    | DT_TimeN | DT_DateTime2N | DT_DateTimeOffsetN | DT_Binary | DT_Char | DT_Int1 | DT_Bit
    | DT_Int2 | DT_Decimal | DT_Int4 | DT_DateTim4 | DT_Flt4 | DT_Money | DT_DateTime | DT_Flt8
    | DT_Numeric | DT_SsVariant | DT_NText | DT_BitN | DT_DecimalN | DT_NumericN | DT_FltN
    | DT_MoneyN | DT_DateTimeN | DT_Money4 | DT_Int8 | DT_BigVarBinary | DT_BigVarChar
    | DT_BigBinary | DT_BigChar | DT_NVarChar | DT_NChar | DT_Udt | DT_Xml | DT_SqlTable | DT_Json
    | DT_Vector | DT_None

primrec tds_data_type_u8 :: "tds_data_type \<Rightarrow> u8" where
  "tds_data_type_u8 DT_Void = 0x1F"
| "tds_data_type_u8 DT_Image = 0x22"
| "tds_data_type_u8 DT_Text = 0x23"
| "tds_data_type_u8 DT_Guid = 0x24"
| "tds_data_type_u8 DT_VarBinary = 0x25"
| "tds_data_type_u8 DT_IntN = 0x26"
| "tds_data_type_u8 DT_VarChar = 0x27"
| "tds_data_type_u8 DT_DateN = 0x28"
| "tds_data_type_u8 DT_TimeN = 0x29"
| "tds_data_type_u8 DT_DateTime2N = 0x2A"
| "tds_data_type_u8 DT_DateTimeOffsetN = 0x2B"
| "tds_data_type_u8 DT_Binary = 0x2D"
| "tds_data_type_u8 DT_Char = 0x2F"
| "tds_data_type_u8 DT_Int1 = 0x30"
| "tds_data_type_u8 DT_Bit = 0x32"
| "tds_data_type_u8 DT_Int2 = 0x34"
| "tds_data_type_u8 DT_Decimal = 0x37"
| "tds_data_type_u8 DT_Int4 = 0x38"
| "tds_data_type_u8 DT_DateTim4 = 0x3A"
| "tds_data_type_u8 DT_Flt4 = 0x3B"
| "tds_data_type_u8 DT_Money = 0x3C"
| "tds_data_type_u8 DT_DateTime = 0x3D"
| "tds_data_type_u8 DT_Flt8 = 0x3E"
| "tds_data_type_u8 DT_Numeric = 0x3F"
| "tds_data_type_u8 DT_SsVariant = 0x62"
| "tds_data_type_u8 DT_NText = 0x63"
| "tds_data_type_u8 DT_BitN = 0x68"
| "tds_data_type_u8 DT_DecimalN = 0x6A"
| "tds_data_type_u8 DT_NumericN = 0x6C"
| "tds_data_type_u8 DT_FltN = 0x6D"
| "tds_data_type_u8 DT_MoneyN = 0x6E"
| "tds_data_type_u8 DT_DateTimeN = 0x6F"
| "tds_data_type_u8 DT_Money4 = 0x7A"
| "tds_data_type_u8 DT_Int8 = 0x7F"
| "tds_data_type_u8 DT_BigVarBinary = 0xA5"
| "tds_data_type_u8 DT_BigVarChar = 0xA7"
| "tds_data_type_u8 DT_BigBinary = 0xAD"
| "tds_data_type_u8 DT_BigChar = 0xAF"
| "tds_data_type_u8 DT_NVarChar = 0xE7"
| "tds_data_type_u8 DT_NChar = 0xEF"
| "tds_data_type_u8 DT_Udt = 0xF0"
| "tds_data_type_u8 DT_Xml = 0xF1"
| "tds_data_type_u8 DT_SqlTable = 0xF3"
| "tds_data_type_u8 DT_Json = 0xF4"
| "tds_data_type_u8 DT_Vector = 0xF5"
| "tds_data_type_u8 DT_None = 0x00"

definition tds_data_type_try_from :: "u8 \<Rightarrow> tds_data_type tds_result" where
  "tds_data_type_try_from v =
    (if v = 0x1F then Inr DT_Void
     else if v = 0x22 then Inr DT_Image
     else if v = 0x23 then Inr DT_Text
     else if v = 0x24 then Inr DT_Guid
     else if v = 0x25 then Inr DT_VarBinary
     else if v = 0x26 then Inr DT_IntN
     else if v = 0x27 then Inr DT_VarChar
     else if v = 0x28 then Inr DT_DateN
     else if v = 0x29 then Inr DT_TimeN
     else if v = 0x2A then Inr DT_DateTime2N
     else if v = 0x2B then Inr DT_DateTimeOffsetN
     else if v = 0x2D then Inr DT_Binary
     else if v = 0x2F then Inr DT_Char
     else if v = 0x30 then Inr DT_Int1
     else if v = 0x32 then Inr DT_Bit
     else if v = 0x34 then Inr DT_Int2
     else if v = 0x37 then Inr DT_Decimal
     else if v = 0x38 then Inr DT_Int4
     else if v = 0x3A then Inr DT_DateTim4
     else if v = 0x3B then Inr DT_Flt4
     else if v = 0x3C then Inr DT_Money
     else if v = 0x3D then Inr DT_DateTime
     else if v = 0x3E then Inr DT_Flt8
     else if v = 0x3F then Inr DT_Numeric
     else if v = 0x62 then Inr DT_SsVariant
     else if v = 0x63 then Inr DT_NText
     else if v = 0x68 then Inr DT_BitN
     else if v = 0x6A then Inr DT_DecimalN
     else if v = 0x6C then Inr DT_NumericN
     else if v = 0x6D then Inr DT_FltN
     else if v = 0x6E then Inr DT_MoneyN
     else if v = 0x6F then Inr DT_DateTimeN
     else if v = 0x7A then Inr DT_Money4
     else if v = 0x7F then Inr DT_Int8
     else if v = 0xA5 then Inr DT_BigVarBinary
     else if v = 0xA7 then Inr DT_BigVarChar
     else if v = 0xAD then Inr DT_BigBinary
     else if v = 0xAF then Inr DT_BigChar
     else if v = 0xE7 then Inr DT_NVarChar
     else if v = 0xEF then Inr DT_NChar
     else if v = 0xF0 then Inr DT_Udt
     else if v = 0xF1 then Inr DT_Xml
     else if v = 0xF3 then Inr DT_SqlTable
     else if v = 0xF4 then Inr DT_Json
     else if v = 0xF5 then Inr DT_Vector
     else Inl (ProtocolError ''Invalid TDS Type ''))"

definition get_meta_type_name :: "tds_data_type \<Rightarrow> string tds_result" where
  "get_meta_type_name t =
    (case t of
       DT_Int8 \<Rightarrow> Inr ''bigint'' | DT_Flt8 \<Rightarrow> Inr ''float''
       | DT_Flt4 \<Rightarrow> Inr ''real'' | DT_BigBinary \<Rightarrow> Inr ''binary''
       | DT_BigVarBinary \<Rightarrow> Inr ''varbinary'' | DT_Image \<Rightarrow> Inr ''image''
       | DT_Bit \<Rightarrow> Inr ''bit'' | DT_Int1 \<Rightarrow> Inr ''tinyint''
       | DT_Int2 \<Rightarrow> Inr ''smallint'' | DT_Int4 \<Rightarrow> Inr ''int''
       | DT_BigChar \<Rightarrow> Inr ''char'' | DT_BigVarChar \<Rightarrow> Inr ''varchar''
       | DT_Text \<Rightarrow> Inr ''text'' | DT_NChar \<Rightarrow> Inr ''nchar''
       | DT_NVarChar \<Rightarrow> Inr ''nvarchar'' | DT_NText \<Rightarrow> Inr ''ntext''
       | DT_DecimalN \<Rightarrow> Inr ''decimal'' | DT_Xml \<Rightarrow> Inr ''xml''
       | DT_DateTime \<Rightarrow> Inr ''datetime''
       | DT_DateTim4 \<Rightarrow> Inr ''smalldatetime'' | DT_Money \<Rightarrow> Inr ''money''
       | DT_Money4 \<Rightarrow> Inr ''smallmoney'' | DT_Guid \<Rightarrow> Inr ''uniqueidentifier''
       | DT_SsVariant \<Rightarrow> Inr ''sql_variant'' | DT_Udt \<Rightarrow> Inr ''udt''
       | DT_Json \<Rightarrow> Inr ''json'' | DT_Vector \<Rightarrow> Inr ''vector''
       | DT_DateN \<Rightarrow> Inr ''date'' | DT_TimeN \<Rightarrow> Inr ''time''
       | DT_DateTime2N \<Rightarrow> Inr ''datetime2''
       | DT_DateTimeOffsetN \<Rightarrow> Inr ''datetimeoffset''
       | DT_VarChar \<Rightarrow> Inr ''varchar'' | DT_VarBinary \<Rightarrow> Inr ''varbinary''
       | DT_Char \<Rightarrow> Inr ''char'' | DT_Decimal \<Rightarrow> Inr ''decimal''
       | DT_Numeric \<Rightarrow> Inr ''numeric'' | DT_NumericN \<Rightarrow> Inr ''numeric''
     | _ \<Rightarrow> Inl (ImplementationError ''get_meta_type_name called on a type which has no SQL declaration name''))"


datatype fixed_length_types =
    FL_Int1 | FL_Bit | FL_Int2 | FL_Int4 | FL_DateTim4 | FL_Flt4 | FL_Money4 | FL_Money
    | FL_DateTime | FL_Flt8 | FL_Int8

definition fixed_length_types_try_from :: "tds_data_type \<Rightarrow> fixed_length_types tds_result" where
  "fixed_length_types_try_from t =
    (case t of
       DT_Int1 \<Rightarrow> Inr FL_Int1 | DT_Bit \<Rightarrow> Inr FL_Bit
       | DT_Int2 \<Rightarrow> Inr FL_Int2 | DT_Int4 \<Rightarrow> Inr FL_Int4
       | DT_DateTim4 \<Rightarrow> Inr FL_DateTim4 | DT_Flt4 \<Rightarrow> Inr FL_Flt4
       | DT_Money4 \<Rightarrow> Inr FL_Money4 | DT_Money \<Rightarrow> Inr FL_Money
       | DT_DateTime \<Rightarrow> Inr FL_DateTime | DT_Flt8 \<Rightarrow> Inr FL_Flt8
       | DT_Int8 \<Rightarrow> Inr FL_Int8
     | _ \<Rightarrow> Inl (ProtocolError ''Invalid TDS Type ''))"

definition fixed_get_len :: "fixed_length_types \<Rightarrow> nat" where
  "fixed_get_len t =
    (case t of FL_Int1 \<Rightarrow> 1 | FL_Bit \<Rightarrow> 1 | FL_Int2 \<Rightarrow> 2
     | FL_Int4 \<Rightarrow> 4 | FL_DateTim4 \<Rightarrow> 4 | FL_Flt4 \<Rightarrow> 4 | FL_Money4 \<Rightarrow> 4
     | FL_Money \<Rightarrow> 8 | FL_DateTime \<Rightarrow> 8 | FL_Flt8 \<Rightarrow> 8 | FL_Int8 \<Rightarrow> 8)"

datatype variable_length_types =
    VL_Guid | VL_IntN | VL_BitN | VL_Decimal | VL_Numeric | VL_DecimalN | VL_NumericN | VL_FltN
    | VL_MoneyN | VL_DateTimeN | VL_DateN | VL_TimeN | VL_DateTime2N | VL_DateTimeOffsetN | VL_Char
    | VL_VarChar | VL_Binary | VL_VarBinary | VL_BigVarBinary | VL_BigVarChar | VL_BigBinary
    | VL_BigChar | VL_NVarChar | VL_NChar | VL_Text | VL_Image | VL_NText | VL_SsVariant | VL_Vector

definition variable_length_types_try_from :: "tds_data_type \<Rightarrow> variable_length_types tds_result" where
  "variable_length_types_try_from t =
    (case t of
       DT_Guid \<Rightarrow> Inr VL_Guid | DT_IntN \<Rightarrow> Inr VL_IntN
       | DT_BitN \<Rightarrow> Inr VL_BitN | DT_Decimal \<Rightarrow> Inr VL_Decimal
       | DT_Numeric \<Rightarrow> Inr VL_Numeric | DT_DecimalN \<Rightarrow> Inr VL_DecimalN
       | DT_NumericN \<Rightarrow> Inr VL_NumericN | DT_FltN \<Rightarrow> Inr VL_FltN
       | DT_MoneyN \<Rightarrow> Inr VL_MoneyN | DT_DateTimeN \<Rightarrow> Inr VL_DateTimeN
       | DT_DateN \<Rightarrow> Inr VL_DateN | DT_TimeN \<Rightarrow> Inr VL_TimeN
       | DT_DateTime2N \<Rightarrow> Inr VL_DateTime2N
       | DT_DateTimeOffsetN \<Rightarrow> Inr VL_DateTimeOffsetN | DT_Char \<Rightarrow> Inr VL_Char
       | DT_VarChar \<Rightarrow> Inr VL_VarChar | DT_Binary \<Rightarrow> Inr VL_Binary
       | DT_VarBinary \<Rightarrow> Inr VL_VarBinary
       | DT_BigVarBinary \<Rightarrow> Inr VL_BigVarBinary
       | DT_BigVarChar \<Rightarrow> Inr VL_BigVarChar | DT_BigBinary \<Rightarrow> Inr VL_BigBinary
       | DT_BigChar \<Rightarrow> Inr VL_BigChar | DT_NVarChar \<Rightarrow> Inr VL_NVarChar
       | DT_NChar \<Rightarrow> Inr VL_NChar | DT_Text \<Rightarrow> Inr VL_Text
       | DT_Image \<Rightarrow> Inr VL_Image | DT_NText \<Rightarrow> Inr VL_NText
       | DT_SsVariant \<Rightarrow> Inr VL_SsVariant | DT_Vector \<Rightarrow> Inr VL_Vector
     | _ \<Rightarrow> Inl (ProtocolError ''Invalid TDS Type ''))"

definition get_len_byte_count :: "variable_length_types \<Rightarrow> nat" where
  "get_len_byte_count t =
    (case t of VL_BigVarBinary \<Rightarrow> 2 | VL_BigVarChar \<Rightarrow> 2 | VL_BigBinary \<Rightarrow> 2 | VL_BigChar \<Rightarrow> 2
     | VL_NVarChar \<Rightarrow> 2 | VL_NChar \<Rightarrow> 2 | VL_Vector \<Rightarrow> 2
     | VL_Image \<Rightarrow> 4 | VL_NText \<Rightarrow> 4 | VL_SsVariant \<Rightarrow> 4 | VL_Text \<Rightarrow> 4
     | _ \<Rightarrow> 1)"

datatype partial_length_type =
    PL_Xml | PL_BigVarChar | PL_BigVarBinary | PL_NVarChar | PL_Udt | PL_Json

definition partial_length_type_try_from :: "tds_data_type \<Rightarrow> partial_length_type tds_result" where
  "partial_length_type_try_from t =
    (case t of
       DT_Xml \<Rightarrow> Inr PL_Xml | DT_BigVarChar \<Rightarrow> Inr PL_BigVarChar
       | DT_BigVarBinary \<Rightarrow> Inr PL_BigVarBinary
       | DT_NVarChar \<Rightarrow> Inr PL_NVarChar | DT_Udt \<Rightarrow> Inr PL_Udt
       | DT_Json \<Rightarrow> Inr PL_Json
     | _ \<Rightarrow> Inl (ProtocolError ''Invalid TDS Type ''))"


section \<open>Vector headers\<close>

definition vector_layout_format_try_from :: "u8 \<Rightarrow> unit tds_result" where
  "vector_layout_format_try_from v = (if v = 0xA9 then Inr () else Inl (ProtocolError ''Invalid Vector layout format: ''))"

definition vector_layout_version_try_from :: "u8 \<Rightarrow> unit tds_result" where
  "vector_layout_version_try_from v = (if v = 0x01 then Inr () else Inl (ProtocolError ''Unsupported Vector layout version: ''))"

datatype vector_base_type = VB_Float32 | VB_Float16

definition vector_base_type_try_from :: "u8 \<Rightarrow> vector_base_type tds_result" where
  "vector_base_type_try_from v =
     (if v = 0x00 then Inr VB_Float32 else if v = 0x01 then Inr VB_Float16
      else Inl (ProtocolError ''Unsupported Vector base type: ''))"

definition element_size_bytes :: "vector_base_type \<Rightarrow> nat" where
  "element_size_bytes t = (case t of VB_Float32 \<Rightarrow> 4 | VB_Float16 \<Rightarrow> 2)"

definition max_dimensions :: "vector_base_type \<Rightarrow> nat" where
  "max_dimensions t = (case t of VB_Float32 \<Rightarrow> 1998 | VB_Float16 \<Rightarrow> 3996)"

definition VECTOR_HEADER_SIZE :: nat where "VECTOR_HEADER_SIZE = 8"
definition VECTOR_MAX_SIZE :: nat where "VECTOR_MAX_SIZE = 8000"


section \<open>TYPE_INFO\<close>

record xml_info =
  xi_schema_present :: u8
  xi_db_name :: "rstring option"
  xi_owning_schema :: "rstring option"
  xi_xml_schema_collection :: "rstring option"

record udt_info =
  ud_max_byte_size :: u16
  ud_db_name :: rstring
  ud_schema_name :: rstring
  ud_type_name :: rstring
  ud_assembly_qualified_name :: rstring

datatype type_info_variant =
    FixedLen fixed_length_types
  | VarLenString variable_length_types nat "sql_collation option"
  | VarLenPrecisionScale variable_length_types nat u8 u8
  | VarLenScale variable_length_types u8
  | VarLen variable_length_types nat
  | PartialLen partial_length_type "nat option" "sql_collation option" "xml_info option" "udt_info option"

record type_info =
  ti_tds_type :: tds_data_type
  ti_length :: nat
  ti_variant :: type_info_variant

text \<open>The public constructors.\<close>

definition ti_fixed_len :: "tds_data_type \<Rightarrow> type_info tds_result" where
  "ti_fixed_len t =
     (case fixed_length_types_try_from t of Inl e \<Rightarrow> Inl e
      | Inr f \<Rightarrow> Inr \<lparr>ti_tds_type = t, ti_length = fixed_get_len f, ti_variant = FixedLen f\<rparr>)"

definition plain_var_len :: "variable_length_types \<Rightarrow> bool" where
  "plain_var_len v \<longleftrightarrow> (case v of VL_MoneyN \<Rightarrow> True | VL_DateTimeN \<Rightarrow> True | VL_IntN \<Rightarrow> True | VL_FltN \<Rightarrow> True
     | VL_Guid \<Rightarrow> True | VL_BitN \<Rightarrow> True | VL_DateN \<Rightarrow> True | VL_Image \<Rightarrow> True | VL_BigVarBinary \<Rightarrow> True
     | VL_BigBinary \<Rightarrow> True | VL_SsVariant \<Rightarrow> True | _ \<Rightarrow> False)"

definition ti_var_len :: "tds_data_type \<Rightarrow> nat \<Rightarrow> type_info tds_result" where
  "ti_var_len t len =
     (case variable_length_types_try_from t of Inl e \<Rightarrow> Inl e
      | Inr v \<Rightarrow> if plain_var_len v then Inr \<lparr>ti_tds_type = t, ti_length = len, ti_variant = VarLen v len\<rparr>
                else Inl (ProtocolError ''Invalid TDS type for var_len constructor''))"

definition string_var_len :: "variable_length_types \<Rightarrow> bool" where
  "string_var_len v \<longleftrightarrow> (case v of VL_BigChar \<Rightarrow> True | VL_BigVarChar \<Rightarrow> True | VL_Text \<Rightarrow> True | VL_NText \<Rightarrow> True
     | VL_NChar \<Rightarrow> True | VL_NVarChar \<Rightarrow> True | _ \<Rightarrow> False)"

definition ti_var_len_string :: "tds_data_type \<Rightarrow> nat \<Rightarrow> sql_collation option \<Rightarrow> type_info tds_result" where
  "ti_var_len_string t len collation =
     (case variable_length_types_try_from t of Inl e \<Rightarrow> Inl e
      | Inr v \<Rightarrow> if string_var_len v then Inr \<lparr>ti_tds_type = t, ti_length = len, ti_variant = VarLenString v len collation\<rparr>
                else Inl (ProtocolError ''Invalid TDS type for var_len_string constructor''))"

definition scaled_var_len :: "variable_length_types \<Rightarrow> bool" where
  "scaled_var_len v \<longleftrightarrow> (case v of VL_TimeN \<Rightarrow> True | VL_DateTime2N \<Rightarrow> True | VL_DateTimeOffsetN \<Rightarrow> True
     | VL_Vector \<Rightarrow> True | _ \<Rightarrow> False)"

definition ti_var_len_scale :: "tds_data_type \<Rightarrow> nat \<Rightarrow> u8 \<Rightarrow> type_info tds_result" where
  "ti_var_len_scale t len scale =
     (case variable_length_types_try_from t of Inl e \<Rightarrow> Inl e
      | Inr v \<Rightarrow> if scaled_var_len v then Inr \<lparr>ti_tds_type = t, ti_length = len, ti_variant = VarLenScale v scale\<rparr>
                else Inl (ProtocolError ''Invalid TDS type for var_len_scale constructor''))"

definition decimal_var_len :: "variable_length_types \<Rightarrow> bool" where
  "decimal_var_len v \<longleftrightarrow> (case v of VL_Decimal \<Rightarrow> True | VL_Numeric \<Rightarrow> True | VL_DecimalN \<Rightarrow> True
     | VL_NumericN \<Rightarrow> True | _ \<Rightarrow> False)"

definition ti_var_len_precision_scale :: "tds_data_type \<Rightarrow> nat \<Rightarrow> u8 \<Rightarrow> u8 \<Rightarrow> type_info tds_result" where
  "ti_var_len_precision_scale t len precision scale =
     (case variable_length_types_try_from t of Inl e \<Rightarrow> Inl e
      | Inr v \<Rightarrow> if decimal_var_len v
                then Inr \<lparr>ti_tds_type = t, ti_length = len, ti_variant = VarLenPrecisionScale v len precision scale\<rparr>
                else Inl (ProtocolError ''Invalid TDS type for var_len_precision_scale constructor''))"

definition ti_partial_len :: "tds_data_type \<Rightarrow> nat \<Rightarrow> sql_collation option \<Rightarrow> type_info tds_result" where
  "ti_partial_len t len collation =
     (case partial_length_type_try_from t of Inl e \<Rightarrow> Inl e
      | Inr p \<Rightarrow> Inr \<lparr>ti_tds_type = t, ti_length = len, ti_variant = PartialLen p (Some len) collation None None\<rparr>)"

definition ti_udt_info :: "type_info \<Rightarrow> udt_info option" where
  "ti_udt_info ti = (case ti_variant ti of PartialLen PL_Udt _ _ _ (Some info) \<Rightarrow> Some info | _ \<Rightarrow> None)"



section \<open>Parsing TYPE_INFO\<close>

text \<open>\<^verbatim>\<open>let mut buf = [0u8; n]; reader.read_bytes(&mut buf)\<close>: a buffer of exactly \<open>n\<close> bytes.\<close>

definition read_zeroed :: "'s packet_reader_ops \<Rightarrow> nat \<Rightarrow> ('s, bytes) action" where
  "read_zeroed ops n = rbind (rd_bytes ops n) (\<lambda>bs. rret (take n (bs @ replicate n 0)))"

definition get_time_length_from_scale :: "u8 \<Rightarrow> nat tds_result" where
  "get_time_length_from_scale scale =
     (if scale \<le> 2 then Inr 3 else if scale \<le> 4 then Inr 4 else if scale \<le> 7 then Inr 5
      else Inl (UsageError ''Invalid scale for Time type: ''))"

text \<open>\<^verbatim>\<open>i32 as usize\<close> extends the sign.\<close>

definition i32_as_usize :: "u32 \<Rightarrow> nat" where
  "i32_as_usize x = unat (scast x :: u64)"

definition get_variable_length :: "'s packet_reader_ops \<Rightarrow> variable_length_types \<Rightarrow> ('s, nat) action" where
  "get_variable_length ops v =
     (if get_len_byte_count v = 1 then rbind (rd_byte ops) (\<lambda>b. rret (unat b))
      else if get_len_byte_count v = 2 then rbind (rd_u16 ops) (\<lambda>x. rret (unat x))
      else if get_len_byte_count v = 4 then rbind (rd_i32 ops) (\<lambda>x.
        if sint x < 0 then rfail (ProtocolError ''Invalid length value for data type. Length cannot be negative.'')
        else rret (i32_as_usize x))
      else rfail (ProtocolError ''Invalid TDS length byte count for data type. Expected 1, 2, or 4 bytes.''))"

definition decimal_length :: "'s packet_reader_ops \<Rightarrow> variable_length_types \<Rightarrow> ('s, nat) action" where
  "decimal_length ops v =
     (if get_len_byte_count v = 1 then rbind (rd_byte ops) (\<lambda>b. rret (unat b))
      else if get_len_byte_count v = 2 then rbind (rd_u16 ops) (\<lambda>x. rret (unat x))
      else if get_len_byte_count v = 4 then rbind (rd_i32 ops) (\<lambda>x. rret (i32_as_usize x))
      else rfail (ProtocolError ''Invalid TDS length byte count for type: ''))"

text \<open>A time type: the scale is on the wire, the length follows from it.\<close>

definition read_time_info :: "'s packet_reader_ops \<Rightarrow> tds_data_type \<Rightarrow> variable_length_types \<Rightarrow> nat \<Rightarrow> ('s, type_info) action" where
  "read_time_info ops t v extra =
     rbind (rd_byte ops) (\<lambda>scale.
     rbind (rlift (get_time_length_from_scale scale)) (\<lambda>time_length.
     rret \<lparr>ti_tds_type = t, ti_length = time_length + extra, ti_variant = VarLenScale v scale\<rparr>))"

definition read_vector_info :: "'s packet_reader_ops \<Rightarrow> tds_data_type \<Rightarrow> ('s, type_info) action" where
  "read_vector_info ops t =
     rbind (rd_u16 ops) (\<lambda>len.
     rbind (rd_byte ops) (\<lambda>base.
     rbind (rlift (vector_base_type_try_from base)) (\<lambda>_.
     rret \<lparr>ti_tds_type = t, ti_length = unat len, ti_variant = VarLenScale VL_Vector base\<rparr>)))"

definition read_byte_len_info :: "'s packet_reader_ops \<Rightarrow> tds_data_type \<Rightarrow> variable_length_types \<Rightarrow> ('s, type_info) action" where
  "read_byte_len_info ops t v =
     rbind (rd_byte ops) (\<lambda>len. rret \<lparr>ti_tds_type = t, ti_length = unat len, ti_variant = VarLen v (unat len)\<rparr>)"

definition read_decimal_info :: "'s packet_reader_ops \<Rightarrow> tds_data_type \<Rightarrow> variable_length_types \<Rightarrow> ('s, type_info) action" where
  "read_decimal_info ops t v =
     rbind (decimal_length ops v) (\<lambda>len.
     rbind (rd_byte ops) (\<lambda>precision.
     rbind (rd_byte ops) (\<lambda>scale.
     rret \<lparr>ti_tds_type = t, ti_length = len, ti_variant = VarLenPrecisionScale v len precision scale\<rparr>)))"

definition read_string_info :: "'s packet_reader_ops \<Rightarrow> tds_data_type \<Rightarrow> variable_length_types \<Rightarrow> ('s, type_info) action" where
  "read_string_info ops t v =
     rbind (get_variable_length ops v) (\<lambda>len.
     rbind (read_zeroed ops 5) (\<lambda>collation_bytes.
     rret \<lparr>ti_tds_type = t, ti_length = len,
           ti_variant = VarLenString v len (case collation_try_from collation_bytes of Inr c \<Rightarrow> Some c | Inl _ \<Rightarrow> None)\<rparr>))"

definition read_length_info :: "'s packet_reader_ops \<Rightarrow> tds_data_type \<Rightarrow> variable_length_types \<Rightarrow> ('s, type_info) action" where
  "read_length_info ops t v =
     rbind (get_variable_length ops v) (\<lambda>len. rret \<lparr>ti_tds_type = t, ti_length = len, ti_variant = VarLen v len\<rparr>)"

definition read_variable_info :: "'s packet_reader_ops \<Rightarrow> tds_data_type \<Rightarrow> variable_length_types \<Rightarrow> ('s, type_info) action" where
  "read_variable_info ops t v =
     (case v of
        VL_TimeN \<Rightarrow> read_time_info ops t v 0
      | VL_DateTime2N \<Rightarrow> read_time_info ops t v 3
      | VL_DateTimeOffsetN \<Rightarrow> read_time_info ops t v (3 + 2)
      | VL_Vector \<Rightarrow> read_vector_info ops t
      | VL_MoneyN \<Rightarrow> read_byte_len_info ops t v
      | VL_DateTimeN \<Rightarrow> read_byte_len_info ops t v
      | VL_IntN \<Rightarrow> read_byte_len_info ops t v
      | VL_FltN \<Rightarrow> read_byte_len_info ops t v
      | VL_Guid \<Rightarrow> read_byte_len_info ops t v
      | VL_BitN \<Rightarrow> read_byte_len_info ops t v
      | VL_DateN \<Rightarrow> rret \<lparr>ti_tds_type = t, ti_length = 3, ti_variant = VarLen v 3\<rparr>
      | VL_DecimalN \<Rightarrow> read_decimal_info ops t v
      | VL_NumericN \<Rightarrow> read_decimal_info ops t v
      | VL_Decimal \<Rightarrow> read_decimal_info ops t v
      | VL_Numeric \<Rightarrow> read_decimal_info ops t v
      | VL_BigChar \<Rightarrow> read_string_info ops t v
      | VL_BigVarChar \<Rightarrow> read_string_info ops t v
      | VL_Text \<Rightarrow> read_string_info ops t v
      | VL_NText \<Rightarrow> read_string_info ops t v
      | VL_NChar \<Rightarrow> read_string_info ops t v
      | VL_NVarChar \<Rightarrow> read_string_info ops t v
      | VL_Image \<Rightarrow> read_length_info ops t v
      | VL_BigVarBinary \<Rightarrow> read_length_info ops t v
      | VL_BigBinary \<Rightarrow> read_length_info ops t v
      | VL_SsVariant \<Rightarrow> read_length_info ops t v
      | _ \<Rightarrow> rfail (ProtocolError ''Unsupported TDS type for TypeInfo::read(). This type is not yet implemented.''))"

text \<open>An unknown length makes the three \<^verbatim>\<open>(max)\<close> types partially length-prefixed.\<close>

definition may_be_plp :: "tds_data_type \<Rightarrow> bool" where
  "may_be_plp t \<longleftrightarrow> t = DT_BigVarChar \<or> t = DT_BigVarBinary \<or> t = DT_NVarChar"

definition as_partial_len :: "tds_data_type \<Rightarrow> type_info \<Rightarrow> type_info tds_result" where
  "as_partial_len t ti =
     (if may_be_plp t \<and> ti_length ti = 0xFFFF then
        (case partial_length_type_try_from t of
           Inl _ \<Rightarrow> Inl (ProtocolError ''Data type reported an unknown length (0xFFFF) but has no partial-length form'')
         | Inr p \<Rightarrow>
             (case ti_variant ti of
                VarLenString _ _ collation \<Rightarrow>
                  Inr \<lparr>ti_tds_type = t, ti_length = ti_length ti, ti_variant = PartialLen p (Some (ti_length ti)) collation None None\<rparr>
              | VarLen _ _ \<Rightarrow>
                  Inr \<lparr>ti_tds_type = t, ti_length = ti_length ti, ti_variant = PartialLen p (Some (ti_length ti)) None None None\<rparr>
              | _ \<Rightarrow> Inl (ProtocolError ''Data type reported an unknown length (0xFFFF) with unsupported type info'')))
      else Inr ti)"

definition read_udt_info :: "'s packet_reader_ops \<Rightarrow> tds_data_type \<Rightarrow> ('s, type_info) action" where
  "read_udt_info ops t =
     rbind (rd_u16 ops) (\<lambda>len.
     rbind (rd_varchar_u8 ops) (\<lambda>db_name.
     rbind (rd_varchar_u8 ops) (\<lambda>schema_name.
     rbind (rd_varchar_u8 ops) (\<lambda>type_name.
     rbind (rd_varchar_u16 ops) (\<lambda>assembly.
       case assembly of
         None \<Rightarrow> rfail (ProtocolError ''Missing UDT assembly qualified name'')
       | Some name \<Rightarrow>
           rret \<lparr>ti_tds_type = t, ti_length = unat len,
                 ti_variant = PartialLen PL_Udt (Some (unat len)) None None
                   (Some \<lparr>ud_max_byte_size = len, ud_db_name = db_name, ud_schema_name = schema_name,
                          ud_type_name = type_name, ud_assembly_qualified_name = name\<rparr>)\<rparr>)))))"

definition when_present :: "bool \<Rightarrow> ('s, 'a option) action \<Rightarrow> ('s, 'a option) action" where
  "when_present p m = (if p then m else rret None)"

definition read_xml_info :: "'s packet_reader_ops \<Rightarrow> tds_data_type \<Rightarrow> ('s, type_info) action" where
  "read_xml_info ops t =
     rbind (rd_byte ops) (\<lambda>schema_present.
     rbind (when_present (schema_present = 0x01) (rbind (rd_varchar_u8 ops) (\<lambda>str. rret (Some str)))) (\<lambda>db_name.
     rbind (when_present (schema_present = 0x01) (rbind (rd_varchar_u8 ops) (\<lambda>str. rret (Some str)))) (\<lambda>owning_schema.
     rbind (when_present (schema_present = 0x01) (rd_varchar_u16 ops)) (\<lambda>collection.
     rret \<lparr>ti_tds_type = t, ti_length = 0xFFFF,
           ti_variant = PartialLen PL_Xml None None
             (Some \<lparr>xi_schema_present = schema_present, xi_db_name = db_name, xi_owning_schema = owning_schema,
                    xi_xml_schema_collection = collection\<rparr>) None\<rparr>))))"

definition read_partial_info :: "'s packet_reader_ops \<Rightarrow> tds_data_type \<Rightarrow> partial_length_type \<Rightarrow> ('s, type_info) action" where
  "read_partial_info ops t p =
     (case p of
        PL_Udt \<Rightarrow> read_udt_info ops t
      | PL_Json \<Rightarrow> rret \<lparr>ti_tds_type = t, ti_length = 0xFFFF, ti_variant = PartialLen p None None None None\<rparr>
      | PL_Xml \<Rightarrow> read_xml_info ops t
      | _ \<Rightarrow> rfail Panic)"

definition read_type_info :: "'s packet_reader_ops \<Rightarrow> tds_data_type \<Rightarrow> ('s, type_info) action" where
  "read_type_info ops t =
     (if t = DT_Void then rfail (ProtocolError
        ''Void data type (0x1F) is not supported in column metadata. This typically indicates malformed or invalid token stream.'')
      else case fixed_length_types_try_from t of
        Inr f \<Rightarrow> rret \<lparr>ti_tds_type = t, ti_length = fixed_get_len f, ti_variant = FixedLen f\<rparr>
      | Inl _ \<Rightarrow>
        (case variable_length_types_try_from t of
           Inr v \<Rightarrow> rbind (read_variable_info ops t v) (\<lambda>ti. rlift (as_partial_len t ti))
         | Inl _ \<Rightarrow>
           (case partial_length_type_try_from t of
              Inr p \<Rightarrow> read_partial_info ops t p
            | Inl _ \<Rightarrow> rfail (ProtocolError
                ''Unsupported TDS data type in TYPE_INFO stream. No variable-length encoding known for this type.''))))"

definition is_unicode_type :: "tds_data_type \<Rightarrow> bool" where
  "is_unicode_type t \<longleftrightarrow> t = DT_NVarChar \<or> t = DT_NChar \<or> t = DT_NText"


section \<open>Column metadata\<close>

record multi_part_name =
  mp_server_name :: "rstring option"
  mp_catalog_name :: "rstring option"
  mp_schema_name :: "rstring option"
  mp_table_name :: rstring

record encrypted_cek_value =
  ek_encrypted_key :: bytes
  ek_key_store_name :: rstring
  ek_key_path :: rstring
  ek_algorithm_name :: rstring

record cek_table_entry =
  ce_database_id :: u32
  ce_cek_id :: u32
  ce_cek_version :: u32
  ce_cek_md_version :: bytes
  ce_encrypted_cek_values :: "encrypted_cek_value list"

record crypto_metadata =
  cr_cek_table_ordinal :: u16
  cr_base_data_type :: tds_data_type
  cr_base_type_info :: type_info
  cr_cipher_algorithm_id :: u8
  cr_cipher_algorithm_name :: "rstring option"
  cr_encryption_type :: u8
  cr_normalization_rule_version :: u8

record column_metadata =
  cm_user_type :: u32
  cm_flags :: u16
  cm_type_info :: type_info
  cm_data_type :: tds_data_type
  cm_column_name :: rstring
  cm_multi_part_name :: "multi_part_name option"
  cm_crypto_metadata :: "crypto_metadata option"

definition is_nullable :: "column_metadata \<Rightarrow> bool" where "is_nullable c \<longleftrightarrow> cm_flags c AND 0x01 \<noteq> 0"
definition is_case_sensitive :: "column_metadata \<Rightarrow> bool" where "is_case_sensitive c \<longleftrightarrow> cm_flags c AND 0x02 \<noteq> 0"
definition is_identity :: "column_metadata \<Rightarrow> bool" where "is_identity c \<longleftrightarrow> cm_flags c AND 0x10 \<noteq> 0"
definition is_computed :: "column_metadata \<Rightarrow> bool" where "is_computed c \<longleftrightarrow> cm_flags c AND 0x20 \<noteq> 0"
definition is_sparse_column_set :: "column_metadata \<Rightarrow> bool" where "is_sparse_column_set c \<longleftrightarrow> cm_flags c AND 0x0400 \<noteq> 0"
definition is_encrypted :: "column_metadata \<Rightarrow> bool" where "is_encrypted c \<longleftrightarrow> cm_flags c AND 0x0800 \<noteq> 0"
definition is_hidden :: "column_metadata \<Rightarrow> bool" where "is_hidden c \<longleftrightarrow> cm_flags c AND 0x2000 \<noteq> 0"
definition is_key_column :: "column_metadata \<Rightarrow> bool" where "is_key_column c \<longleftrightarrow> cm_flags c AND 0x4000 \<noteq> 0"

definition variant_is_plp :: "type_info_variant \<Rightarrow> bool" where
  "variant_is_plp v \<longleftrightarrow> (case v of PartialLen _ _ _ _ _ \<Rightarrow> True | _ \<Rightarrow> False)"

definition is_plp :: "column_metadata \<Rightarrow> bool" where
  "is_plp c = variant_is_plp (ti_variant (cm_type_info c))"

datatype plp_encoding = Utf16Text | Utf8Text | SingleByteText | BinaryPlp

definition plp_encoding_of :: "column_metadata \<Rightarrow> plp_encoding option" where
  "plp_encoding_of c =
     (if \<not> is_plp c then None
      else Some (case cm_data_type c of
          DT_NVarChar \<Rightarrow> Utf16Text | DT_NChar \<Rightarrow> Utf16Text | DT_Xml \<Rightarrow> Utf16Text
        | DT_Json \<Rightarrow> Utf8Text
        | DT_BigVarChar \<Rightarrow> SingleByteText | DT_BigChar \<Rightarrow> SingleByteText | DT_VarChar \<Rightarrow> SingleByteText
        | DT_Char \<Rightarrow> SingleByteText | DT_Text \<Rightarrow> SingleByteText
        | _ \<Rightarrow> BinaryPlp))"

definition get_scale :: "column_metadata \<Rightarrow> u8 option" where
  "get_scale c =
     (case ti_variant (cm_type_info c) of
        VarLenScale _ scale \<Rightarrow> Some scale
      | VarLenPrecisionScale _ _ _ scale \<Rightarrow> Some scale
      | _ \<Rightarrow> None)"

definition get_precision :: "column_metadata \<Rightarrow> u8 option" where
  "get_precision c =
     (case ti_variant (cm_type_info c) of
        VarLenPrecisionScale _ _ precision _ \<Rightarrow> Some precision
      | FixedLen FL_Money \<Rightarrow> Some 19
      | FixedLen FL_Money4 \<Rightarrow> Some 10
      | VarLen VL_MoneyN len \<Rightarrow> if len = 8 then Some 19 else if len = 4 then Some 10 else None
      | _ \<Rightarrow> None)"

definition get_collation :: "column_metadata \<Rightarrow> sql_collation option" where
  "get_collation c =
     (case ti_variant (cm_type_info c) of
        VarLenString _ _ collation \<Rightarrow> collation
      | PartialLen _ _ collation _ _ \<Rightarrow> collation
      | _ \<Rightarrow> None)"

text \<open>The two \<^verbatim>\<open>unwrap\<close> calls panic on a narrow column without a collation.\<close>

definition get_encoding_type :: "column_metadata \<Rightarrow> encoding_type tds_result" where
  "get_encoding_type c =
     (if is_unicode_type (cm_data_type c) then Inr Utf16
      else case get_collation c of
        None \<Rightarrow> Inl Panic
      | Some collation \<Rightarrow> if utf8_flag collation then Inr Utf8 else Inr (LcidBased collation))"


section \<open>The invariant of type descriptors\<close>

definition time_extra :: "variable_length_types \<Rightarrow> nat" where
  "time_extra v = (case v of VL_TimeN \<Rightarrow> 0 | VL_DateTime2N \<Rightarrow> 3 | _ \<Rightarrow> 5)"

fun variant_wf :: "tds_data_type \<Rightarrow> nat \<Rightarrow> type_info_variant \<Rightarrow> bool" where
  "variant_wf t len (FixedLen f) \<longleftrightarrow> fixed_length_types_try_from t = Inr f \<and> len = fixed_get_len f"
| "variant_wf t len (VarLenString v n c) \<longleftrightarrow>
     variable_length_types_try_from t = Inr v \<and> string_var_len v \<and> len = n \<and> c \<noteq> None \<and> \<not> (may_be_plp t \<and> n = 0xFFFF)"
| "variant_wf t len (VarLenPrecisionScale v n p sc) \<longleftrightarrow> variable_length_types_try_from t = Inr v \<and> decimal_var_len v \<and> len = n"
| "variant_wf t len (VarLenScale v sc) \<longleftrightarrow>
     variable_length_types_try_from t = Inr v \<and> scaled_var_len v \<and>
     (if v = VL_Vector then sc \<le> 1 else \<exists>n. get_time_length_from_scale sc = Inr n \<and> len = n + time_extra v)"
| "variant_wf t len (VarLen v n) \<longleftrightarrow>
     variable_length_types_try_from t = Inr v \<and> plain_var_len v \<and> len = n \<and> \<not> (may_be_plp t \<and> n = 0xFFFF)"
| "variant_wf t len (PartialLen p n c x u) \<longleftrightarrow>
     partial_length_type_try_from t = Inr p \<and> (p = PL_BigVarChar \<or> p = PL_NVarChar \<longrightarrow> c \<noteq> None) \<and>
     (may_be_plp t \<longrightarrow> n = Some 0xFFFF) \<and> (p = PL_Udt \<longleftrightarrow> u \<noteq> None) \<and> (p = PL_Xml \<longleftrightarrow> x \<noteq> None)"

definition type_info_wf :: "type_info \<Rightarrow> bool" where
  "type_info_wf ti = variant_wf (ti_tds_type ti) (ti_length ti) (ti_variant ti)"

definition column_wf :: "column_metadata \<Rightarrow> bool" where
  "column_wf c \<longleftrightarrow> ti_tds_type (cm_type_info c) = cm_data_type c \<and> type_info_wf (cm_type_info c)"

end
