(* ===== verification/Type_Info_Laws.thy ===== *)
theory Type_Info_Laws
  imports Sql_Data_Types
begin

text \<open>
  What \<^verbatim>\<open>read_type_info\<close> guarantees: it returns on every input, the descriptors it builds satisfy
  \<open>type_info_wf\<close>, and it reads the wire form of a descriptor back.
\<close>

section \<open>Conversions\<close>

lemma tds_data_type_roundtrip: "t \<noteq> DT_None \<Longrightarrow> tds_data_type_try_from (tds_data_type_u8 t) = Inr t"
  by (cases t; simp add: tds_data_type_try_from_def)

lemma tds_data_type_try_from_Inr: "tds_data_type_try_from b = Inr t \<Longrightarrow> tds_data_type_u8 t = b \<and> t \<noteq> DT_None"
  by (auto simp: tds_data_type_try_from_def split: if_splits)

lemma tds_data_type_try_from_safe: "tds_data_type_try_from b \<noteq> Inl Panic" "tds_data_type_try_from b \<noteq> Inl Diverge"
  by (simp_all add: tds_data_type_try_from_def)

lemmas type_class_defs = fixed_length_types_try_from_def variable_length_types_try_from_def partial_length_type_try_from_def

lemma collation_of_five: "length bs = 5 \<Longrightarrow> \<exists>c. collation_try_from bs = Inr c"
  by (simp add: collation_try_from_def Let_def)

lemma may_be_plp_types:
  "may_be_plp t \<Longrightarrow> variable_length_types_try_from t = Inr v \<Longrightarrow>
     (\<exists>p. partial_length_type_try_from t = Inr p \<and> p \<noteq> PL_Udt \<and> p \<noteq> PL_Xml \<and> (t = DT_BigVarBinary \<longleftrightarrow> p = PL_BigVarBinary)) \<and>
     (if t = DT_BigVarBinary then plain_var_len v else string_var_len v)"
  by (auto simp: may_be_plp_def type_class_defs plain_var_len_def string_var_len_def)


section \<open>Results\<close>

text \<open>\<open>ensures m P\<close>: a value that \<open>m\<close> returns satisfies \<open>P\<close>.\<close>

definition ensures :: "('s, 'a) action \<Rightarrow> ('a \<Rightarrow> bool) \<Rightarrow> bool" where
  "ensures m P \<longleftrightarrow> (\<forall>s v s'. m s = (Inr v, s') \<longrightarrow> P v)"

named_theorems ensures_rules \<open>what returned values satisfy\<close>

lemma ensures_rret [ensures_rules]: "P v \<Longrightarrow> ensures (rret v) P"
  by (simp add: ensures_def)

lemma ensures_rfail [ensures_rules]: "ensures (rfail e) P"
  by (simp add: ensures_def)

lemma ensures_rlift: "(\<And>v. r = Inr v \<Longrightarrow> P v) \<Longrightarrow> ensures (rlift r) P"
  by (auto simp: ensures_def rlift_def)

lemma ensures_bind [ensures_rules]: "(\<And>v. ensures (f v) P) \<Longrightarrow> ensures (rbind m f) P"
  unfolding ensures_def by (meson rbind_InrE)

lemma ensures_bind_mid: "ensures m Q \<Longrightarrow> (\<And>v. Q v \<Longrightarrow> ensures (f v) P) \<Longrightarrow> ensures (rbind m f) P"
  unfolding ensures_def by (meson rbind_InrE)

lemma ensures_if [ensures_rules]: "(b \<Longrightarrow> ensures m P) \<Longrightarrow> (\<not> b \<Longrightarrow> ensures n P) \<Longrightarrow> ensures (if b then m else n) P"
  by simp

lemma ensures_option [ensures_rules]: "(v = None \<Longrightarrow> ensures m P) \<Longrightarrow> (\<And>x. v = Some x \<Longrightarrow> ensures (f x) P) \<Longrightarrow> ensures (case v of None \<Rightarrow> m | Some x \<Rightarrow> f x) P"
  by (cases v) simp_all

lemma ensures_weaken: "ensures m P \<Longrightarrow> (\<And>v. P v \<Longrightarrow> Q v) \<Longrightarrow> ensures m Q"
  by (auto simp: ensures_def)

lemma ensuresD: "ensures m P \<Longrightarrow> m s = (Inr v, s') \<Longrightarrow> P v"
  by (auto simp: ensures_def)

lemma read_zeroed_length: "ensures (read_zeroed ops n) (\<lambda>bs. length bs = n)"
  unfolding read_zeroed_def by (intro ensures_rules) simp


section \<open>The invariant\<close>

text \<open>Before the unknown length is turned into a partial one.\<close>

definition variable_info_ok :: "tds_data_type \<Rightarrow> variable_length_types \<Rightarrow> type_info \<Rightarrow> bool" where
  "variable_info_ok t v ti \<longleftrightarrow> ti_tds_type ti = t \<and>
     (case ti_variant ti of
        VarLenString v' n c \<Rightarrow> v' = v \<and> string_var_len v \<and> ti_length ti = n \<and> c \<noteq> None
      | VarLen v' n \<Rightarrow> v' = v \<and> plain_var_len v \<and> ti_length ti = n
      | w \<Rightarrow> variant_wf t (ti_length ti) w)"

lemma read_time_info_ok:
  assumes "variable_length_types_try_from t = Inr v" and "scaled_var_len v" and "v \<noteq> VL_Vector" and "extra = time_extra v"
  shows "ensures (read_time_info ops t v extra) (variable_info_ok t v)"
  unfolding read_time_info_def
  by (intro ensures_bind ensures_bind_mid [OF ensures_rlift [of "get_time_length_from_scale scale" "\<lambda>n. get_time_length_from_scale scale = Inr n" for scale]] ensures_rret)
     (use assms in \<open>auto simp: variable_info_ok_def\<close>)

lemma read_vector_info_ok: "t = DT_Vector \<Longrightarrow> ensures (read_vector_info ops t) (variable_info_ok t VL_Vector)"
  unfolding read_vector_info_def
  by (intro ensures_bind ensures_bind_mid [OF ensures_rlift [of "vector_base_type_try_from b" "\<lambda>_. \<exists>x. vector_base_type_try_from b = Inr x" for b]] ensures_rret)
     (auto simp: variable_info_ok_def variable_length_types_try_from_def scaled_var_len_def vector_base_type_try_from_def split: if_splits)

lemma read_string_info_ok: "string_var_len v \<Longrightarrow> ensures (read_string_info ops t v) (variable_info_ok t v)"
  unfolding read_string_info_def
  by (intro ensures_bind ensures_bind_mid [OF read_zeroed_length] ensures_rret)
     (use collation_of_five in \<open>fastforce simp: variable_info_ok_def\<close>)

lemma read_variable_info_ok:
  assumes "variable_length_types_try_from t = Inr v"
  shows "ensures (read_variable_info ops t v) (variable_info_ok t v)"
proof (cases "string_var_len v")
  case True
  with read_string_info_ok [OF True, of ops t] show ?thesis
    by (cases v) (simp_all add: string_var_len_def read_variable_info_def)
next
  case not_string: False
  show ?thesis
  proof (cases "scaled_var_len v \<and> v \<noteq> VL_Vector")
    case True
    with read_time_info_ok [OF assms, of "time_extra v" ops] show ?thesis
      by (cases v) (simp_all add: scaled_var_len_def read_variable_info_def time_extra_def)
  next
    case False
    have vec: "v = VL_Vector \<Longrightarrow> t = DT_Vector"
      using assms by (cases t) (simp_all add: variable_length_types_try_from_def)
    have plain: "plain_var_len v \<Longrightarrow> ensures (read_byte_len_info ops t v) (variable_info_ok t v) \<and>
        ensures (read_length_info ops t v) (variable_info_ok t v)"
      unfolding read_byte_len_info_def read_length_info_def
      by (intro conjI ensures_rules) (simp_all add: variable_info_ok_def)
    have dec: "decimal_var_len v \<Longrightarrow> ensures (read_decimal_info ops t v) (variable_info_ok t v)"
      unfolding read_decimal_info_def by (intro ensures_rules) (simp add: variable_info_ok_def assms)
    from not_string False vec plain dec read_vector_info_ok [of t ops] show ?thesis
      by (cases v) (simp_all add: string_var_len_def scaled_var_len_def plain_var_len_def decimal_var_len_def
          read_variable_info_def ensures_rules variable_info_ok_def)
  qed
qed

lemma as_partial_len_wf:
  assumes "variable_info_ok t v ti" and "variable_length_types_try_from t = Inr v" and "as_partial_len t ti = Inr ti'"
  shows "ti_tds_type ti' = t \<and> type_info_wf ti'"
proof (cases "may_be_plp t \<and> ti_length ti = 0xFFFF")
  case True
  with may_be_plp_types [OF _ assms(2)] obtain p where
    p: "partial_length_type_try_from t = Inr p" "p \<noteq> PL_Udt" "p \<noteq> PL_Xml" "t = DT_BigVarBinary \<longleftrightarrow> p = PL_BigVarBinary"
      "if t = DT_BigVarBinary then plain_var_len v else string_var_len v" by blast
  have disjoint: "\<not> (plain_var_len v \<and> string_var_len v)" by (cases v) (simp_all add: plain_var_len_def string_var_len_def)
  from True p assms disjoint show ?thesis
    by (auto simp: as_partial_len_def type_info_wf_def variable_info_ok_def split: type_info_variant.splits if_splits)
next
  case False
  with assms show ?thesis
    by (auto simp: as_partial_len_def type_info_wf_def variable_info_ok_def split: type_info_variant.splits if_splits)
qed

lemma read_partial_info_wf:
  assumes "partial_length_type_try_from t = Inr p" and "\<not> may_be_plp t"
  shows "ensures (read_partial_info ops t p) (\<lambda>ti. ti_tds_type ti = t \<and> type_info_wf ti)"
  using assms
  by (cases p; simp only: read_partial_info_def partial_length_type.case read_udt_info_def read_xml_info_def;
      intro ensures_rules; simp add: type_info_wf_def)

lemma read_type_info_wf: "ensures (read_type_info ops t) (\<lambda>ti. ti_tds_type ti = t \<and> type_info_wf ti)"
proof (cases "variable_length_types_try_from t")
  case (Inr v)
  have "ensures (rbind (read_variable_info ops t v) (\<lambda>ti. rlift (as_partial_len t ti))) (\<lambda>ti. ti_tds_type ti = t \<and> type_info_wf ti)"
    by (rule ensures_bind_mid [OF read_variable_info_ok [OF Inr] ensures_rlift]) (use as_partial_len_wf [OF _ Inr] in blast)
  with Inr show ?thesis unfolding read_type_info_def
    by (auto simp: type_info_wf_def ensures_rules split: sum.splits)
next
  case (Inl e)
  then have "\<not> may_be_plp t" by (auto simp: may_be_plp_def variable_length_types_try_from_def)
  with Inl read_partial_info_wf show ?thesis unfolding read_type_info_def
    by (auto simp: type_info_wf_def ensures_rules split: sum.splits)
qed


section \<open>Safety\<close>

context finite_source
begin

lemma read_zeroed_tame [tame_rules]: "tame safe left 0 (read_zeroed ops n)"
  unfolding read_zeroed_def by (intro tame_rules)

lemma length_reads_tame [tame_rules]: "tame safe left 0 (get_variable_length ops v)" "tame safe left 0 (decimal_length ops v)"
  unfolding get_variable_length_def decimal_length_def by (intro tame_rules; simp)+

lemma when_present_tame: "tame safe left 0 m \<Longrightarrow> tame safe left 0 (when_present p m)"
  unfolding when_present_def by (intro tame_rules)

lemma type_info_pieces_tame [tame_rules]:
  "tame safe left 0 (read_time_info ops t v extra)" "tame safe left 0 (read_vector_info ops t)"
  "tame safe left 0 (read_byte_len_info ops t v)" "tame safe left 0 (read_decimal_info ops t v)"
  "tame safe left 0 (read_string_info ops t v)" "tame safe left 0 (read_length_info ops t v)"
  "tame safe left 0 (read_udt_info ops t)" "tame safe left 0 (read_xml_info ops t)"
  unfolding read_time_info_def read_vector_info_def read_byte_len_info_def read_decimal_info_def read_string_info_def
    read_length_info_def read_udt_info_def read_xml_info_def
  by (intro tame_rules when_present_tame; simp add: get_time_length_from_scale_def vector_base_type_try_from_def)+

lemma read_variable_info_tame: "tame safe left 0 (read_variable_info ops t v)"
  by (cases v; simp only: read_variable_info_def variable_length_types.case; intro tame_rules; simp)

lemma as_partial_len_safe: "as_partial_len t ti \<noteq> Inl Panic" "as_partial_len t ti \<noteq> Inl Diverge"
  by (auto simp: as_partial_len_def split: sum.splits type_info_variant.splits)

lemma read_type_info_tame [tame_rules]: "tame safe left 0 (read_type_info ops t)"
proof (cases "variable_length_types_try_from t")
  case (Inr v)
  have "tame safe left 0 (rbind (read_variable_info ops t v) (\<lambda>ti. rlift (as_partial_len t ti)))"
    by (intro tame_rules read_variable_info_tame as_partial_len_safe)
  with Inr show ?thesis unfolding read_type_info_def by (auto simp: tame_rret tame_rfail split: sum.splits)
next
  case (Inl e)
  have "tame safe left 0 (read_partial_info ops t p)" if "partial_length_type_try_from t = Inr p" for p
  proof -
    have "p = PL_Udt \<or> p = PL_Xml \<or> p = PL_Json"
      using that Inl by (cases t) (simp_all add: type_class_defs)
    then show ?thesis unfolding read_partial_info_def by (elim disjE; simp add: type_info_pieces_tame tame_rret)
  qed
  with Inl show ?thesis unfolding read_type_info_def by (auto simp: tame_rret tame_rfail split: sum.splits)
qed

end


section \<open>Wire form\<close>

definition length_bytes :: "variable_length_types \<Rightarrow> nat \<Rightarrow> bytes" where
  "length_bytes v n = nat_le (get_len_byte_count v) n"

definition udt_bytes :: "udt_info option \<Rightarrow> bytes" where
  "udt_bytes u = (case u of None \<Rightarrow> [] | Some i \<Rightarrow>
     to_le_u16 (ud_max_byte_size i) @ b_varchar (ud_db_name i) @ b_varchar (ud_schema_name i) @
     b_varchar (ud_type_name i) @ us_varchar (ud_assembly_qualified_name i))"

definition xml_bytes :: "xml_info option \<Rightarrow> bytes" where
  "xml_bytes x = (case x of None \<Rightarrow> [] | Some i \<Rightarrow> xi_schema_present i #
     (if xi_schema_present i = 0x01
      then b_varchar (the (xi_db_name i)) @ b_varchar (the (xi_owning_schema i)) @ us_varchar (the (xi_xml_schema_collection i))
      else []))"

fun variant_bytes :: "nat \<Rightarrow> type_info_variant \<Rightarrow> bytes" where
  "variant_bytes len (FixedLen f) = []"
| "variant_bytes len (VarLenString v n c) = length_bytes v n @ collation_bytes c"
| "variant_bytes len (VarLenPrecisionScale v n p sc) = length_bytes v n @ [p, sc]"
| "variant_bytes len (VarLenScale v sc) = (if v = VL_Vector then to_le_u16 (word_of_nat len) else []) @ [sc]"
| "variant_bytes len (VarLen v n) = (if v = VL_DateN then [] else length_bytes v n)"
| "variant_bytes len (PartialLen p n c x u) =
     (case p of PL_Udt \<Rightarrow> udt_bytes u | PL_Xml \<Rightarrow> xml_bytes x | PL_Json \<Rightarrow> [] | _ \<Rightarrow> to_le_u16 0xFFFF @ collation_bytes c)"

definition type_info_bytes :: "type_info \<Rightarrow> bytes" where
  "type_info_bytes ti = variant_bytes (ti_length ti) (ti_variant ti)"

text \<open>The values fit the fields of the wire form, and what the wire does not carry has its fixed value.\<close>

definition length_fits :: "variable_length_types \<Rightarrow> nat \<Rightarrow> bool" where
  "length_fits v n \<longleftrightarrow> n < (if get_len_byte_count v = 4 then 2 ^ 31 else 256 ^ get_len_byte_count v)"

definition udt_fits :: "nat \<Rightarrow> udt_info option \<Rightarrow> bool" where
  "udt_fits len u = (case u of None \<Rightarrow> False | Some i \<Rightarrow> len = unat (ud_max_byte_size i) \<and> fits_b (ud_db_name i) \<and>
     fits_b (ud_schema_name i) \<and> fits_b (ud_type_name i) \<and> fits_us (ud_assembly_qualified_name i))"

definition xml_fits :: "xml_info option \<Rightarrow> bool" where
  "xml_fits x = (case x of None \<Rightarrow> False | Some i \<Rightarrow>
     (case (xi_db_name i, xi_owning_schema i, xi_xml_schema_collection i) of
        (Some db, Some ow, Some co) \<Rightarrow> xi_schema_present i = 0x01 \<and> fits_b db \<and> fits_b ow \<and> fits_us co
      | (None, None, None) \<Rightarrow> xi_schema_present i \<noteq> 0x01
      | _ \<Rightarrow> False))"

fun variant_fits :: "nat \<Rightarrow> type_info_variant \<Rightarrow> bool" where
  "variant_fits len (FixedLen f) = True"
| "variant_fits len (VarLenString v n c) = (length_fits v n \<and> collation_wf c)"
| "variant_fits len (VarLenPrecisionScale v n p sc) = length_fits v n"
| "variant_fits len (VarLenScale v sc) = (len < 65536)"
| "variant_fits len (VarLen v n) = (if v = VL_DateN then n = 3 else length_fits v n)"
| "variant_fits len (PartialLen p n c x u) =
     (case p of PL_Udt \<Rightarrow> n = Some len \<and> c = None \<and> x = None \<and> udt_fits len u
      | PL_Json \<Rightarrow> len = 0xFFFF \<and> n = None \<and> c = None \<and> x = None \<and> u = None
      | PL_Xml \<Rightarrow> len = 0xFFFF \<and> n = None \<and> c = None \<and> u = None \<and> xml_fits x
      | _ \<Rightarrow> len = 0xFFFF \<and> x = None \<and> u = None \<and> collation_wf c \<and> (p = PL_BigVarBinary \<longrightarrow> c = None))"

definition type_info_fits :: "type_info \<Rightarrow> bool" where
  "type_info_fits ti \<longleftrightarrow> type_info_wf ti \<and> variant_fits (ti_length ti) (ti_variant ti)"

lemma len_byte_counts: "get_len_byte_count v = 1 \<or> get_len_byte_count v = 2 \<or> get_len_byte_count v = 4"
  by (cases v) (simp_all add: get_len_byte_count_def)

lemma len_byte_count_classes:
  "decimal_var_len v \<Longrightarrow> get_len_byte_count v = 1"
  "plain_var_len v \<Longrightarrow> v \<noteq> VL_DateN \<Longrightarrow> get_len_byte_count v = 1 \<Longrightarrow> read_variable_info ops t v = read_byte_len_info ops t v"
  "plain_var_len v \<Longrightarrow> v \<noteq> VL_DateN \<Longrightarrow> get_len_byte_count v \<noteq> 1 \<Longrightarrow> read_variable_info ops t v = read_length_info ops t v"
  "string_var_len v \<Longrightarrow> read_variable_info ops t v = read_string_info ops t v"
  "decimal_var_len v \<Longrightarrow> read_variable_info ops t v = read_decimal_info ops t v"
  "scaled_var_len v \<Longrightarrow> v \<noteq> VL_Vector \<Longrightarrow> read_variable_info ops t v = read_time_info ops t v (time_extra v)"
  by (cases v; simp add: get_len_byte_count_def decimal_var_len_def plain_var_len_def string_var_len_def scaled_var_len_def
      read_variable_info_def time_extra_def)+

lemma variable_type_info:
  "variable_length_types_try_from t = Inr v \<Longrightarrow>
     read_type_info ops t = rbind (read_variable_info ops t v) (\<lambda>ti. rlift (as_partial_len t ti))"
  by (cases t) (simp_all add: read_type_info_def type_class_defs)

lemma i32_as_usize_nat:
  assumes "n < 2 ^ 31"
  shows "\<not> sint (word_of_nat n :: u32) < 0" and "i32_as_usize (word_of_nat n) = n"
  using assms
  by (simp_all add: i32_as_usize_def signed_of_nat signed_take_bit_int_eq_self unsigned_of_nat take_bit_nat_eq_self_iff)

lemma rlift_simps [simp]: "rlift (Inr v) = rret v" "rlift (Inl e) = rfail e"
  by (auto simp: rlift_def)

lemma type_info_eta: "ti_tds_type ti = t \<Longrightarrow> ti_length ti = n \<Longrightarrow> ti_variant ti = w \<Longrightarrow> \<lparr>ti_tds_type = t, ti_length = n, ti_variant = w\<rparr> = ti"
  by (cases ti) simp

context packet_source
begin

lemma read_zeroed_yields: "n = length bs \<Longrightarrow> yields supplies bs (read_zeroed ops n) bs"
  unfolding read_zeroed_def by (rule yields_last [OF strings_yield(1)]) simp_all

lemma get_variable_length_yields:
  assumes "length_fits v n"
  shows "yields supplies (length_bytes v n) (get_variable_length ops v) n"
proof -
  consider (one) "get_len_byte_count v = 1" | (two) "get_len_byte_count v = 2" | (four) "get_len_byte_count v = 4"
    using len_byte_counts by blast
  then show ?thesis
  proof cases
    case one
    with assms have "length_bytes v n = [word_of_nat n]" "n < 256" by (simp_all add: length_bytes_def length_fits_def)
    moreover have "yields supplies [word_of_nat n] (rbind (rd_byte ops) (\<lambda>b. rret (unat b))) n" if "n < 256"
      by (rule yields_last [OF scalars_yield(1)]) (simp add: that unat_of_nat_u8)
    ultimately show ?thesis using one by (simp add: get_variable_length_def)
  next
    case two
    with assms have "length_bytes v n = to_le_u16 (word_of_nat n)" "n < 65536"
      by (simp_all add: length_bytes_def length_fits_def to_le_u16_def unat_of_nat_u16)
    moreover have "yields supplies (to_le_u16 (word_of_nat n)) (rbind (rd_u16 ops) (\<lambda>x. rret (unat x))) n" if "n < 65536"
      by (rule yields_last [OF scalars_yield(2)]) (simp add: that unat_of_nat_u16)
    ultimately show ?thesis using two by (simp add: get_variable_length_def)
  next
    case four
    with assms have "length_bytes v n = to_le_u32 (word_of_nat n)" "n < 2 ^ 31"
      by (simp_all add: length_bytes_def length_fits_def to_le_u32_def unat_of_nat_u32)
    moreover have "yields supplies (to_le_u32 (word_of_nat n)) (rbind (rd_i32 ops) (\<lambda>x.
        if sint x < 0 then rfail (ProtocolError ''Invalid length value for data type. Length cannot be negative.'')
        else rret (i32_as_usize x))) n" if "n < 2 ^ 31"
      by (rule yields_last [OF scalars_yield(5)]) (simp add: i32_as_usize_nat [OF that])
    ultimately show ?thesis using four by (simp add: get_variable_length_def)
  qed
qed

lemma variable_info_yields:
  assumes "variant_wf t len w" and "variant_fits len w" and "variable_length_types_try_from t = Inr v"
    and "\<not> variant_is_plp w"
  shows "yields supplies (variant_bytes len w) (read_variable_info ops t v) \<lparr>ti_tds_type = t, ti_length = len, ti_variant = w\<rparr>"
proof (cases w)
  case (FixedLen f)
  with assms show ?thesis by (cases t) (simp_all add: type_class_defs)
next
  case (VarLenString v' n c)
  with assms have w: "v' = v" "string_var_len v" "len = n" "length_fits v n" "collation_wf c" "c \<noteq> None" by auto
  then obtain c' where c: "c = Some c'" by blast
  have l: "length (collation_bytes c) = 5" by (simp add: c collation_bytes_def le32.enc_length)
  have ct: "collation_try_from (collation_bytes c) = Inr c'"
    using env_collation_bytes [OF w(5)] c l by (simp add: env_collation_def split: sum.splits if_splits)
  show ?thesis unfolding VarLenString w(1,3) len_byte_count_classes(4) [OF w(2)] read_string_info_def variant_bytes.simps
    by (intro yields_bind [OF get_variable_length_yields] yields_last [OF read_zeroed_yields]) (simp_all add: l w ct, simp add: c)
next
  case (VarLenPrecisionScale v' n p sc)
  with assms have w: "v' = v" "decimal_var_len v" "len = n" "length_fits v n" by auto
  then have "length_bytes v n @ [p, sc] = word_of_nat n # p # [sc]" "n < 256"
    by (simp_all add: length_bytes_def length_fits_def len_byte_count_classes(1))
  moreover have "yields supplies (word_of_nat n # p # [sc]) (read_decimal_info ops t v)
      \<lparr>ti_tds_type = t, ti_length = n, ti_variant = VarLenPrecisionScale v n p sc\<rparr>" if "n < 256"
    unfolding read_decimal_info_def decimal_length_def len_byte_count_classes(1) [OF w(2)]
    by (simp add: rbind_assoc) (intro bind_rules last_rules, simp add: that unat_of_nat_u8)
  ultimately show ?thesis using w by (simp add: VarLenPrecisionScale len_byte_count_classes(5))
next
  case (VarLenScale v' sc)
  with assms have w: "v' = v" "scaled_var_len v" "len < 65536" by auto
  show ?thesis
  proof (cases "v = VL_Vector")
    case True
    have "sc = 0 \<or> sc = 1" if "sc \<le> 1" using that by (auto simp: word_le_nat_alt unat_arith_simps)
    with True VarLenScale assms(1) w(1) have "\<exists>b. vector_base_type_try_from sc = Inr b"
      by (auto simp: vector_base_type_try_from_def)
    then obtain b where b: "vector_base_type_try_from sc = Inr b" by blast
    show ?thesis unfolding VarLenScale w(1) True variant_bytes.simps
      unfolding read_variable_info_def read_vector_info_def variable_length_types.case simp_thms if_True
      by (intro bind_rules last_rules) (simp add: b unat_of_nat_u16 w)
  next
    case False
    with VarLenScale assms(1) obtain n where n: "get_time_length_from_scale sc = Inr n" "len = n + time_extra v" by (auto simp: w)
    show ?thesis unfolding VarLenScale w(1) len_byte_count_classes(6) [OF w(2) False] read_time_info_def
        variant_bytes.simps if_not_P [OF False] append_Nil
      by (intro last_rules) (simp add: n fun_eq_iff)
  qed
next
  case (VarLen v' n)
  with assms have w: "v' = v" "plain_var_len v" "len = n" "if v = VL_DateN then n = 3 else length_fits v n" by auto
  show ?thesis
  proof (cases "v = VL_DateN")
    case True
    with w show ?thesis by (simp add: VarLen read_variable_info_def yields_rret)
  next
    case not_date: False
    have len: "yields supplies (length_bytes v n) (read_length_info ops t v) \<lparr>ti_tds_type = t, ti_length = n, ti_variant = VarLen v n\<rparr>"
      unfolding read_length_info_def by (rule yields_last [OF get_variable_length_yields]) (use w not_date in simp_all)
    have one: "read_byte_len_info ops t v = read_length_info ops t v" if "get_len_byte_count v = 1"
      by (simp only: read_byte_len_info_def read_length_info_def get_variable_length_def that rbind_assoc rbind_rret if_True simp_thms)
    show ?thesis
      by (cases "get_len_byte_count v = 1")
         (use len one w not_date in \<open>simp_all add: VarLen len_byte_count_classes(2,3)\<close>)
  qed
next
  case (PartialLen p n c x u)
  with assms(4) show ?thesis by (simp add: variant_is_plp_def)
qed

lemma partial_info_yields:
  assumes "variant_wf t len (PartialLen p n c x u)" and "variant_fits len (PartialLen p n c x u)" and "\<not> may_be_plp t"
  shows "yields supplies (variant_bytes len (PartialLen p n c x u)) (read_partial_info ops t p)
    \<lparr>ti_tds_type = t, ti_length = len, ti_variant = PartialLen p n c x u\<rparr>"
proof -
  have p: "p = PL_Udt \<or> p = PL_Xml \<or> p = PL_Json"
    using assms(1,3) by (cases t) (simp_all add: may_be_plp_def partial_length_type_try_from_def)
  have udt: ?thesis if pu: "p = PL_Udt"
  proof -
    from assms(2) pu obtain i where i: "u = Some i" "len = unat (ud_max_byte_size i)" "fits_b (ud_db_name i)"
      "fits_b (ud_schema_name i)" "fits_b (ud_type_name i)" "fits_us (ud_assembly_qualified_name i)" "n = Some len" "c = None" "x = None"
      by (auto simp: udt_fits_def split: option.splits)
    show ?thesis unfolding i(1) pu variant_bytes.simps partial_length_type.case udt_bytes_def option.case
        read_partial_info_def read_udt_info_def
      by (intro bind_rules last_rules i(2-6)) (cases i, simp add: i)
  qed
  have xml: ?thesis if px: "p = PL_Xml"
  proof -
    from assms(2) px obtain i where i: "x = Some i" "len = 0xFFFF" "n = None" "c = None" "u = None" "xml_fits (Some i)"
      by (auto simp: xml_fits_def split: option.splits)
    show ?thesis
    proof (cases "xi_schema_present i = 0x01")
      case True
      with i(6) obtain db ow co where x: "xi_db_name i = Some db" "xi_owning_schema i = Some ow"
        "xi_xml_schema_collection i = Some co" "fits_b db" "fits_b ow" "fits_us co"
        by (auto simp: xml_fits_def split: option.splits)
      have e: "i = \<lparr>xi_schema_present = 1, xi_db_name = Some db, xi_owning_schema = Some ow, xi_xml_schema_collection = Some co\<rparr>"
        using True x by (cases i) simp
      have "yields supplies (1 # b_varchar db @ b_varchar ow @ us_varchar co) (read_xml_info ops t)
          \<lparr>ti_tds_type = t, ti_length = 0xFFFF, ti_variant = PartialLen PL_Xml None None (Some i) None\<rparr>"
        unfolding read_xml_info_def
        by (rule bind_rules(1)) (simp add: when_present_def rbind_assoc, intro bind_rules last_rules x, simp add: e)
      then show ?thesis by (simp add: px i x xml_bytes_def read_partial_info_def True)
    next
      case False
      with i(6) have e: "i = \<lparr>xi_schema_present = xi_schema_present i, xi_db_name = None, xi_owning_schema = None, xi_xml_schema_collection = None\<rparr>"
        by (cases i) (auto simp: xml_fits_def split: option.splits)
      have "yields supplies [xi_schema_present i] (read_xml_info ops t)
          \<lparr>ti_tds_type = t, ti_length = 0xFFFF, ti_variant = PartialLen PL_Xml None None (Some i) None\<rparr>"
        unfolding read_xml_info_def by (rule last_rules(1)) (use False e in \<open>simp add: when_present_def fun_eq_iff\<close>)
      then show ?thesis by (simp add: px i xml_bytes_def read_partial_info_def False)
    qed
  qed
  have json: ?thesis if "p = PL_Json"
    using assms(2) by (simp add: that read_partial_info_def yields_rret)
  from p udt xml json show ?thesis by blast
qed

lemma plp_info_yields:
  assumes "variant_wf t len (PartialLen p n c x u)" and "variant_fits len (PartialLen p n c x u)" and "may_be_plp t"
  shows "yields supplies (variant_bytes len (PartialLen p n c x u)) (read_type_info ops t)
    \<lparr>ti_tds_type = t, ti_length = len, ti_variant = PartialLen p n c x u\<rparr>"
proof -
  from assms(3) obtain v where v: "variable_length_types_try_from t = Inr v"
    by (auto simp: may_be_plp_def variable_length_types_try_from_def)
  note cls = may_be_plp_types [OF assms(3) v]
  from cls assms(1,2) have f: "p \<noteq> PL_Udt" "p \<noteq> PL_Xml" "partial_length_type_try_from t = Inr p"
    "t = DT_BigVarBinary \<longleftrightarrow> p = PL_BigVarBinary" "n = Some 0xFFFF" using assms(3) by auto
  have g: "p \<noteq> PL_Json" using f(3) assms(3) by (auto simp: may_be_plp_def partial_length_type_try_from_def)
  from assms(2) f g have h: "len = 0xFFFF" "x = None" "u = None" "collation_wf c" "p = PL_BigVarBinary \<longrightarrow> c = None"
    by (cases p; simp)+
  have cnt: "get_len_byte_count v = 2"
    using v assms(3) by (auto simp: may_be_plp_def variable_length_types_try_from_def get_len_byte_count_def)
  let ?w = "if t = DT_BigVarBinary then VarLen v 0xFFFF else VarLenString v 0xFFFF c"
  have lb: "length_bytes v 65535 = to_le_u16 0xFFFF" by (simp add: length_bytes_def cnt to_le_u16_def)
  have lf: "length_fits v 65535" by (simp add: length_fits_def cnt)
  have "yields supplies (to_le_u16 0xFFFF @ collation_bytes c) (read_variable_info ops t v)
      \<lparr>ti_tds_type = t, ti_length = 0xFFFF, ti_variant = ?w\<rparr>"
  proof (cases "t = DT_BigVarBinary")
    case True
    then have "plain_var_len v" "v \<noteq> VL_DateN" using cls v by (auto simp: variable_length_types_try_from_def)
    with True f h show ?thesis
      by (simp add: len_byte_count_classes(3) cnt read_length_info_def collation_bytes_def)
         (intro yields_last [OF get_variable_length_yields [OF lf, unfolded lb]], simp)
  next
    case False
    then have s: "string_var_len v" using cls by simp
    from False f assms(1) obtain c' where c: "c = Some c'" using g by (cases p) auto
    have l: "length (collation_bytes c) = 5" by (simp add: c collation_bytes_def le32.enc_length)
    have "collation_try_from (collation_bytes c) = Inr c'"
      using env_collation_bytes [OF h(4)] c l by (simp add: env_collation_def split: sum.splits if_splits)
    with False show ?thesis unfolding len_byte_count_classes(4) [OF s] read_string_info_def
      by (intro yields_bind [OF get_variable_length_yields [OF lf, unfolded lb]] yields_last [OF read_zeroed_yields]) (simp_all add: l, simp add: c)
  qed
  then have "yields supplies ((to_le_u16 0xFFFF @ collation_bytes c)) (read_type_info ops t)
      \<lparr>ti_tds_type = t, ti_length = len, ti_variant = PartialLen p n c x u\<rparr>"
    unfolding variable_type_info [OF v]
    by (rule yields_last) (use f h assms(3) in \<open>auto simp: as_partial_len_def\<close>)
  with f g show ?thesis by (cases p) simp_all
qed

lemma type_info_yields:
  assumes "type_info_fits ti"
  shows "yields supplies (type_info_bytes ti) (read_type_info ops (ti_tds_type ti)) ti"
proof -
  let ?t = "ti_tds_type ti"
  have wf: "variant_wf ?t (ti_length ti) (ti_variant ti)" "variant_fits (ti_length ti) (ti_variant ti)"
    using assms by (simp_all add: type_info_fits_def type_info_wf_def)
  have eta: "\<lparr>ti_tds_type = ?t, ti_length = ti_length ti, ti_variant = ti_variant ti\<rparr> = ti" by simp
  show ?thesis
  proof (cases "variant_is_plp (ti_variant ti)")
    case True
    then obtain p n c x u where w: "ti_variant ti = PartialLen p n c x u"
      by (auto simp: variant_is_plp_def split: type_info_variant.splits)
    show ?thesis
    proof (cases "may_be_plp ?t")
      case True
      from plp_info_yields [OF _ _ True, of "ti_length ti" p n c x u] wf show ?thesis
        by (simp add: w type_info_bytes_def type_info_eta)
    next
      case False
      have "read_type_info ops ?t = read_partial_info ops ?t p"
        using wf(1) False by (cases ?t) (simp_all add: w read_type_info_def type_class_defs may_be_plp_def)
      with partial_info_yields [OF _ _ False, of "ti_length ti" p n c x u] wf show ?thesis
        by (simp add: w type_info_bytes_def type_info_eta)
    qed
  next
    case not_plp: False
    show ?thesis
    proof (cases "variable_length_types_try_from ?t")
      case (Inr v)
      have a: "as_partial_len ?t ti = Inr ti"
        using wf(1) not_plp by (auto simp: as_partial_len_def variant_is_plp_def may_be_plp_def type_class_defs scaled_var_len_def decimal_var_len_def split: type_info_variant.splits)
      show ?thesis unfolding variable_type_info [OF Inr] type_info_bytes_def
        by (rule yields_last [OF variable_info_yields [OF wf Inr not_plp, unfolded eta]]) (simp add: a)
    next
      case (Inl e)
      with wf(1) not_plp obtain f where f: "ti_variant ti = FixedLen f" "fixed_length_types_try_from ?t = Inr f" "ti_length ti = fixed_get_len f"
        by (cases "ti_variant ti") (auto simp: variant_is_plp_def)
      then have "read_type_info ops ?t = rret ti"
        by (cases ?t) (simp_all add: read_type_info_def fixed_length_types_try_from_def type_info_eta)
      with f show ?thesis by (simp add: type_info_bytes_def yields_rret)
    qed
  qed
qed

end

end
