(* ===== verification/Plp_Stream.thy ===== *)
theory Plp_Stream
  imports Type_Info_Laws
begin

text \<open>
  Partially length-prefixed values (\<^verbatim>\<open>varchar(max)\<close>, \<^verbatim>\<open>xml\<close> and the like): the resumable reader
  \<^verbatim>\<open>PlpChunkStreamReader\<close>, its twin over bytes that are already buffered, the typed wrapper
  \<^verbatim>\<open>PlpColumnStream\<close>, and the readers of a whole value, all of
  \<^verbatim>\<open>mssql-tds/src/datatypes/decoder.rs\<close>. A method on \<^verbatim>\<open>&mut self\<close> that also reads from the
  transport is an action on the pair of both states. An output buffer of \<open>n\<close> bytes is the number
  \<open>n\<close>, and the bytes written to it are the result.
\<close>

section \<open>Limits and length header\<close>

definition MAX_PLP_SIZE :: nat where "MAX_PLP_SIZE = 2147483647"
definition MAX_PLP_CHUNK_SIZE :: nat where "MAX_PLP_CHUNK_SIZE = 16777216"
definition SQL_PLP_NULL :: u64 where "SQL_PLP_NULL = 0xFFFFFFFFFFFFFFFF"
definition SQL_PLP_UNKNOWNLEN :: u64 where "SQL_PLP_UNKNOWNLEN = 0xFFFFFFFFFFFFFFFE"
definition SQL_PLP_MAXLEN :: u64 where "SQL_PLP_MAXLEN = 0xFFFFFFFFFFFFFFFD"

datatype plp_chunk_read_length = PlpUnknown | PlpKnown u64

record plp_reader =
  plp_length :: plp_chunk_read_length
  chunk_remaining :: nat
  reached_end :: bool
  total_read :: nat

definition plp_new :: "plp_chunk_read_length \<Rightarrow> plp_reader" where
  "plp_new len = \<lparr>plp_length = len, chunk_remaining = 0, reached_end = False, total_read = 0\<rparr>"

definition plp_header :: "u64 \<Rightarrow> plp_reader option tds_result" where
  "plp_header raw_len =
     (if raw_len = SQL_PLP_NULL then Inr None
      else if raw_len = SQL_PLP_UNKNOWNLEN \<or> raw_len = SQL_PLP_MAXLEN then Inr (Some (plp_new PlpUnknown))
      else if sint raw_len < 0 \<or> MAX_PLP_SIZE < unat raw_len then Inl (ProtocolError ''PLP length exceeds maximum allowed size'')
      else Inr (Some (plp_new (PlpKnown raw_len))))"

definition plp_begin :: "'s packet_reader_ops \<Rightarrow> ('s, plp_reader option) action" where
  "plp_begin ops = rbind (rd_i64 ops) (\<lambda>raw_len. rlift (plp_header raw_len))"

definition try_begin_buffered :: "bytes \<Rightarrow> (plp_reader option \<times> nat) option tds_result" where
  "try_begin_buffered bs =
     (case slice_get 0 8 bs of None \<Rightarrow> Inr None
      | Some header \<Rightarrow>
          (case plp_header (from_le_u64 header) of Inl e \<Rightarrow> Inl e | Inr r \<Rightarrow> Inr (Some (r, 8))))"

definition known_len :: "plp_reader \<Rightarrow> u64 option" where
  "known_len p = (case plp_length p of PlpKnown n \<Rightarrow> Some n | PlpUnknown \<Rightarrow> None)"


section \<open>Chunks\<close>

definition over_declared :: "plp_reader \<Rightarrow> nat \<Rightarrow> bool" where
  "over_declared p n = (case plp_length p of PlpKnown k \<Rightarrow> unat k < n | PlpUnknown \<Rightarrow> False)"

definition short_of_declared :: "plp_reader \<Rightarrow> bool" where
  "short_of_declared p = (case plp_length p of PlpKnown k \<Rightarrow> total_read p \<noteq> unat k | PlpUnknown \<Rightarrow> False)"

definition accept_chunk_length :: "nat \<Rightarrow> (plp_reader, bool) action" where
  "accept_chunk_length chunk_len p =
     (if chunk_len = 0 then
        (if short_of_declared p then Inl (ProtocolError ''PLP stream ended before declared length was reached'') else Inr False,
         p\<lparr>reached_end := True\<rparr>)
      else if MAX_PLP_CHUNK_SIZE < chunk_len then (Inl (ProtocolError ''PLP chunk size exceeds maximum allowed chunk size''), p)
      else let next_total = total_read p + chunk_len in
        if 2 ^ 64 \<le> next_total then (Inl (ProtocolError ''PLP chunk accumulation would overflow capacity''), p)
        else if MAX_PLP_SIZE < next_total then (Inl (ProtocolError ''PLP accumulated size exceeds maximum allowed size''), p)
        else if over_declared p next_total then (Inl (ProtocolError ''PLP chunk exceeds declared length''), p)
        else (Inr True, p\<lparr>chunk_remaining := chunk_len\<rparr>))"

text \<open>Actions on one half of the pair.\<close>

definition on_plp :: "(plp_reader, 'a) action \<Rightarrow> (plp_reader \<times> 's, 'a) action" where
  "on_plp m ps = (case m (fst ps) of (r, p) \<Rightarrow> (r, (p, snd ps)))"

definition on_src :: "('s, 'a) action \<Rightarrow> (plp_reader \<times> 's, 'a) action" where
  "on_src m ps = (case m (snd ps) of (r, s) \<Rightarrow> (r, (fst ps, s)))"

definition ensure_active_chunk :: "'s packet_reader_ops \<Rightarrow> (plp_reader \<times> 's, bool) action" where
  "ensure_active_chunk ops ps =
     (if reached_end (fst ps) then (Inr False, ps)
      else if 0 < chunk_remaining (fst ps) then (Inr True, ps)
      else rbind (on_src (rd_u32 ops)) (\<lambda>w. on_plp (accept_chunk_length (unat w))) ps)"

definition plp_advance :: "nat \<Rightarrow> plp_reader \<Rightarrow> plp_reader" where
  "plp_advance n p = p\<lparr>chunk_remaining := chunk_remaining p - n, total_read := total_read p + n\<rparr>"

lemma ensure_active_True: "ensure_active_chunk ops ps = (Inr True, ps') \<Longrightarrow> 0 < chunk_remaining (fst ps')"
  by (auto simp: ensure_active_chunk_def on_plp_def on_src_def accept_chunk_length_def rbind_def Let_def
      split: if_splits prod.splits sum.splits)

definition read_from_chunk :: "'s packet_reader_ops \<Rightarrow> nat \<Rightarrow> (plp_reader \<times> 's, bytes) action" where
  "read_from_chunk ops want ps =
     (let to_read = min want (chunk_remaining (fst ps)) in
      rbind (on_src (rd_bytes ops to_read))
        (\<lambda>bs ps'. if 0 < to_read \<and> bs = [] then (Inl (ProtocolError ''PLP stream read made no progress while bytes were requested''), ps')
          else if chunk_remaining (fst ps') < length bs then (Inl Panic, ps')
          else (Inr bs, (plp_advance (length bs) (fst ps'), snd ps'))) ps)"

lemma read_from_chunk_progress:
  "read_from_chunk ops want ps = (Inr bs, ps') \<Longrightarrow> 0 < want \<Longrightarrow> 0 < chunk_remaining (fst ps) \<Longrightarrow> bs \<noteq> []"
  by (auto simp: read_from_chunk_def Let_def rbind_def on_src_def split: if_splits prod.splits sum.splits)

function read_into_loop :: "'s packet_reader_ops \<Rightarrow> nat \<Rightarrow> bytes \<Rightarrow> (plp_reader \<times> 's, bytes) action" where
  "read_into_loop ops n written ps =
     (if length written < n
      then rbind (ensure_active_chunk ops)
        (\<lambda>active ps'. if active then rbind (read_from_chunk ops (n - length written)) (\<lambda>bs. read_into_loop ops n (written @ bs)) ps'
          else (Inr written, ps')) ps
      else (Inr written, ps))"
  by pat_completeness auto

termination
proof (relation "measure (\<lambda>(_, n, written, _). n - length written)", goal_cases)
  case (2 ops n written ps active ps' bs ps'')
  then have "bs \<noteq> []" using ensure_active_True read_from_chunk_progress [of ops "n - length written" ps' bs ps''] by fastforce
  then show ?case using 2 by (cases bs) auto
qed simp

declare read_into_loop.simps [simp del]

definition read_into :: "'s packet_reader_ops \<Rightarrow> nat \<Rightarrow> (plp_reader \<times> 's, bytes) action" where
  "read_into ops n =
     (if n = 0 then rbind (ensure_active_chunk ops) (\<lambda>_. rret [])
      else rbind (read_into_loop ops n [])
        (\<lambda>written ps. if length written = n \<and> chunk_remaining (fst ps) = 0 \<and> \<not> reached_end (fst ps)
          then rbind (ensure_active_chunk ops) (\<lambda>_. rret written) ps
          else (Inr written, ps)))"

lemma ensure_active_room:
  "ensure_active_chunk ops ps = (Inr True, ps') \<Longrightarrow>
   (ps' = ps \<or> chunk_remaining (fst ps) = 0 \<and> total_read (fst ps) = total_read (fst ps') \<and> total_read (fst ps') + chunk_remaining (fst ps') \<le> MAX_PLP_SIZE)"
  by (auto simp: ensure_active_chunk_def on_plp_def on_src_def accept_chunk_length_def rbind_def Let_def
      split: if_splits prod.splits sum.splits)

definition skip_chunk :: "'s packet_reader_ops \<Rightarrow> (plp_reader \<times> 's, unit) action" where
  "skip_chunk ops ps =
     (if 0 < chunk_remaining (fst ps)
      then rbind (on_src (rd_skip ops (chunk_remaining (fst ps)))) (\<lambda>_ ps'. (Inr (), (plp_advance (chunk_remaining (fst ps')) (fst ps'), snd ps'))) ps
      else (Inr (), ps))"

lemma skip_chunk_advances:
  "skip_chunk ops ps = (Inr u, ps') \<Longrightarrow> 0 < chunk_remaining (fst ps) \<Longrightarrow>
   chunk_remaining (fst ps') = 0 \<and> total_read (fst ps') = total_read (fst ps) + chunk_remaining (fst ps)"
  by (auto simp: skip_chunk_def rbind_def on_src_def plp_advance_def split: prod.splits sum.splits)

function skip_to_end :: "'s packet_reader_ops \<Rightarrow> (plp_reader \<times> 's, unit) action" where
  "skip_to_end ops ps =
     rbind (ensure_active_chunk ops)
       (\<lambda>active ps'. if active then rbind (skip_chunk ops) (\<lambda>_. skip_to_end ops) ps' else (Inr (), ps')) ps"
  by pat_completeness auto

termination
proof (relation "measure (\<lambda>(_, ps). (MAX_PLP_SIZE - total_read (fst ps)) + (if 0 < chunk_remaining (fst ps) then 1 else 0))", goal_cases)
  case (2 ops ps active ps' u ps'')
  have e: "ensure_active_chunk ops ps = (Inr True, ps')" using 2(1,2) by simp
  note a = ensure_active_True [OF e]
  have s: "chunk_remaining (fst ps'') = 0" "total_read (fst ps'') = total_read (fst ps') + chunk_remaining (fst ps')"
    using skip_chunk_advances [OF 2(3) a] by simp_all
  show ?case using ensure_active_room [OF e] a s by auto
qed simp

declare skip_to_end.simps [simp del]


section \<open>Chunks that are already buffered\<close>

text \<open>The buffered methods move a position through a slice instead of reading.\<close>

definition try_ensure_active_buffered_chunk :: "bytes \<Rightarrow> (plp_reader \<times> nat, bool option) action" where
  "try_ensure_active_buffered_chunk bs pp =
     (if reached_end (fst pp) then (Inr (Some False), pp)
      else if 0 < chunk_remaining (fst pp) then (Inr (Some True), pp)
      else if 2 ^ 64 \<le> snd pp + 4 then (Inl (ProtocolError ''Buffered PLP position overflowed''), pp)
      else case slice_get (snd pp) (snd pp + 4) bs of None \<Rightarrow> (Inr None, pp)
        | Some header \<Rightarrow>
            rbind (on_plp (accept_chunk_length (unat (from_le_u32 header)))) (\<lambda>b. rret (Some b)) (fst pp, snd pp + 4))"

definition take_from_chunk :: "bytes \<Rightarrow> bool \<Rightarrow> nat \<Rightarrow> nat \<Rightarrow> (plp_reader \<times> nat, bytes option) action" where
  "take_from_chunk bs copying out_len written pp =
     (let to_read = min (out_len - written) (chunk_remaining (fst pp)); stop = snd pp + to_read in
      if 2 ^ 64 \<le> stop then (Inl (ProtocolError ''Buffered PLP position overflowed''), pp)
      else case slice_get (snd pp) stop bs of None \<Rightarrow> (Inr None, pp)
        | Some payload \<Rightarrow>
            if copying \<and> out_len < written + to_read
            then (Inl (ProtocolError ''Buffered PLP output range was unavailable''), pp)
            else (Inr (Some payload), (plp_advance to_read (fst pp), stop)))"

lemma try_ensure_True:
  "try_ensure_active_buffered_chunk bs pp = (Inr (Some True), pp') \<Longrightarrow> 0 < chunk_remaining (fst pp')"
  by (auto simp: try_ensure_active_buffered_chunk_def on_plp_def accept_chunk_length_def rbind_def Let_def
      split: if_splits prod.splits sum.splits option.splits)

lemma slice_get_length: "slice_get a b xs = Some ys \<Longrightarrow> length ys = b - a"
  by (auto simp: slice_get_def split: if_splits)

lemma take_from_chunk_progress:
  "take_from_chunk bs copying out_len written pp = (Inr (Some payload), pp') \<Longrightarrow> written < out_len \<Longrightarrow>
   0 < chunk_remaining (fst pp) \<Longrightarrow> payload \<noteq> []"
  by (auto simp: take_from_chunk_def Let_def split: if_splits option.splits dest: slice_get_length)

function try_read_buffered_loop :: "bytes \<Rightarrow> bool \<Rightarrow> nat \<Rightarrow> bytes \<Rightarrow> (plp_reader \<times> nat, bytes option) action" where
  "try_read_buffered_loop bs copying out_len written pp =
     (if length written < out_len
      then rbind (try_ensure_active_buffered_chunk bs)
        (\<lambda>active pp'. if active = None then (Inr None, pp')
          else if active = Some False then (Inr (Some written), pp')
          else rbind (take_from_chunk bs copying out_len (length written))
            (\<lambda>r pp''. if r = None then (Inr None, pp'')
               else try_read_buffered_loop bs copying out_len (written @ the r) pp'') pp') pp
      else (Inr (Some written), pp))"
  by pat_completeness auto

termination
proof (relation "measure (\<lambda>(_, _, n, written, _). n - length written)", goal_cases)
  case (2 bs copying n written pp active pp' r pp'')
  have "active = Some True" using 2 by auto
  then have "0 < chunk_remaining (fst pp')" using 2(2) by (auto intro: try_ensure_True)
  moreover obtain x where x: "r = Some x" using 2 by auto
  ultimately have "x \<noteq> []" using take_from_chunk_progress [of bs copying n "length written" pp' x pp''] 2 by auto
  then show ?case using 2 x by (cases x) auto
qed simp

declare try_read_buffered_loop.simps [simp del]

definition try_read_buffered_inner :: "bytes \<Rightarrow> bool \<Rightarrow> nat \<Rightarrow> plp_reader \<Rightarrow> (nat \<times> bytes) option tds_result \<times> plp_reader" where
  "try_read_buffered_inner bs copying out_len p =
     (case (if out_len = 0
            then rbind (try_ensure_active_buffered_chunk bs) (\<lambda>active. rret (case active of None \<Rightarrow> None | Some _ \<Rightarrow> Some []))
            else rbind (try_read_buffered_loop bs copying out_len [])
              (\<lambda>r pp. case r of None \<Rightarrow> (Inr None, pp)
                | Some written \<Rightarrow>
                    if length written = out_len \<and> chunk_remaining (fst pp) = 0 \<and> \<not> reached_end (fst pp)
                    then rbind (try_ensure_active_buffered_chunk bs)
                      (\<lambda>active. rret (case active of None \<Rightarrow> None | Some _ \<Rightarrow> Some written)) pp
                    else (Inr (Some written), pp))) (p, 0) of
        (Inl e, pp) \<Rightarrow> (Inl e, fst pp)
      | (Inr None, pp) \<Rightarrow> (Inr None, fst pp)
      | (Inr (Some written), pp) \<Rightarrow> (Inr (Some (snd pp, written)), fst pp))"

text \<open>A dry run on a clone first, so that a value that is not yet complete leaves the reader alone.\<close>

definition try_read_buffered :: "bytes \<Rightarrow> nat \<Rightarrow> plp_reader \<Rightarrow> (nat \<times> bytes) option tds_result \<times> plp_reader" where
  "try_read_buffered bs out_len p =
     (case fst (try_read_buffered_inner bs False out_len p) of
        Inl e \<Rightarrow> (Inl e, p)
      | Inr None \<Rightarrow> (Inr None, p)
      | Inr (Some _) \<Rightarrow> try_read_buffered_inner bs True out_len p)"

definition try_read_complete_buffered :: "bytes \<Rightarrow> nat \<Rightarrow> plp_reader \<Rightarrow> (nat \<times> bytes) option tds_result \<times> plp_reader" where
  "try_read_complete_buffered bs out_len p =
     (case plp_length p of PlpUnknown \<Rightarrow> (Inr None, p)
      | PlpKnown k \<Rightarrow>
          let len = unat k in
          if reached_end p \<or> chunk_remaining p \<noteq> 0 \<or> total_read p \<noteq> 0 then (Inr None, p)
          else if out_len < len then (Inr None, p)
          else case slice_get 0 4 bs of None \<Rightarrow> (Inr None, p)
            | Some header \<Rightarrow>
                let chunk_len = unat (from_le_u32 header) in
                if len = 0 \<and> chunk_len = 0 then (Inr (Some (4, [])), p\<lparr>reached_end := True\<rparr>)
                else if chunk_len \<noteq> len then (Inr None, p)
                else if 2 ^ 64 \<le> 4 + len then (Inl (ProtocolError ''Buffered PLP length overflowed''), p)
                else if 2 ^ 64 \<le> 4 + len + 4 then (Inl (ProtocolError ''Buffered PLP terminator overflowed''), p)
                else case (slice_get 4 (4 + len) bs, slice_get (4 + len) (4 + len + 4) bs) of
                    (Some payload, Some terminator) \<Rightarrow>
                      if from_le_u32 terminator \<noteq> 0 then (Inr None, p)
                      else (Inr (Some (4 + len + 4, payload)), p\<lparr>total_read := len, reached_end := True\<rparr>)
                  | _ \<Rightarrow> (Inr None, p))"


section \<open>Streams with their type\<close>

record plp_column_stream =
  pcs_plp_type :: partial_length_type
  pcs_collation :: "sql_collation option"
  pcs_inner :: plp_reader

definition type_from_metadata :: "column_metadata \<Rightarrow> (partial_length_type \<times> sql_collation option) tds_result" where
  "type_from_metadata c =
     (case ti_variant (cm_type_info c) of PartialLen pt n coll x u \<Rightarrow> Inr (pt, coll)
      | _ \<Rightarrow> Inl (ProtocolError ''Column is not a PLP type''))"

definition pcs_of :: "partial_length_type \<times> sql_collation option \<Rightarrow> plp_reader \<Rightarrow> plp_column_stream" where
  "pcs_of t p = \<lparr>pcs_plp_type = fst t, pcs_collation = snd t, pcs_inner = p\<rparr>"

definition pcs_begin :: "'s packet_reader_ops \<Rightarrow> column_metadata \<Rightarrow> ('s, plp_column_stream option) action" where
  "pcs_begin ops c =
     rbind (rlift (type_from_metadata c)) (\<lambda>t. rbind (plp_begin ops) (\<lambda>p. rret (map_option (pcs_of t) p)))"

definition pcs_try_begin_buffered :: "column_metadata \<Rightarrow> bytes \<Rightarrow> (plp_column_stream option \<times> nat) option tds_result" where
  "pcs_try_begin_buffered c bs =
     (case type_from_metadata c of Inl e \<Rightarrow> Inl e
      | Inr t \<Rightarrow>
          (case try_begin_buffered bs of Inl e \<Rightarrow> Inl e
           | Inr r \<Rightarrow> Inr (map_option (\<lambda>(p, used). (map_option (pcs_of t) p, used)) r)))"


section \<open>Whole values\<close>

datatype plp_framing = PlpNull | PlpFramingUnknown | PlpFramingKnown nat

definition read_plp_framing :: "'s packet_reader_ops \<Rightarrow> ('s, plp_framing) action" where
  "read_plp_framing ops =
     rbind (rd_i64 ops) (\<lambda>raw_len.
       if raw_len = SQL_PLP_NULL then rret PlpNull
       else if raw_len = SQL_PLP_UNKNOWNLEN then rret PlpFramingUnknown
       else if sint raw_len < 0 \<or> MAX_PLP_SIZE < unat raw_len then rfail (ProtocolError ''PLP length exceeds maximum allowed size'')
       else rret (PlpFramingKnown (unat raw_len)))"

definition check_plp_chunk :: "nat \<Rightarrow> unit tds_result" where
  "check_plp_chunk chunk_len =
     (if MAX_PLP_CHUNK_SIZE < chunk_len then Inl (ProtocolError ''PLP chunk size exceeds maximum allowed chunk size'') else Inr ())"

definition plp_unknown_chunk :: "'s packet_reader_ops \<Rightarrow> bytes \<Rightarrow> u32 \<Rightarrow> ('s, bytes) action" where
  "plp_unknown_chunk ops buf chunk =
     rbind (rlift (check_plp_chunk (unat chunk))) (\<lambda>_.
       if 2 ^ 64 \<le> length buf + unat chunk then rfail (ProtocolError ''PLP chunk accumulation would overflow capacity'')
       else if MAX_PLP_SIZE < length buf + unat chunk then rfail (ProtocolError ''PLP accumulated size exceeds maximum allowed size'')
       else rbind (rd_bytes ops (unat chunk)) (\<lambda>bs.
         if length bs \<noteq> unat chunk then rfail (ProtocolError ''PLP chunk read returned fewer bytes than the chunk header declared'')
         else rret (buf @ bs)))"

lemma plp_unknown_chunk_grows:
  "plp_unknown_chunk ops buf chunk s = (Inr buf', s') \<Longrightarrow> length buf' = length buf + unat chunk \<and> length buf' \<le> MAX_PLP_SIZE"
  by (auto simp: plp_unknown_chunk_def check_plp_chunk_def rbind_def rlift_def split: if_splits prod.splits sum.splits)

function plp_unknown_loop :: "'s packet_reader_ops \<Rightarrow> bytes \<Rightarrow> u32 \<Rightarrow> ('s, bytes) action" where
  "plp_unknown_loop ops buf chunk s =
     (if 0 < chunk
      then rbind (plp_unknown_chunk ops buf chunk)
        (\<lambda>buf' s'. rbind (rd_u32 ops) (plp_unknown_loop ops buf') s') s
      else (Inr buf, s))"
  by pat_completeness auto

termination
proof (relation "measure (\<lambda>(_, buf, chunk, _). Suc MAX_PLP_SIZE - length buf)", goal_cases)
  case (2 ops buf chunk s buf' s' chunk' s'')
  from 2(1) have "0 < unat chunk" by (simp add: unat_gt_0)
  then show ?case using plp_unknown_chunk_grows [OF 2(2)] by auto
qed simp

declare plp_unknown_loop.simps [simp del]

definition read_plp_chunks_unknown_len :: "'s packet_reader_ops \<Rightarrow> ('s, bytes) action" where
  "read_plp_chunks_unknown_len ops = rbind (rd_u32 ops) (plp_unknown_loop ops [])"

text \<open>
  The known-length reader trusts the transport to fill the slice it is handed. The loop is cut at
  one more chunk than the value has bytes, and \<open>Diverge\<close> stands for a transport that stalls.
\<close>

fun plp_slice_loop :: "'s packet_reader_ops \<Rightarrow> nat \<Rightarrow> nat \<Rightarrow> nat \<Rightarrow> bytes \<Rightarrow> u32 \<Rightarrow> ('s, bytes) action" where
  "plp_slice_loop ops 0 dest_len declared_len out chunk s = (Inl Diverge, s)"
| "plp_slice_loop ops (Suc fuel) dest_len declared_len out chunk s =
     (if 0 < chunk
      then rbind (rlift (check_plp_chunk (unat chunk))) (\<lambda>_.
        let end_offset = length out + unat chunk in
        if 2 ^ 64 \<le> end_offset then rfail (ProtocolError ''PLP chunk offset would overflow'')
        else if declared_len < end_offset \<or> dest_len < end_offset then rfail (ProtocolError ''PLP chunk exceeds wire-declared length'')
        else rbind (rd_bytes ops (unat chunk)) (\<lambda>bs.
          rbind (rd_u32 ops) (plp_slice_loop ops fuel dest_len declared_len (out @ bs)))) s
      else (Inr (out @ replicate (dest_len - length out) 0), s))"

definition read_plp_chunks_into_slice :: "'s packet_reader_ops \<Rightarrow> nat \<Rightarrow> nat \<Rightarrow> ('s, bytes) action" where
  "read_plp_chunks_into_slice ops dest_len declared_len =
     rbind (rd_u32 ops) (plp_slice_loop ops (Suc declared_len) dest_len declared_len [])"

definition read_plp_bytes :: "'s packet_reader_ops \<Rightarrow> ('s, bytes option) action" where
  "read_plp_bytes ops =
     rbind (read_plp_framing ops) (\<lambda>f. case f of
         PlpNull \<Rightarrow> rret None
       | PlpFramingKnown n \<Rightarrow> rbind (read_plp_chunks_into_slice ops n n) (\<lambda>bs. rret (Some bs))
       | PlpFramingUnknown \<Rightarrow> rbind (read_plp_chunks_unknown_len ops) (\<lambda>bs. rret (Some bs)))"

end
