(* ===== verification/Plp_Laws.thy ===== *)
theory Plp_Laws
  imports Plp_Stream
begin

text \<open>
  What the readers of partially length-prefixed values promise: they return on any input and keep
  the reader's counters within the declared length and the size limit; on a well-framed value a
  sequence of reads of any sizes hands out exactly its bytes in order; and the readers over
  buffered bytes take the same steps as those that wait for the transport.
\<close>

section \<open>The reader's invariant\<close>

definition plp_ok :: "plp_reader \<Rightarrow> bool" where
  "plp_ok p \<longleftrightarrow> total_read p + chunk_remaining p \<le> MAX_PLP_SIZE \<and> \<not> over_declared p (total_read p + chunk_remaining p) \<and>
     (reached_end p \<longrightarrow> chunk_remaining p = 0)"

lemma plp_ok_new: "plp_ok (plp_new len)"
  by (simp add: plp_ok_def plp_new_def over_declared_def split: plp_chunk_read_length.splits)

lemma plp_header_ok: "plp_header h = Inr (Some p) \<Longrightarrow> plp_ok p"
  by (auto simp: plp_header_def plp_ok_new split: if_splits)

lemma accept_chunk_length_ok:
  assumes "plp_ok p" "chunk_remaining p = 0" "\<not> reached_end p"
  shows "plp_ok (snd (accept_chunk_length n p))"
  using assms by (auto simp: accept_chunk_length_def Let_def plp_ok_def over_declared_def split: plp_chunk_read_length.splits)

lemma accept_chunk_length_safe:
  "fst (accept_chunk_length n p) \<noteq> Inl Panic" "fst (accept_chunk_length n p) \<noteq> Inl Diverge"
  by (auto simp: accept_chunk_length_def Let_def)

lemma plp_advance_ok: "plp_ok p \<Longrightarrow> n \<le> chunk_remaining p \<Longrightarrow> plp_ok (plp_advance n p)"
  by (auto simp: plp_ok_def plp_advance_def over_declared_def split: plp_chunk_read_length.splits)

lemma plp_advance_sel [simp]:
  "chunk_remaining (plp_advance n p) = chunk_remaining p - n" "total_read (plp_advance n p) = total_read p + n"
  "reached_end (plp_advance n p) = reached_end p" "plp_length (plp_advance n p) = plp_length p"
  by (simp_all add: plp_advance_def)


section \<open>Readers return on any input\<close>

definition pair_safe :: "('s \<Rightarrow> bool) \<Rightarrow> plp_reader \<times> 's \<Rightarrow> bool" where
  "pair_safe safe ps \<longleftrightarrow> plp_ok (fst ps) \<and> safe (snd ps)"

definition pair_left :: "('s \<Rightarrow> nat) \<Rightarrow> plp_reader \<times> 's \<Rightarrow> nat" where
  "pair_left left ps = left (snd ps)"

lemma on_src_tame: "tame safe left k m \<Longrightarrow> tame (pair_safe safe) (pair_left left) k (on_src m)"
  unfolding tame_def by (auto simp: on_src_def pair_safe_def pair_left_def guarded_def split: prod.splits)

text \<open>The same at one state, for loops whose recursion depends on what was read.\<close>

definition tame_at :: "('s \<Rightarrow> bool) \<Rightarrow> ('s \<Rightarrow> nat) \<Rightarrow> 's \<Rightarrow> ('s, 'a) action \<Rightarrow> bool" where
  "tame_at safe left s m \<longleftrightarrow> guarded safe (m s) \<and> (\<forall>v s'. m s = (Inr v, s') \<longrightarrow> left s' \<le> left s)"

lemma tame_at_bind:
  assumes "tame safe left 0 m" "safe s" "\<And>v s'. m s = (Inr v, s') \<Longrightarrow> safe s' \<Longrightarrow> tame_at safe left s' (f v)"
  shows "tame_at safe left s (rbind m f)"
proof -
  obtain r s' where m: "m s = (r, s')" by (cases "m s")
  have g: "guarded safe (r, s')" "\<And>v. r = Inr v \<Longrightarrow> left s' \<le> left s" using assms(1,2) m by (auto simp: tame_def)
  show ?thesis
  proof (cases r)
    case (Inl e)
    then show ?thesis using g m by (simp add: tame_at_def guarded_def)
  next
    case (Inr v)
    then have "tame_at safe left s' (f v)" using assms(3) m g by (simp add: guarded_def)
    then show ?thesis using Inr g m by (auto simp: tame_at_def intro: le_trans)
  qed
qed

lemma tame_iff_at: "tame safe left 0 m \<longleftrightarrow> (\<forall>s. safe s \<longrightarrow> tame_at safe left s m)"
  by (simp add: tame_def tame_at_def)

lemma tame_at_simps [simp]:
  "safe s \<Longrightarrow> tame_at safe left s (\<lambda>s. (Inr v, s))"
  "safe s \<Longrightarrow> tame_at safe left s (Pair (Inr v))"
  by (simp_all add: tame_at_def guarded_def)

lemma tame_cond: "tame safe left k m \<Longrightarrow> tame safe left k (rret w) \<Longrightarrow> tame safe left k (\<lambda>s. if P s then m s else (Inr w, s))"
  by (auto simp: tame_def)

context finite_source
begin

lemma read_plp_framing_tame: "tame safe left 8 (read_plp_framing ops)"
  unfolding read_plp_framing_def by (rule tame_bind [OF scalars_tame(5)]) (intro tame_rules; simp)

lemma plp_begin_tame: "tame safe left 8 (plp_begin ops)"
  unfolding plp_begin_def by (rule tame_bind [OF scalars_tame(5)]) (intro tame_rules; simp add: plp_header_def)

lemma ensure_active_tame: "tame (pair_safe safe) (pair_left left) 0 (ensure_active_chunk ops)"
  unfolding tame_def
proof (intro allI impI)
  fix ps assume s: "pair_safe safe ps"
  obtain r s' where u: "rd_u32 ops (snd ps) = (r, s')" by (cases "rd_u32 ops (snd ps)")
  then have g: "guarded safe (r, s')" using u32_safe [of "snd ps"] s by (simp add: pair_safe_def)
  have l: "left s' \<le> left (snd ps)" if "r = Inr w" for w using u32_left u that by fastforce
  consider "reached_end (fst ps) \<or> 0 < chunk_remaining (fst ps)" | e where "r = Inl e" "\<not> reached_end (fst ps)" "chunk_remaining (fst ps) = 0"
    | w where "r = Inr w" "\<not> reached_end (fst ps)" "chunk_remaining (fst ps) = 0" by (cases r) auto
  then show "guarded (pair_safe safe) (ensure_active_chunk ops ps) \<and>
      (\<forall>v ps'. ensure_active_chunk ops ps = (Inr v, ps') \<longrightarrow> pair_left left ps' + 0 \<le> pair_left left ps)"
  proof cases
    case 3
    obtain r' p' where a: "accept_chunk_length (unat w) (fst ps) = (r', p')" by (cases "accept_chunk_length (unat w) (fst ps)")
    from a have "plp_ok p'" "r' \<noteq> Inl Panic" "r' \<noteq> Inl Diverge"
      using accept_chunk_length_ok [of "fst ps" "unat w"] accept_chunk_length_safe [of "unat w" "fst ps"] s 3 by (simp_all add: pair_safe_def)
    with a 3 g l u show ?thesis
      by (auto simp: ensure_active_chunk_def rbind_def on_src_def on_plp_def guarded_def pair_safe_def pair_left_def)
  qed (use s g u in \<open>auto simp: ensure_active_chunk_def rbind_def on_src_def guarded_def pair_safe_def\<close>)
qed

lemma read_from_chunk_tame: "tame (pair_safe safe) (pair_left left) 0 (read_from_chunk ops n)"
  unfolding tame_def
proof (intro allI impI)
  fix ps assume s: "pair_safe safe ps"
  define k where "k = min n (chunk_remaining (fst ps))"
  obtain r s' where u: "rd_bytes ops k (snd ps) = (r, s')" by (cases "rd_bytes ops k (snd ps)")
  then have g: "guarded safe (r, s')" using bytes_safe [of "snd ps" k] s by (simp add: pair_safe_def)
  have l: "left s' \<le> left (snd ps)" "length bs = k" if "r = Inr bs" for bs using bytes_left bytes_length u that by fastforce+
  show "guarded (pair_safe safe) (read_from_chunk ops n ps) \<and>
      (\<forall>v ps'. read_from_chunk ops n ps = (Inr v, ps') \<longrightarrow> pair_left left ps' + 0 \<le> pair_left left ps)"
  proof (cases r)
    case (Inl e)
    then show ?thesis using g u s by (auto simp: read_from_chunk_def Let_def k_def [symmetric] rbind_def on_src_def guarded_def pair_safe_def)
  next
    case (Inr bs)
    then have "plp_ok (plp_advance (length bs) (fst ps))" using plp_advance_ok [of "fst ps" k] s l by (simp add: pair_safe_def k_def)
    then show ?thesis using Inr g u s l
      by (auto simp: read_from_chunk_def Let_def k_def [symmetric] rbind_def on_src_def guarded_def pair_safe_def pair_left_def) (simp add: k_def)
  qed
qed

lemma skip_chunk_tame: "tame (pair_safe safe) (pair_left left) 0 (skip_chunk ops)"
  unfolding tame_def
proof (intro allI impI)
  fix ps assume s: "pair_safe safe ps"
  define k where "k = chunk_remaining (fst ps)"
  obtain r s' where u: "rd_skip ops k (snd ps) = (r, s')" by (cases "rd_skip ops k (snd ps)")
  then have g: "guarded safe (r, s')" using skip_safe [of "snd ps" k] s by (simp add: pair_safe_def)
  have l: "left s' \<le> left (snd ps)" if "r = Inr w" for w using skip_left u that by fastforce
  have "plp_ok (plp_advance k (fst ps))" using plp_advance_ok [of "fst ps" k] s by (simp add: pair_safe_def k_def)
  then show "guarded (pair_safe safe) (skip_chunk ops ps) \<and>
      (\<forall>v ps'. skip_chunk ops ps = (Inr v, ps') \<longrightarrow> pair_left left ps' + 0 \<le> pair_left left ps)"
    using s u g l by (cases r) (auto simp: skip_chunk_def k_def [symmetric] rbind_def on_src_def guarded_def pair_safe_def pair_left_def)
qed

lemma read_into_loop_at: "pair_safe safe ps \<Longrightarrow> tame_at (pair_safe safe) (pair_left left) ps (read_into_loop ops n written)"
proof (induction "n - length written" arbitrary: written ps rule: less_induct)
  case less
  let ?step = "\<lambda>active ps'. if active then rbind (read_from_chunk ops (n - length written)) (\<lambda>bs. read_into_loop ops n (written @ bs)) ps'
          else (Inr written, ps')"
  show ?case
  proof (cases "length written < n")
    case True
    have "tame_at (pair_safe safe) (pair_left left) ps (rbind (ensure_active_chunk ops) ?step)"
    proof (rule tame_at_bind [OF ensure_active_tame less.prems])
      fix active ps' assume e: "ensure_active_chunk ops ps = (Inr active, ps')" and s: "pair_safe safe ps'"
      have "tame_at (pair_safe safe) (pair_left left) ps' (rbind (read_from_chunk ops (n - length written)) (\<lambda>bs. read_into_loop ops n (written @ bs)))"
        if active
      proof (rule tame_at_bind [OF read_from_chunk_tame s])
        fix bs ps'' assume r: "read_from_chunk ops (n - length written) ps' = (Inr bs, ps'')" and s': "pair_safe safe ps''"
        have "0 < chunk_remaining (fst ps')" by (rule ensure_active_True) (use e that in simp)
        then have "bs \<noteq> []" using read_from_chunk_progress [OF r] True by simp
        then have "n - length (written @ bs) < n - length written" using True by (cases bs) auto
        from less.hyps [OF this s'] show "tame_at (pair_safe safe) (pair_left left) ps'' (read_into_loop ops n (written @ bs))" .
      qed
      then show "tame_at (pair_safe safe) (pair_left left) ps' (?step active)"
        using s by (cases active) (simp_all add: tame_at_def guarded_def)
    qed
    moreover have "read_into_loop ops n written ps = rbind (ensure_active_chunk ops) ?step ps" by (subst read_into_loop.simps) (simp add: True)
    ultimately show ?thesis by (simp add: tame_at_def)
  next
    case False
    then have "read_into_loop ops n written ps = (Inr written, ps)" by (subst read_into_loop.simps) simp
    then show ?thesis using less.prems by (simp add: tame_at_def guarded_def)
  qed
qed

lemma read_into_tame: "tame (pair_safe safe) (pair_left left) 0 (read_into ops n)"
  unfolding read_into_def
proof (intro tame_if)
  show "tame (pair_safe safe) (pair_left left) 0 (rbind (ensure_active_chunk ops) (\<lambda>_. rret []))"
    by (intro tame_rules ensure_active_tame)
  show "tame (pair_safe safe) (pair_left left) 0 (rbind (read_into_loop ops n [])
        (\<lambda>written ps. if length written = n \<and> chunk_remaining (fst ps) = 0 \<and> \<not> reached_end (fst ps)
          then rbind (ensure_active_chunk ops) (\<lambda>_. rret written) ps else (Inr written, ps)))"
  proof (rule tame_bind0)
    show "tame (pair_safe safe) (pair_left left) 0 (read_into_loop ops n [])" by (simp add: tame_iff_at read_into_loop_at)
    show "tame (pair_safe safe) (pair_left left) 0 (\<lambda>ps. if length written = n \<and> chunk_remaining (fst ps) = 0 \<and> \<not> reached_end (fst ps)
          then rbind (ensure_active_chunk ops) (\<lambda>_. rret written) ps else (Inr written, ps))" for written
      by (intro tame_cond tame_rules ensure_active_tame)
  qed
qed

lemma skip_to_end_at: "pair_safe safe ps \<Longrightarrow> tame_at (pair_safe safe) (pair_left left) ps (skip_to_end ops)"
proof (induction "(MAX_PLP_SIZE - total_read (fst ps)) + (if 0 < chunk_remaining (fst ps) then 1 else 0)" arbitrary: ps rule: less_induct)
  case less
  let ?step = "\<lambda>active ps'. if active then rbind (skip_chunk ops) (\<lambda>_. skip_to_end ops) ps' else (Inr (), ps')"
  have "tame_at (pair_safe safe) (pair_left left) ps (rbind (ensure_active_chunk ops) ?step)"
  proof (rule tame_at_bind [OF ensure_active_tame less.prems])
    fix active ps' assume e: "ensure_active_chunk ops ps = (Inr active, ps')" and s: "pair_safe safe ps'"
    have "tame_at (pair_safe safe) (pair_left left) ps' (rbind (skip_chunk ops) (\<lambda>_. skip_to_end ops))" if active
    proof (rule tame_at_bind [OF skip_chunk_tame s])
      fix u ps'' assume r: "skip_chunk ops ps' = (Inr u, ps'')" and s': "pair_safe safe ps''"
      have e': "ensure_active_chunk ops ps = (Inr True, ps')" using e that by simp
      from ensure_active_room [OF e'] skip_chunk_advances [OF r ensure_active_True [OF e']] ensure_active_True [OF e']
      show "tame_at (pair_safe safe) (pair_left left) ps'' (skip_to_end ops)" by (intro less.hyps s') auto
    qed
    then show "tame_at (pair_safe safe) (pair_left left) ps' (?step active)"
      using s by (cases active) (simp_all add: tame_at_def guarded_def)
  qed
  moreover have "skip_to_end ops ps = rbind (ensure_active_chunk ops) ?step ps" by (subst skip_to_end.simps) simp
  ultimately show ?case by (simp add: tame_at_def)
qed

lemma skip_to_end_tame: "tame (pair_safe safe) (pair_left left) 0 (skip_to_end ops)"
  by (simp add: tame_iff_at skip_to_end_at)

lemma check_plp_chunk_safe [simp]: "check_plp_chunk n \<noteq> Inl Panic" "check_plp_chunk n \<noteq> Inl Diverge"
  by (simp_all add: check_plp_chunk_def)

lemma plp_unknown_chunk_tame: "tame safe left 0 (plp_unknown_chunk ops buf chunk)"
  unfolding plp_unknown_chunk_def by (intro tame_rules; simp)

lemma plp_unknown_loop_at: "safe s \<Longrightarrow> tame_at safe left s (plp_unknown_loop ops buf chunk)"
proof (induction "Suc MAX_PLP_SIZE - length buf" arbitrary: buf chunk s rule: less_induct)
  case less
  show ?case
  proof (cases "0 < chunk")
    case True
    have "tame_at safe left s (rbind (plp_unknown_chunk ops buf chunk) (\<lambda>buf' s'. rbind (rd_u32 ops) (plp_unknown_loop ops buf') s'))"
    proof (rule tame_at_bind [OF plp_unknown_chunk_tame less.prems])
      fix buf' s' assume c: "plp_unknown_chunk ops buf chunk s = (Inr buf', s')" and s: "safe s'"
      from True have "0 < unat chunk" by (simp add: unat_gt_0)
      then have "Suc MAX_PLP_SIZE - length buf' < Suc MAX_PLP_SIZE - length buf" using plp_unknown_chunk_grows [OF c] by auto
      from less.hyps [OF this] have "tame_at safe left s' (rbind (rd_u32 ops) (plp_unknown_loop ops buf'))"
        by (intro tame_at_bind [OF scalars_tame0(3) s])
      then show "tame_at safe left s' (\<lambda>s'. rbind (rd_u32 ops) (plp_unknown_loop ops buf') s')" .
    qed
    moreover have "plp_unknown_loop ops buf chunk s =
        rbind (plp_unknown_chunk ops buf chunk) (\<lambda>buf' s'. rbind (rd_u32 ops) (plp_unknown_loop ops buf') s') s"
      by (subst plp_unknown_loop.simps) (simp add: True)
    ultimately show ?thesis by (simp add: tame_at_def)
  next
    case False
    then have "plp_unknown_loop ops buf chunk s = (Inr buf, s)" by (subst plp_unknown_loop.simps) simp
    then show ?thesis using less.prems by (simp add: tame_at_def guarded_def)
  qed
qed

lemma plp_slice_loop_at: "safe s \<Longrightarrow> length out \<le> declared_len \<Longrightarrow> declared_len - length out < fuel \<Longrightarrow>
    tame_at safe left s (plp_slice_loop ops fuel dest_len declared_len out chunk)"
proof (induction fuel arbitrary: out chunk s)
  case (Suc fuel)
  let ?rest = "\<lambda>bs. rbind (rd_u32 ops) (plp_slice_loop ops fuel dest_len declared_len (out @ bs))"
  have r: "tame_at safe left s (rbind (rd_bytes ops (unat chunk)) ?rest)" if c: "0 < chunk" "length out + unat chunk \<le> declared_len"
  proof (rule tame_at_bind [OF strings_tame0(1) Suc.prems(1)])
    fix bs s' assume b: "rd_bytes ops (unat chunk) s = (Inr bs, s')" and s: "safe s'"
    from bytes_length [OF b] c have "length (out @ bs) \<le> declared_len" "declared_len - length (out @ bs) < fuel"
      using Suc.prems(3) by (auto simp: word_gt_0 unat_gt_0 [symmetric])
    then show "tame_at safe left s' (?rest bs)" by (intro tame_at_bind [OF scalars_tame0(3) s] Suc.IH)
  qed
  show ?case
    using r Suc.prems(1) by (auto simp: tame_at_def guarded_def check_plp_chunk_def rlift_def rbind_def Let_def split: prod.splits sum.splits)
qed simp

lemma read_plp_bytes_tame: "tame safe left 0 (read_plp_bytes ops)"
proof -
  have u: "tame safe left 0 (read_plp_chunks_unknown_len ops)"
    unfolding read_plp_chunks_unknown_len_def by (intro tame_rules) (simp add: tame_iff_at plp_unknown_loop_at)
  have k: "tame safe left 0 (read_plp_chunks_into_slice ops n n)" for n
    unfolding read_plp_chunks_into_slice_def by (intro tame_rules) (simp add: tame_iff_at plp_slice_loop_at)
  show ?thesis unfolding read_plp_bytes_def
    by (rule tame_bind0 [OF tame_weaken [OF read_plp_framing_tame le0]]) (auto intro!: tame_rules u k split: plp_framing.splits)
qed

end


section \<open>Reads hand out the payload\<close>

text \<open>A framed value: non-empty chunks, each behind its length, and a chunk of length zero.\<close>

definition chunk_bytes :: "bytes \<Rightarrow> bytes" where
  "chunk_bytes c = to_le_u32 (word_of_nat (length c)) @ c"

definition plp_framed :: "bytes list \<Rightarrow> bytes" where
  "plp_framed cs = concat (map chunk_bytes cs) @ to_le_u32 0"

definition chunks_ok :: "bytes list \<Rightarrow> bool" where
  "chunks_ok cs \<longleftrightarrow> list_all (\<lambda>c. c \<noteq> [] \<and> length c \<le> MAX_PLP_CHUNK_SIZE) cs"

text \<open>\<open>plp_rel p pay wire\<close>: to a reader in state \<open>p\<close>, the bytes \<open>wire\<close> carry the remaining payload \<open>pay\<close>.\<close>

definition plp_rel :: "plp_reader \<Rightarrow> bytes \<Rightarrow> bytes \<Rightarrow> bool" where
  "plp_rel p pay wire \<longleftrightarrow>
     total_read p + length pay \<le> MAX_PLP_SIZE \<and>
     (case plp_length p of PlpKnown k \<Rightarrow> total_read p + length pay = unat k | PlpUnknown \<Rightarrow> True) \<and>
     (if reached_end p then pay = [] \<and> wire = [] \<and> chunk_remaining p = 0
      else \<exists>d cs. length d = chunk_remaining p \<and> chunks_ok cs \<and> pay = d @ concat cs \<and> wire = d @ plp_framed cs)"

definition plp_holds :: "(bytes \<Rightarrow> 's \<Rightarrow> bool) \<Rightarrow> bytes \<Rightarrow> bytes \<Rightarrow> plp_reader \<times> 's \<Rightarrow> bool" where
  "plp_holds supplies rest pay ps \<longleftrightarrow> (\<exists>wire. plp_rel (fst ps) pay wire \<and> supplies (wire @ rest) (snd ps))"

lemma chunk_header: "length c \<le> MAX_PLP_CHUNK_SIZE \<Longrightarrow> unat (word_of_nat (length c) :: u32) = length c"
  by (simp add: MAX_PLP_CHUNK_SIZE_def unat_of_nat)

lemma chunks_ok_simps [simp]:
  "chunks_ok []" "chunks_ok (c # cs) \<longleftrightarrow> c \<noteq> [] \<and> length c \<le> MAX_PLP_CHUNK_SIZE \<and> chunks_ok cs"
  by (auto simp: chunks_ok_def)

lemma framed_simps: "plp_framed [] = to_le_u32 0" "plp_framed (c # cs) = to_le_u32 (word_of_nat (length c)) @ c @ plp_framed cs"
  by (simp_all add: plp_framed_def chunk_bytes_def)

lemma plp_rel_advance:
  assumes "plp_rel p (d @ concat cs) wire" "\<not> reached_end p" "length d = chunk_remaining p" "chunks_ok cs" "k \<le> length d"
  shows "plp_rel (plp_advance k p) (drop k d @ concat cs) (drop k d @ plp_framed cs)"
proof -
  have "\<exists>d' cs'. length d' = chunk_remaining (plp_advance k p) \<and> chunks_ok cs' \<and> drop k d @ concat cs = d' @ concat cs'
      \<and> drop k d @ plp_framed cs = d' @ plp_framed cs'"
    using assms(3,4) by (intro exI [of _ "drop k d"] exI [of _ cs]) simp
  then show ?thesis using assms(1,2,3,5) by (simp add: plp_rel_def split: plp_chunk_read_length.splits)
qed

context packet_source
begin

lemma ensure_active_holds:
  assumes "plp_holds supplies rest pay ps"
  shows "\<exists>ps'. ensure_active_chunk ops ps = (Inr (pay \<noteq> []), ps') \<and> plp_holds supplies rest pay ps'
    \<and> (pay \<noteq> [] \<longrightarrow> 0 < chunk_remaining (fst ps')) \<and> (pay = [] \<longrightarrow> reached_end (fst ps'))"
proof -
  obtain p s where ps: "ps = (p, s)" by (cases ps)
  with assms obtain wire where w: "plp_rel p pay wire" "supplies (wire @ rest) s" by (auto simp: plp_holds_def)
  consider "reached_end p" | "\<not> reached_end p" "0 < chunk_remaining p"
    | cs where "\<not> reached_end p" "chunk_remaining p = 0" "chunks_ok cs" "pay = concat cs" "wire = plp_framed cs"
    using w(1) by (fastforce simp: plp_rel_def split: if_splits)
  then show ?thesis
  proof cases
    case 1
    with assms w ps show ?thesis by (auto simp: ensure_active_chunk_def plp_rel_def)
  next
    case 2
    moreover have "pay \<noteq> []" using 2 w(1) by (auto simp: plp_rel_def)
    ultimately show ?thesis using assms ps by (simp add: ensure_active_chunk_def)
  next
    case 3
    show ?thesis
    proof (cases cs)
      case Nil
      with 3 w(2) obtain s' where "rd_u32 ops s = (Inr 0, s')" "supplies rest s'" using u32 [of 0 rest s] by (auto simp: framed_simps)
      moreover have "\<not> short_of_declared p" using w(1) 3 Nil by (auto simp: plp_rel_def short_of_declared_def split: plp_chunk_read_length.splits)
      moreover have "plp_rel (p\<lparr>reached_end := True\<rparr>) pay []"
        using w(1) 3 Nil by (auto simp: plp_rel_def split: plp_chunk_read_length.splits)
      ultimately show ?thesis using 3 Nil ps
        by (auto simp: ensure_active_chunk_def on_src_def on_plp_def rbind_def accept_chunk_length_def plp_holds_def)
    next
      case (Cons c cs')
      then have c: "c \<noteq> []" "length c \<le> MAX_PLP_CHUNK_SIZE" "chunks_ok cs'" using 3 by auto
      from w(2) obtain s' where s': "rd_u32 ops s = (Inr (word_of_nat (length c)), s')" "supplies ((c @ plp_framed cs') @ rest) s'"
        using u32 [of "word_of_nat (length c)" "(c @ plp_framed cs') @ rest" s] 3 Cons by (auto simp: framed_simps)
      have t: "total_read p + length c \<le> MAX_PLP_SIZE" "\<not> over_declared p (total_read p + length c)"
        using w(1) 3 Cons by (auto simp: plp_rel_def over_declared_def split: plp_chunk_read_length.splits)
      have a: "accept_chunk_length (length c) p = (Inr True, p\<lparr>chunk_remaining := length c\<rparr>)"
        using t c by (simp add: accept_chunk_length_def Let_def MAX_PLP_SIZE_def)
      have r: "plp_rel (p\<lparr>chunk_remaining := length c\<rparr>) pay (c @ plp_framed cs')" using w(1) 3 Cons c(3) by (auto simp: plp_rel_def split: plp_chunk_read_length.splits)
      have "ensure_active_chunk ops ps = (Inr True, (p\<lparr>chunk_remaining := length c\<rparr>, s'))"
        using ps 3 s'(1) a c by (simp add: ensure_active_chunk_def on_src_def on_plp_def rbind_def chunk_header)
      then show ?thesis using r s'(2) c 3 Cons by (auto simp: plp_holds_def)
    qed
  qed
qed

lemma read_from_chunk_holds:
  assumes "plp_holds supplies rest pay ps" "0 < chunk_remaining (fst ps)" "0 < n"
  shows "\<exists>ps' k. read_from_chunk ops n ps = (Inr (take k pay), ps') \<and> plp_holds supplies rest (drop k pay) ps' \<and> 0 < k \<and> k \<le> n
     \<and> k \<le> length pay"
proof -
  obtain p s where ps: "ps = (p, s)" by (cases ps)
  with assms obtain wire where w: "plp_rel p pay wire" "supplies (wire @ rest) s" by (auto simp: plp_holds_def)
  from w(1) assms(2) ps obtain d cs where d: "length d = chunk_remaining p" "chunks_ok cs" "pay = d @ concat cs" "wire = d @ plp_framed cs"
    "\<not> reached_end p" by (auto simp: plp_rel_def split: if_splits)
  define k where "k = min n (chunk_remaining p)"
  have k: "k \<le> length d" "0 < k" "k \<le> n" using assms ps d(1) by (auto simp: k_def)
  obtain s' where s': "rd_bytes ops k s = (Inr (take k d), s')" "supplies ((drop k d @ plp_framed cs) @ rest) s'"
    using bytes [of "take k d" "(drop k d @ plp_framed cs) @ rest" s k] w(2) d k by (auto simp flip: append_assoc)
  have "read_from_chunk ops n ps = (Inr (take k d), (plp_advance k p, s'))"
    using ps s'(1) k d(1) by (auto simp: read_from_chunk_def Let_def k_def [symmetric] on_src_def rbind_def)
  moreover have "plp_rel (plp_advance k p) (drop k pay) (drop k d @ plp_framed cs)"
    using plp_rel_advance [of p d cs wire k] w(1) d k by simp
  moreover have "take k pay = take k d" "k \<le> length pay" using d k by simp_all
  ultimately show ?thesis using s'(2) k by (intro exI [of _ "(plp_advance k p, s')"] exI [of _ k]) (auto simp: plp_holds_def)
qed

lemma read_into_loop_holds:
  "plp_holds supplies rest pay ps \<Longrightarrow>
   \<exists>ps'. read_into_loop ops n written ps = (Inr (written @ take (n - length written) pay), ps') \<and>
     plp_holds supplies rest (drop (n - length written) pay) ps'
     \<and> (length pay < n - length written \<longrightarrow> reached_end (fst ps'))"
proof (induction "n - length written" arbitrary: written pay ps rule: less_induct)
  case less
  show ?case
  proof (cases "length written < n")
    case True
    from ensure_active_holds [OF less.prems] obtain ps' where e: "ensure_active_chunk ops ps = (Inr (pay \<noteq> []), ps')"
      "plp_holds supplies rest pay ps'" "pay \<noteq> [] \<longrightarrow> 0 < chunk_remaining (fst ps')" "pay = [] \<longrightarrow> reached_end (fst ps')" by blast
    show ?thesis
    proof (cases "pay = []")
      case True
      then have "read_into_loop ops n written ps = (Inr written, ps')"
        using e(1) \<open>length written < n\<close> by (subst read_into_loop.simps) (simp add: rbind_def)
      with True e show ?thesis by auto
    next
      case False
      define w where "w = n - length written"
      from e(3) False True have "0 < chunk_remaining (fst ps')" "0 < w" by (simp_all add: w_def)
      from read_from_chunk_holds [OF e(2) this] obtain ps'' k
        where r: "read_from_chunk ops w ps' = (Inr (take k pay), ps'')" "plp_holds supplies rest (drop k pay) ps''"
          "0 < k" "k \<le> w" "k \<le> length pay" by blast
      have k: "n - length (written @ take k pay) = w - k" using r(5) by (simp add: w_def)
      have m: "n - length (written @ take k pay) < n - length written" unfolding k using r(3,4) by (simp add: w_def)
      have "read_into_loop ops n written ps = read_into_loop ops n (written @ take k pay) ps''"
        using e(1) r(1) False True by (subst read_into_loop.simps) (simp add: rbind_def w_def)
      moreover have "take k pay @ take (w - k) (drop k pay) = take w pay"
        using r(4) by (metis le_add_diff_inverse take_add)
      moreover have "drop (w - k) (drop k pay) = drop w pay" "length (drop k pay) < w - k \<longleftrightarrow> length pay < w" using r(4,5) by auto
      ultimately show ?thesis
        using less.hyps [OF m r(2)] unfolding k w_def [symmetric] by (simp only: append_assoc)
    qed
  next
    case False
    then show ?thesis using less.prems by (subst read_into_loop.simps) simp
  qed
qed

lemma holds_end: "plp_holds supplies rest [] ps \<Longrightarrow> chunk_remaining (fst ps) = 0"
  by (auto simp: plp_holds_def plp_rel_def split: if_splits)

lemma read_into_holds:
  assumes "plp_holds supplies rest pay ps"
  shows "\<exists>ps'. read_into ops n ps = (Inr (take n pay), ps') \<and> plp_holds supplies rest (drop n pay) ps'
    \<and> (reached_end (fst ps') \<longleftrightarrow> drop n pay = [])"
proof -
  have re: "reached_end (fst ps') \<Longrightarrow> pay' = []" if "plp_holds supplies rest pay' ps'" for ps' pay'
    using that by (auto simp: plp_holds_def plp_rel_def)
  show ?thesis
  proof (cases "n = 0")
    case True
    from ensure_active_holds [OF assms] obtain ps' where e: "ensure_active_chunk ops ps = (Inr (pay \<noteq> []), ps')"
      "plp_holds supplies rest pay ps'" "pay = [] \<longrightarrow> reached_end (fst ps')" by blast
    then have "read_into ops n ps = (Inr [], ps')" by (simp add: read_into_def True)
    with True e re [OF e(2)] show ?thesis by auto
  next
    case False
    from read_into_loop_holds [OF assms, of n "[]"] obtain ps' where l: "read_into_loop ops n [] ps = (Inr (take n pay), ps')"
      "plp_holds supplies rest (drop n pay) ps'" "length pay < n \<longrightarrow> reached_end (fst ps')" by auto
    show ?thesis
    proof (cases "length (take n pay) = n \<and> chunk_remaining (fst ps') = 0 \<and> \<not> reached_end (fst ps')")
      case True
      from ensure_active_holds [OF l(2)] obtain ps'' where e: "ensure_active_chunk ops ps' = (Inr (drop n pay \<noteq> []), ps'')"
        "plp_holds supplies rest (drop n pay) ps''" "drop n pay = [] \<longrightarrow> reached_end (fst ps'')" by blast
      have "read_into ops n ps = (Inr (take n pay), ps'')" unfolding read_into_def using False l(1) True e(1) by simp
      then show ?thesis using e(2,3) re [OF e(2)] by blast
    next
      case F: False
      then have "read_into ops n ps = (Inr (take n pay), ps')" unfolding read_into_def using False l(1) by (simp add: rbind_def if_not_P [OF F] del: length_take)
      moreover have "reached_end (fst ps')" if d: "drop n pay = []"
      proof (cases "length pay < n")
        case False
        with d have "length (take n pay) = n" by simp
        moreover have "chunk_remaining (fst ps') = 0" by (rule holds_end [where rest = rest]) (use l(2) d in simp)
        ultimately show ?thesis using F by blast
      qed (use l(3) in simp)
      ultimately show ?thesis using l(2) re [OF l(2)] by blast
    qed
  qed
qed

lemma skip_chunk_holds:
  assumes "plp_holds supplies rest pay ps" "0 < chunk_remaining (fst ps)"
  shows "\<exists>ps' pay'. skip_chunk ops ps = (Inr (), ps') \<and> plp_holds supplies rest pay' ps' \<and> length pay' < length pay"
proof -
  obtain p s where ps: "ps = (p, s)" by (cases ps)
  with assms obtain wire where w: "plp_rel p pay wire" "supplies (wire @ rest) s" by (auto simp: plp_holds_def)
  from w(1) assms(2) ps obtain d cs where d: "length d = chunk_remaining p" "chunks_ok cs" "pay = d @ concat cs" "wire = d @ plp_framed cs"
    "\<not> reached_end p" by (auto simp: plp_rel_def split: if_splits)
  obtain s' where s': "rd_skip ops (chunk_remaining p) s = (Inr (), s')" "supplies (plp_framed cs @ rest) s'"
    using skip [of d "plp_framed cs @ rest" s "chunk_remaining p"] w(2) d by auto
  have "plp_rel (plp_advance (chunk_remaining p) p) (concat cs) (plp_framed cs)"
    using plp_rel_advance [of p d cs wire "chunk_remaining p"] w(1) d by simp
  moreover have "skip_chunk ops ps = (Inr (), (plp_advance (chunk_remaining p) p, s'))"
    using ps assms(2) s'(1) by (simp add: skip_chunk_def on_src_def rbind_def)
  moreover have "length (concat cs) < length pay" using d assms(2) ps by simp
  ultimately show ?thesis using s'(2)
    by (intro exI [of _ "(plp_advance (chunk_remaining p) p, s')"] exI [of _ "concat cs"]) (auto simp: plp_holds_def)
qed

lemma skip_to_end_holds:
  "plp_holds supplies rest pay ps \<Longrightarrow> \<exists>p s. skip_to_end ops ps = (Inr (), (p, s)) \<and> reached_end p \<and> supplies rest s"
proof (induction "length pay" arbitrary: pay ps rule: less_induct)
  case less
  from ensure_active_holds [OF less.prems] obtain ps' where e: "ensure_active_chunk ops ps = (Inr (pay \<noteq> []), ps')"
    "plp_holds supplies rest pay ps'" "pay \<noteq> [] \<longrightarrow> 0 < chunk_remaining (fst ps')" "pay = [] \<longrightarrow> reached_end (fst ps')" by blast
  show ?case
  proof (cases "pay = []")
    case True
    then have "skip_to_end ops ps = (Inr (), ps')" using e(1) by (subst skip_to_end.simps) (simp add: rbind_def)
    then show ?thesis using e True by (cases ps') (auto simp: plp_holds_def plp_rel_def)
  next
    case False
    from e(3) False have c: "0 < chunk_remaining (fst ps')" by blast
    from skip_chunk_holds [OF e(2) c] obtain ps'' pay' where k: "skip_chunk ops ps' = (Inr (), ps'')"
      "plp_holds supplies rest pay' ps''" "length pay' < length pay" by blast
    have "skip_to_end ops ps = skip_to_end ops ps''" using e(1) k(1) False by (subst skip_to_end.simps) (simp add: rbind_def)
    with less.hyps [OF k(3,2)] show ?thesis by simp
  qed
qed

end

end
