(* ===== verification/Reader_Properties.thy ===== *)
theory Reader_Properties
  imports Packet_Source
begin

text \<open>
  What the read half of \<^verbatim>\<open>NetworkTransport\<close> promises its callers: no sequence of reads panics on
  any input, a value that runs past its message is an error, and the non-blocking probe loses
  and invents no bytes.
\<close>

section \<open>Any sequence of reads on any input\<close>

datatype read_op =
    RByte | RI16 | RI32 | RF32 | RF64 | RU16 | RU24 | RU32 | RU40 | RI64 | RU64 | RI16Be | RI32Be
  | RBytes nat | RSkip nat | RVarByteU8 | RVarByteU16 | RVarCharU8 | RVarCharU16 | RUnicode nat
  | RProbe

definition discard :: "('s, 'a) action \<Rightarrow> ('s, unit) action" where
  "discard m = rbind m (\<lambda>_. rret ())"

primrec exec_read :: "read_op \<Rightarrow> (network_reader, unit) action" where
  "exec_read RByte = discard read_byte"
| "exec_read RI16 = discard read_int16"
| "exec_read RI32 = discard read_int32"
| "exec_read RF32 = discard read_float32"
| "exec_read RF64 = discard read_float64"
| "exec_read RU16 = discard read_uint16"
| "exec_read RU24 = discard read_uint24"
| "exec_read RU32 = discard read_uint32"
| "exec_read RU40 = discard read_uint40"
| "exec_read RI64 = discard read_int64"
| "exec_read RU64 = discard read_uint64"
| "exec_read RI16Be = discard read_int16_big_endian"
| "exec_read RI32Be = discard read_int32_big_endian"
| "exec_read (RBytes n) = discard (read_bytes n)"
| "exec_read (RSkip n) = skip_bytes n"
| "exec_read RVarByteU8 = discard read_u8_varbyte"
| "exec_read RVarByteU16 = discard read_u16_varbyte"
| "exec_read RVarCharU8 = discard read_varchar_u8_length"
| "exec_read RVarCharU16 = discard read_varchar_u16_length"
| "exec_read (RUnicode n) = discard (read_unicode n)"
| "exec_read RProbe = discard try_read_tds_packet"

lemma discard_guarded: "guarded P (m s) \<Longrightarrow> guarded P (discard m s)"
  unfolding discard_def by (rule guarded_rbind) auto

lemmas net_safe_facts = net.i16_safe net.i32_safe net.f32_safe net.f64_safe net.byte_safe net.u16_safe net.u24_safe net.u32_safe net.u40_safe net.i64_safe net.u64_safe
  net.i16_be_safe net.i32_be_safe net.bytes_safe net.skip_safe net.u8_varbyte_safe net.u16_varbyte_safe
  net.varchar_u16_safe net.varchar_u8_safe net.unicode_safe

lemma reset_reader_safe:
  assumes "reader_safe r" and "8 < nr_packet_size r"
  shows "reader_safe (reset_reader r)"
  using assms rb_inv_reset [OF rb_inv_change [of "nr_buf r" "nr_packet_size r"]]
  by (auto simp: reader_safe_def reset_reader_def reset_to_length_def change_packet_size_def)

lemma exec_read_safe:
  assumes "reader_safe r"
  shows "guarded reader_safe (exec_read x r)"
  using assms net_safe_facts [unfolded network_ops_def packet_reader_ops.simps]
    guarded_out_safe [of "try_read_tds_packet r"] try_read_tds_packet_safe [of r]
  by (cases x) (auto intro!: discard_guarded)

lemma run_reads_safe: "reader_safe r \<Longrightarrow> guarded reader_safe (run_steps exec_read xs r)"
proof (induction xs arbitrary: r)
  case (Cons x xs)
  then show ?case unfolding run_steps.simps by (intro guarded_rbind exec_read_safe) auto
qed simp

definition hostile_reader :: network_reader where
  "hostile_reader = \<lparr>nr_buf = rb_new 512, nr_packet_size = 512, nr_stream_open = True,
     nr_incoming = [Arrive [4, 1, 0], NotReady, Arrive [9, 0, 0, 0, 0, 255], Arrive [4, 0, 255, 255], ReadError ''reset''],
     nr_known_dead = False\<rparr>"

lemma hostile_reader_safe [simp]: "reader_safe hostile_reader"
  by (simp add: hostile_reader_def reader_safe_def) (simp add: rb_new_def)



text \<open>
  Starting a new message resets the reader: nothing of the old message is left unread, the
  packet size is the negotiated one, and the buffer can be framed into again.
\<close>

theorem reset_reader_ready:
  assumes "reader_safe r" and "8 < nr_packet_size r"
  shows "reader_safe (reset_reader r) \<and> unread (nr_buf (reset_reader r)) = [] \<and>
         max_packet_size (nr_buf (reset_reader r)) = nr_packet_size r \<and>
         (nr_packet_size r = max_packet_size (nr_buf r) \<longrightarrow> raw (reset_reader r) = raw r)"
  using assms reset_reader_safe [OF assms] rb_inv_reset [OF rb_inv_change [of "nr_buf r" "nr_packet_size r"]]
  by (auto simp: reader_safe_def reset_reader_def raw_def) 
     (auto simp: reset_to_length_def change_packet_size_def)


section \<open>Values past the end of the message\<close>

definition past_end :: "'a tds_result \<Rightarrow> bool" where
  "past_end x \<longleftrightarrow> (\<exists>outstanding available. x = Inl (past_end_of_message_error outstanding available))"

lemma truncated_refills:
  assumes d: "delivers started r content tail" and k: "0 < length content" "length content < k" "k \<le> 8"
  shows "past_end (fst (read_retry k r))"
  using d
proof (induction "2 * (length content - length (unread (nr_buf r))) + (if end_of_message (nr_buf r) then 0 else 1 :: nat)"
    arbitrary: started r rule: less_induct)
  case less
  note d = less.prems and D = delivers_D [OF less.prems]
  have t: "on_buf (try_read_array k) r = (Inr None, r)"
    using try_read_array_None [OF D(1)] D(2) k by (simp add: on_buf_def)
  then have step: "read_retry k r = rbind (refill_for k) (\<lambda>_. read_retry k) r" by (subst read_retry.simps) simp
  show ?case
  proof (cases "value_truncated_by_message_end False k r")
    case True
    then show ?thesis unfolding step by (auto simp: refill_for_def rbind_def past_end_def)
  next
    case False
    have small: "length (unread (nr_buf r)) \<le> max_packet_size (nr_buf r)" using D(2,4) k by simp
    have "\<exists>r1. read_tds_packet r = (Inr (), r1) \<and> delivers True r1 content tail \<and>
        2 * (length content - length (unread (nr_buf r1))) + (if end_of_message (nr_buf r1) then 0 else 1 :: nat)
        < 2 * (length content - length (unread (nr_buf r))) + (if end_of_message (nr_buf r) then 0 else 1 :: nat)"
    proof (cases "length (unread (nr_buf r)) < length content")
      case True
      from refill_delivers [OF d True small] obtain r1 where
        r1: "read_tds_packet r = (Inr (), r1)" "delivers True r1 content tail"
          "length (unread (nr_buf r)) < length (unread (nr_buf r1))" by blast
      with delivers_D(2) [OF r1(2)] show ?thesis by (intro exI [of _ r1]) auto
    next
      case all: False
      then have eq: "length (unread (nr_buf r)) = length content" using D(2) by simp
      have "\<not> end_of_message (nr_buf r)"
        using False k eq by (auto simp: value_truncated_by_message_end_def message_cannot_satisfy_def D(3))
      with refill_empty_tail [OF d eq small] show ?thesis by fastforce
    qed
    then obtain r1 where r1: "read_tds_packet r = (Inr (), r1)" "delivers True r1 content tail"
      "2 * (length content - length (unread (nr_buf r1))) + (if end_of_message (nr_buf r1) then 0 else 1 :: nat)
        < 2 * (length content - length (unread (nr_buf r))) + (if end_of_message (nr_buf r) then 0 else 1 :: nat)" by blast
    have "refill_for k r = (Inr (), r1)" using False r1(1) by (simp add: refill_for_def)
    with less.hyps [OF r1(3,2)] show ?thesis unfolding step by (simp add: rbind_def)
  qed
qed

text \<open>One round of a bulk read that wants more than there is: it takes something or it is over.\<close>

lemma truncated_round:
  assumes d: "delivers started r content tail" and left: "length content < left" and th: "threshold = min (max_packet_size (nr_buf r)) left"
    and nt: "\<not> value_truncated_by_message_end started left r" and some: "started \<or> content \<noteq> []"
  shows "\<exists>t r1 started1. bulk_round threshold left r = (Inr t, r1) \<and> delivers started1 r1 content tail \<and>
     t \<le> length (unread (nr_buf r1)) \<and> (t = 0 \<longrightarrow> started \<and> end_of_message (nr_buf r1))"
proof -
  note D = delivers_D [OF d]
  have "\<exists>r1 started1. (if do_we_have_enough_data threshold (nr_buf r) then (Inr (), r) else read_tds_packet r) = (Inr (), r1) \<and>
     delivers started1 r1 content tail \<and> (unread (nr_buf r1) = [] \<longrightarrow> started \<and> end_of_message (nr_buf r1))"
  proof (cases "threshold \<le> length (unread (nr_buf r))")
    case True
    then have "unread (nr_buf r) \<noteq> []" using D(4) left by (auto simp: th)
    with True d show ?thesis by (auto simp: do_we_have_enough_data_def D(3))
  next
    case False
    then have small: "length (unread (nr_buf r)) \<le> max_packet_size (nr_buf r)" by (simp add: th)
    show ?thesis
    proof (cases "length (unread (nr_buf r)) < length content")
      case True
      from refill_delivers [OF d True small] obtain r1 where "read_tds_packet r = (Inr (), r1)"
        "delivers True r1 content tail" "length (unread (nr_buf r)) < length (unread (nr_buf r1))" by blast
      with False show ?thesis by (auto simp: do_we_have_enough_data_def D(3))
    next
      case all: False
      then have eq: "length (unread (nr_buf r)) = length content" using D(2) by simp
      have ne: "\<not> end_of_message (nr_buf r)"
        using nt left eq some by (auto simp: value_truncated_by_message_end_def message_cannot_satisfy_def D(3))
      from refill_empty_tail [OF d eq small ne] eq some False show ?thesis
        by (fastforce simp: do_we_have_enough_data_def D(3))
    qed
  qed
  then obtain r1 started1 where
    r1: "(if do_we_have_enough_data threshold (nr_buf r) then (Inr (), r) else read_tds_packet r) = (Inr (), r1)"
      "delivers started1 r1 content tail" "unread (nr_buf r1) = [] \<longrightarrow> started \<and> end_of_message (nr_buf r1)" by blast
  let ?t = "min (length (unread (nr_buf r1))) (min left (max_packet_size (nr_buf r1) - 8))"
  have "bulk_round threshold left r = (Inr ?t, r1)"
    using r1(1) delivers_D(3,4) [OF r1(2)] by (simp add: bulk_round_def rbind_def)
  with r1 left delivers_D(4) [OF r1(2)] show ?thesis
    by (intro exI [of _ ?t] exI [of _ r1] exI [of _ started1]) (auto simp: min_def split: if_splits)
qed

lemma truncated_bulk:
  assumes "delivers (acc \<noteq> []) r content tail" and "length content < n - length acc" and "acc \<noteq> [] \<or> content \<noteq> []"
  shows "past_end (fst (read_bytes_loop n acc e r))"
  using assms
proof (induction "length content" arbitrary: acc r content rule: less_induct)
  case less
  note d = less.prems(1)
  let ?left = "n - length acc" and ?th = "min (max_packet_size (nr_buf r)) (n - length acc)"
  have nz: "?left \<noteq> 0" using less.prems(2) by simp
  show ?case
  proof (cases "value_truncated_by_message_end (acc \<noteq> []) ?left r")
    case True
    with nz show ?thesis by (subst read_bytes_loop.simps) (auto simp: Let_def past_end_def)
  next
    case False
    from truncated_round [OF d less.prems(2) refl False less.prems(3)] obtain t r1 started1 where
      r1: "bulk_round ?th ?left r = (Inr t, r1)" "delivers started1 r1 content tail" "t \<le> length (unread (nr_buf r1))"
        "t = 0 \<longrightarrow> acc \<noteq> [] \<and> end_of_message (nr_buf r1)" by blast
    show ?thesis
    proof (cases "t = 0")
      case True
      with r1 nz False show ?thesis
        by (subst read_bytes_loop.simps) (auto simp: Let_def rbind_def empty_round_def past_end_def)
    next
      case t: False
      from copy_out_delivers [OF r1(2,3)] t obtain r2 where
        r2: "copy_out t r1 = (Inr (take t content), r2)" "delivers True r2 (drop t content) tail" by auto
      let ?acc = "acc @ take t content"
      have le: "t \<le> length content" using r1(3) delivers_D(2) [OF r1(2)] by simp
      then have ne: "?acc \<noteq> []" using t by auto
      have "length (drop t content) < length content" "delivers (?acc \<noteq> []) r2 (drop t content) tail"
        "length (drop t content) < n - length ?acc" "?acc \<noteq> [] \<or> drop t content \<noteq> []"
        using t le r2(2) less.prems(2) ne by simp_all
      from less.hyps [OF this] have "past_end (fst (read_bytes_loop n ?acc e r2))" .
      moreover have "read_bytes_loop n acc e r = read_bytes_loop n ?acc e r2"
        using nz False r1(1) r2(1) t by (subst read_bytes_loop.simps) (simp add: Let_def rbind_def)
      ultimately show ?thesis by simp
    qed
  qed
qed

definition one_packet_reader :: "bytes \<Rightarrow> network_reader" where
  "one_packet_reader payload = \<lparr>nr_buf = rb_new 512, nr_packet_size = 512, nr_stream_open = True,
     nr_incoming = [Arrive ([4, 1] @ to_be_u16 (word_of_nat (8 + length payload))), NotReady, Arrive ([0, 0, 1, 0] @ payload)],
     nr_known_dead = False\<rparr>"

lemma one_packet_delivers:
  assumes "length payload \<le> 504"
  shows "delivers False (one_packet_reader payload) payload []"
proof -
  let ?len = "word_of_nat (8 + length payload) :: u16"
  let ?p = "[4, 1] @ to_be_u16 ?len @ [0, 0, 1, 0] @ payload"
  have u: "unat ?len = 8 + length payload" using assms by (intro unat_of_nat_u16) simp
  have l2: "length (to_be_u16 ?len) = 2" by (rule be16.enc_length)
  have sg: "seg 2 4 ?p = to_be_u16 ?len" using l2 by (simp add: seg_def)
  have len: "length ?p = 8 + length payload" using l2 by simp
  have ok: "packet_ok 512 ?p"
    unfolding packet_ok_def sg be16.dec_enc u len using assms by (simp add: is_eom_def)
  have "drop 8 ?p = payload" using l2 by simp
  moreover have "raw (one_packet_reader payload) = ?p" using l2 by (simp add: raw_def one_packet_reader_def)
  moreover have "is_eom ?p" by (simp add: is_eom_def)
  ultimately show ?thesis
    unfolding delivers_def using ok
    by (intro exI [of _ "[?p]"]) (simp add: queued_def msg_packets_def one_packet_reader_def, simp add: rb_new_def)
qed

text \<open>
  C27. A value that starts inside a message and needs more bytes than the message has left is a
  protocol error, for the scalar readers and for bulk reads of any size: the reader does not go
  back to a socket that will stay silent.
\<close>

theorem truncated_value_is_an_error:
  assumes "delivers started r content tail" and "content \<noteq> []" and "length content < n"
  shows "past_end (fst (read_bytes n r)) \<and> (n \<le> 8 \<longrightarrow> past_end (fst (read_retry n r)))"
proof
  show "past_end (fst (read_bytes n r))"
    unfolding read_bytes_def using assms delivers_weaken by (intro truncated_bulk) auto
  show "n \<le> 8 \<longrightarrow> past_end (fst (read_retry n r))"
    using truncated_refills assms by auto
qed

theorem truncated_value_is_an_error_witness:
  "past_end (fst (read_bytes 4 (one_packet_reader [1, 2]))) \<and> past_end (fst (read_retry 4 (one_packet_reader [1, 2])))"
  using truncated_value_is_an_error [OF one_packet_delivers [of "[1, 2]"], of 4] by simp

section \<open>The non-blocking probe\<close>

lemma stream_poll_ready:
  "stream_poll capacity es = (Some (Inr xs), es') \<Longrightarrow> stream_read capacity es = (Inr xs, es') \<and>
     (xs \<noteq> [] \<longrightarrow> stream_bytes es = xs @ stream_bytes es')"
  by (cases "(capacity, es)" rule: stream_poll.cases)
     (auto simp: take_bytes_def split: prod.splits if_splits)

lemma stream_poll_pending: "stream_poll capacity es = (None, es') \<Longrightarrow> stream_bytes es' = stream_bytes es"
  by (cases "(capacity, es)" rule: stream_poll.cases) (auto split: prod.splits)

text \<open>The step the two loops share: a probe that goes on has read what a blocking read would.\<close>

lemma try_loop_cases:
  assumes lp: "try_packet_loop base n r = (Inr x, r')"
  obtains (got) k where "on_buf (complete_tds_packet_if_available base n) r = (Inr (Some k), r')" "x = Some k"
  | (park) es where "stream_poll (length (working_buffer (nr_buf r)) - (base + n)) (nr_incoming r) = (None, es)"
      "x = None" "r' = r\<lparr>nr_incoming := es, nr_buf := park_partial_packet base n (nr_buf r)\<rparr>"
  | (more) xs es where "on_buf (complete_tds_packet_if_available base n) r = (Inr None, r)" "nr_stream_open r"
      "\<not> length (working_buffer (nr_buf r)) < base + n"
      "stream_poll (length (working_buffer (nr_buf r)) - (base + n)) (nr_incoming r) = (Some (Inr xs), es)" "xs \<noteq> []"
      "try_packet_loop base (n + length xs) (received (base + n) xs es r) = (Inr x, r')"
proof -
  obtain y r1 where c: "on_buf (complete_tds_packet_if_available base n) r = (y, r1)" by fastforce
  note step = lp [unfolded try_packet_loop.simps [of base n r] c]
  show thesis
  proof (cases y)
    case (Inl e)
    with step show ?thesis by simp
  next
    case (Inr o')
    show ?thesis
    proof (cases o')
      case (Some k)
      with step Inr have "x = Some k" "r1 = r'" by auto
      with c Inr Some got show ?thesis by blast
    next
      case None
      have r1: "r1 = r" using c Inr None complete_None by (fastforce elim: on_buf_InrE)
      from step Inr None r1 c park more show ?thesis
        by (auto split: if_splits prod.splits option.splits sum.splits)
    qed
  qed
qed

lemma try_loop_agrees:
  "try_packet_loop base n r = (Inr (Some k), r') \<Longrightarrow> packet_loop base n r = (Inr k, r')"
proof (induction base n r rule: packet_loop.induct)
  case (1 base n r)
  from "1.prems" show ?case
  proof (cases rule: try_loop_cases)
    case got
    then show ?thesis by (subst packet_loop.simps) simp
  next
    case (more xs es)
    note rd = stream_poll_ready [OF more(4), THEN conjunct1]
    from "1.IH" [OF more(1) [symmetric] refl refl _ more(3) rd [symmetric] refl more(5,6)] more(2)
    have "packet_loop base (n + length xs) (received (base + n) xs es r) = (Inr k, r')" by simp
    with more rd show ?thesis by (subst packet_loop.simps) simp
  qed simp
qed

definition parked :: "nat \<Rightarrow> nat \<Rightarrow> network_reader \<Rightarrow> network_reader \<Rightarrow> bool" where
  "parked base n r r' \<longleftrightarrow>
     (\<exists>wb es k. r' = r\<lparr>nr_incoming := es, nr_buf := (nr_buf r)\<lparr>working_buffer := wb, pending_bytes := k, pending_bytes_offset := base\<rparr>\<rparr> \<and>
        take base wb = take base (working_buffer (nr_buf r)) \<and>
        seg base (base + k) wb @ stream_bytes es =
          seg base (base + n) (working_buffer (nr_buf r)) @ stream_bytes (nr_incoming r))"

lemma seg_received:
  assumes "base + n + length xs \<le> length wb"
  shows "seg base (base + (n + length xs)) (overwrite (base + n) xs wb) = seg base (base + n) wb @ xs"
proof -
  have "seg base (base + (n + length xs)) (overwrite (base + n) xs wb) =
      seg base (base + n) (overwrite (base + n) xs wb) @ seg (base + n) (base + n + length xs) (overwrite (base + n) xs wb)"
    by (subst seg_append_seg) (simp_all add: add.assoc)
  also have "\<dots> = seg base (base + n) wb @ xs" using assms by (simp add: slice_simps)
  finally show ?thesis .
qed

lemma try_loop_parks:
  "try_packet_loop base n r = (Inr None, r') \<Longrightarrow> parked base n r r'"
proof (induction base n r rule: try_packet_loop.induct)
  case (1 base n r)
  from "1.prems" show ?case
  proof (cases rule: try_loop_cases)
    case (park es)
    with stream_poll_pending [OF park(1)] show ?thesis
      unfolding parked_def park_partial_packet_def
      by (intro exI [of _ "working_buffer (nr_buf r)"] exI [of _ es] exI [of _ n]) simp
  next
    case (more xs es)
    let ?wb = "working_buffer (nr_buf r)"
    have le: "base + n + length xs \<le> length ?wb" using stream_poll_capacity [OF more(4)] more(3) by simp
    from "1.IH" [OF more(1) [symmetric] refl refl _ more(3) more(4) [symmetric] refl refl more(5,6)] more(2)
    obtain wb es' k where p: "r' = r\<lparr>nr_incoming := es', nr_buf := (nr_buf r)\<lparr>working_buffer := wb, pending_bytes := k, pending_bytes_offset := base\<rparr>\<rparr>"
      "take base wb = take base (overwrite (base + n) xs ?wb)"
      "seg base (base + k) wb @ stream_bytes es' = seg base (base + (n + length xs)) (overwrite (base + n) xs ?wb) @ stream_bytes es"
      by (auto simp: parked_def received_def)
    have "take base (overwrite (base + n) xs ?wb) = take base ?wb"
      using seg_overwrite_before [of base "base + n" ?wb 0 xs] le by simp
    with p seg_received [OF le] stream_poll_ready [OF more(4)] more(5) show ?thesis
      unfolding parked_def by (intro exI [of _ wb] exI [of _ es'] exI [of _ k]) simp
  qed simp
qed

lemma try_get_agrees:
  "try_get_new_tds_packet r = (Inr (Some k), r') \<Longrightarrow> get_new_tds_packet r = (Inr k, r')"
  unfolding try_get_new_tds_packet_def get_new_tds_packet_def Let_def
  by (auto simp: rbind_def split: prod.splits sum.splits dest: try_loop_agrees)

lemma try_get_parks:
  assumes f: "fronted (nr_buf r)" and g: "try_get_new_tds_packet r = (Inr None, r')"
  shows "unread (nr_buf r') = unread (nr_buf r) \<and> raw r' = raw r"
proof -
  let ?b = "nr_buf r"
  let ?base = "buffer_length ?b"
  from move_pending_ok [OF f] obtain wb off where
    mv: "move_pending_packet_bytes ?base ?b = (Inr (pending_bytes ?b), ?b\<lparr>working_buffer := wb, pending_bytes := 0, pending_bytes_offset := off\<rparr>)"
    and wb: "take ?base wb = unread ?b" "seg ?base (?base + pending_bytes ?b) wb = pending ?b" by metis
  let ?r1 = "r\<lparr>nr_buf := ?b\<lparr>working_buffer := wb, pending_bytes := 0, pending_bytes_offset := off\<rparr>\<rparr>"
  from g have "try_packet_loop ?base (pending_bytes ?b) ?r1 = (Inr None, r')"
    by (simp add: try_get_new_tds_packet_def Let_def rbind_def on_buf_def mv)
  from try_loop_parks [OF this] wb f show ?thesis
    unfolding parked_def by (auto simp: unread_def pending_def raw_def fronted_def)
qed

text \<open>
  C26. The non-blocking probe agrees with the blocking read: if it reports a packet, the state is
  the one the blocking read would have reached, and if it reports none, no byte has been lost:
  what was unread is still unread and everything received is still to be framed, in order.
\<close>

theorem probe_agrees_with_read:
  assumes "reader_safe r" and "try_read_tds_packet r = (Inr b, r')"
  shows "if b then read_tds_packet r = (Inr (), r')
         else unread (nr_buf r') = unread (nr_buf r) \<and> raw r' = raw r"
proof -
  let ?prep = "if get_remaining_byte_count (nr_buf r) > 0 then on_buf shift_data_to_front else update_buf (reset_to_length 0)"
  show ?thesis
  proof (cases "end_of_message (nr_buf r) \<or>
      get_remaining_byte_count (nr_buf r) + max_packet_size (nr_buf r) > length (working_buffer (nr_buf r))")
    case True
    then have "try_read_tds_packet r = (Inr False, r)" by (auto simp: try_read_tds_packet_def Let_def)
    with assms(2) show ?thesis by simp
  next
    case False
    have "\<exists>r1. ?prep r = (Inr (), r1) \<and> fronted (nr_buf r1) \<and> unread (nr_buf r1) = unread (nr_buf r) \<and> raw r1 = raw r"
      using shift_ok [of "nr_buf r"] rb_inv_reset [of "nr_buf r"] length_unread [of "nr_buf r"] assms(1)
      by (auto simp: reader_safe_def on_buf_def update_buf_def fronted_def raw_def)
         (auto simp: reset_to_length_def)
    then obtain r1 where r1: "?prep r = (Inr (), r1)" "fronted (nr_buf r1)"
      "unread (nr_buf r1) = unread (nr_buf r)" "raw r1 = raw r" by blast
    from assms(2) False r1(1) obtain x r2 where g: "try_get_new_tds_packet r1 = (Inr x, r2)"
      and k: "(case x of None \<Rightarrow> rret False | Some n \<Rightarrow> rbind (on_buf (remove_header_from_packet n)) (\<lambda>_. rret True)) r2 = (Inr b, r')"
      by (auto simp: try_read_tds_packet_def Let_def elim!: rbind_InrE)
    show ?thesis
    proof (cases x)
      case None
      with k have "\<not> b" "r' = r2" by auto
      with try_get_parks [OF r1(2)] g None r1(3,4) show ?thesis by simp
    next
      case (Some n)
      with k have "b" "on_buf (remove_header_from_packet n) r2 = (Inr (), r')" by (auto elim!: rbind_InrE)
      with try_get_agrees g Some r1(1) show ?thesis
        by (cases "get_remaining_byte_count (nr_buf r) > 0") (simp_all add: read_tds_packet_def rbind_def)
    qed
  qed
qed

definition trickle_reader :: network_reader where
  "trickle_reader = \<lparr>nr_buf = rb_new 512, nr_packet_size = 512, nr_stream_open = True,
     nr_incoming = [Arrive [4, 1, 0, 10], NotReady, Arrive [0, 0, 1, 0, 7, 8]], nr_known_dead = False\<rparr>"

theorem probe_agrees_with_read_witness:
  "\<exists>r'. try_read_tds_packet trickle_reader = (Inr False, r') \<and>
     unread (nr_buf r') = unread (nr_buf trickle_reader) \<and> raw r' = [4, 1, 0, 10, 0, 0, 1, 0, 7, 8]"
proof -
  have s: "reader_safe trickle_reader" by (simp add: trickle_reader_def reader_safe_def) (simp add: rb_new_def)
  have "\<exists>r'. try_read_tds_packet trickle_reader = (Inr False, r')"
    by (simp add: try_read_tds_packet_def trickle_reader_def rb_new_def Let_def get_remaining_byte_count_def
        update_buf_def reset_to_length_def rbind_def try_get_new_tds_packet_def on_buf_def move_pending_packet_bytes_def
        try_packet_loop.simps complete_tds_packet_if_available_def received_def take_bytes_def)
  then obtain r' where r': "try_read_tds_packet trickle_reader = (Inr False, r')" by blast
  with probe_agrees_with_read [OF s r'] show ?thesis by (simp add: raw_def trickle_reader_def)
qed

end
