(* ===== verification/Plp_Buffered.thy ===== *)
theory Plp_Buffered
  imports Plp_Laws Reader_Properties
begin

text \<open>
  The readers of partially length-prefixed values over bytes that are already buffered take the
  same steps as the readers that wait for the transport, and the properties of both.
\<close>

section \<open>Buffered steps are steps of the reader\<close>

text \<open>
  \<open>agrees\<close> relates the outcome of a buffered step, which moved a position in \<open>bs\<close>, to the outcome of
  the step on a transport that supplies \<open>bs @ rest\<close>: an answer is the same answer, with the same
  reader state and the transport at the same place; an error is the same error; an outcome that asks
  for more bytes claims nothing.
\<close>

definition agrees :: "(bytes \<Rightarrow> 's \<Rightarrow> bool) \<Rightarrow> bytes \<Rightarrow> bytes \<Rightarrow>
    'a option tds_result \<times> plp_reader \<times> nat \<Rightarrow> 'a tds_result \<times> plp_reader \<times> 's \<Rightarrow> bool" where
  "agrees supplies bs rest x y =
     (case x of (Inl e, _) \<Rightarrow> fst y = Inl e
      | (Inr None, _) \<Rightarrow> True
      | (Inr (Some v), (p, pos)) \<Rightarrow> plp_ok p \<and> pos \<le> length bs \<and> (\<exists>s. y = (Inr v, (p, s)) \<and> supplies (drop pos bs @ rest) s))"

lemma agrees_simps [simp]:
  "agrees supplies bs rest (Inl e, pp) y \<longleftrightarrow> fst y = Inl e"
  "agrees supplies bs rest (Inr None, pp) y"
  "agrees supplies bs rest (Inr (Some v), pp) y \<longleftrightarrow>
     plp_ok (fst pp) \<and> snd pp \<le> length bs \<and> (\<exists>s. y = (Inr v, (fst pp, s)) \<and> supplies (drop (snd pp) bs @ rest) s)"
  by (auto simp: agrees_def split: prod.splits)

lemma agrees_bind:
  assumes m: "agrees supplies bs rest (m pp) (m' ps)"
    and none: "\<And>pp. f None pp = (Inr None, pp)"
    and some: "\<And>v p pos s. m pp = (Inr (Some v), (p, pos)) \<Longrightarrow> plp_ok p \<Longrightarrow> pos \<le> length bs \<Longrightarrow> supplies (drop pos bs @ rest) s \<Longrightarrow>
      agrees supplies bs rest (f (Some v) (p, pos)) (g v (p, s))"
  shows "agrees supplies bs rest (rbind m f pp) (rbind m' g ps)"
proof -
  obtain r p pos where x: "m pp = (r, (p, pos))" by (cases "m pp") auto
  consider e where "r = Inl e" | "r = Inr None" | v where "r = Inr (Some v)"
    by (metis option.exhaust sum.exhaust)
  then show ?thesis
  proof cases
    case 1
    then show ?thesis using m x by (cases "m' ps") (auto simp: rbind_def)
  next
    case 2
    then show ?thesis using x none by (simp add: rbind_def)
  next
    case 3
    with m x obtain s where "m' ps = (Inr v, (p, s))" "supplies (drop pos bs @ rest) s" "plp_ok p" "pos \<le> length bs" by auto
    then show ?thesis using some [of v p pos s] x 3 by (simp add: rbind_def)
  qed
qed

lemma drop_seg_split: "drop pos bs = seg pos (pos + k) bs @ drop (pos + k) bs"
  by (metis add.commute append_take_drop_id diff_add_inverse drop_drop seg_def)

lemma plp_known_header:
  assumes "n \<le> MAX_PLP_SIZE"
  shows "unat (word_of_nat n :: u64) = n" "\<not> sint (word_of_nat n :: u64) < 0"
    "(word_of_nat n :: u64) \<noteq> SQL_PLP_NULL" "(word_of_nat n :: u64) \<noteq> SQL_PLP_UNKNOWNLEN" "(word_of_nat n :: u64) \<noteq> SQL_PLP_MAXLEN"
proof -
  show u: "unat (word_of_nat n :: u64) = n" using assms by (simp add: MAX_PLP_SIZE_def unat_of_nat)
  show "\<not> sint (word_of_nat n :: u64) < 0"
    using assms by (simp add: MAX_PLP_SIZE_def signed_of_nat signed_take_bit_int_eq_self)
  have "unat SQL_PLP_NULL > MAX_PLP_SIZE" "unat SQL_PLP_UNKNOWNLEN > MAX_PLP_SIZE" "unat SQL_PLP_MAXLEN > MAX_PLP_SIZE"
    by (simp_all add: SQL_PLP_NULL_def SQL_PLP_UNKNOWNLEN_def SQL_PLP_MAXLEN_def MAX_PLP_SIZE_def)
  with u assms show "(word_of_nat n :: u64) \<noteq> SQL_PLP_NULL" "(word_of_nat n :: u64) \<noteq> SQL_PLP_UNKNOWNLEN" "(word_of_nat n :: u64) \<noteq> SQL_PLP_MAXLEN"
    by auto
qed

context packet_source
begin

lemma ensure_agrees:
  assumes "supplies (drop pos bs @ rest) s" "pos \<le> length bs" "length bs < 2 ^ 63" "plp_ok p"
  shows "agrees supplies bs rest (try_ensure_active_buffered_chunk bs (p, pos)) (ensure_active_chunk ops (p, s))"
proof -
  consider "reached_end p" | "\<not> reached_end p" "0 < chunk_remaining p" | "\<not> reached_end p" "chunk_remaining p = 0" "length bs < pos + 4"
    | "\<not> reached_end p" "chunk_remaining p = 0" "pos + 4 \<le> length bs" by force
  then show ?thesis
  proof cases
    case 4
    let ?h = "seg pos (pos + 4) bs"
    have h: "drop pos bs = to_le_u32 (from_le_u32 ?h) @ drop (pos + 4) bs"
      using 4 drop_seg_split [of pos bs 4] by (simp add: le32.enc_dec)
    with assms(1) obtain s' where s': "rd_u32 ops s = (Inr (from_le_u32 ?h), s')" "supplies (drop (pos + 4) bs @ rest) s'"
      using u32 [of "from_le_u32 ?h" "drop (pos + 4) bs @ rest" s] by auto
    obtain r p' where a: "accept_chunk_length (unat (from_le_u32 ?h)) p = (r, p')" by fastforce
    then have "plp_ok p'" using accept_chunk_length_ok [of p] assms(4) 4 by (metis snd_conv)
    then show ?thesis using 4 s' a assms(3)
      by (cases r) (auto simp: try_ensure_active_buffered_chunk_def ensure_active_chunk_def on_plp_def on_src_def rbind_def slice_get_def)
  qed (use assms in \<open>auto simp: try_ensure_active_buffered_chunk_def ensure_active_chunk_def slice_get_def\<close>)
qed

lemma take_agrees:
  assumes "supplies (drop pos bs @ rest) s" "pos \<le> length bs" "length bs < 2 ^ 63" "plp_ok p" "0 < chunk_remaining p" "written < n"
  shows "agrees supplies bs rest (take_from_chunk bs copying n written (p, pos)) (read_from_chunk ops (n - written) (p, s))"
proof -
  define k where "k = min (n - written) (chunk_remaining p)"
  have k: "0 < k" "k \<le> chunk_remaining p" "k \<le> n - written" using assms(5,6) by (auto simp: k_def)
  have o: "pos + k < 2 ^ 64" using assms(2-4) k(2) by (simp add: plp_ok_def MAX_PLP_SIZE_def)
  show ?thesis
  proof (cases "pos + k \<le> length bs")
    case True
    have l: "length (seg pos (pos + k) bs) = k" using True by simp
    with assms(1) drop_seg_split [of pos bs k] obtain s' where s': "rd_bytes ops k s = (Inr (seg pos (pos + k) bs), s')" "supplies (drop (pos + k) bs @ rest) s'"
      using bytes [of "seg pos (pos + k) bs" "drop (pos + k) bs @ rest" s k] by auto
    have "take_from_chunk bs copying n written (p, pos) = (Inr (Some (seg pos (pos + k) bs)), (plp_advance k p, pos + k))"
      using o True k by (auto simp: take_from_chunk_def Let_def k_def [symmetric] slice_get_def)
    moreover have "read_from_chunk ops (n - written) (p, s) = (Inr (seg pos (pos + k) bs), (plp_advance k p, s'))"
      using s'(1) k l by (auto simp: read_from_chunk_def Let_def k_def [symmetric] on_src_def rbind_def)
    ultimately show ?thesis using True s'(2) plp_advance_ok [OF assms(4) k(2)] by auto
  next
    case False
    then show ?thesis using o by (simp add: take_from_chunk_def Let_def k_def [symmetric] slice_get_def)
  qed
qed

lemma loop_agrees:
  assumes l: "length bs < 2 ^ 63"
  shows "supplies (drop pos bs @ rest) s \<Longrightarrow> pos \<le> length bs \<Longrightarrow> plp_ok p \<Longrightarrow>
    agrees supplies bs rest (try_read_buffered_loop bs copying n written (p, pos)) (read_into_loop ops n written (p, s))"
proof (induction "n - length written" arbitrary: written p pos s rule: less_induct)
  case less
  show ?case
  proof (cases "length written < n")
    case True
    have "agrees supplies bs rest
       (rbind (try_ensure_active_buffered_chunk bs)
        (\<lambda>active pp'. if active = None then (Inr None, pp')
          else if active = Some False then (Inr (Some written), pp')
          else rbind (take_from_chunk bs copying n (length written))
            (\<lambda>r pp''. if r = None then (Inr None, pp'')
               else try_read_buffered_loop bs copying n (written @ the r) pp'') pp') (p, pos))
       (rbind (ensure_active_chunk ops)
        (\<lambda>active ps'. if active then rbind (read_from_chunk ops (n - length written)) (\<lambda>bs. read_into_loop ops n (written @ bs)) ps'
          else (Inr written, ps')) (p, s))" (is "agrees _ _ _ (rbind _ ?f _) (rbind _ ?g _)")
    proof (rule agrees_bind [where m = "try_ensure_active_buffered_chunk bs" and m' = "ensure_active_chunk ops"])
      show "agrees supplies bs rest (try_ensure_active_buffered_chunk bs (p, pos)) (ensure_active_chunk ops (p, s))"
        by (rule ensure_agrees [OF less.prems(1,2) l less.prems(3)])
    next
      fix b p' pos' s' assume e: "try_ensure_active_buffered_chunk bs (p, pos) = (Inr (Some b), (p', pos'))"
        and i: "plp_ok p'" "pos' \<le> length bs" "supplies (drop pos' bs @ rest) s'"
      show "agrees supplies bs rest (?f (Some b) (p', pos')) (?g b (p', s'))"
      proof (cases b)
        case b: True
        with e try_ensure_True have c: "0 < chunk_remaining p'" by fastforce
        have "agrees supplies bs rest
           (rbind (take_from_chunk bs copying n (length written))
            (\<lambda>r pp''. if r = None then (Inr None, pp'') else try_read_buffered_loop bs copying n (written @ the r) pp'') (p', pos'))
           (rbind (read_from_chunk ops (n - length written)) (\<lambda>bs. read_into_loop ops n (written @ bs)) (p', s'))"
        proof (rule agrees_bind [where m = "take_from_chunk bs copying n (length written)" and m' = "read_from_chunk ops (n - length written)"])
          show "agrees supplies bs rest (take_from_chunk bs copying n (length written) (p', pos')) (read_from_chunk ops (n - length written) (p', s'))"
            by (rule take_agrees [OF i(3,2) l i(1) c True])
        next
          fix x p'' pos'' s'' assume t: "take_from_chunk bs copying n (length written) (p', pos') = (Inr (Some x), (p'', pos''))"
            and j: "plp_ok p''" "pos'' \<le> length bs" "supplies (drop pos'' bs @ rest) s''"
          have "x \<noteq> []" using take_from_chunk_progress [OF t True] c by simp
          then have "n - length (written @ x) < n - length written" using True by (cases x) auto
          from less.hyps [OF this j(3,2,1)]
          show "agrees supplies bs rest (if Some x = None then (Inr None, (p'', pos'')) else try_read_buffered_loop bs copying n (written @ the (Some x)) (p'', pos''))
              (read_into_loop ops n (written @ x) (p'', s''))" by simp
        qed simp
        with b show ?thesis by simp
      qed (use i in simp)
    qed simp
    then show ?thesis using True by (subst try_read_buffered_loop.simps, subst read_into_loop.simps) simp
  next
    case False
    then show ?thesis using less.prems by (subst try_read_buffered_loop.simps, subst read_into_loop.simps) simp
  qed
qed

lemma inner_agrees:
  assumes l: "length bs < 2 ^ 63" and s: "supplies (bs @ rest) s" and p: "plp_ok p"
  shows "case try_read_buffered_inner bs copying n p of
      (Inl e, _) \<Rightarrow> fst (read_into ops n (p, s)) = Inl e
    | (Inr None, _) \<Rightarrow> True
    | (Inr (Some (used, out)), p') \<Rightarrow> used \<le> length bs \<and> (\<exists>s'. read_into ops n (p, s) = (Inr out, (p', s')) \<and> supplies (drop used bs @ rest) s')"
proof -
  let ?peek = "\<lambda>out. rbind (try_ensure_active_buffered_chunk bs) (\<lambda>active. rret (case active of None \<Rightarrow> None | Some _ \<Rightarrow> Some out))"
  have peek: "agrees supplies bs rest (?peek out (p, pos)) (rbind (ensure_active_chunk ops) (\<lambda>_. rret out) (p, s))"
    if "plp_ok p" "pos \<le> length bs" "supplies (drop pos bs @ rest) s" for p pos s and out :: bytes
    by (rule agrees_bind [where m = "try_ensure_active_buffered_chunk bs" and m' = "ensure_active_chunk ops"])
       (use that l in \<open>auto intro!: ensure_agrees\<close>)
  define x where "x = (if n = 0 then ?peek [] else rbind (try_read_buffered_loop bs copying n [])
              (\<lambda>r pp. case r of None \<Rightarrow> (Inr None, pp)
                | Some written \<Rightarrow> if length written = n \<and> chunk_remaining (fst pp) = 0 \<and> \<not> reached_end (fst pp)
                    then ?peek written pp else (Inr (Some written), pp))) (p, 0)"
  have "agrees supplies bs rest x (read_into ops n (p, s))"
  proof (cases "n = 0")
    case True
    then show ?thesis using peek [of p 0 s] p s by (simp add: x_def read_into_def)
  next
    case False
    have "agrees supplies bs rest x (rbind (read_into_loop ops n [])
        (\<lambda>written ps. if length written = n \<and> chunk_remaining (fst ps) = 0 \<and> \<not> reached_end (fst ps)
          then rbind (ensure_active_chunk ops) (\<lambda>_. rret written) ps else (Inr written, ps)) (p, s))"
      unfolding x_def if_not_P [OF False]
      by (rule agrees_bind [where m = "try_read_buffered_loop bs copying n []" and m' = "read_into_loop ops n []"])
         (use peek loop_agrees [OF l, of 0 rest s p copying n "[]"] p s in auto)
    then show ?thesis using False by (simp add: read_into_def)
  qed
  moreover have "try_read_buffered_inner bs copying n p =
     (case x of (Inl e, pp) \<Rightarrow> (Inl e, fst pp) | (Inr None, pp) \<Rightarrow> (Inr None, fst pp) | (Inr (Some written), pp) \<Rightarrow> (Inr (Some (snd pp, written)), fst pp))"
    unfolding try_read_buffered_inner_def x_def by (rule refl)
  ultimately show ?thesis by (auto simp: agrees_def split: prod.splits sum.splits option.splits)
qed

lemma plp_header_read: "plp_header h = Inr p \<Longrightarrow> yields supplies (to_le_u64 h) (plp_begin ops) p"
  unfolding plp_begin_def by (rule yields_last [OF scalars_yield(6)]) (auto simp: rlift_def fun_eq_iff)

lemma unknown_loop_yields:
  "chunks_ok cs \<Longrightarrow> length buf + length (concat cs) \<le> MAX_PLP_SIZE \<Longrightarrow>
   yields supplies (plp_framed cs) (rbind (rd_u32 ops) (plp_unknown_loop ops buf)) (buf @ concat cs)"
proof (induction cs arbitrary: buf)
  case Nil
  have "plp_unknown_loop ops buf 0 = rret (buf @ concat [])" by (rule ext, subst plp_unknown_loop.simps) simp
  then show ?case unfolding framed_simps by (rule yields_last [OF scalars_yield(3)])
next
  case (Cons c cs)
  let ?w = "word_of_nat (length c) :: u32"
  from Cons.prems have c: "length c \<le> MAX_PLP_CHUNK_SIZE" "0 < ?w" "length buf + length c < 2 ^ 64" "length buf + length c \<le> MAX_PLP_SIZE"
    using chunk_header [of c] by (auto simp: word_gt_0 MAX_PLP_SIZE_def simp flip: unat_gt_0)
  have "plp_unknown_loop ops buf ?w = rbind (rd_bytes ops (length c)) (\<lambda>bs. rbind (if length bs \<noteq> length c
      then rfail (ProtocolError ''PLP chunk read returned fewer bytes than the chunk header declared'') else rret (buf @ bs))
      (\<lambda>buf'. rbind (rd_u32 ops) (plp_unknown_loop ops buf')))"
    using c by (intro ext, subst plp_unknown_loop.simps) (simp add: plp_unknown_chunk_def check_plp_chunk_def chunk_header rlift_def rbind_assoc)
  moreover have "yields supplies (c @ plp_framed cs) \<dots> (buf @ concat (c # cs))"
    by (rule yields_bind [OF strings_yield(1) [OF refl]]) (use Cons.IH [of "buf @ c"] Cons.prems in simp)
  ultimately show ?case unfolding framed_simps by (intro yields_bind [OF scalars_yield(3)]) simp
qed

lemma slice_loop_yields:
  "chunks_ok cs \<Longrightarrow> length out + length (concat cs) = n \<Longrightarrow> n \<le> MAX_PLP_SIZE \<Longrightarrow> length cs < fuel \<Longrightarrow>
   yields supplies (plp_framed cs) (rbind (rd_u32 ops) (plp_slice_loop ops fuel n n out)) (out @ concat cs)"
proof (induction cs arbitrary: out fuel)
  case Nil
  then obtain f where f: "fuel = Suc f" by (cases fuel) auto
  have "plp_slice_loop ops fuel n n out 0 = rret (out @ concat [])" by (rule ext) (use Nil f in simp)
  then show ?case unfolding framed_simps by (rule yields_last [OF scalars_yield(3)])
next
  case (Cons c cs)
  then obtain f where f: "fuel = Suc f" "length cs < f" by (cases fuel) auto
  let ?w = "word_of_nat (length c) :: u32"
  from Cons.prems have c: "length c \<le> MAX_PLP_CHUNK_SIZE" "0 < ?w" "length out + length c < 2 ^ 64" "length out + length c \<le> n"
    using chunk_header [of c] by (auto simp: word_gt_0 MAX_PLP_SIZE_def simp flip: unat_gt_0)
  have "plp_slice_loop ops fuel n n out ?w = rbind (rd_bytes ops (length c)) (\<lambda>bs. rbind (rd_u32 ops) (plp_slice_loop ops f n n (out @ bs)))"
    using c f(1) by (intro ext) (simp add: check_plp_chunk_def chunk_header rlift_def Let_def)
  moreover have "yields supplies (c @ plp_framed cs) \<dots> (out @ concat (c # cs))"
    by (rule yields_bind [OF strings_yield(1) [OF refl]]) (use Cons.IH [of "out @ c" f] Cons.prems f in simp)
  ultimately show ?case unfolding framed_simps by (intro yields_bind [OF scalars_yield(3)]) simp
qed

lemma read_plp_known_yields:
  assumes "chunks_ok cs" "length (concat cs) \<le> MAX_PLP_SIZE"
  shows "yields supplies (to_le_u64 (word_of_nat (length (concat cs))) @ plp_framed cs) (read_plp_bytes ops) (Some (concat cs))"
proof -
  let ?n = "length (concat cs)" and ?h = "word_of_nat (length (concat cs)) :: u64"
  have u: "unat ?h = ?n" "\<not> sint ?h < 0" "?h \<noteq> SQL_PLP_NULL" "?h \<noteq> SQL_PLP_UNKNOWNLEN" using plp_known_header [OF assms(2)] by simp_all
  have "length cs < Suc ?n" using assms(1)
  proof (induction cs)
    case (Cons c cs)
    then show ?case by (cases c) auto
  qed simp
  then have "yields supplies (plp_framed cs) (read_plp_chunks_into_slice ops ?n ?n) (concat cs)"
    using slice_loop_yields [of cs "[]" ?n "Suc ?n"] assms by (simp add: read_plp_chunks_into_slice_def)
  then have "yields supplies (plp_framed cs) (rbind (read_plp_chunks_into_slice ops ?n ?n) (\<lambda>bs. rret (Some bs))) (Some (concat cs))"
    by (rule yields_last) simp
  then show ?thesis unfolding read_plp_bytes_def read_plp_framing_def rbind_assoc
    by (intro yields_bind [OF scalars_yield(6)]) (use u assms(2) in simp)
qed

lemma read_plp_unknown_yields:
  assumes "chunks_ok cs" "length (concat cs) \<le> MAX_PLP_SIZE"
  shows "yields supplies (to_le_u64 SQL_PLP_UNKNOWNLEN @ plp_framed cs) (read_plp_bytes ops) (Some (concat cs))"
proof -
  have "yields supplies (plp_framed cs) (read_plp_chunks_unknown_len ops) (concat cs)"
    using unknown_loop_yields [of cs "[]"] assms by (simp add: read_plp_chunks_unknown_len_def)
  then have "yields supplies (plp_framed cs) (rbind (read_plp_chunks_unknown_len ops) (\<lambda>bs. rret (Some bs))) (Some (concat cs))"
    by (rule yields_last) simp
  then show ?thesis unfolding read_plp_bytes_def read_plp_framing_def rbind_assoc
    by (intro yields_bind [OF scalars_yield(6)]) (simp add: SQL_PLP_UNKNOWNLEN_def SQL_PLP_NULL_def)
qed

lemma read_plp_null_yields: "yields supplies (to_le_u64 SQL_PLP_NULL) (read_plp_bytes ops) None"
  unfolding read_plp_bytes_def read_plp_framing_def rbind_assoc
  by (rule yields_last [OF scalars_yield(6)]) (simp add: fun_eq_iff)

end


section \<open>Reads of any sizes\<close>

text \<open>The abstract value is the bytes not yet handed out; a read takes a prefix of them.\<close>

primrec spec_reads :: "nat list \<Rightarrow> bytes \<Rightarrow> bytes list" where
  "spec_reads [] pay = []"
| "spec_reads (n # ns) pay = take n pay # spec_reads ns (drop n pay)"

primrec plp_reads :: "'s packet_reader_ops \<Rightarrow> nat list \<Rightarrow> (plp_reader \<times> 's, bytes list) action" where
  "plp_reads ops [] = rret []"
| "plp_reads ops (n # ns) = rbind (read_into ops n) (\<lambda>x. rbind (plp_reads ops ns) (\<lambda>xs. rret (x # xs)))"

text \<open>The two headers a server may put before a value.\<close>

definition plp_wire :: "bool \<Rightarrow> bytes list \<Rightarrow> bytes" where
  "plp_wire known cs =
     to_le_u64 (if known then word_of_nat (length (concat cs)) else SQL_PLP_UNKNOWNLEN) @ plp_framed cs"

lemma plp_wire_header:
  assumes "chunks_ok cs" "length (concat cs) \<le> MAX_PLP_SIZE"
  shows "\<exists>p. plp_header (if known then word_of_nat (length (concat cs)) else SQL_PLP_UNKNOWNLEN) = Inr (Some p) \<and>
    plp_rel p (concat cs) (plp_framed cs)"
proof -
  have r: "plp_rel (plp_new len) (concat cs) (plp_framed cs)"
    if "case len of PlpKnown k \<Rightarrow> length (concat cs) = unat k | PlpUnknown \<Rightarrow> True" for len
    using assms that by (auto simp: plp_rel_def plp_new_def intro!: exI [of _ "[]"] exI [of _ cs] split: plp_chunk_read_length.splits)
  show ?thesis
    using plp_known_header [OF assms(2)] r [of PlpUnknown] r [of "PlpKnown (word_of_nat (length (concat cs)))"] assms(2)
    by (cases known) (auto simp: plp_header_def SQL_PLP_UNKNOWNLEN_def SQL_PLP_NULL_def)
qed

context packet_source
begin

lemma plp_reads_holds:
  "plp_holds supplies rest pay ps \<Longrightarrow> \<exists>ps'. plp_reads ops ns ps = (Inr (spec_reads ns pay), ps') \<and> plp_holds supplies rest (drop (sum_list ns) pay) ps'"
proof (induction ns arbitrary: pay ps)
  case (Cons n ns)
  from read_into_holds [OF Cons.prems] obtain ps1 where 1: "read_into ops n ps = (Inr (take n pay), ps1)" "plp_holds supplies rest (drop n pay) ps1" by blast
  from Cons.IH [OF 1(2)] obtain ps2 where "plp_reads ops ns ps1 = (Inr (spec_reads ns (drop n pay)), ps2)"
    "plp_holds supplies rest (drop (sum_list ns) (drop n pay)) ps2" by blast
  with 1(1) show ?case by (auto simp: rbind_def add.commute)
qed simp

lemma plp_reads_refine:
  assumes "chunks_ok cs" "length (concat cs) \<le> MAX_PLP_SIZE" "supplies (plp_wire known cs @ rest) s"
  shows "\<exists>p s1 ps2 p3 s3. plp_begin ops s = (Inr (Some p), s1) \<and> plp_reads ops ns (p, s1) = (Inr (spec_reads ns (concat cs)), ps2)
    \<and> skip_to_end ops ps2 = (Inr (), (p3, s3)) \<and> supplies rest s3"
proof -
  from plp_wire_header [OF assms(1,2)] obtain p where p: "plp_header (if known then word_of_nat (length (concat cs)) else SQL_PLP_UNKNOWNLEN) = Inr (Some p)"
    "plp_rel p (concat cs) (plp_framed cs)" by blast
  from plp_header_read [OF p(1)] assms(3) obtain s1 where s1: "plp_begin ops s = (Inr (Some p), s1)" "supplies (plp_framed cs @ rest) s1"
    by (auto simp: yields_def plp_wire_def)
  with p(2) have "plp_holds supplies rest (concat cs) (p, s1)" by (auto simp: plp_holds_def)
  from plp_reads_holds [OF this, of ns] obtain ps2 where ps2: "plp_reads ops ns (p, s1) = (Inr (spec_reads ns (concat cs)), ps2)"
    "plp_holds supplies rest (drop (sum_list ns) (concat cs)) ps2" by blast
  from skip_to_end_holds [OF this(2)] s1(1) ps2(1) show ?thesis by blast
qed

end

lemma one_packet_supplies: "length c \<le> 504 \<Longrightarrow> net_supplies [] c (one_packet_reader c)"
  using one_packet_delivers by (auto simp: net_supplies_def)




lemma lying_reader_begins:
  "\<exists>p r1. plp_begin network_ops (one_packet_reader (to_le_u64 4 @ [9, 0, 0, 0])) = (Inr (Some p), r1)"
proof -
  have "net_supplies [] (to_le_u64 4 @ [9, 0, 0, 0]) (one_packet_reader (to_le_u64 4 @ [9, 0, 0, 0]))"
    by (intro one_packet_supplies) (simp add: codec_simps)
  moreover have "plp_header 4 = Inr (Some (plp_new (PlpKnown 4)))" by (simp add: plp_header_def SQL_PLP_NULL_def SQL_PLP_UNKNOWNLEN_def SQL_PLP_MAXLEN_def MAX_PLP_SIZE_def)
  ultimately show ?thesis using net.plp_header_read [of 4 _ "[]"] by (fastforce simp: yields_def)
qed


text \<open>
  C24. Reading a value from bytes that are already buffered is reading it from the transport. When
  \<^verbatim>\<open>try_read_buffered\<close> answers from a buffered prefix of what the transport will deliver, \<^verbatim>\<open>read_into\<close> on
  that transport returns the same bytes, leaves the reader in the same state and consumes exactly
  the number of bytes the buffered read reports; when it fails, \<^verbatim>\<open>read_into\<close> fails with the same error.
\<close>

theorem plp_buffered_agrees:
  assumes "net_supplies tail (bs @ rest) r" and "plp_ok p" and "length bs < 2 ^ 63"
  shows "case try_read_buffered bs n p of
      (Inl e, p') \<Rightarrow> p' = p \<and> fst (read_into network_ops n (p, r)) = Inl e
    | (Inr None, p') \<Rightarrow> True
    | (Inr (Some (used, out)), p') \<Rightarrow> used \<le> length bs \<and>
        (\<exists>r'. read_into network_ops n (p, r) = (Inr out, (p', r')) \<and> net_supplies tail (drop used bs @ rest) r')"
proof -
  have a: "case try_read_buffered_inner bs c n p of (Inl e, _) \<Rightarrow> fst (read_into network_ops n (p, r)) = Inl e | (Inr None, _) \<Rightarrow> True
    | (Inr (Some (used, out)), p') \<Rightarrow> used \<le> length bs \<and>
        (\<exists>r'. read_into network_ops n (p, r) = (Inr out, (p', r')) \<and> net_supplies tail (drop used bs @ rest) r')" for c
    by (rule net.inner_agrees [OF assms(3,1,2)])
  show ?thesis using a [of False] a [of True] unfolding try_read_buffered_def
    by (cases "try_read_buffered_inner bs False n p"; cases "try_read_buffered_inner bs True n p")
       (auto split: sum.splits option.splits)
qed

theorem plp_buffered_agrees_witness:
  "\<exists>r'. read_into network_ops 2 (plp_new PlpUnknown, one_packet_reader ([2, 0, 0, 0, 5, 6, 0, 0, 0, 0] @ [7])) =
      (Inr [5, 6], (\<lparr>plp_length = PlpUnknown, chunk_remaining = 0, reached_end = True, total_read = 2\<rparr>, r'))
    \<and> net_supplies [] [7] r'"
proof -
  let ?bs = "[2, 0, 0, 0, 5, 6, 0, 0, 0, 0] :: bytes"
  have e1: "try_ensure_active_buffered_chunk ?bs (plp_new PlpUnknown, 0) =
      (Inr (Some True), (\<lparr>plp_length = PlpUnknown, chunk_remaining = 2, reached_end = False, total_read = 0\<rparr>, 4))"
    by (simp add: try_ensure_active_buffered_chunk_def plp_new_def slice_get_def seg_def from_le_u32_def on_plp_def
        accept_chunk_length_def over_declared_def MAX_PLP_CHUNK_SIZE_def MAX_PLP_SIZE_def rbind_def)
  have e2: "take_from_chunk ?bs c 2 0 (\<lparr>plp_length = PlpUnknown, chunk_remaining = 2, reached_end = False, total_read = 0\<rparr>, 4) =
      (Inr (Some [5, 6]), (\<lparr>plp_length = PlpUnknown, chunk_remaining = 0, reached_end = False, total_read = 2\<rparr>, 6))" for c
    by (simp add: take_from_chunk_def slice_get_def seg_def plp_advance_def)
  have e3: "try_ensure_active_buffered_chunk ?bs (\<lparr>plp_length = PlpUnknown, chunk_remaining = 0, reached_end = False, total_read = 2\<rparr>, 6) =
      (Inr (Some False), (\<lparr>plp_length = PlpUnknown, chunk_remaining = 0, reached_end = True, total_read = 2\<rparr>, 10))"
    by (simp add: try_ensure_active_buffered_chunk_def slice_get_def seg_def from_le_u32_def on_plp_def
        accept_chunk_length_def short_of_declared_def rbind_def)
  have "try_read_buffered_inner ?bs c 2 (plp_new PlpUnknown) =
     (Inr (Some (10, [5, 6])), \<lparr>plp_length = PlpUnknown, chunk_remaining = 0, reached_end = True, total_read = 2\<rparr>)" for c
    using e1 e2 [of c] e3 by (simp add: try_read_buffered_inner_def try_read_buffered_loop.simps rbind_def)
  then have "try_read_buffered ?bs 2 (plp_new PlpUnknown) =
     (Inr (Some (10, [5, 6])), \<lparr>plp_length = PlpUnknown, chunk_remaining = 0, reached_end = True, total_read = 2\<rparr>)"
    by (simp add: try_read_buffered_def)
  with plp_buffered_agrees [OF one_packet_supplies [of "?bs @ [7]"] plp_ok_new, of PlpUnknown 2] show ?thesis by simp
qed

end
