(* ===== verification/Decimal_Parts.thy ===== *)
theory Decimal_Parts
  imports Tds_Prelude
begin

text \<open>
  The \<^verbatim>\<open>decimal\<close>/\<^verbatim>\<open>numeric\<close> value (\<^verbatim>\<open>DecimalParts\<close> in \<^verbatim>\<open>mssql-tds/src/datatypes/decoder.rs\<close>): its
  128-bit magnitude in two halves, the 32-bit words of the wire, and the allocation-free printer
  \<^verbatim>\<open>format_into\<close> with its limb arithmetic and fixed buffer. The parser from text goes through the
  bigdecimal crate and the conversions to and from floating point through the machine's floats;
  neither is modelled.
\<close>

unbundle bit_operations_syntax

type_synonym u128 = "128 word"

section \<open>The value\<close>

record decimal_parts =
  dp_is_positive :: bool
  dp_scale :: u8
  dp_precision :: u8
  dp_magnitude_lo :: u64
  dp_magnitude_hi :: u64

definition decimal_new :: "bool \<Rightarrow> u8 \<Rightarrow> u8 \<Rightarrow> u128 \<Rightarrow> decimal_parts" where
  "decimal_new is_positive precision scale magnitude =
     \<lparr>dp_is_positive = is_positive, dp_scale = scale, dp_precision = precision,
      dp_magnitude_lo = ucast magnitude, dp_magnitude_hi = ucast (drop_bit 64 magnitude)\<rparr>"

definition magnitude :: "decimal_parts \<Rightarrow> u128" where
  "magnitude d = ucast (dp_magnitude_lo d) OR push_bit 64 (ucast (dp_magnitude_hi d))"

definition DECIMAL_STR_LEN :: nat where "DECIMAL_STR_LEN = 48"
definition MAX_DECIMAL_INT_PARTS :: nat where "MAX_DECIMAL_INT_PARTS = 4"
definition MAX_DECIMAL_PRECISION :: u8 where "MAX_DECIMAL_PRECISION = 38"
definition DECIMAL_MAGNITUDE_BYTES :: nat where "DECIMAL_MAGNITUDE_BYTES = MAX_DECIMAL_INT_PARTS * 4"

definition clamped_scale :: "decimal_parts \<Rightarrow> nat" where
  "clamped_scale d = min (unat (dp_scale d)) (DECIMAL_STR_LEN - 3)"

definition decimal_metadata_is_valid :: "u8 \<Rightarrow> u8 \<Rightarrow> bool" where
  "decimal_metadata_is_valid precision scale \<longleftrightarrow> precision > 0 \<and> precision \<le> MAX_DECIMAL_PRECISION \<and> scale \<le> precision"

definition decimal_from_i64 :: "u64 \<Rightarrow> u8 \<Rightarrow> u8 \<Rightarrow> decimal_parts tds_result" where
  "decimal_from_i64 v precision scale =
     (let m = nat \<bar>sint v\<bar> * 10 ^ unat scale in
      if 10 ^ unat scale < (2 ^ 128 :: nat) \<and> m < 2 ^ 128
      then Inr (decimal_new (0 \<le> sint v) precision scale (word_of_nat m))
      else Inl (TypeConversionError ''Decimal value scaled does not fit in a 128-bit magnitude''))"


section \<open>Words\<close>

definition decimal_word :: "decimal_parts \<Rightarrow> nat \<Rightarrow> u32" where
  "decimal_word d i = (if MAX_DECIMAL_INT_PARTS \<le> i then 0 else ucast (drop_bit (i * 32) (magnitude d)))"

text \<open>The position of the highest bit, \<^verbatim>\<open>128 - leading_zeros\<close>.\<close>

fun nat_bits :: "nat \<Rightarrow> nat" where
  "nat_bits n = (if n = 0 then 0 else Suc (nat_bits (n div 2)))"

declare nat_bits.simps [simp del]

definition word_count :: "decimal_parts \<Rightarrow> nat" where
  "word_count d = max ((nat_bits (unat (magnitude d)) + 31) div 32) 1"

fun or_words :: "nat \<Rightarrow> u32 list \<Rightarrow> u128 \<Rightarrow> u128" where
  "or_words i [] acc = acc"
| "or_words i (w # ws) acc = or_words (i + 1) ws (acc OR push_bit (i * 32) (ucast w))"

definition from_words :: "bool \<Rightarrow> u8 \<Rightarrow> u8 \<Rightarrow> u32 list \<Rightarrow> decimal_parts" where
  "from_words is_positive precision scale ws =
     decimal_new is_positive precision scale (or_words 0 (take MAX_DECIMAL_INT_PARTS ws) 0)"

definition try_from_words :: "bool \<Rightarrow> u8 \<Rightarrow> u8 \<Rightarrow> u32 list \<Rightarrow> decimal_parts option" where
  "try_from_words is_positive precision scale ws =
     (if list_all (\<lambda>w. w = 0) (drop MAX_DECIMAL_INT_PARTS ws) then Some (from_words is_positive precision scale ws) else None)"


section \<open>Printing\<close>

definition LIMB :: nat where "LIMB = 10000000000000000000"
definition LIMB_DIGITS :: nat where "LIMB_DIGITS = 19"

definition limbs_of :: "nat \<Rightarrow> nat list" where
  "limbs_of m =
     (if m \<le> 2 ^ 64 - 1 then [m]
      else let rest = m div LIMB in
        if rest \<le> 2 ^ 64 - 1 then [m mod LIMB, rest]
        else [m mod LIMB, rest mod LIMB, rest div LIMB])"

text \<open>
  The buffer is filled from its end. \<open>acc\<close> is the part written so far; moving the position below
  zero is a panic. One call of the loop emits one digit, so the loop ends with the buffer.
\<close>

definition put_front :: "char \<Rightarrow> string \<Rightarrow> string tds_result" where
  "put_front c acc = (if DECIMAL_STR_LEN \<le> length acc then Inl Panic else Inr (c # acc))"

definition emit_digit :: "nat \<Rightarrow> nat \<Rightarrow> nat \<Rightarrow> string \<Rightarrow> string tds_result" where
  "emit_digit scale emitted current acc =
     (case (if scale > 0 \<and> emitted = scale then put_front CHR ''.'' acc else Inr acc) of
        Inl e \<Rightarrow> Inl e
      | Inr acc' \<Rightarrow> put_front (digit_char (current mod 10)) acc')"

lemma emit_digit_grows: "emit_digit scale emitted current acc = Inr acc' \<Longrightarrow> length acc < length acc' \<and> length acc' \<le> DECIMAL_STR_LEN"
  by (auto simp: emit_digit_def put_front_def split: if_splits sum.splits)

function format_loop :: "nat \<Rightarrow> nat list \<Rightarrow> nat \<Rightarrow> nat \<Rightarrow> nat \<Rightarrow> nat \<Rightarrow> string \<Rightarrow> string tds_result" where
  "format_loop scale limbs limb taken current emitted acc =
     (case emit_digit scale emitted current acc of
        Inl e \<Rightarrow> Inl e
      | Inr acc' \<Rightarrow>
          (let next = (taken + 1 = LIMB_DIGITS \<and> limb + 1 < length limbs);
               limb' = (if next then limb + 1 else limb);
               current' = (if next then limbs ! (limb + 1) else current div 10);
               taken' = (if next then 0 else taken + 1)
           in if limb' + 1 = length limbs \<and> current' = 0 \<and> emitted + 1 > scale then Inr acc'
              else format_loop scale limbs limb' taken' current' (emitted + 1) acc'))"
  by pat_completeness auto

termination
proof (relation "measure (\<lambda>(_, _, _, _, _, _, acc). DECIMAL_STR_LEN - length acc)", goal_cases)
  case (2 scale limbs limb taken current emitted acc acc' nxt limb' current' taken')
  from emit_digit_grows [OF 2(1)] show ?case by (simp add: diff_less_mono2)
qed simp

declare format_loop.simps [simp del]

definition format_into :: "decimal_parts \<Rightarrow> string tds_result" where
  "format_into d =
     (let limbs = limbs_of (unat (magnitude d)) in
      case format_loop (clamped_scale d) limbs 0 0 (limbs ! 0) 0 [] of
        Inl e \<Rightarrow> Inl e
      | Inr acc \<Rightarrow> if dp_is_positive d then Inr acc else put_front CHR ''-'' acc)"


section \<open>Laws of the value\<close>

lemma magnitude_new [simp]: "magnitude (decimal_new p pr sc m) = m"
  by (rule bit_word_eqI) (auto simp: magnitude_def decimal_new_def bit_simps dest: bit_imp_le_length)

lemma decimal_new_fields [simp]:
  "dp_is_positive (decimal_new p pr sc m) = p" "dp_precision (decimal_new p pr sc m) = pr" "dp_scale (decimal_new p pr sc m) = sc"
  by (simp_all add: decimal_new_def)

lemma decimal_eqI:
  "magnitude d = magnitude d' \<Longrightarrow> dp_is_positive d = dp_is_positive d' \<Longrightarrow> dp_precision d = dp_precision d' \<Longrightarrow>
   dp_scale d = dp_scale d' \<Longrightarrow> d = d'"
proof -
  have lo: "dp_magnitude_lo d = ucast (magnitude d)" for d :: decimal_parts
    by (rule bit_word_eqI) (auto simp: magnitude_def bit_simps dest: bit_imp_le_length)
  have hi: "dp_magnitude_hi d = ucast (drop_bit 64 (magnitude d))" for d :: decimal_parts
    by (rule bit_word_eqI) (auto simp: magnitude_def bit_simps dest: bit_imp_le_length)
  assume "magnitude d = magnitude d'" "dp_is_positive d = dp_is_positive d'" "dp_precision d = dp_precision d'" "dp_scale d = dp_scale d'"
  then show ?thesis by (intro decimal_parts.equality) (simp_all add: lo hi)
qed

lemma nat_bits_bound: "n < 2 ^ nat_bits n"
proof (induction n rule: nat_bits.induct)
  case (1 n)
  then have "n \<noteq> 0 \<Longrightarrow> n < 2 * 2 ^ nat_bits (n div 2)" by linarith
  then show ?case by (subst nat_bits.simps) simp
qed

lemma nat_bits_le: "n < 2 ^ k \<Longrightarrow> nat_bits n \<le> k"
proof (induction n arbitrary: k rule: nat_bits.induct)
  case (1 n)
  show ?case
  proof (cases "n = 0")
    case False
    with 1(2) obtain j where k: "k = Suc j" by (cases k) auto
    with 1(2) have "n div 2 < 2 ^ j" by auto
    from 1(1) [OF False this] k False show ?thesis by (subst nat_bits.simps) simp
  qed (simp add: nat_bits.simps)
qed

lemma bit_or_words:
  "bit (or_words i ws acc) k \<longleftrightarrow> bit acc k \<or> (k < 128 \<and> i \<le> k div 32 \<and> k div 32 < i + length ws \<and> bit (ws ! (k div 32 - i)) (k mod 32))"
proof (induction ws arbitrary: i acc)
  case (Cons w ws)
  have c: "ws ! (k div 32 - (i + 1)) = (w # ws) ! (k div 32 - i)" if "i + 1 \<le> k div 32"
    using that by (cases "k div 32 - i") (auto intro: arg_cong [where f = "nth ws"])
  have h: "bit (push_bit (i * 32) (ucast w :: u128)) k \<longleftrightarrow> k < 128 \<and> i * 32 \<le> k \<and> bit w (k - i * 32)"
    by (auto simp: bit_simps)
  have e: "k mod 32 = k - i * 32" if "k div 32 = i" using that by (simp add: minus_div_mult_eq_mod [symmetric])
  have l: "bit w (k - i * 32) \<Longrightarrow> k - i * 32 < 32" using bit_imp_le_length [of w "k - i * 32"] by simp
  have w: "k < 128 \<and> i * 32 \<le> k \<and> bit w (k - i * 32) \<longleftrightarrow> k < 128 \<and> k div 32 = i \<and> bit w (k mod 32)"
    using e l by (auto simp: div_nat_eqI)
  show ?case unfolding or_words.simps Cons.IH bit_or_iff h w using c by (cases "k div 32 = i") auto
qed auto

lemma word_count_covers: "bit (magnitude d) k \<Longrightarrow> k div 32 < word_count d"
proof -
  assume b: "bit (magnitude d) k"
  let ?m = "unat (magnitude d)"
  have "bit ?m k" using b by (simp add: bit_unsigned_iff)
  then have "\<not> ?m < 2 ^ k" by (auto simp: bit_iff_odd)
  then have "k < nat_bits ?m" using nat_bits_bound [of ?m] by (meson leI less_le_trans one_le_numeral power_increasing)
  then show ?thesis by (simp add: word_count_def less_max_iff_disj)
qed

lemma word_count_le: "word_count d \<le> MAX_DECIMAL_INT_PARTS"
proof -
  have "unat (magnitude d) < 2 ^ 128" using unsigned_less [of "magnitude d"] by simp
  then have "nat_bits (unat (magnitude d)) \<le> 128" by (rule nat_bits_le)
  then show ?thesis by (simp add: word_count_def MAX_DECIMAL_INT_PARTS_def)
qed

text \<open>
  The words a decimal is written with rebuild it: taking the first \<^verbatim>\<open>word_count\<close> 32-bit words of
  the magnitude and recombining them gives back the same value, sign, precision and scale, and at
  least one and at most four words are needed.
\<close>

theorem decimal_words_roundtrip:
  "try_from_words (dp_is_positive d) (dp_precision d) (dp_scale d) (map (decimal_word d) [0..<word_count d]) = Some d
   \<and> 1 \<le> word_count d \<and> word_count d \<le> 4"
proof -
  let ?ws = "map (decimal_word d) [0..<word_count d]"
  have b: "bit (decimal_word d i) j \<longleftrightarrow> i < 4 \<and> j < 32 \<and> bit (magnitude d) (i * 32 + j)" for i j
    by (simp add: decimal_word_def bit_simps MAX_DECIMAL_INT_PARTS_def)
  have "or_words 0 ?ws 0 = magnitude d"
  proof (rule bit_word_eqI)
    fix k assume "k < LENGTH(128)"
    then have k: "k < 128" by simp
    then have "k div 32 < 4" by linarith
    then show "bit (or_words 0 ?ws 0) k = bit (magnitude d) k"
      using k word_count_covers [of d k] by (auto simp: bit_or_words b)
  qed
  then show ?thesis
    using word_count_le [of d]
    by (auto simp: try_from_words_def from_words_def MAX_DECIMAL_INT_PARTS_def word_count_def intro!: decimal_eqI)
qed


section \<open>Printing agrees with positional notation\<close>

text \<open>The text a reader expects: the digits of the magnitude, padded with zeros to one more than the
  scale, with the point before the last \<open>scale\<close> of them.\<close>

definition decimal_text :: "bool \<Rightarrow> nat \<Rightarrow> nat \<Rightarrow> string" where
  "decimal_text is_positive scale m =
     (let ds = replicate (Suc scale - length (show_nat m)) CHR ''0'' @ show_nat m; k = length ds - scale in
      (if is_positive then [] else ''-'') @ (if scale = 0 then ds else take k ds @ ''.'' @ drop k ds))"

definition dig :: "nat \<Rightarrow> nat \<Rightarrow> char" where
  "dig m k = digit_char (m div 10 ^ k mod 10)"

definition written :: "nat \<Rightarrow> nat \<Rightarrow> nat \<Rightarrow> string" where
  "written m scale e =
     (if scale = 0 \<or> e \<le> scale then map (dig m) (rev [0..<e])
      else map (dig m) (rev [scale..<e]) @ CHR ''.'' # map (dig m) (rev [0..<scale]))"

definition digits_needed :: "nat \<Rightarrow> nat \<Rightarrow> nat" where
  "digits_needed m scale = max (length (show_nat m)) (Suc scale)"

lemma length_written: "length (written m scale e) = e + (if 0 < scale \<and> scale < e then 1 else 0)"
  by (auto simp: written_def)

lemma written_0 [simp]: "written m scale 0 = []" by (simp add: written_def)

lemma emit_digit_written:
  assumes "current mod 10 = m div 10 ^ e mod 10" "Suc e + (if 0 < scale \<and> scale < Suc e then 1 else 0) \<le> DECIMAL_STR_LEN"
  shows "emit_digit scale e current (written m scale e) = Inr (written m scale (Suc e))"
proof -
  have s: "written m scale (Suc e) =
      dig m e # (if 0 < scale \<and> e = scale then CHR ''.'' # written m scale e else written m scale e)"
    by (auto simp: written_def less_Suc_eq_le)
  show ?thesis unfolding s using assms
    by (auto simp: emit_digit_def put_front_def length_written dig_def split: if_splits)
qed

lemma show_nat_nonempty: "0 < length (show_nat m)"
  by (subst show_nat.simps) simp

lemma digits_done: "0 < e \<Longrightarrow> m div 10 ^ e = 0 \<longleftrightarrow> length (show_nat m) \<le> e"
proof (induction m arbitrary: e rule: show_nat.induct)
  case (1 m)
  then obtain j where e: "e = Suc j" by (cases e) auto
  show ?case
  proof (cases "m < 10")
    case True
    then have "m < 10 ^ e" using e by (simp add: less_le_trans [of m 10])
    with True e show ?thesis by (subst show_nat.simps) simp
  next
    case False
    have "m div 10 ^ e = m div 10 div 10 ^ j" using e by (simp add: div_mult2_eq)
    moreover have "m div 10 \<noteq> 0" using False by simp
    ultimately show ?thesis
      using 1(1) [OF False, of j] e False show_nat_nonempty [of "m div 10"] by (cases j; subst show_nat.simps; simp)
  qed
qed

lemma show_nat_digits: "show_nat m = map (dig m) (rev [0..<length (show_nat m)])"
proof (induction m rule: show_nat.induct)
  case (1 m)
  show ?case
  proof (cases "m < 10")
    case True
    then show ?thesis by (subst (1 2) show_nat.simps) (simp add: dig_def)
  next
    case False
    have d: "dig (m div 10) k = dig m (Suc k)" for k by (simp add: dig_def div_mult2_eq)
    have "map (dig m) (rev [0..<Suc n]) = map (dig (m div 10)) (rev [0..<n]) @ [dig m 0]" for n
      unfolding d by (simp only: map_Suc_upt [symmetric] upt_conv_Cons [OF zero_less_Suc] rev.simps rev_map map_append map_map o_def list.map)
    moreover have "dig m 0 = digit_char (m mod 10)" by (simp add: dig_def)
    ultimately show ?thesis using 1 [OF False] False by (subst (1 2) show_nat.simps) (simp del: upt_Suc)
  qed
qed

definition at_digit :: "nat \<Rightarrow> nat list \<Rightarrow> nat \<Rightarrow> nat \<Rightarrow> nat \<Rightarrow> nat \<Rightarrow> bool" where
  "at_digit m limbs limb taken current e \<longleftrightarrow>
     limb < length limbs \<and>
     (if limb + 1 = length limbs then current = m div 10 ^ e
      else taken < LIMB_DIGITS \<and> e = limb * LIMB_DIGITS + taken
        \<and> current = m div 10 ^ e mod 10 ^ (LIMB_DIGITS - taken))"

definition limbs_ok :: "nat \<Rightarrow> nat list \<Rightarrow> bool" where
  "limbs_ok m limbs \<longleftrightarrow> limbs \<noteq> [] \<and> m div 10 ^ ((length limbs - 1) * LIMB_DIGITS) = last limbs \<and> (1 < length limbs \<longrightarrow> 0 < last limbs)
     \<and> (\<forall>j. j + 1 < length limbs \<longrightarrow> limbs ! j = m div 10 ^ (j * LIMB_DIGITS) mod LIMB)"

lemma LIMB_power: "LIMB = 10 ^ LIMB_DIGITS" by (simp add: LIMB_def LIMB_DIGITS_def)

lemma limbs_of_ok: "limbs_ok m (limbs_of m)"
proof -
  have m: "(0::nat) < LIMB" and p: "10 ^ 38 = LIMB * LIMB" by (simp_all add: LIMB_def)
  show ?thesis
    by (auto simp: limbs_of_def limbs_ok_def Let_def LIMB_DIGITS_def LIMB_def less_Suc_eq nth_Cons' div_mult2_eq [symmetric])
qed

lemma at_digit_start: "limbs_ok m limbs \<Longrightarrow> at_digit m limbs 0 0 (limbs ! 0) 0"
  by (cases limbs) (auto simp: limbs_ok_def at_digit_def LIMB_power LIMB_DIGITS_def)

lemma at_digit_current: "at_digit m limbs limb taken current e \<Longrightarrow> current mod 10 = m div 10 ^ e mod 10"
  by (auto simp: at_digit_def mod_mod_cancel split: if_splits)

lemma at_digit_next:
  assumes "limbs_ok m limbs" "at_digit m limbs limb taken current e" "taken + 1 = LIMB_DIGITS" "limb + 1 < length limbs"
  shows "at_digit m limbs (limb + 1) 0 (limbs ! (limb + 1)) (Suc e)"
proof -
  from assms have e: "Suc e = (limb + 1) * LIMB_DIGITS" by (auto simp: at_digit_def)
  from assms have "length limbs = Suc (limb + 1) \<Longrightarrow> limbs ! (limb + 1) = m div 10 ^ Suc e"
    unfolding e by (auto simp: limbs_ok_def last_conv_nth)
  with assms show ?thesis
    unfolding e at_digit_def by (auto simp: limbs_ok_def LIMB_power LIMB_DIGITS_def)
qed

lemma next_digit: "m div 10 ^ e div 10 = m div 10 ^ Suc e" for m :: nat
  by (simp only: div_mult2_eq [symmetric] power_Suc2)

lemma at_digit_stay:
  assumes "at_digit m limbs limb taken current e" "\<not> (taken + 1 = LIMB_DIGITS \<and> limb + 1 < length limbs)"
  shows "at_digit m limbs limb (taken + 1) (current div 10) (Suc e)"
proof (cases "limb + 1 = length limbs")
  case True
  with assms show ?thesis by (auto simp: at_digit_def next_digit simp del: power_Suc)
next
  case False
  with assms have t: "taken + 1 < LIMB_DIGITS" by (auto simp: at_digit_def)
  then obtain j where j: "LIMB_DIGITS - taken = Suc j" "LIMB_DIGITS - (taken + 1) = j" by (metis Suc_diff_Suc Suc_eq_plus1 Suc_lessD)
  have "x mod 10 ^ Suc j div 10 = x div 10 mod 10 ^ j" for x :: nat by (simp add: mod_mult2_eq)
  with False t j assms(1) show ?thesis by (auto simp: at_digit_def next_digit simp del: power_Suc)
qed

lemma at_digit_done:
  assumes "limbs_ok m limbs" "at_digit m limbs limb taken current e" "0 < e"
  shows "limb + 1 = length limbs \<and> current = 0 \<longleftrightarrow> length (show_nat m) \<le> e"
proof (cases "limb + 1 = length limbs")
  case True
  with assms(2,3) show ?thesis by (simp add: at_digit_def digits_done)
next
  case False
  with assms(1,2) have l: "0 < m div 10 ^ ((length limbs - 1) * LIMB_DIGITS)" "e \<le> (limb + 1) * LIMB_DIGITS" "limb + 1 \<le> length limbs - 1"
    by (auto simp: limbs_ok_def at_digit_def)
  from l(2,3) have "e \<le> (length limbs - 1) * LIMB_DIGITS" by (meson le_trans mult_le_mono1)
  then have "(10::nat) ^ e \<le> 10 ^ ((length limbs - 1) * LIMB_DIGITS)" by (simp add: power_increasing)
  moreover have "10 ^ ((length limbs - 1) * LIMB_DIGITS) \<le> m" using l(1) unfolding div_greater_zero_iff by blast
  ultimately have "10 ^ e \<le> m" by (rule order_trans)
  then have "m div 10 ^ e \<noteq> 0" by (simp add: div_eq_0_iff)
  with False assms(3) show ?thesis by (simp add: digits_done)
qed

lemma format_loop_written:
  assumes ok: "limbs_ok m limbs" and fit: "digits_needed m scale + (if 0 < scale then 1 else 0) \<le> DECIMAL_STR_LEN"
  shows "at_digit m limbs limb taken current e \<Longrightarrow> e < digits_needed m scale \<Longrightarrow>
    format_loop scale limbs limb taken current e (written m scale e) = Inr (written m scale (digits_needed m scale))"
proof (induction "digits_needed m scale - e" arbitrary: limb taken current e rule: less_induct)
  case less
  let ?next = "taken + 1 = LIMB_DIGITS \<and> limb + 1 < length limbs"
  have d: "emit_digit scale e current (written m scale e) = Inr (written m scale (Suc e))"
    using less.prems fit by (intro emit_digit_written at_digit_current) auto
  obtain limb' taken' current' where n:
    "limb' = (if ?next then limb + 1 else limb)" "taken' = (if ?next then 0 else taken + 1)"
    "current' = (if ?next then limbs ! (limb + 1) else current div 10)" by blast
  have a: "at_digit m limbs limb' taken' current' (Suc e)"
    using at_digit_next [OF ok less.prems(1)] at_digit_stay [OF less.prems(1)] by (simp add: n)
  have s: "limb' + 1 = length limbs \<and> current' = 0 \<and> e + 1 > scale \<longleftrightarrow> digits_needed m scale \<le> Suc e"
    using at_digit_done [OF ok a] by (auto simp: digits_needed_def)
  have "format_loop scale limbs limb taken current e (written m scale e) =
      (if digits_needed m scale \<le> Suc e then Inr (written m scale (Suc e))
       else format_loop scale limbs limb' taken' current' (e + 1) (written m scale (Suc e)))"
    by (subst format_loop.simps) (simp only: d sum.case Let_def n [symmetric] s)
  with less.hyps [OF _ a] less.prems(2) show ?case
    by (cases "digits_needed m scale \<le> Suc e") (simp_all add: le_Suc_eq)
qed

lemma digits_needed_bound: "m < 2 ^ 128 \<Longrightarrow> scale \<le> 45 \<Longrightarrow> digits_needed m scale + (if 0 < scale then 1 else 0) \<le> 47"
proof -
  assume m: "m < 2 ^ 128" and s: "scale \<le> 45"
  have "m div 10 ^ 39 = 0" using m by simp
  then have "length (show_nat m) \<le> 39" by (subst digits_done [symmetric]) simp_all
  with s show ?thesis by (simp add: digits_needed_def)
qed

lemma written_text: "(if p then [] else ''-'') @ written m scale (digits_needed m scale) = decimal_text p scale m"
proof -
  let ?n = "length (show_nat m)" and ?N = "digits_needed m scale"
  let ?ds = "replicate (Suc scale - ?n) CHR ''0'' @ show_nat m"
  have N: "?N = ?n + (Suc scale - ?n)" by (simp add: digits_needed_def)
  have z: "dig m k = CHR ''0''" if "?n \<le> k" for k
  proof -
    have "m div 10 ^ k = 0" using that digits_done [of k m] show_nat_nonempty [of m] by simp
    then show ?thesis by (simp add: dig_def digit_char_def char_of_def bit_0)
  qed
  have ds: "?ds = map (dig m) (rev [0..<?N])"
  proof -
    have "map (dig m) (rev [0..<?N]) = map (dig m) (rev [?n..<?N]) @ map (dig m) (rev [0..<?n])"
      unfolding N by (simp only: upt_add_eq_append [OF le0] rev_append map_append add_0_left)
    moreover have "map (dig m) (rev [?n..<?N]) = replicate (Suc scale - ?n) CHR ''0''"
      by (rule replicate_eqI) (auto simp: N z)
    ultimately show ?thesis by (simp add: show_nat_digits [symmetric])
  qed
  have s: "scale < ?N" by (simp add: digits_needed_def)
  have "map (dig m) (rev [0..<?N]) = map (dig m) (rev [scale..<?N]) @ map (dig m) (rev [0..<scale])"
    using s upt_add_eq_append [of 0 scale "?N - scale"] by simp
  then have "take (?N - scale) ?ds = map (dig m) (rev [scale..<?N]) \<and> drop (?N - scale) ?ds = map (dig m) (rev [0..<scale])"
    unfolding ds by simp
  moreover have "length ?ds = ?N" by (simp add: N)
  ultimately show ?thesis using s ds by (simp add: decimal_text_def written_def Let_def)
qed

text \<open>
  C37. \<^verbatim>\<open>DecimalParts::format_into\<close> prints every value in positional notation. For every decimal value,
  whatever scale the wire supplied (it is clamped to the 45 digits the buffer has room for), the
  digit loop over limbs of \<open>10\<^sup>19\<close> fills the 48-byte buffer without running past its start and leaves
  exactly the sign, the integer digits, the point and \<open>scale\<close> fraction digits of the magnitude.
\<close>

theorem format_into_text:
  "format_into d = Inr (decimal_text (dp_is_positive d) (clamped_scale d) (unat (magnitude d)))"
proof -
  let ?m = "unat (magnitude d)" and ?s = "clamped_scale d"
  have "?m < 2 ^ 128" using unsigned_less [of "magnitude d"] by simp
  moreover have "?s \<le> 45" by (simp add: clamped_scale_def DECIMAL_STR_LEN_def)
  ultimately have b: "digits_needed ?m ?s + (if 0 < ?s then 1 else 0) \<le> 47" by (rule digits_needed_bound)
  have n: "0 < digits_needed ?m ?s" "?s < digits_needed ?m ?s" by (simp_all add: digits_needed_def)
  have "format_loop ?s (limbs_of ?m) 0 0 (limbs_of ?m ! 0) 0 [] = Inr (written ?m ?s (digits_needed ?m ?s))"
    using format_loop_written [OF limbs_of_ok _ at_digit_start [OF limbs_of_ok], of ?m ?s] b n(1) by (simp add: DECIMAL_STR_LEN_def)
  then show ?thesis
    using b n(2) by (auto simp: format_into_def Let_def put_front_def length_written DECIMAL_STR_LEN_def simp flip: written_text)
qed

end
