(* ===== verification/Column_Values.thy ===== *)
theory Column_Values
  imports Plp_Buffered Decimal_Parts
begin

text \<open>
  Decoded column values (\<^verbatim>\<open>ColumnValues\<close> in \<^verbatim>\<open>mssql-tds/src/datatypes/column_values.rs\<close>) with the
  operations of its parts, vectors (\<^verbatim>\<open>sql_vector.rs\<close>) and the sink of decoded rows
  (\<^verbatim>\<open>row_writer.rs\<close>). A \<^verbatim>\<open>Uuid\<close> is identified by the sixteen bytes \<^verbatim>\<open>Uuid::from_slice_le\<close> takes. The
  widening of half-precision floats is the \<^verbatim>\<open>half\<close> crate's and is a parameter.
\<close>

section \<open>Values\<close>

record sql_time =
  st_time_nanoseconds :: u64
  st_scale :: u8

record sql_date_time2 =
  dt2_days :: u32
  dt2_time :: sql_time

record sql_date_time_offset =
  dto_datetime2 :: sql_date_time2
  dto_offset :: u16

record sql_money =
  lsb_part :: u32
  msb_part :: u32

record sql_small_date_time =
  sdt_days :: u16
  sdt_time :: u16

record sql_date_time =
  dt_days :: u32
  dt_time :: u32

type_synonym sql_date = u32
type_synonym uuid = bytes

datatype vector_data = VD_Float32 "u32 list" | VD_Float16 "u32 list"

record sql_vector =
  sv_base_type :: vector_base_type
  sv_data :: vector_data

datatype column_values =
    CV_TinyInt u8
  | CV_SmallInt u16
  | CV_Int u32
  | CV_BigInt u64
  | CV_Real u32
  | CV_Float u64
  | CV_Decimal decimal_parts
  | CV_Numeric decimal_parts
  | CV_Bit bool
  | CV_String sql_string
  | CV_DateTime sql_date_time
  | CV_Date sql_date
  | CV_Time sql_time
  | CV_DateTime2 sql_date_time2
  | CV_DateTimeOffset sql_date_time_offset
  | CV_SmallDateTime sql_small_date_time
  | CV_SmallMoney u32
  | CV_Money sql_money
  | CV_Bytes bytes
  | CV_Xml bytes
  | CV_Null
  | CV_Uuid uuid
  | CV_Json bytes
  | CV_Vector sql_vector


section \<open>Dates, money, XML\<close>

definition MAX_DAYS :: u32 where "MAX_DAYS = 3652058"

definition sql_date_create :: "u32 \<Rightarrow> sql_date tds_result" where
  "sql_date_create days =
     (if days \<le> MAX_DAYS then Inr days else Inl (UsageError ''Date value is out of range for DATE column''))"

text \<open>The scaled integer a \<^verbatim>\<open>money\<close> holds; the division by ten thousand is in floating point.\<close>

definition money_value :: "sql_money \<Rightarrow> u64" where
  "money_value m = (scast (lsb_part m) AND 0x00000000FFFFFFFF) OR push_bit 32 (scast (msb_part m))"

definition xml_as_string :: "bytes \<Rightarrow> rstring tds_result" where
  "xml_as_string bs =
     (if odd (length bs) then Inl Panic
      else case from_utf16 (le_units bs) of None \<Rightarrow> Inl Panic | Some str \<Rightarrow> Inr str)"

definition xml_from :: "rstring \<Rightarrow> bytes" where
  "xml_from str = units_le (encode_utf16 str)"

definition xml_has_bom :: "bytes \<Rightarrow> bool" where
  "xml_has_bom bs \<longleftrightarrow> 2 \<le> length bs \<and> bs ! 0 = 0xFF \<and> bs ! 1 = 0xFE"

text \<open>Time values at a scale of 0 to 7, in the source's words and at its width.\<close>

definition scale_time_value :: "u64 \<Rightarrow> u8 \<Rightarrow> u64" where
  "scale_time_value v scale =
     (if scale = 0 then v * 10000000
      else if scale = 1 then v * 1000000
      else if scale = 2 then v * 100000
      else if scale = 3 then v * 10000
      else if scale = 4 then v * 1000
      else if scale = 5 then v * 100
      else if scale = 6 then v * 10
      else v)"


section \<open>Vectors\<close>

definition element_count :: "sql_vector \<Rightarrow> nat" where
  "element_count v = (case sv_data v of VD_Float32 xs \<Rightarrow> length xs | VD_Float16 xs \<Rightarrow> length xs)"

definition dimension_count :: "sql_vector \<Rightarrow> u16" where
  "dimension_count v = word_of_nat (element_count v)"

definition as_f32 :: "sql_vector \<Rightarrow> u32 list" where
  "as_f32 v = (case sv_data v of VD_Float32 xs \<Rightarrow> xs | VD_Float16 xs \<Rightarrow> xs)"

definition total_size :: "sql_vector \<Rightarrow> nat" where
  "total_size v = VECTOR_HEADER_SIZE + element_count v * element_size_bytes (sv_base_type v)"

definition validate_dimensions :: "sql_vector \<Rightarrow> unit tds_result" where
  "validate_dimensions v =
     (if element_count v = 0 then Inl (ProtocolError ''Vector must have at least one dimension'')
      else if max_dimensions (sv_base_type v) < element_count v then Inl (ProtocolError ''Vector dimension count exceeds maximum for base type'')
      else if VECTOR_MAX_SIZE < total_size v then Inl (ProtocolError ''Vector total size exceeds maximum'')
      else Inr ())"

definition validated :: "sql_vector \<Rightarrow> sql_vector tds_result" where
  "validated v = (case validate_dimensions v of Inl e \<Rightarrow> Inl e | Inr _ \<Rightarrow> Inr v)"

definition try_from_f32 :: "u32 list \<Rightarrow> sql_vector tds_result" where
  "try_from_f32 xs = validated \<lparr>sv_base_type = VB_Float32, sv_data = VD_Float32 xs\<rparr>"

definition try_from_f16 :: "u32 list \<Rightarrow> sql_vector tds_result" where
  "try_from_f16 xs = validated \<lparr>sv_base_type = VB_Float16, sv_data = VD_Float16 xs\<rparr>"

fun le_u32s :: "bytes \<Rightarrow> u32 list" where
  "le_u32s (a # b # c # d # rest) = from_le_u32 [a, b, c, d] # le_u32s rest"
| "le_u32s _ = []"

definition try_from_raw :: "(u16 \<Rightarrow> u32) \<Rightarrow> u8 \<Rightarrow> u8 \<Rightarrow> u8 \<Rightarrow> bytes \<Rightarrow> sql_vector tds_result" where
  "try_from_raw f16_to_f32 layout_format layout_version base_type raw_bytes =
     (case vector_layout_format_try_from layout_format of Inl e \<Rightarrow> Inl e | Inr _ \<Rightarrow>
      case vector_layout_version_try_from layout_version of Inl e \<Rightarrow> Inl e | Inr _ \<Rightarrow>
      case vector_base_type_try_from base_type of Inl e \<Rightarrow> Inl e | Inr t \<Rightarrow>
        if length raw_bytes mod element_size_bytes t \<noteq> 0
        then Inl (ProtocolError ''Malformed vector payload: byte length is not a multiple of the element size'')
        else validated \<lparr>sv_base_type = t,
          sv_data = (case t of VB_Float32 \<Rightarrow> VD_Float32 (le_u32s raw_bytes)
                     | VB_Float16 \<Rightarrow> VD_Float16 (map f16_to_f32 (le_units raw_bytes)))\<rparr>)"


section \<open>Row writers\<close>

text \<open>
  \<^verbatim>\<open>DefaultRowWriter\<close> keeps the row; every typed \<^verbatim>\<open>write_x\<close> pushes the value with its constructor, so one
  operation with the value stands for them. It declines \<^verbatim>\<open>value_destination\<close>.
\<close>

record row_writer =
  rw_row :: "column_values list"
  rw_variant_bases :: "(nat \<times> tds_data_type) list"

definition row_writer_new :: row_writer where
  "row_writer_new = \<lparr>rw_row = [], rw_variant_bases = []\<rparr>"

definition write_value :: "column_values \<Rightarrow> row_writer \<Rightarrow> row_writer" where
  "write_value v w = w\<lparr>rw_row := rw_row w @ [v]\<rparr>"

definition write_variant_base_type :: "tds_data_type \<Rightarrow> row_writer \<Rightarrow> row_writer" where
  "write_variant_base_type base w = w\<lparr>rw_variant_bases := rw_variant_bases w @ [(length (rw_row w), base)]\<rparr>"

fun find_base :: "nat \<Rightarrow> (nat \<times> tds_data_type) list \<Rightarrow> tds_data_type option" where
  "find_base index [] = None"
| "find_base index ((i, base) # bs) = (if i = index then Some base else find_base index bs)"

definition variant_base :: "nat \<Rightarrow> row_writer \<Rightarrow> tds_data_type option" where
  "variant_base index w = find_base index (rw_variant_bases w)"

definition take_row :: "row_writer \<Rightarrow> column_values list \<times> row_writer" where
  "take_row w = (rw_row w, \<lparr>rw_row = [], rw_variant_bases = []\<rparr>)"

end
