(* ===== verification/Value_Decoder.thy ===== *)
theory Value_Decoder
  imports Column_Values
begin

text \<open>
  The decoder of column values from the wire: \<^verbatim>\<open>GenericDecoder::decode\<close> and the readers of its
  arms, the string decoder, \<^verbatim>\<open>sql_variant\<close>, and \<^verbatim>\<open>decode_into\<close>, which writes to a row writer, all of
  \<^verbatim>\<open>mssql-tds/src/datatypes/decoder.rs\<close>. The first parameter of the decoders widens half-precision
  floats. Decoding a variant re-enters the decoder with a fixed-length type only, so the arms other
  than the variant's are a definition of their own and the recursion has depth one.
\<close>

abbreviation rmap :: "('a \<Rightarrow> 'b) \<Rightarrow> ('s, 'a) action \<Rightarrow> ('s, 'b) action" where
  "rmap f m \<equiv> rbind m (\<lambda>v. rret (f v))"

definition MAX_ALLOC_SIZE :: nat where "MAX_ALLOC_SIZE = 104857600"

definition validate_alloc_size :: "nat \<Rightarrow> unit tds_result" where
  "validate_alloc_size n = (if MAX_ALLOC_SIZE < n then Inl (ProtocolError ''allocation size exceeds maximum allowed'') else Inr ())"


section \<open>Scalars\<close>

definition read_money4 :: "'s packet_reader_ops \<Rightarrow> ('s, u32) action" where
  "read_money4 ops = rd_i32 ops"

definition read_money8 :: "'s packet_reader_ops \<Rightarrow> ('s, sql_money) action" where
  "read_money8 ops = rbind (rd_i32 ops) (\<lambda>msb. rmap (\<lambda>lsb. \<lparr>lsb_part = lsb, msb_part = msb\<rparr>) (rd_i32 ops))"

definition read_intn :: "'s packet_reader_ops \<Rightarrow> u8 \<Rightarrow> ('s, column_values) action" where
  "read_intn ops byte_len =
     (if byte_len = 1 then rmap CV_TinyInt (rd_byte ops)
      else if byte_len = 2 then rmap CV_SmallInt (rd_i16 ops)
      else if byte_len = 4 then rmap CV_Int (rd_i32 ops)
      else if byte_len = 8 then rmap CV_BigInt (rd_i64 ops)
      else if byte_len = 0 then rret CV_Null
      else rfail (Io ''Invalid IntN length''))"

definition read_moneyn :: "'s packet_reader_ops \<Rightarrow> u8 \<Rightarrow> ('s, column_values) action" where
  "read_moneyn ops byte_len =
     (if byte_len = 4 then rmap CV_SmallMoney (read_money4 ops)
      else if byte_len = 8 then rmap CV_Money (read_money8 ops)
      else if byte_len = 0 then rret CV_Null
      else rfail (ProtocolError ''Invalid MoneyN length''))"

definition read_date :: "'s packet_reader_ops \<Rightarrow> ('s, sql_date) action" where
  "read_date ops = rd_u24 ops"

definition read_datetime :: "'s packet_reader_ops \<Rightarrow> ('s, sql_date_time) action" where
  "read_datetime ops = rbind (rd_i32 ops) (\<lambda>days. rmap (\<lambda>ticks. \<lparr>dt_days = days, dt_time = ticks\<rparr>) (rd_u32 ops))"

definition read_small_datetime :: "'s packet_reader_ops \<Rightarrow> ('s, sql_small_date_time) action" where
  "read_small_datetime ops = rbind (rd_u16 ops) (\<lambda>days. rmap (\<lambda>minutes. \<lparr>sdt_days = days, sdt_time = minutes\<rparr>) (rd_u16 ops))"

definition read_datetimen :: "'s packet_reader_ops \<Rightarrow> u8 \<Rightarrow> ('s, column_values) action" where
  "read_datetimen ops len =
     (if len = 0 then rret CV_Null
      else if len = 4 then rmap CV_SmallDateTime (read_small_datetime ops)
      else rmap CV_DateTime (read_datetime ops))"

definition read_daten :: "'s packet_reader_ops \<Rightarrow> u8 \<Rightarrow> ('s, column_values) action" where
  "read_daten ops len = (if len = 0 then rret CV_Null else rmap CV_Date (read_date ops))"

definition read_fltn :: "'s packet_reader_ops \<Rightarrow> u8 \<Rightarrow> ('s, column_values) action" where
  "read_fltn ops len =
     (if len = 0 then rret CV_Null
      else if len = 4 then rmap CV_Real (rd_f32 ops)
      else rmap CV_Float (rd_f64 ops))"

definition read_bitn :: "'s packet_reader_ops \<Rightarrow> u8 \<Rightarrow> ('s, column_values) action" where
  "read_bitn ops byte_len =
     (if 0 < byte_len then rmap (\<lambda>v. CV_Bit (v = 1)) (rd_byte ops) else rret CV_Null)"

definition read_time :: "'s packet_reader_ops \<Rightarrow> u8 \<Rightarrow> u8 \<Rightarrow> ('s, sql_time) action" where
  "read_time ops byte_len scale =
     rmap (\<lambda>v. \<lparr>st_time_nanoseconds = scale_time_value v scale, st_scale = scale\<rparr>)
       (if byte_len = 3 then rmap ucast (rd_u24 ops)
        else if byte_len = 4 then rmap ucast (rd_u32 ops)
        else rd_u40 ops)"

definition read_datetime2 :: "'s packet_reader_ops \<Rightarrow> u8 \<Rightarrow> u8 \<Rightarrow> ('s, sql_date_time2) action" where
  "read_datetime2 ops byte_len scale =
     (if byte_len < 3 then rfail (ProtocolError ''Invalid DateTime2 byte length'')
      else rbind (read_time ops (byte_len - 3) scale) (\<lambda>time.
        rmap (\<lambda>days. \<lparr>dt2_days = days, dt2_time = time\<rparr>) (read_date ops)))"

definition read_datetime_offset :: "'s packet_reader_ops \<Rightarrow> u8 \<Rightarrow> u8 \<Rightarrow> ('s, sql_date_time_offset) action" where
  "read_datetime_offset ops byte_len scale =
     (if byte_len < 2 then rfail (ProtocolError ''Invalid DateTimeOffset byte length'')
      else rbind (read_datetime2 ops (byte_len - 2) scale) (\<lambda>datetime2.
        rmap (\<lambda>offset. \<lparr>dto_datetime2 = datetime2, dto_offset = offset\<rparr>) (rd_i16 ops)))"

definition scaled :: "column_metadata \<Rightarrow> (u8 \<Rightarrow> ('s, column_values) action) \<Rightarrow> u8 \<Rightarrow> ('s, column_values) action" where
  "scaled c read len =
     (if len = 0 then rret CV_Null
      else case get_scale c of None \<Rightarrow> rfail (ImplementationError ''type should have scale'') | Some scale \<Rightarrow> read scale)"

definition read_guid :: "'s packet_reader_ops \<Rightarrow> u8 \<Rightarrow> ('s, column_values) action" where
  "read_guid ops len =
     (if 0 < len then
        (if len \<noteq> 16 then rfail (ProtocolError ''Invalid GUID length: expected 16 bytes'')
         else rbind (rlift (validate_alloc_size (unat len))) (\<lambda>_. rmap CV_Uuid (rd_bytes ops (unat len))))
      else rret CV_Null)"

definition le_u128 :: "bytes \<Rightarrow> u128" where
  "le_u128 bs = word_of_nat (le_nat bs)"

definition zero_padded :: "bytes \<Rightarrow> bytes" where
  "zero_padded bs = bs @ replicate (DECIMAL_MAGNITUDE_BYTES - length bs) 0"

definition decimal_int_parts :: "nat \<Rightarrow> nat" where
  "decimal_int_parts magnitude_len = (magnitude_len + 3) div 4"

definition read_decimal_data :: "'s packet_reader_ops \<Rightarrow> u8 \<Rightarrow> u8 \<Rightarrow> u8 \<Rightarrow> ('s, decimal_parts option) action" where
  "read_decimal_data ops len precision scale =
     (if \<not> decimal_metadata_is_valid precision scale then rfail (ProtocolError ''Invalid decimal precision / scale'')
      else if len = 0 then rret None
      else rbind (rd_byte ops) (\<lambda>sign.
        let magnitude_len = unat (len - 1) in
        if MAX_DECIMAL_INT_PARTS < decimal_int_parts magnitude_len
        then rfail (ProtocolError ''Decimal int parts exceeds maximum allowed'')
        else rmap (\<lambda>bs. Some (decimal_new (sign = 1) precision scale (le_u128 (zero_padded bs)))) (rd_bytes ops magnitude_len)))"

definition or_null :: "('a \<Rightarrow> column_values) \<Rightarrow> 'a option \<Rightarrow> column_values" where
  "or_null f v = (case v of None \<Rightarrow> CV_Null | Some x \<Rightarrow> f x)"

definition read_decimal :: "'s packet_reader_ops \<Rightarrow> column_metadata \<Rightarrow> ('s, decimal_parts option) action" where
  "read_decimal ops c =
     rbind (rd_byte ops) (\<lambda>len.
       case ti_variant (cm_type_info c) of
         VarLenPrecisionScale _ _ precision scale \<Rightarrow> read_decimal_data ops len precision scale
       | _ \<Rightarrow> rfail (ProtocolError ''Invalid type info variant for Decimal/Numeric: expected VarLenPrecisionScale''))"


section \<open>Strings, binary, long objects, vectors\<close>

definition is_long_len_type :: "tds_data_type \<Rightarrow> bool" where
  "is_long_len_type t \<longleftrightarrow> t = DT_NText \<or> t = DT_Text"

text \<open>Text pointer, timestamp, length and bytes of \<^verbatim>\<open>text\<close>, \<^verbatim>\<open>ntext\<close> and \<^verbatim>\<open>image\<close>.\<close>

definition read_long_header :: "'s packet_reader_ops \<Rightarrow> string \<Rightarrow> ('s, nat option) action" where
  "read_long_header ops too_long =
     rbind (rd_byte ops) (\<lambda>text_ptr_len.
       if text_ptr_len = 0 then rret None
       else rbind (rd_skip ops (unat text_ptr_len)) (\<lambda>_. rbind (rd_skip ops 8) (\<lambda>_. rbind (rd_u32 ops) (\<lambda>len.
         if MAX_ALLOC_SIZE < unat len then rfail (ProtocolError too_long) else rret (Some (unat len))))))"

definition read_text :: "'s packet_reader_ops \<Rightarrow> ('s, bytes option) action" where
  "read_text ops =
     rbind (read_long_header ops ''Text data length exceeds maximum allowed size'') (\<lambda>n.
       case n of None \<Rightarrow> rret None | Some k \<Rightarrow> if k = 0 then rret (Some []) else rmap Some (rd_bytes ops k))"

definition read_image :: "'s packet_reader_ops \<Rightarrow> ('s, bytes option) action" where
  "read_image ops =
     rbind (read_long_header ops ''Image length exceeds maximum allowed size'') (\<lambda>n.
       case n of None \<Rightarrow> rret None | Some k \<Rightarrow> rmap Some (rd_bytes ops k))"

definition read_u16_len :: "'s packet_reader_ops \<Rightarrow> ('s, bytes option) action" where
  "read_u16_len ops =
     rbind (rd_u16 ops) (\<lambda>len. if len = 0xFFFF then rret None else rmap Some (rd_bytes ops (unat len)))"

definition string_or_null :: "encoding_type \<Rightarrow> bytes option \<Rightarrow> column_values" where
  "string_or_null encoding = or_null (\<lambda>bs. CV_String (sql_string_new bs encoding))"

definition decode_string :: "'s packet_reader_ops \<Rightarrow> column_metadata \<Rightarrow> ('s, column_values) action" where
  "decode_string ops c =
     rbind (rlift (get_encoding_type c)) (\<lambda>encoding.
       if is_plp c then rmap (string_or_null encoding) (read_plp_bytes ops)
       else if is_long_len_type (cm_data_type c) then rmap (string_or_null encoding) (read_text ops)
       else rmap (string_or_null encoding) (read_u16_len ops))"

definition binary_len :: "u16 \<Rightarrow> nat option tds_result" where
  "binary_len len =
     (if len = 0xFFFF then Inr None
      else if MAX_ALLOC_SIZE < unat len then Inl (ProtocolError ''binary length exceeds maximum allowed size'')
      else Inr (Some (unat len)))"

definition read_binary :: "'s packet_reader_ops \<Rightarrow> ('s, column_values) action" where
  "read_binary ops =
     rbind (rd_u16 ops) (\<lambda>len. rbind (rlift (binary_len len)) (\<lambda>n.
       case n of None \<Rightarrow> rret CV_Null | Some k \<Rightarrow> rmap CV_Bytes (rd_bytes ops k)))"

definition read_plp_only :: "'s packet_reader_ops \<Rightarrow> column_metadata \<Rightarrow> (bytes \<Rightarrow> column_values) \<Rightarrow> ('s, column_values) action" where
  "read_plp_only ops c f =
     (if \<not> is_plp c then rfail (ProtocolError ''column metadata is not partially-length-prefixed'')
      else rmap (or_null f) (read_plp_bytes ops))"

definition vector_base_in_metadata :: "column_metadata \<Rightarrow> u8 tds_result" where
  "vector_base_in_metadata c =
     (case ti_variant (cm_type_info c) of VarLenScale _ scale \<Rightarrow> Inr scale
      | _ \<Rightarrow> Inl (ProtocolError ''Vector metadata missing scale (base type)''))"

definition vector_len_ok :: "nat \<Rightarrow> unit tds_result" where
  "vector_len_ok n =
     (if VECTOR_MAX_SIZE < n then Inl (ProtocolError ''Vector length exceeds maximum'')
      else if n < VECTOR_HEADER_SIZE then Inl (ProtocolError ''Vector length is less than minimum header size'')
      else Inr ())"

definition read_vector_body :: "(u16 \<Rightarrow> u32) \<Rightarrow> 's packet_reader_ops \<Rightarrow> column_metadata \<Rightarrow> nat \<Rightarrow> u8 \<Rightarrow> u8 \<Rightarrow> u16 \<Rightarrow> u8 \<Rightarrow> ('s, column_values) action" where
  "read_vector_body hf ops c n format version dims base =
     rbind (rlift (vector_layout_format_try_from format)) (\<lambda>_.
     rbind (rlift (vector_layout_version_try_from version)) (\<lambda>_.
     rbind (rlift (vector_base_in_metadata c)) (\<lambda>base_in_metadata.
     if base \<noteq> base_in_metadata then rfail (ProtocolError ''Vector base type mismatch'')
     else rbind (rlift (vector_base_type_try_from base)) (\<lambda>base_type.
       if n \<noteq> VECTOR_HEADER_SIZE + unat dims * element_size_bytes base_type \<or> n \<noteq> ti_length (cm_type_info c)
       then rfail (ProtocolError ''Vector length mismatch'')
       else rbind (rd_bytes ops (n - VECTOR_HEADER_SIZE)) (\<lambda>raw_bytes.
         rmap CV_Vector (rlift (try_from_raw hf format version base raw_bytes)))))))"

definition decode_vector :: "(u16 \<Rightarrow> u32) \<Rightarrow> 's packet_reader_ops \<Rightarrow> column_metadata \<Rightarrow> ('s, column_values) action" where
  "decode_vector hf ops c =
     rbind (rd_u16 ops) (\<lambda>len.
       if len = 0xFFFF then rret CV_Null
       else rbind (rlift (vector_len_ok (unat len))) (\<lambda>_.
         rbind (rd_byte ops) (\<lambda>format. rbind (rd_byte ops) (\<lambda>version. rbind (rd_u16 ops) (\<lambda>dims. rbind (rd_byte ops) (\<lambda>base.
         rbind (rd_byte ops) (\<lambda>_. rbind (rd_byte ops) (\<lambda>_. rbind (rd_byte ops) (\<lambda>_.
           read_vector_body hf ops c (unat len) format version dims base)))))))))"


section \<open>Every type but the variant\<close>

definition decode_scalar :: "(u16 \<Rightarrow> u32) \<Rightarrow> 's packet_reader_ops \<Rightarrow> column_metadata \<Rightarrow> ('s, column_values) action" where
  "decode_scalar hf ops c =
     (case cm_data_type c of
        DT_Int1 \<Rightarrow> rmap CV_TinyInt (rd_byte ops)
      | DT_Int2 \<Rightarrow> rmap CV_SmallInt (rd_i16 ops)
      | DT_Int4 \<Rightarrow> rmap CV_Int (rd_i32 ops)
      | DT_Int8 \<Rightarrow> rmap CV_BigInt (rd_i64 ops)
      | DT_Flt4 \<Rightarrow> rmap CV_Real (rd_f32 ops)
      | DT_Flt8 \<Rightarrow> rmap CV_Float (rd_f64 ops)
      | DT_Money4 \<Rightarrow> rmap CV_SmallMoney (read_money4 ops)
      | DT_Money \<Rightarrow> rmap CV_Money (read_money8 ops)
      | DT_MoneyN \<Rightarrow> rbind (rd_byte ops) (read_moneyn ops)
      | DT_DecimalN \<Rightarrow> rmap (or_null CV_Decimal) (read_decimal ops c)
      | DT_NumericN \<Rightarrow> rmap (or_null CV_Numeric) (read_decimal ops c)
      | DT_Bit \<Rightarrow> rmap (\<lambda>v. CV_Bit (v = 1)) (rd_byte ops)
      | DT_NChar \<Rightarrow> decode_string ops c | DT_NVarChar \<Rightarrow> decode_string ops c
      | DT_BigChar \<Rightarrow> decode_string ops c | DT_BigVarChar \<Rightarrow> decode_string ops c
      | DT_Char \<Rightarrow> decode_string ops c | DT_VarChar \<Rightarrow> decode_string ops c
      | DT_NText \<Rightarrow> decode_string ops c | DT_Text \<Rightarrow> decode_string ops c
      | DT_DateTime \<Rightarrow> rmap CV_DateTime (read_datetime ops)
      | DT_IntN \<Rightarrow> rbind (rd_byte ops) (read_intn ops)
      | DT_BigBinary \<Rightarrow> read_binary ops
      | DT_BigVarBinary \<Rightarrow> if is_plp c then rmap (or_null CV_Bytes) (read_plp_bytes ops) else read_binary ops
      | DT_Xml \<Rightarrow> read_plp_only ops c CV_Xml
      | DT_Json \<Rightarrow> read_plp_only ops c CV_Json
      | DT_Vector \<Rightarrow> decode_vector hf ops c
      | DT_BitN \<Rightarrow> rbind (rd_byte ops) (read_bitn ops)
      | DT_Guid \<Rightarrow> rbind (rd_byte ops) (read_guid ops)
      | DT_FltN \<Rightarrow> rbind (rd_byte ops) (read_fltn ops)
      | DT_DateTimeN \<Rightarrow> rbind (rd_byte ops) (read_datetimen ops)
      | DT_DateN \<Rightarrow> rbind (rd_byte ops) (read_daten ops)
      | DT_TimeN \<Rightarrow> rbind (rd_byte ops) (\<lambda>len. scaled c (\<lambda>scale. rmap CV_Time (read_time ops len scale)) len)
      | DT_DateTime2N \<Rightarrow> rbind (rd_byte ops) (\<lambda>len. scaled c (\<lambda>scale. rmap CV_DateTime2 (read_datetime2 ops len scale)) len)
      | DT_DateTimeOffsetN \<Rightarrow> rbind (rd_byte ops) (\<lambda>len. scaled c (\<lambda>scale. rmap CV_DateTimeOffset (read_datetime_offset ops len scale)) len)
      | DT_Image \<Rightarrow> rmap (or_null CV_Bytes) (read_image ops)
      | DT_Udt \<Rightarrow> read_plp_only ops c CV_Bytes
      | DT_DateTim4 \<Rightarrow> rmap CV_SmallDateTime (read_small_datetime ops)
      | DT_Decimal \<Rightarrow> rfail (UnimplementedFeature ''Fixed-length Decimal type'')
      | DT_Numeric \<Rightarrow> rfail (UnimplementedFeature ''Fixed-length Numeric type'')
      | _ \<Rightarrow> rfail (UnimplementedFeature ''Data type''))"


section \<open>Variants\<close>

definition fixed_metadata :: "tds_data_type \<Rightarrow> fixed_length_types \<Rightarrow> nat \<Rightarrow> column_metadata" where
  "fixed_metadata t f len =
     \<lparr>cm_user_type = 0, cm_flags = 0, cm_type_info = \<lparr>ti_tds_type = t, ti_length = len, ti_variant = FixedLen f\<rparr>,
      cm_data_type = t, cm_column_name = [], cm_multi_part_name = None, cm_crypto_metadata = None\<rparr>"

definition decode_zero_propbyte_variant :: "(u16 \<Rightarrow> u32) \<Rightarrow> 's packet_reader_ops \<Rightarrow> tds_data_type \<Rightarrow> u32 \<Rightarrow> ('s, column_values) action" where
  "decode_zero_propbyte_variant hf ops t data_length =
     (case fixed_length_types_try_from t of
        Inr f \<Rightarrow> decode_scalar hf ops (fixed_metadata t f (unat data_length))
      | Inl _ \<Rightarrow>
          if t = DT_Guid then read_guid ops (ucast data_length)
          else if t = DT_DateN then read_daten ops (ucast data_length)
          else rfail (ProtocolError ''For 0 byte property, only Guid and DateN are expected''))"

definition decode_one_byte_variant :: "'s packet_reader_ops \<Rightarrow> tds_data_type \<Rightarrow> u32 \<Rightarrow> ('s, column_values) action" where
  "decode_one_byte_variant ops t data_length =
     rbind (rd_byte ops) (\<lambda>scale.
       if t = DT_TimeN then rmap CV_Time (read_time ops (ucast data_length) scale)
       else if t = DT_DateTime2N then rmap CV_DateTime2 (read_datetime2 ops (ucast data_length) scale)
       else if t = DT_DateTimeOffsetN then rmap CV_DateTimeOffset (read_datetime_offset ops (ucast data_length) scale)
       else rfail (ProtocolError ''Invalid SQL_VARIANT: 1-byte property is only valid for TimeN, DateTime2N, and DateTimeOffsetN types''))"

definition decode_two_propbyte_variant :: "'s packet_reader_ops \<Rightarrow> tds_data_type \<Rightarrow> u32 \<Rightarrow> ('s, column_values) action" where
  "decode_two_propbyte_variant ops t data_length =
     (if t = DT_BigVarBinary \<or> t = DT_BigBinary then
        rbind (rd_u16 ops) (\<lambda>_.
          if MAX_ALLOC_SIZE < unat data_length then rfail (ProtocolError ''SQL Variant binary data length exceeds maximum allowed size'')
          else rmap CV_Bytes (rd_bytes ops (unat data_length)))
      else if t = DT_NumericN \<or> t = DT_DecimalN then
        rbind (rd_byte ops) (\<lambda>precision. rbind (rd_byte ops) (\<lambda>scale.
          rmap (or_null (if t = DT_NumericN then CV_Numeric else CV_Decimal)) (read_decimal_data ops (ucast data_length) precision scale)))
      else rfail (ProtocolError ''Unexpected SQL variant base type for len(2) prop bytes''))"

definition variant_char_type :: "tds_data_type \<Rightarrow> bool" where
  "variant_char_type t \<longleftrightarrow> t = DT_BigVarChar \<or> t = DT_BigChar \<or> t = DT_NVarChar \<or> t = DT_NChar"

definition variant_encoding :: "tds_data_type \<Rightarrow> sql_collation \<Rightarrow> encoding_type" where
  "variant_encoding t collation =
     (if t = DT_NVarChar \<or> t = DT_NChar then Utf16 else if utf8_flag collation then Utf8 else LcidBased collation)"

definition decode_seven_propbyte_variant :: "'s packet_reader_ops \<Rightarrow> tds_data_type \<Rightarrow> u32 \<Rightarrow> ('s, column_values) action" where
  "decode_seven_propbyte_variant ops t data_length =
     (if \<not> variant_char_type t then rfail (ProtocolError ''Unexpected SQL variant base type for len(7) prop bytes'')
      else rbind (rd_bytes ops 5) (\<lambda>collation_bytes. rbind (rd_u16 ops) (\<lambda>_. rbind (rlift (collation_try_from collation_bytes)) (\<lambda>collation.
        if MAX_ALLOC_SIZE < unat data_length then rfail (ProtocolError ''SQL Variant string data length exceeds maximum allowed size'')
        else rmap (\<lambda>bs. CV_String (sql_string_new bs (variant_encoding t collation))) (rd_bytes ops (unat data_length))))))"

definition variant_data_length :: "u32 \<Rightarrow> u8 \<Rightarrow> u32 tds_result" where
  "variant_data_length len prop_bytes =
     (if len < 2 \<or> len - 2 < ucast prop_bytes then Inl (ProtocolError ''SQL_VARIANT data length calculation underflow'')
      else Inr (len - 2 - ucast prop_bytes))"

definition decode_variant_value :: "(u16 \<Rightarrow> u32) \<Rightarrow> 's packet_reader_ops \<Rightarrow> tds_data_type \<Rightarrow> u8 \<Rightarrow> u32 \<Rightarrow> ('s, column_values) action" where
  "decode_variant_value hf ops t prop_bytes data_length =
     (if prop_bytes = 0 then decode_zero_propbyte_variant hf ops t data_length
      else if prop_bytes = 1 then decode_one_byte_variant ops t data_length
      else if prop_bytes = 2 then decode_two_propbyte_variant ops t data_length
      else if prop_bytes = 7 then decode_seven_propbyte_variant ops t data_length
      else rfail (ProtocolError ''Unexpected SQL variant properties length''))"

definition read_sql_variant_with_base :: "(u16 \<Rightarrow> u32) \<Rightarrow> 's packet_reader_ops \<Rightarrow> ('s, tds_data_type option \<times> column_values) action" where
  "read_sql_variant_with_base hf ops =
     rbind (rd_u32 ops) (\<lambda>len.
       if len = 0 then rret (None, CV_Null)
       else rbind (rd_byte ops) (\<lambda>base. rbind (rlift (tds_data_type_try_from base)) (\<lambda>t. rbind (rd_byte ops) (\<lambda>prop_bytes.
         rbind (rlift (variant_data_length len prop_bytes)) (\<lambda>data_length.
           rmap (Pair (Some t)) (decode_variant_value hf ops t prop_bytes data_length))))))"

definition read_sql_variant :: "(u16 \<Rightarrow> u32) \<Rightarrow> 's packet_reader_ops \<Rightarrow> ('s, column_values) action" where
  "read_sql_variant hf ops = rmap snd (read_sql_variant_with_base hf ops)"

definition decode :: "(u16 \<Rightarrow> u32) \<Rightarrow> 's packet_reader_ops \<Rightarrow> column_metadata \<Rightarrow> ('s, column_values) action" where
  "decode hf ops c = (if cm_data_type c = DT_SsVariant then read_sql_variant hf ops else decode_scalar hf ops c)"


section \<open>Into a row writer\<close>

text \<open>
  Every arm writes after its last read, so the updated writer is the result and an error leaves the
  writer as it was. Strings and binary values that are wholly buffered are borrowed from the buffer.
\<close>

abbreviation put :: "row_writer \<Rightarrow> ('a \<Rightarrow> column_values) \<Rightarrow> ('s, 'a) action \<Rightarrow> ('s, row_writer) action" where
  "put w f m \<equiv> rmap (\<lambda>v. write_value (f v) w) m"

definition slice_or_bytes :: "'s packet_reader_ops \<Rightarrow> nat \<Rightarrow> ('s, bytes) action" where
  "slice_or_bytes ops n =
     rbind (rd_try_slice ops n) (\<lambda>r. case r of Some bs \<Rightarrow> rret bs | None \<Rightarrow> rd_bytes ops n)"

definition plp_into :: "'s packet_reader_ops \<Rightarrow> (bytes \<Rightarrow> column_values) \<Rightarrow> row_writer \<Rightarrow> ('s, row_writer) action" where
  "plp_into ops f w =
     rbind (read_plp_framing ops) (\<lambda>framing. case framing of
         PlpNull \<Rightarrow> rret (write_value CV_Null w)
       | PlpFramingKnown n \<Rightarrow> put w f (read_plp_chunks_into_slice ops n n)
       | PlpFramingUnknown \<Rightarrow> put w f (read_plp_chunks_unknown_len ops))"

definition decode_string_into :: "'s packet_reader_ops \<Rightarrow> column_metadata \<Rightarrow> row_writer \<Rightarrow> ('s, row_writer) action" where
  "decode_string_into ops c w =
     rbind (rlift (get_encoding_type c)) (\<lambda>encoding.
       if is_plp c then plp_into ops (\<lambda>bs. CV_String (sql_string_new bs encoding)) w
       else if is_long_len_type (cm_data_type c) then put w (string_or_null encoding) (read_text ops)
       else rbind (rd_u16 ops) (\<lambda>len.
         if len = 0xFFFF then rret (write_value CV_Null w)
         else put w (\<lambda>bs. CV_String (sql_string_new bs encoding)) (slice_or_bytes ops (unat len))))"

definition binary_into :: "'s packet_reader_ops \<Rightarrow> row_writer \<Rightarrow> ('s, row_writer) action" where
  "binary_into ops w =
     rbind (rd_u16 ops) (\<lambda>len. rbind (rlift (binary_len len)) (\<lambda>n.
       case n of None \<Rightarrow> rret (write_value CV_Null w) | Some k \<Rightarrow> put w CV_Bytes (slice_or_bytes ops k)))"

definition guid_into :: "'s packet_reader_ops \<Rightarrow> row_writer \<Rightarrow> u8 \<Rightarrow> ('s, row_writer) action" where
  "guid_into ops w len =
     (if len = 0 then rret (write_value CV_Null w)
      else if len \<noteq> 16 then rfail (ProtocolError ''Invalid GUID length: expected 16 bytes'')
      else put w CV_Uuid (rd_bytes ops 16))"

definition decode_into :: "(u16 \<Rightarrow> u32) \<Rightarrow> 's packet_reader_ops \<Rightarrow> column_metadata \<Rightarrow> row_writer \<Rightarrow> ('s, row_writer) action" where
  "decode_into hf ops c w =
     (case cm_data_type c of
        DT_Int1 \<Rightarrow> put w CV_TinyInt (rd_byte ops)
      | DT_Int2 \<Rightarrow> put w CV_SmallInt (rd_i16 ops)
      | DT_Int4 \<Rightarrow> put w CV_Int (rd_i32 ops)
      | DT_Int8 \<Rightarrow> put w CV_BigInt (rd_i64 ops)
      | DT_IntN \<Rightarrow> rbind (rd_byte ops) (\<lambda>len. put w id (read_intn ops len))
      | DT_Flt4 \<Rightarrow> put w CV_Real (rd_f32 ops)
      | DT_Flt8 \<Rightarrow> put w CV_Float (rd_f64 ops)
      | DT_FltN \<Rightarrow> rbind (rd_byte ops) (\<lambda>len. put w id (read_fltn ops len))
      | DT_Bit \<Rightarrow> put w (\<lambda>v. CV_Bit (v = 1)) (rd_byte ops)
      | DT_BitN \<Rightarrow> rbind (rd_byte ops) (\<lambda>len. put w id (read_bitn ops len))
      | DT_Money4 \<Rightarrow> put w CV_SmallMoney (read_money4 ops)
      | DT_Money \<Rightarrow> put w CV_Money (read_money8 ops)
      | DT_MoneyN \<Rightarrow> rbind (rd_byte ops) (\<lambda>len. put w id (read_moneyn ops len))
      | DT_DecimalN \<Rightarrow> put w (or_null CV_Decimal) (read_decimal ops c)
      | DT_NumericN \<Rightarrow> put w (or_null CV_Numeric) (read_decimal ops c)
      | DT_NChar \<Rightarrow> decode_string_into ops c w | DT_NVarChar \<Rightarrow> decode_string_into ops c w
      | DT_BigChar \<Rightarrow> decode_string_into ops c w | DT_BigVarChar \<Rightarrow> decode_string_into ops c w
      | DT_Char \<Rightarrow> decode_string_into ops c w | DT_VarChar \<Rightarrow> decode_string_into ops c w
      | DT_NText \<Rightarrow> decode_string_into ops c w | DT_Text \<Rightarrow> decode_string_into ops c w
      | DT_BigBinary \<Rightarrow> binary_into ops w
      | DT_BigVarBinary \<Rightarrow> if is_plp c then plp_into ops CV_Bytes w else binary_into ops w
      | DT_DateTime \<Rightarrow> put w CV_DateTime (read_datetime ops)
      | DT_DateTim4 \<Rightarrow> put w CV_SmallDateTime (read_small_datetime ops)
      | DT_DateTimeN \<Rightarrow> rbind (rd_byte ops) (\<lambda>len. put w id (read_datetimen ops len))
      | DT_DateN \<Rightarrow> rbind (rd_byte ops) (\<lambda>len. put w id (read_daten ops len))
      | DT_TimeN \<Rightarrow> rbind (rd_byte ops) (\<lambda>len. put w id (scaled c (\<lambda>scale. rmap CV_Time (read_time ops len scale)) len))
      | DT_DateTime2N \<Rightarrow> rbind (rd_byte ops) (\<lambda>len. put w id (scaled c (\<lambda>scale. rmap CV_DateTime2 (read_datetime2 ops len scale)) len))
      | DT_DateTimeOffsetN \<Rightarrow> rbind (rd_byte ops) (\<lambda>len. put w id (scaled c (\<lambda>scale. rmap CV_DateTimeOffset (read_datetime_offset ops len scale)) len))
      | DT_Guid \<Rightarrow> rbind (rd_byte ops) (guid_into ops w)
      | DT_SsVariant \<Rightarrow> rmap (\<lambda>(base, v). write_value v (case base of None \<Rightarrow> w | Some b \<Rightarrow> write_variant_base_type b w))
          (read_sql_variant_with_base hf ops)
      | _ \<Rightarrow> put w id (decode hf ops c))"

end
