(* ===== verification/Decoder_Laws.thy ===== *)
theory Decoder_Laws
  imports Value_Decoder
begin

text \<open>
  What the value decoder promises: on any input it returns, without a panic, for a column whose
  metadata is well formed; the value it returns is of the column's type; and decoding into a row
  writer writes the value that decoding returns.
\<close>

section \<open>The decoder returns on any input\<close>

lemma validate_alloc_size_safe [simp]: "validate_alloc_size n \<noteq> Inl Panic" "validate_alloc_size n \<noteq> Inl Diverge"
  by (simp_all add: validate_alloc_size_def)

lemma binary_len_safe [simp]: "binary_len n \<noteq> Inl Panic" "binary_len n \<noteq> Inl Diverge"
  by (simp_all add: binary_len_def)

lemma vector_checks_safe [simp]:
  "vector_len_ok n \<noteq> Inl Panic" "vector_len_ok n \<noteq> Inl Diverge"
  "vector_base_in_metadata c \<noteq> Inl Panic" "vector_base_in_metadata c \<noteq> Inl Diverge"
  "vector_layout_format_try_from b \<noteq> Inl Panic" "vector_layout_format_try_from b \<noteq> Inl Diverge"
  "vector_layout_version_try_from b \<noteq> Inl Panic" "vector_layout_version_try_from b \<noteq> Inl Diverge"
  "vector_base_type_try_from b \<noteq> Inl Panic" "vector_base_type_try_from b \<noteq> Inl Diverge"
  by (auto simp: vector_len_ok_def vector_base_in_metadata_def vector_layout_format_try_from_def vector_layout_version_try_from_def
      vector_base_type_try_from_def split: type_info_variant.splits)

lemma try_from_raw_safe [simp]: "try_from_raw hf a b d bs \<noteq> Inl Panic" "try_from_raw hf a b d bs \<noteq> Inl Diverge"
  by (auto simp: try_from_raw_def validated_def validate_dimensions_def vector_layout_format_try_from_def vector_layout_version_try_from_def
      vector_base_type_try_from_def split: sum.splits if_splits)

lemma variant_data_length_safe [simp]: "variant_data_length n p \<noteq> Inl Panic" "variant_data_length n p \<noteq> Inl Diverge"
  by (simp_all add: variant_data_length_def)

definition string_type :: "tds_data_type \<Rightarrow> bool" where
  "string_type t \<longleftrightarrow> t \<in> {DT_NChar, DT_NVarChar, DT_BigChar, DT_BigVarChar, DT_Char, DT_VarChar, DT_NText, DT_Text}"

lemma get_encoding_type_safe:
  assumes "column_wf c" "string_type (cm_data_type c)"
  shows "get_encoding_type c \<noteq> Inl Panic" "get_encoding_type c \<noteq> Inl Diverge"
proof -
  show "get_encoding_type c \<noteq> Inl Diverge" by (auto simp: get_encoding_type_def split: option.splits)
  show "get_encoding_type c \<noteq> Inl Panic"
    using assms by (cases "ti_variant (cm_type_info c)")
      (auto simp: column_wf_def type_info_wf_def string_type_def get_encoding_type_def get_collation_def is_unicode_type_def
        fixed_length_types_try_from_def variable_length_types_try_from_def partial_length_type_try_from_def
        string_var_len_def plain_var_len_def scaled_var_len_def decimal_var_len_def split: option.splits)
qed

context finite_source
begin

lemma scalar_reads_tame [tame_rules]:
  "tame safe left 0 (read_money4 ops)" "tame safe left 0 (read_money8 ops)" "tame safe left 0 (read_date ops)"
  "tame safe left 0 (read_datetime ops)" "tame safe left 0 (read_small_datetime ops)"
  unfolding read_money4_def read_money8_def read_date_def read_datetime_def read_small_datetime_def
  by (intro tame_rules)+

lemma nullable_reads_tame [tame_rules]:
  "tame safe left 0 (read_intn ops n)" "tame safe left 0 (read_moneyn ops n)" "tame safe left 0 (read_datetimen ops n)"
  "tame safe left 0 (read_daten ops n)" "tame safe left 0 (read_fltn ops n)" "tame safe left 0 (read_bitn ops n)"
  "tame safe left 0 (read_guid ops n)"
  unfolding read_intn_def read_moneyn_def read_datetimen_def read_daten_def read_fltn_def read_bitn_def read_guid_def
  by (intro tame_rules; simp)+

lemma time_reads_tame [tame_rules]:
  "tame safe left 0 (read_time ops n sc)" "tame safe left 0 (read_datetime2 ops n sc)" "tame safe left 0 (read_datetime_offset ops n sc)"
proof -
  show t: "tame safe left 0 (read_time ops n sc)" for n unfolding read_time_def by (intro tame_rules)
  show d: "tame safe left 0 (read_datetime2 ops n sc)" for n unfolding read_datetime2_def by (intro tame_rules t; simp)
  show "tame safe left 0 (read_datetime_offset ops n sc)" unfolding read_datetime_offset_def by (intro tame_rules d; simp)
qed

lemma decimal_reads_tame [tame_rules]:
  "tame safe left 0 (read_decimal_data ops n p sc)" "tame safe left 0 (read_decimal ops c)"
proof -
  show d: "tame safe left 0 (read_decimal_data ops n p sc)" for n p sc unfolding read_decimal_data_def by (intro tame_rules; simp)
  show "tame safe left 0 (read_decimal ops c)"
    unfolding read_decimal_def by (intro tame_bind0 scalars_tame0) (auto split: type_info_variant.split intro!: tame_rules d)
qed

lemma scaled_tame [tame_rules]: "(\<And>sc. tame safe left 0 (f sc)) \<Longrightarrow> tame safe left 0 (scaled c f n)"
  unfolding scaled_def by (intro tame_rules; simp)

lemma object_reads_tame [tame_rules]:
  "tame safe left 0 (read_text ops)" "tame safe left 0 (read_image ops)" "tame safe left 0 (read_u16_len ops)"
  "tame safe left 0 (read_binary ops)" "tame safe left 0 (read_plp_only ops c f)" "tame safe left 0 (decode_vector hf ops c)"
proof -
  have h: "tame safe left 0 (read_long_header ops e)" for e unfolding read_long_header_def by (intro tame_rules; simp)
  show "tame safe left 0 (read_text ops)" "tame safe left 0 (read_image ops)"
    unfolding read_text_def read_image_def by (intro tame_rules h)+
  show "tame safe left 0 (read_u16_len ops)" "tame safe left 0 (read_binary ops)"
    unfolding read_u16_len_def read_binary_def by (intro tame_rules; simp)+
  show "tame safe left 0 (read_plp_only ops c f)" unfolding read_plp_only_def by (intro tame_rules read_plp_bytes_tame; simp)
  show "tame safe left 0 (decode_vector hf ops c)"
    unfolding decode_vector_def read_vector_body_def by (intro tame_rules; simp)
qed

lemma decode_string_tame: "column_wf c \<Longrightarrow> string_type (cm_data_type c) \<Longrightarrow> tame safe left 0 (decode_string ops c)"
  unfolding decode_string_def by (intro tame_rules read_plp_bytes_tame; simp add: get_encoding_type_safe)

lemma decode_scalar_tame: "column_wf c \<Longrightarrow> tame safe left 0 (decode_scalar hf ops c)"
  unfolding decode_scalar_def
  by (cases "cm_data_type c")
     (simp_all only: tds_data_type.case, (intro tame_rules decode_string_tame read_plp_bytes_tame; simp add: string_type_def)+)

lemma decode_fixed_tame: "fixed_length_types_try_from t = Inr f \<Longrightarrow> tame safe left 0 (decode_scalar hf ops (fixed_metadata t f n))"
  by (cases t) (simp_all only: fixed_length_types_try_from_def decode_scalar_def fixed_metadata_def column_metadata.select_convs tds_data_type.case sum.distinct,
      (intro tame_rules; simp)+)

lemma variant_parts_tame [tame_rules]:
  "tame safe left 0 (decode_zero_propbyte_variant hf ops t n)" "tame safe left 0 (decode_one_byte_variant ops t n)"
  "tame safe left 0 (decode_two_propbyte_variant ops t n)" "tame safe left 0 (decode_seven_propbyte_variant ops t n)"
proof -
  show "tame safe left 0 (decode_zero_propbyte_variant hf ops t n)"
    unfolding decode_zero_propbyte_variant_def
    by (cases "fixed_length_types_try_from t") (simp_all only: sum.case, (intro tame_rules decode_fixed_tame; simp)+)
  show "tame safe left 0 (decode_one_byte_variant ops t n)" "tame safe left 0 (decode_two_propbyte_variant ops t n)"
    unfolding decode_one_byte_variant_def decode_two_propbyte_variant_def by (intro tame_rules; simp)+
  show "tame safe left 0 (decode_seven_propbyte_variant ops t n)"
    unfolding decode_seven_propbyte_variant_def
    by (intro tame_rules; simp add: collation_try_from_def Let_def)
qed

lemma variant_tame: "tame safe left 4 (read_sql_variant_with_base hf ops)"
  unfolding read_sql_variant_with_base_def decode_variant_value_def
  by (rule tame_bind [OF scalars_tame(3)]) (intro tame_rules; simp add: tds_data_type_try_from_safe)

lemma decode_tame: "column_wf c \<Longrightarrow> tame safe left 0 (decode hf ops c)"
  unfolding decode_def read_sql_variant_def
  by (intro tame_rules decode_scalar_tame tame_weaken [OF variant_tame le0])

end


section \<open>The value is of the column's type\<close>

definition decimal_fits :: "column_metadata \<Rightarrow> decimal_parts \<Rightarrow> bool" where
  "decimal_fits c d \<longleftrightarrow> decimal_metadata_is_valid (dp_precision d) (dp_scale d) \<and>
     get_precision c = Some (dp_precision d) \<and> get_scale c = Some (dp_scale d)"

definition vector_fits :: "column_metadata \<Rightarrow> sql_vector \<Rightarrow> bool" where
  "vector_fits c v \<longleftrightarrow> validate_dimensions v = Inr () \<and> total_size v = ti_length (cm_type_info c) \<and>
     (\<exists>b. get_scale c = Some b \<and> vector_base_type_try_from b = Inr (sv_base_type v))"

definition string_fits :: "column_metadata \<Rightarrow> column_values \<Rightarrow> bool" where
  "string_fits c v \<longleftrightarrow> (\<exists>bs e. v = CV_String (sql_string_new bs e) \<and> get_encoding_type c = Inr e)"

definition value_fits :: "column_metadata \<Rightarrow> column_values \<Rightarrow> bool" where
  "value_fits c v \<longleftrightarrow>
     (case cm_data_type c of
        DT_Int1 \<Rightarrow> (\<exists>x. v = CV_TinyInt x) | DT_Int2 \<Rightarrow> (\<exists>x. v = CV_SmallInt x) | DT_Int4 \<Rightarrow> (\<exists>x. v = CV_Int x) | DT_Int8 \<Rightarrow> (\<exists>x. v = CV_BigInt x)
      | DT_Flt4 \<Rightarrow> (\<exists>x. v = CV_Real x) | DT_Flt8 \<Rightarrow> (\<exists>x. v = CV_Float x) | DT_Money4 \<Rightarrow> (\<exists>x. v = CV_SmallMoney x) | DT_Money \<Rightarrow> (\<exists>x. v = CV_Money x)
      | DT_Bit \<Rightarrow> (\<exists>x. v = CV_Bit x) | DT_DateTime \<Rightarrow> (\<exists>x. v = CV_DateTime x) | DT_DateTim4 \<Rightarrow> (\<exists>x. v = CV_SmallDateTime x)
      | DT_IntN \<Rightarrow> v = CV_Null \<or> (\<exists>x. v = CV_TinyInt x) \<or> (\<exists>x. v = CV_SmallInt x) \<or> (\<exists>x. v = CV_Int x) \<or> (\<exists>x. v = CV_BigInt x)
      | DT_FltN \<Rightarrow> v = CV_Null \<or> (\<exists>x. v = CV_Real x) \<or> (\<exists>x. v = CV_Float x)
      | DT_BitN \<Rightarrow> v = CV_Null \<or> (\<exists>x. v = CV_Bit x)
      | DT_MoneyN \<Rightarrow> v = CV_Null \<or> (\<exists>x. v = CV_SmallMoney x) \<or> (\<exists>x. v = CV_Money x)
      | DT_DateTimeN \<Rightarrow> v = CV_Null \<or> (\<exists>x. v = CV_SmallDateTime x) \<or> (\<exists>x. v = CV_DateTime x)
      | DT_DateN \<Rightarrow> v = CV_Null \<or> (\<exists>x. v = CV_Date x)
      | DT_TimeN \<Rightarrow> v = CV_Null \<or> (\<exists>t. v = CV_Time t \<and> get_scale c = Some (st_scale t))
      | DT_DateTime2N \<Rightarrow> v = CV_Null \<or> (\<exists>d. v = CV_DateTime2 d \<and> get_scale c = Some (st_scale (dt2_time d)))
      | DT_DateTimeOffsetN \<Rightarrow> v = CV_Null \<or> (\<exists>d. v = CV_DateTimeOffset d \<and> get_scale c = Some (st_scale (dt2_time (dto_datetime2 d))))
      | DT_Guid \<Rightarrow> v = CV_Null \<or> (\<exists>bs. v = CV_Uuid bs \<and> length bs = 16)
      | DT_DecimalN \<Rightarrow> v = CV_Null \<or> (\<exists>d. v = CV_Decimal d \<and> decimal_fits c d)
      | DT_NumericN \<Rightarrow> v = CV_Null \<or> (\<exists>d. v = CV_Numeric d \<and> decimal_fits c d)
      | DT_NChar \<Rightarrow> v = CV_Null \<or> string_fits c v | DT_NVarChar \<Rightarrow> v = CV_Null \<or> string_fits c v
      | DT_BigChar \<Rightarrow> v = CV_Null \<or> string_fits c v | DT_BigVarChar \<Rightarrow> v = CV_Null \<or> string_fits c v
      | DT_Char \<Rightarrow> v = CV_Null \<or> string_fits c v | DT_VarChar \<Rightarrow> v = CV_Null \<or> string_fits c v
      | DT_NText \<Rightarrow> v = CV_Null \<or> string_fits c v | DT_Text \<Rightarrow> v = CV_Null \<or> string_fits c v
      | DT_BigBinary \<Rightarrow> v = CV_Null \<or> (\<exists>x. v = CV_Bytes x) | DT_BigVarBinary \<Rightarrow> v = CV_Null \<or> (\<exists>x. v = CV_Bytes x)
      | DT_Image \<Rightarrow> v = CV_Null \<or> (\<exists>x. v = CV_Bytes x) | DT_Udt \<Rightarrow> v = CV_Null \<or> (\<exists>x. v = CV_Bytes x)
      | DT_Xml \<Rightarrow> v = CV_Null \<or> (\<exists>x. v = CV_Xml x) | DT_Json \<Rightarrow> v = CV_Null \<or> (\<exists>x. v = CV_Json x)
      | DT_Vector \<Rightarrow> v = CV_Null \<or> (\<exists>x. v = CV_Vector x \<and> vector_fits c x)
      | DT_SsVariant \<Rightarrow> (\<forall>x. v \<noteq> CV_Xml x) \<and> (\<forall>x. v \<noteq> CV_Json x) \<and> (\<forall>x. v \<noteq> CV_Vector x)
      | _ \<Rightarrow> False)"

lemma ensures_rmap: "ensures m (\<lambda>v. P (f v)) \<Longrightarrow> ensures (rmap f m) P"
  by (erule ensures_bind_mid) (auto intro: ensures_rret)

lemma or_null_cases: "(v = None \<Longrightarrow> P CV_Null) \<Longrightarrow> (\<And>x. v = Some x \<Longrightarrow> P (f x)) \<Longrightarrow> P (or_null f v)"
  by (cases v) (auto simp: or_null_def)

lemma ensures_True: "(\<And>v. P v) \<Longrightarrow> ensures m P"
  by (simp add: ensures_def)

lemma length_le_u32s: "length (le_u32s bs) = length bs div 4"
  by (induction bs rule: le_u32s.induct) auto

lemma length_le_units: "length (le_units bs) = length bs div 2"
  by (induction bs rule: le_units.induct) auto

lemma try_from_raw_fits:
  assumes "try_from_raw hf f ver b bs = Inr v"
  shows "validate_dimensions v = Inr () \<and> vector_base_type_try_from b = Inr (sv_base_type v) \<and>
    total_size v = VECTOR_HEADER_SIZE + length bs"
  using assms length_le_u32s [of bs] length_le_units [of bs]
  by (auto simp: try_from_raw_def validated_def total_size_def element_count_def element_size_bytes_def
      split: sum.splits if_splits vector_base_type.splits)

context safe_source
begin

lemma bytes_ensures: "ensures (rd_bytes ops n) (\<lambda>bs. length bs = n)"
  by (auto simp: ensures_def bytes_length)

lemma nullable_fits:
  "ensures (read_intn ops n) (\<lambda>v. v = CV_Null \<or> (\<exists>x. v = CV_TinyInt x) \<or> (\<exists>x. v = CV_SmallInt x) \<or> (\<exists>x. v = CV_Int x) \<or> (\<exists>x. v = CV_BigInt x))"
  "ensures (read_moneyn ops n) (\<lambda>v. v = CV_Null \<or> (\<exists>x. v = CV_SmallMoney x) \<or> (\<exists>x. v = CV_Money x))"
  "ensures (read_datetimen ops n) (\<lambda>v. v = CV_Null \<or> (\<exists>x. v = CV_SmallDateTime x) \<or> (\<exists>x. v = CV_DateTime x))"
  "ensures (read_daten ops n) (\<lambda>v. v = CV_Null \<or> (\<exists>x. v = CV_Date x))"
  "ensures (read_fltn ops n) (\<lambda>v. v = CV_Null \<or> (\<exists>x. v = CV_Real x) \<or> (\<exists>x. v = CV_Float x))"
  "ensures (read_bitn ops n) (\<lambda>v. v = CV_Null \<or> (\<exists>x. v = CV_Bit x))"
  unfolding read_intn_def read_moneyn_def read_datetimen_def read_daten_def read_fltn_def read_bitn_def
  by (intro ensures_rules; simp)+

lemma guid_fits: "ensures (read_guid ops n) (\<lambda>v. v = CV_Null \<or> (\<exists>bs. v = CV_Uuid bs \<and> length bs = 16))"
  unfolding read_guid_def
  by (intro ensures_if ensures_rfail ensures_rret ensures_bind ensures_bind_mid [OF bytes_ensures]) auto

lemma time_fits:
  "ensures (read_time ops n sc) (\<lambda>t. st_scale t = sc)"
  "ensures (read_datetime2 ops n sc) (\<lambda>t. st_scale (dt2_time t) = sc)"
  "ensures (read_datetime_offset ops n sc) (\<lambda>t. st_scale (dt2_time (dto_datetime2 t)) = sc)"
proof -
  show t: "ensures (read_time ops n sc) (\<lambda>t. st_scale t = sc)" for n unfolding read_time_def by (intro ensures_bind ensures_rret) simp
  show d: "ensures (read_datetime2 ops n sc) (\<lambda>t. st_scale (dt2_time t) = sc)" for n
    unfolding read_datetime2_def
    by (intro ensures_if ensures_rfail ensures_bind_mid [OF t] ensures_bind ensures_rret) simp
  show "ensures (read_datetime_offset ops n sc) (\<lambda>t. st_scale (dt2_time (dto_datetime2 t)) = sc)"
    unfolding read_datetime_offset_def
    by (intro ensures_if ensures_rfail ensures_bind_mid [OF d] ensures_bind ensures_rret) simp
qed

lemma scaled_fits: "P CV_Null \<Longrightarrow> (\<And>sc. get_scale c = Some sc \<Longrightarrow> ensures (f sc) P) \<Longrightarrow> ensures (scaled c f n) P"
  unfolding scaled_def by (intro ensures_if ensures_rret ensures_option ensures_rfail) auto

lemma decimal_data_fits:
  "ensures (read_decimal_data ops n p sc) (\<lambda>v. \<forall>d. v = Some d \<longrightarrow> decimal_metadata_is_valid p sc \<and> dp_precision d = p \<and> dp_scale d = sc)"
  unfolding read_decimal_data_def Let_def by (intro ensures_rules; simp)

lemma decimal_fits: "ensures (read_decimal ops c) (\<lambda>v. \<forall>d. v = Some d \<longrightarrow> decimal_fits c d)"
  unfolding read_decimal_def
proof (rule ensures_bind)
  fix len
  show "ensures (case ti_variant (cm_type_info c) of VarLenPrecisionScale _ _ precision scale \<Rightarrow> read_decimal_data ops len precision scale
       | _ \<Rightarrow> rfail (ProtocolError ''Invalid type info variant for Decimal/Numeric: expected VarLenPrecisionScale''))
     (\<lambda>v. \<forall>d. v = Some d \<longrightarrow> decimal_fits c d)"
    by (cases "ti_variant (cm_type_info c)")
       (auto intro!: ensures_rfail ensures_weaken [OF decimal_data_fits] simp: decimal_fits_def get_precision_def get_scale_def)
qed

lemma string_fits: "ensures (decode_string ops c) (\<lambda>v. v = CV_Null \<or> string_fits c v)"
  unfolding decode_string_def
proof (rule ensures_bind_mid [where Q = "\<lambda>e. get_encoding_type c = Inr e"])
  show "ensures (rlift (get_encoding_type c)) (\<lambda>e. get_encoding_type c = Inr e)" by (rule ensures_rlift)
  have s: "ensures (rmap (string_or_null e) m) (\<lambda>v. v = CV_Null \<or> string_fits c v)" if "get_encoding_type c = Inr e" for e and m :: "('s, bytes option) action"
    using that by (intro ensures_bind ensures_rret) (auto simp: string_or_null_def or_null_def string_fits_def split: option.split)
  show "get_encoding_type c = Inr e \<Longrightarrow> ensures (if is_plp c then rmap (string_or_null e) (read_plp_bytes ops)
       else if is_long_len_type (cm_data_type c) then rmap (string_or_null e) (read_text ops)
       else rmap (string_or_null e) (read_u16_len ops)) (\<lambda>v. v = CV_Null \<or> string_fits c v)" for e
    by (intro ensures_if s)
qed

lemma binary_fits: "ensures (read_binary ops) (\<lambda>v. v = CV_Null \<or> (\<exists>x. v = CV_Bytes x))"
  unfolding read_binary_def by (intro ensures_rules; simp)

lemma or_null_fits: "(\<And>x. P (f x)) \<Longrightarrow> ensures (rmap (or_null f) m) (\<lambda>v. v = CV_Null \<or> P v)"
  by (intro ensures_bind ensures_rret) (auto simp: or_null_def split: option.split)

lemma plp_only_fits: "(\<And>x. P (f x)) \<Longrightarrow> ensures (read_plp_only ops c f) (\<lambda>v. v = CV_Null \<or> P v)"
  unfolding read_plp_only_def by (intro ensures_if ensures_rfail or_null_fits)

lemma vector_fits: "ensures (decode_vector hf ops c) (\<lambda>v. v = CV_Null \<or> (\<exists>x. v = CV_Vector x \<and> vector_fits c x))"
proof -
  have b: "ensures (rlift (try_from_raw hf f ver b bs)) (\<lambda>x. validate_dimensions x = Inr () \<and> vector_base_type_try_from b = Inr (sv_base_type x) \<and>
      total_size x = VECTOR_HEADER_SIZE + length bs)" for f ver b bs
    by (rule ensures_rlift) (rule try_from_raw_fits)
  have m: "ensures (rlift (vector_base_in_metadata c)) (\<lambda>b. get_scale c = Some b)"
    by (rule ensures_rlift) (auto simp: vector_base_in_metadata_def get_scale_def split: type_info_variant.splits)
  have "ensures (read_vector_body hf ops c n f ver dims b) (\<lambda>v. v = CV_Null \<or> (\<exists>x. v = CV_Vector x \<and> vector_fits c x))" for n f ver dims b
    unfolding read_vector_body_def
    by (intro ensures_bind [where m = "rlift (vector_layout_format_try_from f)"] ensures_bind [where m = "rlift (vector_layout_version_try_from ver)"]
        ensures_bind_mid [OF m] ensures_bind [where m = "rlift (vector_base_type_try_from b)"]
        ensures_bind_mid [OF bytes_ensures] ensures_bind_mid [OF b] ensures_if ensures_rfail ensures_rret)
       (auto simp: vector_fits_def)
  then show ?thesis unfolding decode_vector_def by (intro ensures_rules; simp)
qed

lemma decode_scalar_fits: "cm_data_type c \<noteq> DT_SsVariant \<Longrightarrow> ensures (decode_scalar hf ops c) (value_fits c)"
  unfolding decode_scalar_def value_fits_def
  by (cases "cm_data_type c")
     (simp_all only: tds_data_type.case simp_thms,
      (intro string_fits binary_fits vector_fits plp_only_fits ensures_rfail ensures_if
        ensures_rmap [OF ensures_True] ensures_bind [OF nullable_fits(1)] ensures_bind [OF nullable_fits(2)] ensures_bind [OF nullable_fits(3)]
        ensures_bind [OF nullable_fits(4)] ensures_bind [OF nullable_fits(5)] ensures_bind [OF nullable_fits(6)] ensures_bind [OF guid_fits]
        or_null_fits ensures_rmap [OF ensures_weaken [OF decimal_fits]] ensures_bind [OF scaled_fits]
        ensures_rmap [OF ensures_weaken [OF time_fits(1)]] ensures_rmap [OF ensures_weaken [OF time_fits(2)]] ensures_rmap [OF ensures_weaken [OF time_fits(3)]];
       auto simp: or_null_def split: option.splits)+)

lemma fixed_fits:
  "fixed_length_types_try_from t = Inr f \<Longrightarrow>
   ensures (decode_scalar hf ops (fixed_metadata t f n)) (\<lambda>v. (\<forall>x. v \<noteq> CV_Xml x) \<and> (\<forall>x. v \<noteq> CV_Json x) \<and> (\<forall>x. v \<noteq> CV_Vector x))"
  by (rule ensures_weaken [OF decode_scalar_fits];
      cases t; auto simp: fixed_length_types_try_from_def fixed_metadata_def value_fits_def)

lemma variant_value_fits:
  "ensures (decode_variant_value hf ops t p n) (\<lambda>v. (\<forall>x. v \<noteq> CV_Xml x) \<and> (\<forall>x. v \<noteq> CV_Json x) \<and> (\<forall>x. v \<noteq> CV_Vector x))"
proof -
  have z: "ensures (decode_zero_propbyte_variant hf ops t n) (\<lambda>v. (\<forall>x. v \<noteq> CV_Xml x) \<and> (\<forall>x. v \<noteq> CV_Json x) \<and> (\<forall>x. v \<noteq> CV_Vector x))"
    unfolding decode_zero_propbyte_variant_def
    by (cases "fixed_length_types_try_from t")
       (auto intro!: fixed_fits ensures_if ensures_rfail ensures_weaken [OF guid_fits] ensures_weaken [OF nullable_fits(4)])
  have o: "ensures (decode_one_byte_variant ops t n) (\<lambda>v. (\<forall>x. v \<noteq> CV_Xml x) \<and> (\<forall>x. v \<noteq> CV_Json x) \<and> (\<forall>x. v \<noteq> CV_Vector x))"
    unfolding decode_one_byte_variant_def by (intro ensures_rules; simp)
  have tw: "ensures (decode_two_propbyte_variant ops t n) (\<lambda>v. (\<forall>x. v \<noteq> CV_Xml x) \<and> (\<forall>x. v \<noteq> CV_Json x) \<and> (\<forall>x. v \<noteq> CV_Vector x))"
    unfolding decode_two_propbyte_variant_def by (intro ensures_rules; simp add: or_null_def split: option.splits)
  have sv: "ensures (decode_seven_propbyte_variant ops t n) (\<lambda>v. (\<forall>x. v \<noteq> CV_Xml x) \<and> (\<forall>x. v \<noteq> CV_Json x) \<and> (\<forall>x. v \<noteq> CV_Vector x))"
    unfolding decode_seven_propbyte_variant_def by (intro ensures_rules; simp)
  show ?thesis unfolding decode_variant_value_def by (intro ensures_if z o tw sv ensures_rfail)
qed

lemma decode_fits: "ensures (decode hf ops c) (value_fits c)"
proof (cases "cm_data_type c = DT_SsVariant")
  case True
  have "ensures (read_sql_variant_with_base hf ops) (\<lambda>(b, v). (\<forall>x. v \<noteq> CV_Xml x) \<and> (\<forall>x. v \<noteq> CV_Json x) \<and> (\<forall>x. v \<noteq> CV_Vector x))"
    unfolding read_sql_variant_with_base_def
    by (intro ensures_if ensures_rret ensures_bind_mid [OF variant_value_fits] ensures_bind) auto
  then have "ensures (read_sql_variant hf ops) (value_fits c)"
    unfolding read_sql_variant_def by (rule ensures_rmap [OF ensures_weaken]) (auto simp: value_fits_def True)
  with True show ?thesis by (simp add: decode_def)
next
  case False
  then show ?thesis by (simp add: decode_def decode_scalar_fits)
qed

end


text \<open>
  C21. The value decoder is type safe. For a column with well-formed metadata and whatever the peer
  sends, decoding a value returns without a panic, and a value it returns is one of the column's
  type: the constructor matches the type (or is NULL where the type admits it), decimals carry the
  column's valid precision and scale, times its scale, strings its encoding, identifiers sixteen
  bytes, and vectors have the declared base type and size within the limits.
\<close>

theorem decode_type_safe:
  assumes "column_wf c" and "reader_safe r" and "decode hf network_ops c r = (x, r')"
  shows "x \<noteq> Inl Panic \<and> x \<noteq> Inl Diverge \<and> reader_safe r' \<and> (\<forall>v. x = Inr v \<longrightarrow> value_fits c v)"
  using tameD [OF net.decode_tame [OF assms(1)] assms(2), of hf] ensuresD [OF net.decode_fits [of hf c]] assms(3)
  by (auto simp: guarded_def)

definition guid_column :: column_metadata where
  "guid_column = \<lparr>cm_user_type = 0, cm_flags = 1, cm_type_info = \<lparr>ti_tds_type = DT_Guid, ti_length = 16, ti_variant = VarLen VL_Guid 16\<rparr>,
     cm_data_type = DT_Guid, cm_column_name = [], cm_multi_part_name = None, cm_crypto_metadata = None\<rparr>"

theorem decode_type_safe_witness:
  "\<exists>x r'. decode (\<lambda>_. 0) network_ops guid_column hostile_reader = (x, r') \<and> x \<noteq> Inl Panic \<and> x \<noteq> Inl Diverge \<and> reader_safe r'"
proof -
  have w: "column_wf guid_column"
    by (simp add: guid_column_def column_wf_def type_info_wf_def variable_length_types_try_from_def plain_var_len_def may_be_plp_def)
  obtain x r' where "decode (\<lambda>_. 0) network_ops guid_column hostile_reader = (x, r')" by (rule prod.exhaust)
  with decode_type_safe [OF w hostile_reader_safe this] show ?thesis by blast
qed

end
