(* ===== verification/Decoder_Writers.thy ===== *)
theory Decoder_Writers
  imports Decoder_Laws
begin

text \<open>
  Decoding into a row writer (\<^verbatim>\<open>decode_into\<close>) and decoding to a value (\<^verbatim>\<open>decode\<close>) are two copies of the
  type switch; here they agree. The row writer path borrows a value that is wholly buffered, and the
  locale \<open>slice_source\<close> states what it relies on: a borrowed slice is what a copy would have read.
\<close>

section \<open>Borrowing from the buffer\<close>

locale slice_source = safe_source ops safe for ops :: "'s packet_reader_ops" and safe +
  assumes slice_returns: "safe s \<Longrightarrow> \<exists>x s'. rd_try_slice ops n s = (Inr x, s')"
    and slice_is_bytes: "safe s \<Longrightarrow> 0 < n \<Longrightarrow> rd_try_slice ops n s = (Inr (Some bs), s') \<Longrightarrow> rd_bytes ops n s = (Inr bs, s')"
    and slice_none: "safe s \<Longrightarrow> rd_try_slice ops n s = (Inr None, s') \<Longrightarrow> s' = s"
    and bytes_zero: "rd_bytes ops 0 s = (Inr [], s)"

lemma consume_consume:
  assumes "rb_inv b" "j + k \<le> get_remaining_byte_count b" "0 < k"
  shows "consume_bytes k (snd (consume_bytes j b)) = consume_bytes (j + k) b"
  using assms by (auto simp: consume_bytes_def rb_inv_def get_remaining_byte_count_def)

lemma buffered_bytes:
  "reader_safe r \<Longrightarrow> 0 < n - length acc \<Longrightarrow> n - length acc \<le> length (unread (nr_buf r)) \<Longrightarrow>
   read_bytes_loop n acc e r =
     (Inr (acc @ take (n - length acc) (unread (nr_buf r))), r\<lparr>nr_buf := snd (consume_bytes (n - length acc) (nr_buf r))\<rparr>)"
proof (induction "n - length acc" arbitrary: acc r rule: less_induct)
  case less
  let ?b = "nr_buf r"
  define left where "left = n - length acc"
  define t where "t = min left (max_packet_size ?b - 8)"
  note inv = less.prems(1) [unfolded reader_safe_def]
  have rem: "get_remaining_byte_count ?b = length (unread ?b)" using inv length_unread by simp
  have t: "0 < t" "t \<le> left" "left \<le> length (unread ?b)" using less.prems inv by (auto simp: t_def left_def)
  have nt: "\<not> value_truncated_by_message_end (acc \<noteq> []) left r"
    using t rem by (simp add: value_truncated_by_message_end_def message_cannot_satisfy_def)
  have br: "bulk_round (min (max_packet_size ?b) left) left r = (Inr t, r)"
    using t rem inv by (auto simp: bulk_round_def rbind_def do_we_have_enough_data_def t_def min_def)
  from consume_ok [of ?b t] inv t obtain b where b: "consume_bytes t ?b = (Inr (), b)" "rb_inv b" "unread b = drop t (unread ?b)"
    "max_packet_size b = max_packet_size ?b" by auto
  have "buffer_position ?b + t \<le> length (working_buffer ?b)" "seg (buffer_position ?b) (buffer_position ?b + t) (working_buffer ?b) = take t (unread ?b)"
    using inv rem t by (auto simp: rb_inv_def get_remaining_byte_count_def unread_def take_seg)
  then have co: "copy_out t r = (Inr (take t (unread ?b)), r\<lparr>nr_buf := b\<rparr>)"
    using b(1) by (simp add: copy_out_def slice_get_def rbind_def on_buf_def)
  define acc' where "acc' = acc @ take t (unread ?b)"
  have left': "n - length acc' = left - t" using t by (simp add: acc'_def left_def)
  have step: "read_bytes_loop n acc e r = read_bytes_loop n acc' e (r\<lparr>nr_buf := b\<rparr>)"
    using nt br co t less.prems(2) by (subst read_bytes_loop.simps) (simp add: Let_def rbind_def left_def [symmetric] acc'_def)
  show ?case
  proof (cases "t = left")
    case True
    then have "read_bytes_loop n acc' e (r\<lparr>nr_buf := b\<rparr>) = (Inr acc', r\<lparr>nr_buf := b\<rparr>)"
      using left' by (subst read_bytes_loop.simps) simp
    with step True b(1) show ?thesis by (simp add: acc'_def left_def)
  next
    case False
    have "read_bytes_loop n acc' e (r\<lparr>nr_buf := b\<rparr>) =
        (Inr (acc' @ take (left - t) (unread b)), r\<lparr>nr_buf := snd (consume_bytes (left - t) b)\<rparr>)"
      using less.hyps [of acc' "r\<lparr>nr_buf := b\<rparr>"] False t b inv left' by (simp add: left_def [symmetric] reader_safe_def)
    moreover have "consume_bytes (left - t) b = consume_bytes left ?b"
      using consume_consume [of ?b t "left - t"] False t rem inv b(1) by simp
    moreover have "take t (unread ?b) @ take (left - t) (drop t (unread ?b)) = take left (unread ?b)"
      using t by (metis le_add_diff_inverse take_add)
    ultimately show ?thesis using step b(3) by (simp add: acc'_def left_def [symmetric])
  qed
qed

lemma network_slice:
  assumes "reader_safe r"
  shows "rd_try_slice network_ops n r =
    (if n \<le> length (unread (nr_buf r)) then (Inr (Some (take n (unread (nr_buf r)))), r\<lparr>nr_buf := snd (consume_bytes n (nr_buf r))\<rparr>)
     else (Inr None, r))"
proof -
  have inv: "rb_inv (nr_buf r)" using assms by (simp add: reader_safe_def)
  show ?thesis
  proof (cases "n \<le> length (unread (nr_buf r))")
    case True
    from try_read_array_Some [OF inv True] consume_ok [OF inv True] have "try_read_array n (nr_buf r) = (Inr (Some (take n (unread (nr_buf r)))), snd (consume_bytes n (nr_buf r)))"
      by (auto simp: try_read_array_def split: if_splits option.splits)
    with True show ?thesis by (simp add: network_try_slice [OF assms] on_buf_def)
  next
    case False
    then show ?thesis using try_read_array_None [OF inv, of n] by (simp add: network_try_slice [OF assms] on_buf_def)
  qed
qed

interpretation net: slice_source network_ops reader_safe
proof (unfold_locales, goal_cases)
  case (1 s n)
  then show ?case by (simp add: network_slice)
next
  case (2 s n bs s')
  then have "n \<le> length (unread (nr_buf s))" "bs = take n (unread (nr_buf s))" "s' = s\<lparr>nr_buf := snd (consume_bytes n (nr_buf s))\<rparr>"
    by (simp_all add: network_slice split: if_splits)
  then show ?case using buffered_bytes [of s n "[]" 0] 2 by (simp add: network_ops_def read_bytes_def)
next
  case (3 s n s')
  then show ?case by (simp add: network_slice split: if_splits)
next
  case (4 s)
  then show ?case by (simp add: network_ops_def read_bytes_def read_bytes_loop.simps)
qed


section \<open>The two switches agree\<close>

text \<open>A borrowed empty value may leave the buffer's cursor reset where a copy leaves it in place.\<close>

definition empty_value :: "column_values \<Rightarrow> bool" where
  "empty_value v \<longleftrightarrow> v = CV_Bytes [] \<or> (\<exists>e. v = CV_String (sql_string_new [] e))"

text \<open>The state after an empty slice was taken.\<close>

definition emptied :: "'s packet_reader_ops \<Rightarrow> 's \<Rightarrow> 's \<Rightarrow> bool" where
  "emptied ops s s' \<longleftrightarrow> rd_try_slice ops 0 s = (Inr (Some []), s')"

definition same_row :: "'s packet_reader_ops \<Rightarrow> row_writer \<Rightarrow> row_writer tds_result \<times> 's \<Rightarrow> column_values tds_result \<times> 's \<Rightarrow> bool" where
  "same_row ops w x y \<longleftrightarrow>
     (case y of (Inl e, s1) \<Rightarrow> x = (Inl e, s1)
      | (Inr v, s1) \<Rightarrow> \<exists>w' s2. x = (Inr w', s2) \<and> rw_row w' = rw_row w @ [v] \<and> (s2 = s1 \<or> empty_value v \<and> emptied ops s1 s2))"

lemma write_value_row [simp]: "rw_row (write_value v w) = rw_row w @ [v]" "rw_row (write_variant_base_type b w) = rw_row w"
  by (simp_all add: write_value_def write_variant_base_type_def)

lemma same_row_put: "same_row ops w (put w f m s) (rmap f m s)"
  by (cases "m s"; cases "fst (m s)") (auto simp: same_row_def rbind_def)

lemma same_row_eq: "x = rmap (\<lambda>v. write_value v w) m s \<Longrightarrow> same_row ops w x (m s)"
  by (cases "m s"; cases "fst (m s)") (auto simp: same_row_def rbind_def)

lemma same_row_bind:
  assumes "\<And>v s'. m s = (Inr v, s') \<Longrightarrow> same_row ops w (f v s') (g v s')"
  shows "same_row ops w (rbind m f s) (rbind m g s)"
  using assms by (cases "m s"; cases "fst (m s)") (auto simp: same_row_def rbind_def)

lemma plp_into_eq: "plp_into ops f w = rmap (\<lambda>v. write_value v w) (rmap (or_null f) (read_plp_bytes ops))"
  unfolding plp_into_def read_plp_bytes_def rbind_assoc rbind_rret
  by (rule arg_cong [where f = "rbind (read_plp_framing ops)"])
     (auto simp: fun_eq_iff or_null_def rbind_assoc simp del: rret_apply split: plp_framing.splits)

lemma guid_into_eq: "guid_into ops w = (\<lambda>len. rmap (\<lambda>v. write_value v w) (read_guid ops len))"
  by (auto simp: fun_eq_iff guid_into_def read_guid_def rbind_assoc validate_alloc_size_def MAX_ALLOC_SIZE_def word_gt_0
      simp del: rret_apply)

context slice_source
begin

lemma slice_same:
  assumes "safe s" "n = 0 \<Longrightarrow> empty_value (f [])"
  shows "same_row ops w (put w f (slice_or_bytes ops n) s) (rmap f (rd_bytes ops n) s)"
proof -
  from slice_returns [OF assms(1)] obtain x s' where x: "rd_try_slice ops n s = (Inr x, s')" by blast
  show ?thesis
  proof (cases x)
    case None
    with x slice_none assms(1) have "s' = s" by blast
    with x None have "slice_or_bytes ops n s = rd_bytes ops n s" by (simp add: slice_or_bytes_def rbind_def)
    then show ?thesis using same_row_put [where ops = ops and w = w and f = f and m = "rd_bytes ops n" and s = s] by (simp add: rbind_def)
  next
    case (Some bs)
    then have sl: "slice_or_bytes ops n s = (Inr bs, s')" using x by (simp add: slice_or_bytes_def rbind_def)
    show ?thesis
    proof (cases "n = 0")
      case True
      then have "bs = []" using try_slice_length [OF assms(1)] x Some by fastforce
      moreover from this x Some True have "emptied ops s s'" by (simp add: emptied_def)
      ultimately show ?thesis using sl True assms(2) bytes_zero by (simp add: same_row_def rbind_def)
    next
      case False
      then have "rd_bytes ops n s = (Inr bs, s')" using slice_is_bytes [OF assms(1)] x Some by simp
      with sl show ?thesis by (simp add: same_row_def rbind_def)
    qed
  qed
qed

lemma binary_into_same: "safe s \<Longrightarrow> same_row ops w (binary_into ops w s) (read_binary ops s)"
  unfolding binary_into_def read_binary_def
proof (intro same_row_bind)
  fix len s1 n s2 assume s: "safe s" "rd_u16 ops s = (Inr len, s1)" "rlift (binary_len len) s1 = (Inr n, s2)"
  then have "safe s2" using u16_safe [of s] by (auto simp: guarded_def rlift_def split: sum.splits)
  then show "same_row ops w ((case n of None \<Rightarrow> rret (write_value CV_Null w) | Some k \<Rightarrow> put w CV_Bytes (slice_or_bytes ops k)) s2)
      ((case n of None \<Rightarrow> rret CV_Null | Some k \<Rightarrow> rmap CV_Bytes (rd_bytes ops k)) s2)"
    by (cases n) (auto simp: same_row_def [of ops w "(Inr (write_value CV_Null w), s2)"] intro!: slice_same simp: empty_value_def)
qed

lemma string_into_same: "safe s \<Longrightarrow> same_row ops w (decode_string_into ops c w s) (decode_string ops c s)"
  unfolding decode_string_into_def decode_string_def
proof (rule same_row_bind)
  fix enc s1 assume s: "safe s" and e: "rlift (get_encoding_type c) s = (Inr enc, s1)"
  then have s1: "safe s1" by (auto simp: rlift_def split: sum.splits)
  have sn: "string_or_null enc = or_null (\<lambda>bs. CV_String (sql_string_new bs enc))" by (simp add: string_or_null_def)
  have "same_row ops w (rbind (rd_u16 ops) (\<lambda>len. if len = 0xFFFF then rret (write_value CV_Null w)
         else put w (\<lambda>bs. CV_String (sql_string_new bs enc)) (slice_or_bytes ops (unat len))) s1)
      (rbind (rd_u16 ops) (\<lambda>len. if len = 0xFFFF then rret CV_Null else rmap (\<lambda>bs. CV_String (sql_string_new bs enc)) (rd_bytes ops (unat len))) s1)"
  proof (rule same_row_bind)
    fix len s2 assume "rd_u16 ops s1 = (Inr len, s2)"
    then have s2: "safe s2" using u16_safe [OF s1] by (simp add: guarded_def)
    have z: "empty_value (CV_String (sql_string_new [] enc))" by (auto simp: empty_value_def)
    show "same_row ops w ((if len = 0xFFFF then rret (write_value CV_Null w) else put w (\<lambda>bs. CV_String (sql_string_new bs enc)) (slice_or_bytes ops (unat len))) s2)
        ((if len = 0xFFFF then rret CV_Null else rmap (\<lambda>bs. CV_String (sql_string_new bs enc)) (rd_bytes ops (unat len))) s2)"
      using slice_same [OF s2, of "unat len" "\<lambda>bs. CV_String (sql_string_new bs enc)" w] z by (simp add: same_row_def)
  qed
  moreover have "rmap (string_or_null enc) (read_u16_len ops) =
      rbind (rd_u16 ops) (\<lambda>len. if len = 0xFFFF then rret CV_Null else rmap (\<lambda>bs. CV_String (sql_string_new bs enc)) (rd_bytes ops (unat len)))"
    unfolding read_u16_len_def rbind_assoc sn by (rule arg_cong [where f = "rbind (rd_u16 ops)"]) (auto simp: fun_eq_iff or_null_def rbind_assoc simp del: rret_apply)
  ultimately show "same_row ops w ((if is_plp c then plp_into ops (\<lambda>bs. CV_String (sql_string_new bs enc)) w
       else if is_long_len_type (cm_data_type c) then put w (string_or_null enc) (read_text ops)
       else rbind (rd_u16 ops) (\<lambda>len. if len = 0xFFFF then rret (write_value CV_Null w)
         else put w (\<lambda>bs. CV_String (sql_string_new bs enc)) (slice_or_bytes ops (unat len)))) s1)
     ((if is_plp c then rmap (string_or_null enc) (read_plp_bytes ops)
       else if is_long_len_type (cm_data_type c) then rmap (string_or_null enc) (read_text ops)
       else rmap (string_or_null enc) (read_u16_len ops)) s1)"
    using same_row_put [where ops = ops and w = w and f = "string_or_null enc" and m = "read_text ops" and s = s1]
    by (auto simp: plp_into_eq sn intro: same_row_eq)
qed

lemma decode_into_same:
  assumes "safe s"
  shows "same_row ops w (decode_into hf ops c w s) (decode hf ops c s)"
proof -
  consider "string_type (cm_data_type c)" | "cm_data_type c = DT_BigBinary \<or> cm_data_type c = DT_BigVarBinary" | "cm_data_type c = DT_SsVariant"
    | "decode_into hf ops c w = rmap (\<lambda>v. write_value v w) (decode hf ops c)"
    by (cases "cm_data_type c")
       (auto simp: string_type_def decode_into_def decode_def decode_scalar_def guid_into_eq rbind_assoc simp del: rret_apply)
  then show ?thesis
  proof cases
    case 1
    then show ?thesis using string_into_same [OF assms, of w c]
      by (auto simp: string_type_def decode_into_def decode_def decode_scalar_def)
  next
    case 2
    then show ?thesis using binary_into_same [OF assms, of w] same_row_eq [where ops = ops and w = w and m = "rmap (or_null CV_Bytes) (read_plp_bytes ops)" and s = s]
      by (auto simp: decode_into_def decode_def decode_scalar_def plp_into_eq)
  next
    case 3
    then show ?thesis
      by (cases "read_sql_variant_with_base hf ops s"; cases "fst (read_sql_variant_with_base hf ops s)")
         (auto simp: decode_into_def decode_def read_sql_variant_def same_row_def rbind_def split: option.splits)
  next
    case 4
    then show ?thesis by (intro same_row_eq) simp
  qed
qed

end

text \<open>
  C13. Decoding into a row writer writes the value that decoding returns. For every column and every
  input, \<^verbatim>\<open>decode_into\<close> with the default writer fails exactly when \<^verbatim>\<open>decode\<close> fails, with the same error,
  and otherwise appends to the row exactly the value \<^verbatim>\<open>decode\<close> returns; both leave the transport in
  the same state, except that an empty value may have been taken as an empty slice of the buffer.
\<close>

theorem decode_into_writes_decoded:
  assumes "reader_safe r"
  shows "case decode hf network_ops c r of
      (Inl e, r1) \<Rightarrow> decode_into hf network_ops c w r = (Inl e, r1)
    | (Inr v, r1) \<Rightarrow> \<exists>w' r2. decode_into hf network_ops c w r = (Inr w', r2) \<and> rw_row w' = rw_row w @ [v] \<and> (r2 = r1 \<or> empty_value v \<and> emptied network_ops r1 r2)"
  using net.decode_into_same [OF assms, of w hf c] by (simp add: same_row_def)

theorem decode_into_writes_decoded_witness:
  "\<exists>w' r2 r1 v. decode (\<lambda>_. 0) network_ops guid_column (one_packet_reader [0]) = (Inr v, r1) \<and>
     decode_into (\<lambda>_. 0) network_ops guid_column row_writer_new (one_packet_reader [0]) = (Inr w', r2) \<and> rw_row w' = [CV_Null]"
proof -
  have "reader_safe (one_packet_reader [0])" by (simp add: one_packet_reader_def reader_safe_def) (simp add: rb_new_def)
  moreover obtain r1 where "read_byte (one_packet_reader [0]) = (Inr 0, r1)"
    using net_byte [of "[]" 0 "[]"] one_packet_supplies [of "[0]"] by auto
  then have "decode (\<lambda>_. 0) network_ops guid_column (one_packet_reader [0]) = (Inr CV_Null, r1)"
    by (simp add: decode_def decode_scalar_def guid_column_def rbind_def read_guid_def network_ops_def)
  ultimately show ?thesis
    using decode_into_writes_decoded [of "one_packet_reader [0]" "\<lambda>_. 0" guid_column row_writer_new] by (auto simp: row_writer_new_def)
qed

end
