(* ===== verification/Buffered_Decoder.thy ===== *)
theory Buffered_Decoder
  imports Decoder_Writers
begin

text \<open>
  The synchronous decoder of values that are already buffered: \<^verbatim>\<open>BufferedSlice\<close>,
  \<^verbatim>\<open>try_decode_buffered\<close>, \<^verbatim>\<open>try_decode_buffered_variant\<close> and \<^verbatim>\<open>try_decode_buffered_into\<close> of
  \<^verbatim>\<open>mssql-tds/src/datatypes/decoder.rs\<close>, and its agreement with the decoder that awaits the transport.
  An answer \<open>None\<close> means that bytes are missing or that the type needs the other decoder.
\<close>

section \<open>Reading a slice\<close>

text \<open>The slice and the number of bytes tentatively consumed.\<close>

type_synonym buffered_slice_reader = "bytes \<times> nat"

definition obind :: "('s, 'a option) action \<Rightarrow> ('a \<Rightarrow> ('s, 'b option) action) \<Rightarrow> ('s, 'b option) action" where
  "obind m f = rbind m (\<lambda>r. case r of None \<Rightarrow> rret None | Some v \<Rightarrow> f v)"

definition oret :: "'a \<Rightarrow> ('s, 'a option) action" where
  "oret v = rret (Some v)"

abbreviation omap :: "('a \<Rightarrow> 'b) \<Rightarrow> ('s, 'a option) action \<Rightarrow> ('s, 'b option) action" where
  "omap f m \<equiv> obind m (\<lambda>v. oret (f v))"

definition take_slice :: "nat \<Rightarrow> (buffered_slice_reader, bytes option) action" where
  "take_slice len st =
     (if 2 ^ 64 \<le> snd st + len then (Inr None, st)
      else case slice_get (snd st) (snd st + len) (fst st) of
          None \<Rightarrow> (Inr None, st)
        | Some bs \<Rightarrow> (Inr (Some bs), (fst st, snd st + len)))"

definition bs_byte :: "(buffered_slice_reader, u8 option) action" where "bs_byte = omap hd (take_slice 1)"
definition bs_u16 :: "(buffered_slice_reader, u16 option) action" where "bs_u16 = omap from_le_u16 (take_slice 2)"
definition bs_u24 :: "(buffered_slice_reader, u32 option) action" where "bs_u24 = omap le_u24 (take_slice 3)"
definition bs_u32 :: "(buffered_slice_reader, u32 option) action" where "bs_u32 = omap from_le_u32 (take_slice 4)"
definition bs_u40 :: "(buffered_slice_reader, u64 option) action" where "bs_u40 = omap le_u40 (take_slice 5)"
definition bs_u64 :: "(buffered_slice_reader, u64 option) action" where "bs_u64 = omap from_le_u64 (take_slice 8)"


section \<open>The type switch\<close>

definition bs_intn :: "u8 \<Rightarrow> (buffered_slice_reader, column_values option) action" where
  "bs_intn len =
     (if len = 0 then oret CV_Null
      else if len = 1 then omap CV_TinyInt bs_byte
      else if len = 2 then omap CV_SmallInt bs_u16
      else if len = 4 then omap CV_Int bs_u32
      else if len = 8 then omap CV_BigInt bs_u64
      else rfail (ProtocolError ''Invalid IntN length''))"

definition bs_fltn :: "u8 \<Rightarrow> (buffered_slice_reader, column_values option) action" where
  "bs_fltn len =
     (if len = 0 then oret CV_Null else if len = 4 then omap CV_Real bs_u32 else omap CV_Float bs_u64)"

definition bs_bitn :: "u8 \<Rightarrow> (buffered_slice_reader, column_values option) action" where
  "bs_bitn len = (if len = 0 then oret CV_Null else omap (\<lambda>v. CV_Bit (v = 1)) bs_byte)"

definition bs_money8 :: "(buffered_slice_reader, sql_money option) action" where
  "bs_money8 = obind bs_u32 (\<lambda>msb. omap (\<lambda>lsb. \<lparr>lsb_part = lsb, msb_part = msb\<rparr>) bs_u32)"

definition bs_moneyn :: "u8 \<Rightarrow> (buffered_slice_reader, column_values option) action" where
  "bs_moneyn len =
     (if len = 0 then oret CV_Null
      else if len = 4 then omap CV_SmallMoney bs_u32
      else if len = 8 then omap CV_Money bs_money8
      else rfail (ProtocolError ''Invalid MoneyN length''))"

definition bs_small_datetime :: "(buffered_slice_reader, sql_small_date_time option) action" where
  "bs_small_datetime = obind bs_u16 (\<lambda>days. omap (\<lambda>time. \<lparr>sdt_days = days, sdt_time = time\<rparr>) bs_u16)"

definition bs_datetime :: "(buffered_slice_reader, sql_date_time option) action" where
  "bs_datetime = obind bs_u32 (\<lambda>days. omap (\<lambda>time. \<lparr>dt_days = days, dt_time = time\<rparr>) bs_u32)"

definition bs_datetimen :: "u8 \<Rightarrow> (buffered_slice_reader, column_values option) action" where
  "bs_datetimen len =
     (if len = 0 then oret CV_Null
      else if len = 4 then omap CV_SmallDateTime bs_small_datetime
      else omap CV_DateTime bs_datetime)"

definition bs_daten :: "u8 \<Rightarrow> (buffered_slice_reader, column_values option) action" where
  "bs_daten len = (if len = 0 then oret CV_Null else omap CV_Date bs_u24)"

definition bs_time :: "u8 \<Rightarrow> u8 \<Rightarrow> (buffered_slice_reader, sql_time option) action" where
  "bs_time time_length scale =
     omap (\<lambda>v. \<lparr>st_time_nanoseconds = scale_time_value v scale, st_scale = scale\<rparr>)
       (if time_length = 3 then omap ucast bs_u24
        else if time_length = 4 then omap ucast bs_u32
        else bs_u40)"

definition trailing :: "tds_data_type \<Rightarrow> u8" where
  "trailing t = (if t = DT_TimeN then 0 else if t = DT_DateTime2N then 3 else 5)"

definition bs_scaled :: "column_metadata \<Rightarrow> u8 \<Rightarrow> (buffered_slice_reader, column_values option) action" where
  "bs_scaled c len =
     (if len = 0 then oret CV_Null
      else case get_scale c of None \<Rightarrow> rfail (ImplementationError ''type should have scale'')
      | Some scale \<Rightarrow>
          if len < trailing (cm_data_type c) then rfail (ProtocolError ''Invalid time length'')
          else obind (bs_time (len - trailing (cm_data_type c)) scale) (\<lambda>time.
            if cm_data_type c = DT_TimeN then oret (CV_Time time)
            else obind bs_u24 (\<lambda>days.
              if cm_data_type c = DT_DateTime2N then oret (CV_DateTime2 \<lparr>dt2_days = days, dt2_time = time\<rparr>)
              else omap (\<lambda>offset. CV_DateTimeOffset \<lparr>dto_datetime2 = \<lparr>dt2_days = days, dt2_time = time\<rparr>, dto_offset = offset\<rparr>) bs_u16)))"

definition bs_guid :: "u8 \<Rightarrow> (buffered_slice_reader, column_values option) action" where
  "bs_guid len =
     (if len = 0 then oret CV_Null
      else if len \<noteq> 16 then rfail (ProtocolError ''Invalid GUID length: expected 16 bytes'')
      else omap CV_Uuid (take_slice 16))"

definition bs_decimal :: "column_metadata \<Rightarrow> (decimal_parts \<Rightarrow> column_values) \<Rightarrow> u8 \<Rightarrow> (buffered_slice_reader, column_values option) action" where
  "bs_decimal c f len =
     (case ti_variant (cm_type_info c) of
        VarLenPrecisionScale _ _ precision scale \<Rightarrow>
          if \<not> decimal_metadata_is_valid precision scale then rfail (ProtocolError ''Invalid decimal precision / scale'')
          else if len = 0 then oret CV_Null
          else obind bs_byte (\<lambda>sign.
            let magnitude_len = unat (len - 1) in
            if MAX_DECIMAL_INT_PARTS < decimal_int_parts magnitude_len
            then rfail (ProtocolError ''Decimal int parts exceeds maximum allowed'')
            else omap (\<lambda>bs. f (decimal_new (sign = 1) precision scale (le_u128 (zero_padded bs)))) (take_slice magnitude_len))
      | _ \<Rightarrow> rfail (ProtocolError ''Invalid type info variant for Decimal/Numeric: expected VarLenPrecisionScale''))"

definition bs_string :: "column_metadata \<Rightarrow> (buffered_slice_reader, column_values option) action" where
  "bs_string c =
     obind bs_u16 (\<lambda>len. if len = 0xFFFF then oret CV_Null
       else obind (take_slice (unat len)) (\<lambda>bs. rbind (rlift (get_encoding_type c)) (\<lambda>encoding. oret (CV_String (sql_string_new bs encoding)))))"

definition bs_binary :: "(buffered_slice_reader, column_values option) action" where
  "bs_binary = obind bs_u16 (\<lambda>len. if len = 0xFFFF then oret CV_Null else omap CV_Bytes (take_slice (unat len)))"

definition buffered_value :: "column_metadata \<Rightarrow> (buffered_slice_reader, column_values option) action" where
  "buffered_value c =
     (case cm_data_type c of
        DT_Int1 \<Rightarrow> omap CV_TinyInt bs_byte
      | DT_Int2 \<Rightarrow> omap CV_SmallInt bs_u16
      | DT_Int4 \<Rightarrow> omap CV_Int bs_u32
      | DT_Int8 \<Rightarrow> omap CV_BigInt bs_u64
      | DT_Flt4 \<Rightarrow> omap CV_Real bs_u32
      | DT_Flt8 \<Rightarrow> omap CV_Float bs_u64
      | DT_Bit \<Rightarrow> omap (\<lambda>v. CV_Bit (v = 1)) bs_byte
      | DT_IntN \<Rightarrow> obind bs_byte bs_intn
      | DT_FltN \<Rightarrow> obind bs_byte bs_fltn
      | DT_BitN \<Rightarrow> obind bs_byte bs_bitn
      | DT_Money4 \<Rightarrow> omap CV_SmallMoney bs_u32
      | DT_Money \<Rightarrow> omap CV_Money bs_money8
      | DT_MoneyN \<Rightarrow> obind bs_byte bs_moneyn
      | DT_DateTim4 \<Rightarrow> omap CV_SmallDateTime bs_small_datetime
      | DT_DateTime \<Rightarrow> omap CV_DateTime bs_datetime
      | DT_DateTimeN \<Rightarrow> obind bs_byte bs_datetimen
      | DT_DateN \<Rightarrow> obind bs_byte bs_daten
      | DT_TimeN \<Rightarrow> obind bs_byte (bs_scaled c)
      | DT_DateTime2N \<Rightarrow> obind bs_byte (bs_scaled c)
      | DT_DateTimeOffsetN \<Rightarrow> obind bs_byte (bs_scaled c)
      | DT_Guid \<Rightarrow> obind bs_byte bs_guid
      | DT_DecimalN \<Rightarrow> obind bs_byte (bs_decimal c CV_Decimal)
      | DT_NumericN \<Rightarrow> obind bs_byte (bs_decimal c CV_Numeric)
      | DT_NChar \<Rightarrow> bs_string c | DT_NVarChar \<Rightarrow> bs_string c | DT_BigChar \<Rightarrow> bs_string c
      | DT_BigVarChar \<Rightarrow> bs_string c | DT_Char \<Rightarrow> bs_string c | DT_VarChar \<Rightarrow> bs_string c
      | DT_BigBinary \<Rightarrow> bs_binary | DT_BigVarBinary \<Rightarrow> bs_binary
      | _ \<Rightarrow> rret None)"

text \<open>The outcome of a finished attempt: the value and the bytes it used.\<close>

definition attempt :: "(buffered_slice_reader, 'a option) action \<Rightarrow> bytes \<Rightarrow> ('a \<times> nat) option tds_result" where
  "attempt m bs =
     (case m (bs, 0) of
        (Inl e, _) \<Rightarrow> Inl e
      | (Inr None, _) \<Rightarrow> Inr None
      | (Inr (Some v), st) \<Rightarrow> Inr (Some (v, snd st)))"

definition try_decode_buffered :: "bytes \<Rightarrow> column_metadata \<Rightarrow> (column_values \<times> nat) option tds_result" where
  "try_decode_buffered bs c =
     (if is_plp c \<or> cm_crypto_metadata c \<noteq> None then Inr None else attempt (buffered_value c) bs)"


section \<open>Variants and row writers\<close>

definition variant_fixed :: "tds_data_type \<Rightarrow> nat \<Rightarrow> (buffered_slice_reader, column_values option) action" where
  "variant_fixed base data_length st =
     (case fixed_length_types_try_from base of
        Inl _ \<Rightarrow> (Inr None, st)
      | Inr f \<Rightarrow>
          (case try_decode_buffered (drop (snd st) (fst st)) (fixed_metadata base f data_length) of
             Inl e \<Rightarrow> (Inl e, st)
           | Inr None \<Rightarrow> (Inr None, st)
           | Inr (Some (v, used)) \<Rightarrow>
               if used \<noteq> data_length then (Inr None, st) else (Inr (Some v), (fst st, snd st + used))))"

definition variant_text :: "tds_data_type \<Rightarrow> nat \<Rightarrow> (buffered_slice_reader, column_values option) action" where
  "variant_text base data_length =
     obind (take_slice 5) (\<lambda>collation_bytes. obind bs_u16 (\<lambda>_. obind (take_slice data_length) (\<lambda>bs.
       if base = DT_NVarChar \<or> base = DT_NChar then oret (CV_String (sql_string_new bs Utf16))
       else rbind (rlift (collation_try_from collation_bytes)) (\<lambda>collation.
         oret (CV_String (sql_string_new bs (if utf8_flag collation then Utf8 else LcidBased collation)))))))"

definition variant_payload :: "nat \<Rightarrow> (buffered_slice_reader, (tds_data_type \<times> column_values) option) action" where
  "variant_payload len =
     obind bs_byte (\<lambda>base_byte. rbind (rlift (tds_data_type_try_from base_byte)) (\<lambda>base. obind bs_byte (\<lambda>property_bytes.
       if len < 2 + unat property_bytes then rfail (ProtocolError ''SQL_VARIANT data length calculation underflow'')
       else let data_length = len - (2 + unat property_bytes) in
         omap (Pair base)
           (if property_bytes = 0 then variant_fixed base data_length
            else if property_bytes = 7 \<and> variant_char_type base then variant_text base data_length
            else rret None))))"

definition try_decode_buffered_variant :: "bytes \<Rightarrow> (tds_data_type option \<times> column_values \<times> nat) option tds_result" where
  "try_decode_buffered_variant bs =
     (case attempt bs_u32 bs of
        Inl e \<Rightarrow> Inl e
      | Inr None \<Rightarrow> Inr None
      | Inr (Some (len, used)) \<Rightarrow>
          if len = 0 then Inr (Some (None, CV_Null, used))
          else case attempt (take_slice (unat len)) (drop used bs) of
              Inr (Some (payload, used2)) \<Rightarrow>
                (case attempt (variant_payload (unat len)) payload of
                   Inl e \<Rightarrow> Inl e
                 | Inr None \<Rightarrow> Inr None
                 | Inr (Some ((base, v), position)) \<Rightarrow>
                     if position \<noteq> length payload then Inr None else Inr (Some (Some base, v, used + used2)))
            | Inr None \<Rightarrow> Inr None
            | Inl e \<Rightarrow> Inl e)"

definition try_decode_buffered_into :: "bytes \<Rightarrow> column_metadata \<Rightarrow> row_writer \<Rightarrow> (row_writer \<times> nat) option tds_result" where
  "try_decode_buffered_into bs c w =
     (if is_plp c \<or> cm_crypto_metadata c \<noteq> None then Inr None
      else if cm_data_type c = DT_SsVariant then
        (case try_decode_buffered_variant bs of
           Inl e \<Rightarrow> Inl e
         | Inr None \<Rightarrow> Inr None
         | Inr (Some (base, v, used)) \<Rightarrow>
             Inr (Some (write_value v (case base of None \<Rightarrow> w | Some b \<Rightarrow> write_variant_base_type b w), used)))
      else case attempt (buffered_value c) bs of
          Inl e \<Rightarrow> Inl e
        | Inr None \<Rightarrow> Inr None
        | Inr (Some (v, used)) \<Rightarrow> Inr (Some (write_value v w, used)))"


section \<open>Agreement with the awaiting decoder\<close>

text \<open>
  \<open>mirrors\<close>: on a transport that will deliver what the slice still holds and more, an answer of the
  buffered step is the answer of the awaiting one, which then stands where the slice's position is;
  an error of the buffered step is an error of the awaiting one.
\<close>

definition mirrors :: "(bytes \<Rightarrow> 's \<Rightarrow> bool) \<Rightarrow> (buffered_slice_reader, 'a option) action \<Rightarrow> ('s, 'a) action \<Rightarrow> bool" where
  "mirrors supplies m m' \<longleftrightarrow>
     (\<forall>bs pos rest s. supplies (drop pos bs @ rest) s \<longrightarrow> pos \<le> length bs \<longrightarrow>
        (case m (bs, pos) of
           (Inl e, _) \<Rightarrow> \<exists>e'. fst (m' s) = Inl e'
         | (Inr None, _) \<Rightarrow> True
         | (Inr (Some v), st) \<Rightarrow> fst st = bs \<and> snd st \<le> length bs \<and>
             (\<exists>s'. m' s = (Inr v, s') \<and> supplies (drop (snd st) bs @ rest) s')))"

named_theorems mirror_rules \<open>buffered steps and the awaiting steps they agree with\<close>

lemma mirrors_bind [mirror_rules]:
  assumes m: "mirrors supplies m m'" and f: "\<And>v. mirrors supplies (f v) (g v)"
  shows "mirrors supplies (obind m f) (rbind m' g)"
  unfolding mirrors_def
proof (intro allI impI)
  fix bs pos rest s assume s: "supplies (drop pos bs @ rest) s" "pos \<le> length bs"
  obtain r st where r: "m (bs, pos) = (r, st)" by (rule prod.exhaust)
  note M = m [unfolded mirrors_def, rule_format, OF s, unfolded r]
  consider e where "r = Inl e" | "r = Inr None" | v where "r = Inr (Some v)" by (metis option.exhaust sum.exhaust)
  then show "case obind m f (bs, pos) of (Inl e, _) \<Rightarrow> \<exists>e'. fst (rbind m' g s) = Inl e' | (Inr None, _) \<Rightarrow> True
    | (Inr (Some v), st) \<Rightarrow> fst st = bs \<and> snd st \<le> length bs \<and> (\<exists>s'. rbind m' g s = (Inr v, s') \<and> supplies (drop (snd st) bs @ rest) s')"
  proof cases
    case 1
    then show ?thesis using r M by (cases "m' s") (auto simp: obind_def rbind_def)
  next
    case 2
    then show ?thesis using r by (simp add: obind_def rbind_def)
  next
    case 3
    then obtain s' where "fst st = bs" "snd st \<le> length bs" "m' s = (Inr v, s')" "supplies (drop (snd st) bs @ rest) s'" using M by auto
    note st = this
    from st have "rbind m' g s = g v s'" "obind m f (bs, pos) = f v (bs, snd st)"
      using r 3 by (auto simp: obind_def rbind_def)
    then show ?thesis using f [of v, unfolded mirrors_def, rule_format, OF st(4,2)] by (simp only:)
  qed
qed

lemma mirrors_oret [mirror_rules]: "mirrors supplies (oret v) (rret v)"
  by (auto simp: mirrors_def oret_def)

lemma mirrors_fail [mirror_rules]: "mirrors supplies (rfail e) (rfail e')"
  by (auto simp: mirrors_def)

lemma mirrors_None [mirror_rules]: "mirrors supplies (rret None) m"
  by (auto simp: mirrors_def)

lemma mirrors_if [mirror_rules]:
  "(b \<Longrightarrow> mirrors supplies m m') \<Longrightarrow> (\<not> b \<Longrightarrow> mirrors supplies n n') \<Longrightarrow> mirrors supplies (if b then m else n) (if b then m' else n')"
  by simp

lemma mirrors_rlift: "(\<And>v. r = Inr v \<Longrightarrow> mirrors supplies (f v) (g v)) \<Longrightarrow> mirrors supplies (rbind (rlift r) f) (rbind (rlift r) g)"
  by (cases r) (auto simp: mirrors_def rlift_def)

context packet_source
begin

lemma take_slice_mirrors:
  assumes "\<And>bs rest s. length bs = n \<Longrightarrow> supplies (bs @ rest) s \<Longrightarrow> \<exists>s'. m s = (Inr (f bs), s') \<and> supplies rest s'"
  shows "mirrors supplies (omap f (take_slice n)) m"
  unfolding mirrors_def
proof (intro allI impI)
  fix bs pos rest s assume s: "supplies (drop pos bs @ rest) s" "pos \<le> length bs"
  show "case omap f (take_slice n) (bs, pos) of (Inl e, _) \<Rightarrow> \<exists>e'. fst (m s) = Inl e' | (Inr None, _) \<Rightarrow> True
    | (Inr (Some v), st) \<Rightarrow> fst st = bs \<and> snd st \<le> length bs \<and> (\<exists>s'. m s = (Inr v, s') \<and> supplies (drop (snd st) bs @ rest) s')"
  proof (cases "pos + n < 2 ^ 64 \<and> pos + n \<le> length bs")
    case True
    then have t: "take_slice n (bs, pos) = (Inr (Some (seg pos (pos + n) bs)), (bs, pos + n))"
      by (simp add: take_slice_def slice_get_def)
    have l: "length (seg pos (pos + n) bs) = n" using True by simp
    with s(1) drop_seg_split [of pos bs n] assms [OF l, of "drop (pos + n) bs @ rest" s]
    obtain s' where "m s = (Inr (f (seg pos (pos + n) bs)), s')" "supplies (drop (pos + n) bs @ rest) s'" by auto
    with t True show ?thesis by (simp add: obind_def oret_def rbind_def)
  next
    case False
    then show ?thesis by (auto simp: take_slice_def slice_get_def obind_def oret_def rbind_def)
  qed
qed

lemma bytes_mirrors [mirror_rules]: "mirrors supplies (take_slice n) (rd_bytes ops n)"
proof -
  have "mirrors supplies (omap (\<lambda>x. x) (take_slice n)) (rd_bytes ops n)" by (rule take_slice_mirrors) (simp add: bytes)
  moreover have "omap (\<lambda>x. x) m = m" for m :: "(buffered_slice_reader, bytes option) action"
    by (auto simp: obind_def oret_def rbind_def fun_eq_iff split: prod.split sum.split option.split)
  ultimately show ?thesis by simp
qed

lemma hd_single: "length bs = Suc 0 \<Longrightarrow> bs = [hd bs]"
  by (cases bs) auto

lemma scalars_mirror [mirror_rules]:
  "mirrors supplies bs_byte (rd_byte ops)" "mirrors supplies bs_u16 (rd_u16 ops)" "mirrors supplies bs_u16 (rd_i16 ops)"
  "mirrors supplies bs_u24 (rd_u24 ops)" "mirrors supplies bs_u32 (rd_u32 ops)" "mirrors supplies bs_u32 (rd_i32 ops)" "mirrors supplies bs_u32 (rd_f32 ops)"
  "mirrors supplies bs_u40 (rd_u40 ops)" "mirrors supplies bs_u64 (rd_i64 ops)" "mirrors supplies bs_u64 (rd_f64 ops)"
  unfolding bs_byte_def bs_u16_def bs_u24_def bs_u32_def bs_u40_def bs_u64_def
proof (rule_tac [!] take_slice_mirrors)
  fix bs c s
  show "length bs = 1 \<Longrightarrow> supplies (bs @ c) s \<Longrightarrow> \<exists>s'. rd_byte ops s = (Inr (hd bs), s') \<and> supplies c s'"
    using byte [of "hd bs" c s] hd_single [of bs] by (cases bs) auto
  show "length bs = 2 \<Longrightarrow> supplies (bs @ c) s \<Longrightarrow> \<exists>s'. rd_u16 ops s = (Inr (from_le_u16 bs), s') \<and> supplies c s'"
    using u16 [of "from_le_u16 bs" c s] by (simp add: le16.enc_dec)
  show "length bs = 2 \<Longrightarrow> supplies (bs @ c) s \<Longrightarrow> \<exists>s'. rd_i16 ops s = (Inr (from_le_u16 bs), s') \<and> supplies c s'"
    using i16 [of "from_le_u16 bs" c s] by (simp add: le16.enc_dec)
  show "length bs = 4 \<Longrightarrow> supplies (bs @ c) s \<Longrightarrow> \<exists>s'. rd_u32 ops s = (Inr (from_le_u32 bs), s') \<and> supplies c s'"
    using u32 [of "from_le_u32 bs" c s] by (simp add: le32.enc_dec)
  show "length bs = 4 \<Longrightarrow> supplies (bs @ c) s \<Longrightarrow> \<exists>s'. rd_i32 ops s = (Inr (from_le_u32 bs), s') \<and> supplies c s'"
    using i32 [of "from_le_u32 bs" c s] by (simp add: le32.enc_dec)
  show "length bs = 4 \<Longrightarrow> supplies (bs @ c) s \<Longrightarrow> \<exists>s'. rd_f32 ops s = (Inr (from_le_u32 bs), s') \<and> supplies c s'"
    using f32 [of "from_le_u32 bs" c s] by (simp add: le32.enc_dec)
  show "length bs = 8 \<Longrightarrow> supplies (bs @ c) s \<Longrightarrow> \<exists>s'. rd_i64 ops s = (Inr (from_le_u64 bs), s') \<and> supplies c s'"
    using i64 [of "from_le_u64 bs" c s] by (simp add: le64.enc_dec)
  show "length bs = 8 \<Longrightarrow> supplies (bs @ c) s \<Longrightarrow> \<exists>s'. rd_f64 ops s = (Inr (from_le_u64 bs), s') \<and> supplies c s'"
    using f64 [of "from_le_u64 bs" c s] by (simp add: le64.enc_dec)
qed (auto simp: u24 u40)

lemma scaled_mirror:
  "cm_data_type c = DT_TimeN \<Longrightarrow> mirrors supplies (bs_scaled c len) (scaled c (\<lambda>scale. rmap CV_Time (read_time ops len scale)) len)"
  "cm_data_type c = DT_DateTime2N \<Longrightarrow> mirrors supplies (bs_scaled c len) (scaled c (\<lambda>scale. rmap CV_DateTime2 (read_datetime2 ops len scale)) len)"
  "cm_data_type c = DT_DateTimeOffsetN \<Longrightarrow>
     mirrors supplies (bs_scaled c len) (scaled c (\<lambda>scale. rmap CV_DateTimeOffset (read_datetime_offset ops len scale)) len)"
proof -
  have time: "mirrors supplies (bs_time n scale) (read_time ops n scale)" for n scale
    unfolding bs_time_def read_time_def by (intro mirror_rules)
  have date: "mirrors supplies bs_u24 (read_date ops)" unfolding read_date_def by (rule mirror_rules)
  note ds = bs_scaled_def scaled_def read_datetime2_def read_datetime_offset_def
  show "mirrors supplies (bs_scaled c len) (scaled c (\<lambda>scale. rmap CV_Time (read_time ops len scale)) len)" if "cm_data_type c = DT_TimeN"
    using that by (cases "get_scale c") (auto simp: ds trailing_def simp del: rret_apply intro!: mirror_rules time)
  show "mirrors supplies (bs_scaled c len) (scaled c (\<lambda>scale. rmap CV_DateTime2 (read_datetime2 ops len scale)) len)" if "cm_data_type c = DT_DateTime2N"
    using that by (cases "get_scale c") (auto simp: ds trailing_def rbind_assoc simp del: rret_apply intro!: mirror_rules time date)
  show "mirrors supplies (bs_scaled c len) (scaled c (\<lambda>scale. rmap CV_DateTimeOffset (read_datetime_offset ops len scale)) len)" if "cm_data_type c = DT_DateTimeOffsetN"
  proof -
    consider "len < 2" | "2 \<le> len" "len < 5" | "5 \<le> len" by fastforce
    then show ?thesis
    proof cases
      case 1
      then have "len < 5" by (simp add: word_less_nat_alt)
      with 1 that show ?thesis by (cases "get_scale c") (auto simp: ds trailing_def simp del: rret_apply intro!: mirror_rules)
    next
      case 2
      then have "len - 2 < 3" by unat_arith
      with 2 that show ?thesis by (cases "get_scale c") (auto simp: ds trailing_def simp del: rret_apply intro!: mirror_rules)
    next
      case 3
      then have "\<not> len - 2 < 3" "\<not> len < 2" "\<not> len < 5" "len - 2 - 3 = len - 5" by unat_arith+
      with 3 that show ?thesis by (cases "get_scale c") (auto simp: ds trailing_def rbind_assoc simp del: rret_apply intro!: mirror_rules time date)
    qed
  qed
qed

lemma decimal_mirror: "mirrors supplies (obind bs_byte (bs_decimal c f)) (rmap (or_null f) (read_decimal ops c))"
  unfolding read_decimal_def rbind_assoc bs_decimal_def
  by (intro mirror_rules) (auto simp: read_decimal_data_def rbind_assoc or_null_def Let_def split: type_info_variant.split simp del: rret_apply intro!: mirror_rules)

lemma string_mirror:
  assumes "\<exists>e. get_encoding_type c = Inr e" "\<not> is_plp c" "\<not> is_long_len_type (cm_data_type c)"
  shows "mirrors supplies (bs_string c) (decode_string ops c)"
  using assms by (auto simp: bs_string_def decode_string_def read_u16_len_def rbind_assoc string_or_null_def or_null_def simp del: rret_apply intro!: mirror_rules)

lemma binary_mirror: "mirrors supplies bs_binary (read_binary ops)"
proof -
  have "\<not> MAX_ALLOC_SIZE < unat x" for x :: u16
    using unsigned_less [of x, where ?'a = nat] by (simp add: MAX_ALLOC_SIZE_def)
  then show ?thesis unfolding bs_binary_def read_binary_def by (intro mirror_rules) (auto simp: binary_len_def simp del: rret_apply intro!: mirror_rules)
qed

lemma nullable_mirror:
  "mirrors supplies (bs_intn n) (read_intn ops n)" "mirrors supplies (bs_fltn n) (read_fltn ops n)" "mirrors supplies (bs_bitn n) (read_bitn ops n)"
  "mirrors supplies (bs_moneyn n) (read_moneyn ops n)" "mirrors supplies (bs_datetimen n) (read_datetimen ops n)"
  "mirrors supplies (bs_daten n) (read_daten ops n)" "mirrors supplies (bs_guid n) (read_guid ops n)"
  "mirrors supplies bs_money8 (read_money8 ops)" "mirrors supplies bs_datetime (read_datetime ops)"
  "mirrors supplies bs_small_datetime (read_small_datetime ops)" "mirrors supplies bs_u32 (read_money4 ops)"
  unfolding bs_intn_def bs_fltn_def bs_bitn_def bs_moneyn_def bs_datetimen_def bs_daten_def bs_guid_def bs_money8_def bs_datetime_def bs_small_datetime_def
    read_intn_def read_fltn_def read_bitn_def read_moneyn_def read_datetimen_def read_daten_def read_guid_def read_money8_def read_datetime_def
    read_small_datetime_def read_money4_def read_date_def
  by (auto simp: validate_alloc_size_def MAX_ALLOC_SIZE_def word_gt_0 simp del: rret_apply intro!: mirror_rules)

lemma buffered_value_mirror:
  assumes "\<not> is_plp c" "string_type (cm_data_type c) \<Longrightarrow> \<exists>e. get_encoding_type c = Inr e"
  shows "mirrors supplies (buffered_value c) (decode hf ops c)"
  using assms
  by (cases "cm_data_type c")
     (simp_all only: buffered_value_def decode_def decode_scalar_def tds_data_type.case tds_data_type.distinct if_False if_True simp_thms,
      (intro mirror_rules nullable_mirror scaled_mirror decimal_mirror binary_mirror string_mirror; (assumption | auto simp: string_type_def is_long_len_type_def))+)

lemma attempt_mirror:
  assumes "mirrors supplies m m'" "supplies (bs @ rest) s"
  shows "attempt m bs = Inl e \<Longrightarrow> \<exists>e'. fst (m' s) = Inl e'"
    and "attempt m bs = Inr (Some (v, used)) \<Longrightarrow> used \<le> length bs \<and> (\<exists>s'. m' s = (Inr v, s') \<and> supplies (drop used bs @ rest) s')"
  using assms(1) [unfolded mirrors_def, rule_format, of 0 bs rest s] assms(2)
  by (auto simp: attempt_def split: prod.splits sum.splits option.splits)

lemma try_decode_buffered_mirror:
  assumes "supplies (bs @ rest) s" "string_type (cm_data_type c) \<Longrightarrow> \<exists>e. get_encoding_type c = Inr e"
  shows "try_decode_buffered bs c = Inl e \<Longrightarrow> \<exists>e'. fst (decode hf ops c s) = Inl e'"
    and "try_decode_buffered bs c = Inr (Some (v, used)) \<Longrightarrow>
      used \<le> length bs \<and> (\<exists>s'. decode hf ops c s = (Inr v, s') \<and> supplies (drop used bs @ rest) s')"
  using attempt_mirror [OF buffered_value_mirror [where hf = hf] assms(1), OF _ assms(2)]
  by (auto simp: try_decode_buffered_def split: if_splits)

lemma variant_fixed_mirror: "mirrors supplies (variant_fixed base (unat n)) (decode_zero_propbyte_variant hf ops base n)"
proof (cases "fixed_length_types_try_from base")
  case (Inl e)
  then show ?thesis by (simp add: mirrors_def variant_fixed_def)
next
  case (Inr f)
  let ?c = "fixed_metadata base f (unat n)"
  have d: "decode_zero_propbyte_variant hf ops base n = decode hf ops ?c" and str: "\<not> string_type (cm_data_type ?c)"
    using Inr by (auto simp: decode_zero_propbyte_variant_def decode_def fixed_metadata_def string_type_def fixed_length_types_try_from_def)
  show ?thesis unfolding mirrors_def
  proof (intro allI impI)
    fix bs pos rest s assume s: "supplies (drop pos bs @ rest) s" "pos \<le> length bs"
    note T = try_decode_buffered_mirror [OF s(1), of ?c, where hf = hf]
    show "case variant_fixed base (unat n) (bs, pos) of (Inl e, _) \<Rightarrow> \<exists>e'. fst (decode_zero_propbyte_variant hf ops base n s) = Inl e' | (Inr None, _) \<Rightarrow> True
      | (Inr (Some v), st) \<Rightarrow> fst st = bs \<and> snd st \<le> length bs \<and>
          (\<exists>s'. decode_zero_propbyte_variant hf ops base n s = (Inr v, s') \<and> supplies (drop (snd st) bs @ rest) s')"
    proof (cases "try_decode_buffered (drop pos bs) ?c")
      case (Inl e)
      then show ?thesis using T(1) str Inr d by (simp add: variant_fixed_def \<open>fixed_length_types_try_from base = Inr f\<close>)
    next
      case r: (Inr r)
      show ?thesis
      proof (cases r)
        case None
        then show ?thesis using r Inr by (simp add: variant_fixed_def)
      next
        case (Some p)
        obtain v used where p: "p = (v, used)" by (rule prod.exhaust)
        from T(2) [of v used] str r Some p obtain s' where "used \<le> length bs - pos" "decode hf ops ?c s = (Inr v, s')" "supplies (drop used (drop pos bs) @ rest) s'"
          by auto
        then show ?thesis using r Some p Inr d s(2) by (auto simp: variant_fixed_def add.commute)
      qed
    qed
  qed
qed

lemma take_mirror:
  assumes "\<And>v. length v = n \<Longrightarrow> mirrors supplies (f v) (g v)"
  shows "mirrors supplies (obind (take_slice n) f) (rbind (rd_bytes ops n) g)"
proof -
  have "mirrors supplies (obind (take_slice n) (\<lambda>v. if length v = n then f v else rret None)) (rbind (rd_bytes ops n) g)"
    by (intro mirrors_bind bytes_mirrors) (simp add: assms mirror_rules)
  moreover have "obind (take_slice n) (\<lambda>v. if length v = n then f v else rret None) = obind (take_slice n) f"
    by (auto simp: obind_def rbind_def fun_eq_iff take_slice_def slice_get_def split: option.splits)
  ultimately show ?thesis by simp
qed

lemma variant_text_mirror:
  assumes "variant_char_type base" "unat n \<le> MAX_ALLOC_SIZE"
  shows "mirrors supplies (variant_text base (unat n)) (decode_seven_propbyte_variant ops base n)"
proof -
  have "mirrors supplies (variant_text base (unat n)) (rbind (rd_bytes ops 5) (\<lambda>collation_bytes. rbind (rd_u16 ops) (\<lambda>_.
      rbind (rlift (collation_try_from collation_bytes)) (\<lambda>collation.
        rmap (\<lambda>bs. CV_String (sql_string_new bs (variant_encoding base collation))) (rd_bytes ops (unat n))))))"
    unfolding variant_text_def
    by (intro take_mirror mirror_rules) (auto simp: collation_try_from_def variant_encoding_def Let_def simp del: rret_apply intro!: mirror_rules)
  then show ?thesis using assms by (simp add: decode_seven_propbyte_variant_def)
qed

lemma unat_ucast_u8: "unat (ucast (p :: u8) :: u32) = unat p"
  by (simp add: unsigned_ucast_eq take_bit_nat_eq_self_iff order.strict_trans [OF unsigned_less [of p, where ?'a = nat]])

lemma variant_data_length_nat:
  "(len < 2 \<or> len - 2 < ucast (p :: u8)) = (unat (len :: u32) < 2 + unat p)"
  "\<not> unat len < 2 + unat p \<Longrightarrow> unat (len - 2 - ucast p) = unat len - (2 + unat p)"
proof -
  have s: "unat (len - 2) = unat len - 2" if "\<not> unat len < 2" using that by (simp add: unat_sub word_le_nat_alt)
  show "(len < 2 \<or> len - 2 < ucast p) = (unat len < 2 + unat p)"
    using s unat_ucast_u8 [of p] by (cases "unat len < 2") (auto simp: word_less_nat_alt)
  show "unat (len - 2 - ucast p) = unat len - (2 + unat p)" if "\<not> unat len < 2 + unat p"
    using s that unat_ucast_u8 [of p] by (simp add: unat_sub word_le_nat_alt)
qed

lemma variant_payload_mirror:
  assumes "unat len \<le> MAX_ALLOC_SIZE"
  shows "mirrors supplies (variant_payload (unat len))
    (rbind (rd_byte ops) (\<lambda>base. rbind (rlift (tds_data_type_try_from base)) (\<lambda>t. rbind (rd_byte ops) (\<lambda>prop_bytes.
         rbind (rlift (variant_data_length len prop_bytes)) (\<lambda>n. rmap (Pair t) (decode_variant_value hf ops t prop_bytes n))))))"
  unfolding variant_payload_def
proof (intro mirrors_bind scalars_mirror mirrors_rlift)
  fix b t p
  note eq = variant_data_length_nat [of len]
  show "mirrors supplies
      (if unat len < 2 + unat p then rfail (ProtocolError ''SQL_VARIANT data length calculation underflow'')
       else let data_length = unat len - (2 + unat p) in
         omap (Pair t) (if p = 0 then variant_fixed t data_length
           else if p = 7 \<and> variant_char_type t then variant_text t data_length else rret None))
      (rbind (rlift (variant_data_length len p)) (\<lambda>n. rmap (Pair t) (decode_variant_value hf ops t p n)))"
  proof (cases "unat len < 2 + unat p")
    case True
    then show ?thesis by (simp add: variant_data_length_def eq(1) mirror_rules)
  next
    case False
    define n where "n = len - 2 - ucast p"
    from False eq(2) have n: "unat len - (2 + unat p) = unat n" by (simp add: n_def)
    have "mirrors supplies (if p = 0 then variant_fixed t (unat n) else if p = 7 \<and> variant_char_type t then variant_text t (unat n) else rret None)
        (decode_variant_value hf ops t p n)"
      using assms n by (auto simp: decode_variant_value_def variant_fixed_mirror variant_text_mirror mirror_rules simp del: rret_apply)
    moreover have "variant_data_length len p = Inr n" using False by (simp add: variant_data_length_def eq(1) n_def)
    ultimately show ?thesis using False
      by (simp only: n Let_def if_False rlift_simps rbind_rret) (intro mirrors_bind mirrors_oret)
  qed
qed

lemma buffered_prefix:
  "attempt (take_slice n) xs = (if n < 2 ^ 64 \<and> n \<le> length xs then Inr (Some (take n xs, n)) else Inr None)"
  "attempt bs_u32 xs = (if 4 \<le> length xs then Inr (Some (from_le_u32 (take 4 xs), 4)) else Inr None)"
  by (simp_all add: attempt_def take_slice_def slice_get_def seg_def bs_u32_def obind_def oret_def rbind_def)

lemma read_sql_variant_payload:
  "read_sql_variant_with_base hf ops = rbind (rd_u32 ops) (\<lambda>len. if len = 0 then rret (None, CV_Null)
     else rmap (\<lambda>(t, v). (Some t, v)) (rbind (rd_byte ops) (\<lambda>base. rbind (rlift (tds_data_type_try_from base)) (\<lambda>t. rbind (rd_byte ops) (\<lambda>prop_bytes.
         rbind (rlift (variant_data_length len prop_bytes)) (\<lambda>n. rmap (Pair t) (decode_variant_value hf ops t prop_bytes n)))))))"
  unfolding read_sql_variant_with_base_def
  by (intro arg_cong [where f = "rbind (rd_u32 ops)"] ext if_cong refl) (simp add: rbind_assoc del: rret_apply)

lemma try_decode_buffered_variant_mirror:
  assumes "supplies (bs @ rest) s" "min (length bs) (unat (from_le_u32 (take 4 bs))) \<le> MAX_ALLOC_SIZE"
  shows "case try_decode_buffered_variant bs of Inl e \<Rightarrow> \<exists>e'. fst (read_sql_variant_with_base hf ops s) = Inl e' | Inr None \<Rightarrow> True
    | Inr (Some (base, v, used)) \<Rightarrow> used \<le> length bs \<and>
        (\<exists>s'. read_sql_variant_with_base hf ops s = (Inr (base, v), s') \<and> supplies (drop used bs @ rest) s')" (is ?goal)
proof -
  define len where "len = from_le_u32 (take 4 bs)"
  define P where "P = take (unat len) (drop 4 bs)"
  define m where "m = rbind (rd_byte ops) (\<lambda>base. rbind (rlift (tds_data_type_try_from base)) (\<lambda>t. rbind (rd_byte ops) (\<lambda>prop_bytes.
         rbind (rlift (variant_data_length len prop_bytes)) (\<lambda>n. rmap (Pair t) (decode_variant_value hf ops t prop_bytes n)))))"
  have none: ?goal if "\<not> 4 \<le> length bs \<or> len \<noteq> 0 \<and> \<not> unat len \<le> length (drop 4 bs)"
    using that by (auto simp: try_decode_buffered_variant_def buffered_prefix len_def [symmetric])
  show ?thesis
  proof (cases "\<not> 4 \<le> length bs \<or> len \<noteq> 0 \<and> \<not> unat len \<le> length (drop 4 bs)")
    case False
    then have l: "4 \<le> length bs" "len \<noteq> 0 \<Longrightarrow> length P = unat len" by (auto simp: P_def)
    from attempt_mirror(2) [OF scalars_mirror(5) assms(1), of len 4] l(1) obtain s1 where
      s1: "rd_u32 ops s = (Inr len, s1)" "supplies (drop 4 bs @ rest) s1" by (auto simp: buffered_prefix len_def)
    from s1(1) have read: "read_sql_variant_with_base hf ops s = (if len = 0 then rret (None, CV_Null) s1 else rmap (\<lambda>(t, v). (Some t, v)) m s1)"
      unfolding read_sql_variant_payload m_def by (simp add: rbind_def)
    show ?thesis
    proof (cases "len = 0")
      case True
      then show ?thesis using l s1 read by (simp add: try_decode_buffered_variant_def buffered_prefix len_def [symmetric])
    next
      case len: False
      have d: "drop 4 bs @ rest = P @ drop (4 + unat len) bs @ rest"
        by (simp add: P_def) (metis append_take_drop_id drop_drop add.commute)
      have small: "unat len \<le> MAX_ALLOC_SIZE" using False len assms(2) by (auto simp: min_def len_def [symmetric] split: if_splits)
      note V = attempt_mirror [OF variant_payload_mirror [OF small, of hf] s1(2) [unfolded d], folded m_def]
      have "try_decode_buffered_variant bs =
          (case attempt (variant_payload (unat len)) P of Inl e \<Rightarrow> Inl e | Inr None \<Rightarrow> Inr None
           | Inr (Some ((base, v), position)) \<Rightarrow> if position \<noteq> length P then Inr None else Inr (Some (Some base, v, 4 + unat len)))"
        using False len unsigned_less [of len, where ?'a = nat]
        by (simp add: try_decode_buffered_variant_def buffered_prefix len_def [symmetric] P_def [symmetric])
      then show ?thesis using V read len l False
        by (auto split: sum.splits option.splits prod.splits simp: rbind_def)
    qed
  qed (rule none)
qed

end

lemma column_encoding: "column_wf c \<Longrightarrow> string_type (cm_data_type c) \<Longrightarrow> \<exists>e. get_encoding_type c = Inr e"
  using get_encoding_type_safe [of c] by (auto simp: get_encoding_type_def split: option.splits if_splits)

text \<open>
  C25. The synchronous decoder agrees with the awaiting one. When \<^verbatim>\<open>try_decode_buffered\<close>, given the bytes
  already buffered, answers a value and a number of bytes used, the awaiting decoder returns the same
  value from the same transport, however its packets are cut, and has consumed exactly that many bytes;
  when the synchronous decoder fails, the awaiting one fails too.
\<close>

theorem try_decode_buffered_agrees:
  assumes "column_wf c" and "net_supplies tail (bs @ rest) r"
  shows "case try_decode_buffered bs c of
      Inl e \<Rightarrow> \<exists>e'. fst (decode hf network_ops c r) = Inl e'
    | Inr None \<Rightarrow> True
    | Inr (Some (v, used)) \<Rightarrow> used \<le> length bs \<and>
        (\<exists>r'. decode hf network_ops c r = (Inr v, r') \<and> net_supplies tail (drop used bs @ rest) r')"
  using net.try_decode_buffered_mirror [OF assms(2) column_encoding [OF assms(1)], where hf = hf]
  by (auto split: sum.split option.split)

theorem try_decode_buffered_agrees_witness:
  "\<exists>r'. decode (\<lambda>_. 0) network_ops guid_column (one_packet_reader (16 # replicate 16 7)) = (Inr (CV_Uuid (replicate 16 7)), r')"
proof -
  have w: "column_wf guid_column"
    by (simp add: guid_column_def column_wf_def type_info_wf_def variable_length_types_try_from_def plain_var_len_def may_be_plp_def)
  have t: "try_decode_buffered (16 # replicate 16 7) guid_column = Inr (Some (CV_Uuid (replicate 16 7), 17))"
    by (simp add: try_decode_buffered_def guid_column_def is_plp_def variant_is_plp_def attempt_def buffered_value_def bs_byte_def take_slice_def slice_get_def
        obind_def rbind_def oret_def bs_guid_def seg_def)
  show ?thesis
    using try_decode_buffered_agrees [OF w, of "[]" "16 # replicate 16 7" "[]" "one_packet_reader (16 # replicate 16 7)" "\<lambda>_. 0"]
      one_packet_supplies [of "16 # replicate 16 7"] t by auto
qed

context packet_source
begin

lemma try_decode_buffered_into_mirror:
  assumes "supplies (bs @ rest) s" "column_wf c" "cm_data_type c = DT_SsVariant \<Longrightarrow> min (length bs) (unat (from_le_u32 (take 4 bs))) \<le> MAX_ALLOC_SIZE"
  shows "case try_decode_buffered_into bs c w of
      Inl e \<Rightarrow> \<exists>e'. fst (decode hf ops c s) = Inl e'
    | Inr None \<Rightarrow> True
    | Inr (Some (w', used)) \<Rightarrow> used \<le> length bs \<and>
        (\<exists>v s'. decode hf ops c s = (Inr v, s') \<and> rw_row w' = rw_row w @ [v] \<and> supplies (drop used bs @ rest) s')"
proof (cases "cm_data_type c = DT_SsVariant")
  case True
  with try_decode_buffered_variant_mirror [OF assms(1) assms(3) [OF True], of hf] show ?thesis
    by (cases "read_sql_variant_with_base hf ops s")
       (auto simp: try_decode_buffered_into_def decode_def read_sql_variant_def rbind_def split: sum.splits option.splits)
next
  case False
  then have "try_decode_buffered_into bs c w = (case try_decode_buffered bs c of Inl e \<Rightarrow> Inl e | Inr None \<Rightarrow> Inr None
      | Inr (Some (v, used)) \<Rightarrow> Inr (Some (write_value v w, used)))"
    by (auto simp: try_decode_buffered_into_def try_decode_buffered_def split: sum.splits option.splits)
  then show ?thesis using try_decode_buffered_mirror [OF assms(1) column_encoding [OF assms(2)], where hf = hf]
    by (auto split: sum.split option.split)
qed

end

text \<open>
  C11. The synchronous decoder into a row writer, variants included. When \<^verbatim>\<open>try_decode_buffered_into\<close>
  writes a value, the row gains exactly the value the awaiting decoder returns from the same transport,
  and the bytes used are the bytes the awaiting decoder consumes; a failure is a failure of both.
\<close>

theorem try_decode_buffered_into_agrees:
  assumes "column_wf c" and "net_supplies tail (bs @ rest) r" and "length bs \<le> MAX_ALLOC_SIZE"
  shows "case try_decode_buffered_into bs c w of
      Inl e \<Rightarrow> \<exists>e'. fst (decode hf network_ops c r) = Inl e'
    | Inr None \<Rightarrow> True
    | Inr (Some (w', used)) \<Rightarrow> used \<le> length bs \<and>
        (\<exists>v r'. decode hf network_ops c r = (Inr v, r') \<and> rw_row w' = rw_row w @ [v] \<and> net_supplies tail (drop used bs @ rest) r')"
  by (rule net.try_decode_buffered_into_mirror [OF assms(2,1)]) (use assms(3) in simp)

theorem try_decode_buffered_into_agrees_witness:
  "\<exists>r'. decode (\<lambda>_. 0) network_ops guid_column (one_packet_reader [0]) = (Inr CV_Null, r')"
proof -
  have w: "column_wf guid_column"
    by (simp add: guid_column_def column_wf_def type_info_wf_def variable_length_types_try_from_def plain_var_len_def may_be_plp_def)
  have t: "try_decode_buffered_into [0] guid_column row_writer_new = Inr (Some (write_value CV_Null row_writer_new, 1))"
    by (simp add: try_decode_buffered_into_def guid_column_def is_plp_def variant_is_plp_def attempt_def buffered_value_def bs_byte_def take_slice_def slice_get_def
        obind_def rbind_def oret_def bs_guid_def seg_def)
  show ?thesis
    using try_decode_buffered_into_agrees [OF w, of "[]" "[0]" "[]" "one_packet_reader [0]" "\<lambda>_. 0" row_writer_new]
      one_packet_supplies [of "[0]"] t by (auto simp: MAX_ALLOC_SIZE_def row_writer_new_def)
qed

end
