(* ===== verification/Col_Metadata.thy ===== *)
theory Col_Metadata
  imports Buffered_Decoder
begin

text \<open>
  Result-set metadata and rows as tokens: \<^verbatim>\<open>COLMETADATA\<close> with its encryption metadata, \<^verbatim>\<open>ROW\<close>, \<^verbatim>\<open>NBCROW\<close>
  and \<^verbatim>\<open>RETURNVALUE\<close> (\<^verbatim>\<open>mssql-tds/src/token/parsers/colmetadata_parser.rs\<close>, \<^verbatim>\<open>row_parser.rs\<close>,
  \<^verbatim>\<open>nbcrow_parser.rs\<close>, \<^verbatim>\<open>returnvalue_parser.rs\<close>). The metadata parser establishes the invariant the
  value decoder relies on. A cell decryptor is a trait object and a parameter of the rows.
\<close>

section \<open>Tokens and context\<close>

record col_metadata_token =
  cmt_column_count :: u16
  cmt_columns :: "column_metadata list"
  cmt_cek_table :: "cek_table_entry list"

definition col_metadata_default :: col_metadata_token where
  "col_metadata_default = \<lparr>cmt_column_count = 0, cmt_columns = [], cmt_cek_table = []\<rparr>"

type_synonym cell_decryptor = "crypto_metadata \<Rightarrow> bytes \<Rightarrow> column_values tds_result"

datatype parser_context =
    PC_ColumnMetadata col_metadata_token "cell_decryptor option"
  | PC_ColumnEncryption bool
  | PC_None

definition is_column_encryption_supported :: "parser_context \<Rightarrow> bool" where
  "is_column_encryption_supported ctx = (case ctx of PC_ColumnEncryption b \<Rightarrow> b | _ \<Rightarrow> False)"

record return_value_token =
  rv_param_ordinal :: u16
  rv_param_name :: rstring
  rv_value :: column_values
  rv_column_metadata :: column_metadata
  rv_status :: return_value_status


section \<open>COLMETADATA\<close>

definition FLAG_ENCRYPTED :: u16 where "FLAG_ENCRYPTED = 0x0800"
definition CUSTOM_CIPHER_ALGORITHM_ID :: u8 where "CUSTOM_CIPHER_ALGORITHM_ID = 0x00"

text \<open>A loop that reads one element per step.\<close>

primrec read_list :: "nat \<Rightarrow> ('s, 'a) action \<Rightarrow> ('s, 'a list) action" where
  "read_list 0 m = rret []"
| "read_list (Suc n) m = rbind m (\<lambda>x. rbind (read_list n m) (\<lambda>xs. rret (x # xs)))"

definition parse_encrypted_cek_value :: "'s packet_reader_ops \<Rightarrow> ('s, encrypted_cek_value) action" where
  "parse_encrypted_cek_value ops =
     rbind (rd_u16 ops) (\<lambda>encrypted_len. rbind (rd_bytes ops (unat encrypted_len)) (\<lambda>encrypted_key.
     rbind (rd_byte ops) (\<lambda>key_store_len. rbind (rd_unicode ops (unat key_store_len)) (\<lambda>key_store_name.
     rbind (rd_u16 ops) (\<lambda>key_path_len. rbind (rd_unicode ops (unat key_path_len)) (\<lambda>key_path.
     rbind (rd_byte ops) (\<lambda>algorithm_len. rbind (rd_unicode ops (unat algorithm_len)) (\<lambda>algorithm_name.
       rret \<lparr>ek_encrypted_key = encrypted_key, ek_key_store_name = key_store_name, ek_key_path = key_path,
             ek_algorithm_name = algorithm_name\<rparr>))))))))"

definition parse_cek_table_entry :: "'s packet_reader_ops \<Rightarrow> ('s, cek_table_entry) action" where
  "parse_cek_table_entry ops =
     rbind (rd_i32 ops) (\<lambda>database_id. rbind (rd_i32 ops) (\<lambda>cek_id. rbind (rd_i32 ops) (\<lambda>cek_version.
     rbind (rd_bytes ops 8) (\<lambda>cek_md_version. rbind (rd_byte ops) (\<lambda>value_count.
     rbind (read_list (unat value_count) (parse_encrypted_cek_value ops)) (\<lambda>encrypted_cek_values.
       rret \<lparr>ce_database_id = database_id, ce_cek_id = cek_id, ce_cek_version = cek_version,
             ce_cek_md_version = cek_md_version, ce_encrypted_cek_values = encrypted_cek_values\<rparr>))))))"

definition parse_cek_table :: "'s packet_reader_ops \<Rightarrow> ('s, cek_table_entry list) action" where
  "parse_cek_table ops = rbind (rd_u16 ops) (\<lambda>entry_count. read_list (unat entry_count) (parse_cek_table_entry ops))"

definition invalid_data_type :: "string \<Rightarrow> u8 \<Rightarrow> tds_data_type tds_result" where
  "invalid_data_type message b = (case tds_data_type_try_from b of Inl _ \<Rightarrow> Inl (Io message) | Inr t \<Rightarrow> Inr t)"

definition parse_crypto_metadata :: "'s packet_reader_ops \<Rightarrow> bool \<Rightarrow> ('s, crypto_metadata) action" where
  "parse_crypto_metadata ops has_cek_table =
     rbind (if has_cek_table then rd_u16 ops else rret 0) (\<lambda>cek_table_ordinal.
     rbind (rd_u32 ops) (\<lambda>_. rbind (rd_byte ops) (\<lambda>raw_base_type.
     rbind (rlift (invalid_data_type ''Invalid base data type in crypto metadata'' raw_base_type)) (\<lambda>base_data_type.
     rbind (read_type_info ops base_data_type) (\<lambda>base_type_info.
     rbind (rd_byte ops) (\<lambda>cipher_algorithm_id.
     rbind (if cipher_algorithm_id = CUSTOM_CIPHER_ALGORITHM_ID
            then rbind (rd_byte ops) (\<lambda>name_len. rmap Some (rd_unicode ops (unat name_len))) else rret None) (\<lambda>cipher_algorithm_name.
     rbind (rd_byte ops) (\<lambda>encryption_type. rbind (rd_byte ops) (\<lambda>normalization_rule_version.
       rret \<lparr>cr_cek_table_ordinal = cek_table_ordinal, cr_base_data_type = base_data_type, cr_base_type_info = base_type_info,
             cr_cipher_algorithm_id = cipher_algorithm_id, cr_cipher_algorithm_name = cipher_algorithm_name,
             cr_encryption_type = encryption_type, cr_normalization_rule_version = normalization_rule_version\<rparr>)))))))))"

definition multi_part_name_default :: multi_part_name where
  "multi_part_name_default = \<lparr>mp_server_name = None, mp_catalog_name = None, mp_schema_name = None, mp_table_name = []\<rparr>"

definition set_part :: "nat \<Rightarrow> rstring option \<Rightarrow> multi_part_name \<Rightarrow> multi_part_name" where
  "set_part part_count part_name mpt =
     (if part_count = 4 then mpt\<lparr>mp_server_name := part_name\<rparr>
      else if part_count = 3 then mpt\<lparr>mp_catalog_name := part_name\<rparr>
      else if part_count = 2 then mpt\<lparr>mp_schema_name := part_name\<rparr>
      else if part_count = 1 then mpt\<lparr>mp_table_name := unwrap_or_default part_name\<rparr>
      else mpt)"

primrec read_parts :: "'s packet_reader_ops \<Rightarrow> nat \<Rightarrow> multi_part_name \<Rightarrow> ('s, multi_part_name) action" where
  "read_parts ops 0 mpt = rret mpt"
| "read_parts ops (Suc n) mpt = rbind (rd_varchar_u16 ops) (\<lambda>part_name. read_parts ops n (set_part (Suc n) part_name mpt))"

definition has_table_name :: "tds_data_type \<Rightarrow> bool" where
  "has_table_name t \<longleftrightarrow> t = DT_Text \<or> t = DT_NText \<or> t = DT_Image"

definition read_table_name :: "'s packet_reader_ops \<Rightarrow> tds_data_type \<Rightarrow> ('s, multi_part_name option) action" where
  "read_table_name ops t =
     (if has_table_name t then
        rbind (rd_byte ops) (\<lambda>part_count.
          if part_count = 0 then rret None else rmap Some (read_parts ops (unat part_count) multi_part_name_default))
      else rret None)"

definition parse_column :: "'s packet_reader_ops \<Rightarrow> bool \<Rightarrow> ('s, column_metadata) action" where
  "parse_column ops encryption =
     rbind (rd_u32 ops) (\<lambda>user_type. rbind (rd_u16 ops) (\<lambda>flags. rbind (rd_byte ops) (\<lambda>raw_data_type.
     rbind (rlift (invalid_data_type ''Invalid data type'' raw_data_type)) (\<lambda>data_type.
     rbind (read_type_info ops data_type) (\<lambda>ti. rbind (read_table_name ops data_type) (\<lambda>name_parts.
     rbind (if encryption \<and> flags AND FLAG_ENCRYPTED \<noteq> 0 then rmap Some (parse_crypto_metadata ops encryption) else rret None) (\<lambda>crypto.
     rbind (rd_varchar_u8 ops) (\<lambda>col_name.
       rret \<lparr>cm_user_type = user_type, cm_flags = flags, cm_type_info = ti, cm_data_type = data_type,
             cm_column_name = col_name, cm_multi_part_name = name_parts, cm_crypto_metadata = crypto\<rparr>))))))))"

definition parse_col_metadata :: "'s packet_reader_ops \<Rightarrow> parser_context \<Rightarrow> ('s, col_metadata_token) action" where
  "parse_col_metadata ops ctx =
     (let encryption = is_column_encryption_supported ctx in
      rbind (rd_u16 ops) (\<lambda>col_count.
        if col_count = 0xFFFF then rret col_metadata_default
        else rbind (if encryption then parse_cek_table ops else rret []) (\<lambda>cek_table.
          rbind (read_list (unat col_count) (parse_column ops encryption)) (\<lambda>columns.
            rret \<lparr>cmt_column_count = col_count, cmt_columns = columns, cmt_cek_table = cek_table\<rparr>))))"


section \<open>ROW, NBCROW and RETURNVALUE\<close>

definition decrypt_encrypted_column :: "(u16 \<Rightarrow> u32) \<Rightarrow> 's packet_reader_ops \<Rightarrow> column_metadata \<Rightarrow> cell_decryptor \<Rightarrow> ('s, column_values) action" where
  "decrypt_encrypted_column hf ops c decrypt =
     rbind (decode hf ops c) (\<lambda>v. case v of
         CV_Null \<Rightarrow> rret CV_Null
       | CV_Bytes cipher \<Rightarrow>
           (case cm_crypto_metadata c of
              None \<Rightarrow> rfail (ColumnEncryptionError ''decrypt_encrypted_column called for non-encrypted column'')
            | Some m \<Rightarrow> rlift (decrypt m cipher))
       | _ \<Rightarrow> rfail (ColumnEncryptionError ''Encrypted column was expected to arrive as varbinary cipher bytes''))"

definition decode_column :: "(u16 \<Rightarrow> u32) \<Rightarrow> 's packet_reader_ops \<Rightarrow> cell_decryptor option \<Rightarrow> column_metadata \<Rightarrow> ('s, column_values) action" where
  "decode_column hf ops decryptor c =
     (case (cm_crypto_metadata c \<noteq> None, decryptor) of
        (True, Some decrypt) \<Rightarrow> decrypt_encrypted_column hf ops c decrypt
      | (True, None) \<Rightarrow> decode hf ops c
      | (False, _) \<Rightarrow> decode hf ops c)"

primrec decode_columns :: "(u16 \<Rightarrow> u32) \<Rightarrow> 's packet_reader_ops \<Rightarrow> cell_decryptor option \<Rightarrow> column_metadata list \<Rightarrow> ('s, column_values list) action" where
  "decode_columns hf ops decryptor [] = rret []"
| "decode_columns hf ops decryptor (c # cs) =
     rbind (decode_column hf ops decryptor c) (\<lambda>v. rbind (decode_columns hf ops decryptor cs) (\<lambda>vs. rret (v # vs)))"

definition no_column_metadata :: tds_error where
  "no_column_metadata = Io ''Expected ColumnMetadata in context''"

definition parse_row :: "(u16 \<Rightarrow> u32) \<Rightarrow> 's packet_reader_ops \<Rightarrow> parser_context \<Rightarrow> ('s, column_values list) action" where
  "parse_row hf ops ctx =
     (case ctx of PC_ColumnMetadata md decryptor \<Rightarrow> decode_columns hf ops decryptor (cmt_columns md) | _ \<Rightarrow> rfail no_column_metadata)"

text \<open>\<^verbatim>\<open>null_bitmap[byte_index]\<close> panics outside the bitmap.\<close>

definition is_null_value_in_column :: "bytes \<Rightarrow> nat \<Rightarrow> bool tds_result" where
  "is_null_value_in_column null_bitmap index =
     (if index div 8 < length null_bitmap then Inr (null_bitmap ! (index div 8) AND push_bit (index mod 8) 1 \<noteq> 0) else Inl Panic)"

primrec decode_nbc_columns ::
  "(u16 \<Rightarrow> u32) \<Rightarrow> 's packet_reader_ops \<Rightarrow> cell_decryptor option \<Rightarrow> bytes \<Rightarrow> nat \<Rightarrow> column_metadata list \<Rightarrow> ('s, column_values list) action" where
  "decode_nbc_columns hf ops decryptor bitmap index [] = rret []"
| "decode_nbc_columns hf ops decryptor bitmap index (c # cs) =
     rbind (rlift (is_null_value_in_column bitmap index)) (\<lambda>is_null.
     rbind (if is_null then rret CV_Null else decode_column hf ops decryptor c) (\<lambda>v.
     rbind (decode_nbc_columns hf ops decryptor bitmap (Suc index) cs) (\<lambda>vs. rret (v # vs))))"

definition bitmap_length :: "nat \<Rightarrow> nat" where
  "bitmap_length col_count = (col_count + 7) div 8"

definition parse_nbc_row :: "(u16 \<Rightarrow> u32) \<Rightarrow> 's packet_reader_ops \<Rightarrow> parser_context \<Rightarrow> ('s, column_values list) action" where
  "parse_nbc_row hf ops ctx =
     (case ctx of
        PC_ColumnMetadata md decryptor \<Rightarrow>
          rbind (rd_bytes ops (bitmap_length (length (cmt_columns md)))) (\<lambda>bitmap.
            decode_nbc_columns hf ops decryptor bitmap 0 (cmt_columns md))
      | _ \<Rightarrow> rfail no_column_metadata)"

definition read_return_value :: "(u16 \<Rightarrow> u32) \<Rightarrow> 's packet_reader_ops \<Rightarrow> u32 \<Rightarrow> u16 \<Rightarrow> tds_data_type \<Rightarrow> rstring \<Rightarrow> ('s, column_metadata \<times> column_values) action" where
  "read_return_value hf ops user_type flags data_type param_name =
     rbind (read_type_info ops data_type) (\<lambda>ti.
     rbind (if flags AND FLAG_ENCRYPTED \<noteq> 0 then rmap Some (parse_crypto_metadata ops False) else rret None) (\<lambda>crypto.
     let c = \<lparr>cm_user_type = user_type, cm_flags = flags, cm_type_info = ti, cm_data_type = data_type,
              cm_column_name = param_name, cm_multi_part_name = None, cm_crypto_metadata = crypto\<rparr> in
     rmap (Pair c) (decode hf ops c)))"

definition parse_return_value :: "(u16 \<Rightarrow> u32) \<Rightarrow> 's packet_reader_ops \<Rightarrow> ('s, return_value_token) action" where
  "parse_return_value hf ops =
     rbind (rd_u16 ops) (\<lambda>param_ordinal. rbind (rd_byte ops) (\<lambda>param_name_length.
     rbind (rd_unicode_bytes ops (2 * unat param_name_length)) (\<lambda>param_name.
     rbind (rd_byte ops) (\<lambda>status_byte. rbind (rd_u32 ops) (\<lambda>user_type. rbind (rd_u16 ops) (\<lambda>flags. rbind (rd_byte ops) (\<lambda>tds_type.
     rbind (rlift (tds_data_type_try_from tds_type)) (\<lambda>data_type.
     rbind (read_return_value hf ops user_type flags data_type param_name) (\<lambda>(c, v).
       rret \<lparr>rv_param_ordinal = param_ordinal, rv_param_name = param_name, rv_value = v, rv_column_metadata = c,
             rv_status = return_value_status_from status_byte\<rparr>)))))))))"

end
