(* ===== verification/Metadata_Laws.thy ===== *)
theory Metadata_Laws
  imports Col_Metadata
begin

text \<open>
  What the metadata and row parsers guarantee. On every input they return; the columns they build
  satisfy the invariant \<open>column_wf\<close> of the value decoder; a row has one value per column, each of its
  column's type; and \<^verbatim>\<open>COLMETADATA\<close> is read back from its wire form.
\<close>

section \<open>Loops\<close>

lemma read_list_ensures: "ensures m P \<Longrightarrow> ensures (read_list n m) (\<lambda>xs. length xs = n \<and> list_all P xs)"
  by (induction n) (auto intro!: ensures_rret ensures_bind_mid [where m = m and Q = P] ensures_bind_mid [where m = "read_list _ m"] simp: ensures_True)

lemma read_list_tame: "tame safe left 0 m \<Longrightarrow> tame safe left 0 (read_list n m)"
  by (induction n) (simp_all add: tame_rules del: rret_apply)


section \<open>The invariant\<close>

definition crypto_wf :: "column_metadata \<Rightarrow> bool" where
  "crypto_wf c = (case cm_crypto_metadata c of None \<Rightarrow> True
     | Some m \<Rightarrow> ti_tds_type (cr_base_type_info m) = cr_base_data_type m \<and> type_info_wf (cr_base_type_info m))"

definition metadata_wf :: "bool \<Rightarrow> col_metadata_token \<Rightarrow> bool" where
  "metadata_wf encryption t \<longleftrightarrow> length (cmt_columns t) = unat (cmt_column_count t) \<and>
     list_all (\<lambda>c. column_wf c \<and> crypto_wf c \<and> (cm_crypto_metadata c \<noteq> None \<longleftrightarrow> encryption \<and> is_encrypted c)) (cmt_columns t) \<and>
     (\<not> encryption \<longrightarrow> cmt_cek_table t = [])"

definition decryptor_safe :: "cell_decryptor option \<Rightarrow> bool" where
  "decryptor_safe d = (case d of None \<Rightarrow> True | Some decrypt \<Rightarrow> \<forall>m bs. decrypt m bs \<noteq> Inl Panic \<and> decrypt m bs \<noteq> Inl Diverge)"

definition context_ok :: "parser_context \<Rightarrow> bool" where
  "context_ok ctx = (case ctx of PC_ColumnMetadata md d \<Rightarrow> list_all column_wf (cmt_columns md) \<and> decryptor_safe d | _ \<Rightarrow> True)"

lemma parse_crypto_metadata_wf:
  "ensures (parse_crypto_metadata ops b) (\<lambda>m. ti_tds_type (cr_base_type_info m) = cr_base_data_type m \<and> type_info_wf (cr_base_type_info m))"
  unfolding parse_crypto_metadata_def
  by (intro ensures_rret ensures_bind_mid [OF read_type_info_wf] ensures_bind [where m = "if b then _ else _"]
        ensures_bind [where m = "rd_u32 ops"] ensures_bind [where m = "rd_byte ops"] ensures_bind [where m = "rlift _"] ensures_bind [where m = "if _ = CUSTOM_CIPHER_ALGORITHM_ID then _ else _"]) simp

lemma parse_column_wf:
  "ensures (parse_column ops encryption) (\<lambda>c. column_wf c \<and> crypto_wf c \<and> (cm_crypto_metadata c \<noteq> None \<longleftrightarrow> encryption \<and> is_encrypted c))"
proof -
  have cr: "ensures (if encryption \<and> flags AND FLAG_ENCRYPTED \<noteq> 0 then rmap Some (parse_crypto_metadata ops encryption) else rret None)
      (\<lambda>x. (x \<noteq> None \<longleftrightarrow> encryption \<and> flags AND FLAG_ENCRYPTED \<noteq> 0) \<and>
        (case x of None \<Rightarrow> True | Some m \<Rightarrow> ti_tds_type (cr_base_type_info m) = cr_base_data_type m \<and> type_info_wf (cr_base_type_info m)))" for flags
    by (intro ensures_if ensures_rret ensures_bind_mid [OF parse_crypto_metadata_wf]) auto
  show ?thesis unfolding parse_column_def
    by (intro ensures_bind [where m = "rd_u32 ops"] ensures_bind [where m = "rd_u16 ops"] ensures_bind [where m = "rd_byte ops"] ensures_bind [where m = "rlift _"]
        ensures_bind_mid [OF read_type_info_wf] ensures_bind [where m = "read_table_name _ _"] ensures_bind_mid [OF cr] ensures_bind [where m = "rd_varchar_u8 ops"] ensures_rret)
       (auto simp: column_wf_def crypto_wf_def is_encrypted_def FLAG_ENCRYPTED_def)
qed

lemma parse_col_metadata_wf: "ensures (parse_col_metadata ops ctx) (metadata_wf (is_column_encryption_supported ctx))"
  unfolding parse_col_metadata_def Let_def
  by (intro ensures_bind [where m = "rd_u16 ops"] ensures_if ensures_rret ensures_bind_mid [OF read_list_ensures [OF parse_column_wf]]
        ensures_bind_mid [where m = "if is_column_encryption_supported ctx then _ else _" and Q = "\<lambda>t. \<not> is_column_encryption_supported ctx \<longrightarrow> t = []"])
     (auto simp: metadata_wf_def col_metadata_default_def ensures_True intro!: ensures_rret)


section \<open>Safety\<close>

lemma invalid_data_type_safe: "invalid_data_type msg b \<noteq> Inl Panic" "invalid_data_type msg b \<noteq> Inl Diverge"
  by (simp_all add: invalid_data_type_def split: sum.split)

lemma bitmap_covers: "i < n \<Longrightarrow> i div 8 < bitmap_length n"
  by (simp add: bitmap_length_def)

context finite_source
begin

lemma metadata_parsers_tame [tame_rules]:
  "tame safe left 0 (parse_encrypted_cek_value ops)" "tame safe left 0 (parse_cek_table_entry ops)"
  "tame safe left 0 (parse_cek_table ops)" "tame safe left 0 (parse_crypto_metadata ops b)"
proof -
  show v: "tame safe left 0 (parse_encrypted_cek_value ops)" unfolding parse_encrypted_cek_value_def by (intro tame_rules)
  show e: "tame safe left 0 (parse_cek_table_entry ops)" unfolding parse_cek_table_entry_def by (intro tame_rules read_list_tame v)
  show "tame safe left 0 (parse_cek_table ops)" unfolding parse_cek_table_def by (intro tame_rules read_list_tame e)
  show "tame safe left 0 (parse_crypto_metadata ops b)" unfolding parse_crypto_metadata_def
    by (intro tame_rules read_type_info_tame invalid_data_type_safe)
qed

lemma read_parts_tame: "tame safe left 0 (read_parts ops n mpt)"
  by (induction n arbitrary: mpt) (simp_all add: tame_rules del: rret_apply)

lemma parse_column_tame: "tame safe left 0 (parse_column ops b)"
  unfolding parse_column_def read_table_name_def by (intro tame_rules read_type_info_tame invalid_data_type_safe read_parts_tame)

lemma parse_col_metadata_tame: "tame safe left 0 (parse_col_metadata ops ctx)"
  unfolding parse_col_metadata_def by (intro tame_rules read_list_tame parse_column_tame)

lemma decode_column_tame:
  assumes "column_wf c" "decryptor_safe d"
  shows "tame safe left 0 (decode_column hf ops d c)"
proof -
  have "tame safe left 0 (decrypt_encrypted_column hf ops c decrypt)" if "d = Some decrypt" for decrypt
    unfolding decrypt_encrypted_column_def
  proof (rule tame_bind0 [OF decode_tame [OF assms(1)]])
    fix v
    show "tame safe left 0 (case v of CV_Null \<Rightarrow> rret CV_Null
       | CV_Bytes cipher \<Rightarrow> (case cm_crypto_metadata c of None \<Rightarrow> rfail (ColumnEncryptionError ''decrypt_encrypted_column called for non-encrypted column'')
            | Some m \<Rightarrow> rlift (decrypt m cipher))
       | _ \<Rightarrow> rfail (ColumnEncryptionError ''Encrypted column was expected to arrive as varbinary cipher bytes''))"
      using assms(2) that by (cases v) (auto intro!: tame_rules simp: decryptor_safe_def simp del: rret_apply)
  qed
  then show ?thesis using decode_tame [OF assms(1)] by (simp add: decode_column_def split: option.split bool.split)
qed

lemma rows_tame:
  assumes "context_ok ctx"
  shows "tame safe left 0 (parse_row hf ops ctx)" "tame safe left 0 (parse_nbc_row hf ops ctx)"
proof -
  have row: "list_all column_wf cs \<Longrightarrow> decryptor_safe d \<Longrightarrow> tame safe left 0 (decode_columns hf ops d cs)" for d cs
    by (induction cs) (auto intro!: tame_rules decode_column_tame simp del: rret_apply)
  have nbc: "list_all column_wf cs \<Longrightarrow> decryptor_safe d \<Longrightarrow> i + length cs \<le> n \<Longrightarrow> length bitmap = bitmap_length n \<Longrightarrow>
      tame safe left 0 (decode_nbc_columns hf ops d bitmap i cs)" for d cs bitmap i n
  proof (induction cs arbitrary: i)
    case (Cons c cs)
    then have "is_null_value_in_column bitmap i \<noteq> Inl Panic \<and> is_null_value_in_column bitmap i \<noteq> Inl Diverge"
      using bitmap_covers [of i n] by (simp add: is_null_value_in_column_def)
    with Cons show ?case by (auto intro!: tame_rules decode_column_tame simp del: rret_apply)
  qed (simp add: tame_rret del: rret_apply)
  show "tame safe left 0 (parse_row hf ops ctx)"
    using assms row by (auto simp: parse_row_def context_ok_def no_column_metadata_def intro!: tame_rules split: parser_context.splits)
  have "tame safe left 0 (rbind (rd_bytes ops (bitmap_length (length cs))) (\<lambda>bitmap. decode_nbc_columns hf ops d bitmap 0 cs))"
    if "list_all column_wf cs" "decryptor_safe d" for d cs
    unfolding tame_iff_at
  proof (intro allI impI)
    fix s assume s: "safe s"
    show "tame_at safe left s (rbind (rd_bytes ops (bitmap_length (length cs))) (\<lambda>bitmap. decode_nbc_columns hf ops d bitmap 0 cs))"
      by (rule tame_at_bind [OF strings_tame0(1) s]) (use nbc [OF that, of 0 "length cs"] bytes_length in \<open>auto simp: tame_iff_at\<close>)
  qed
  then show "tame safe left 0 (parse_nbc_row hf ops ctx)"
    using assms by (auto simp: parse_nbc_row_def context_ok_def no_column_metadata_def intro!: tame_rules split: parser_context.splits)
qed

lemma read_return_value_tame: "tame safe left 0 (read_return_value hf ops user_type flags t name)"
  unfolding tame_iff_at
proof (intro allI impI)
  fix s assume s: "safe s"
  show "tame_at safe left s (read_return_value hf ops user_type flags t name)" unfolding read_return_value_def
  proof (rule tame_at_bind [OF read_type_info_tame s])
    fix ti s' assume r: "read_type_info ops t s = (Inr ti, s')" and s': "safe s'"
    have "tame safe left 0 (rbind (if flags AND FLAG_ENCRYPTED \<noteq> 0 then rmap Some (parse_crypto_metadata ops False) else rret None) (\<lambda>crypto.
       let c = \<lparr>cm_user_type = user_type, cm_flags = flags, cm_type_info = ti, cm_data_type = t,
            cm_column_name = name, cm_multi_part_name = None, cm_crypto_metadata = crypto\<rparr> in rmap (Pair c) (decode hf ops c)))"
      unfolding Let_def by (intro tame_rules decode_tame) (use ensuresD [OF read_type_info_wf r] in \<open>simp add: column_wf_def\<close>)
    with s' show "tame_at safe left s' (rbind (if flags AND FLAG_ENCRYPTED \<noteq> 0 then rmap Some (parse_crypto_metadata ops False) else rret None) (\<lambda>crypto.
       let c = \<lparr>cm_user_type = user_type, cm_flags = flags, cm_type_info = ti, cm_data_type = t,
            cm_column_name = name, cm_multi_part_name = None, cm_crypto_metadata = crypto\<rparr> in rmap (Pair c) (decode hf ops c)))"
      by (simp add: tame_iff_at)
  qed
qed

lemma parse_return_value_tame: "tame safe left 0 (parse_return_value hf ops)"
  unfolding parse_return_value_def
  by (intro tame_rules tds_data_type_try_from_safe read_return_value_tame; simp add: split_def tame_rret del: rret_apply)

end


section \<open>Rows\<close>

text \<open>A value of its column's type; a decrypted value is whatever the decryptor answers.\<close>

definition cell_fits :: "cell_decryptor option \<Rightarrow> column_metadata \<Rightarrow> column_values \<Rightarrow> bool" where
  "cell_fits d c v \<longleftrightarrow> value_fits c v \<or> (\<exists>decrypt m bs. d = Some decrypt \<and> cm_crypto_metadata c = Some m \<and> decrypt m bs = Inr v) \<or>
     v = CV_Null \<and> cm_crypto_metadata c \<noteq> None"

definition nbc_cell_fits :: "cell_decryptor option \<Rightarrow> column_metadata \<Rightarrow> column_values \<Rightarrow> bool" where
  "nbc_cell_fits d c v \<longleftrightarrow> v = CV_Null \<or> cell_fits d c v"

context finite_source
begin

lemma decode_column_fits: "ensures (decode_column hf ops d c) (cell_fits d c)"
proof -
  have "ensures (decrypt_encrypted_column hf ops c decrypt) (cell_fits d c)" if "d = Some decrypt" "cm_crypto_metadata c \<noteq> None" for decrypt
    unfolding decrypt_encrypted_column_def
  proof (rule ensures_bind)
    fix v
    show "ensures (case v of CV_Null \<Rightarrow> rret CV_Null
       | CV_Bytes cipher \<Rightarrow> (case cm_crypto_metadata c of None \<Rightarrow> rfail (ColumnEncryptionError ''decrypt_encrypted_column called for non-encrypted column'')
            | Some m \<Rightarrow> rlift (decrypt m cipher))
       | _ \<Rightarrow> rfail (ColumnEncryptionError ''Encrypted column was expected to arrive as varbinary cipher bytes'')) (cell_fits d c)"
      using that by (cases v) (auto intro!: ensures_rules ensures_rlift simp: cell_fits_def simp del: rret_apply)
  qed
  moreover have "ensures (decode hf ops c) (cell_fits d c)"
    by (rule ensures_weaken [OF decode_fits]) (simp add: cell_fits_def)
  ultimately show ?thesis by (cases d; cases "cm_crypto_metadata c") (simp_all add: decode_column_def)
qed

lemma rows_fit:
  "ensures (parse_row hf ops (PC_ColumnMetadata md d)) (\<lambda>vs. list_all2 (cell_fits d) (cmt_columns md) vs)"
  "ensures (parse_nbc_row hf ops (PC_ColumnMetadata md d)) (\<lambda>vs. list_all2 (nbc_cell_fits d) (cmt_columns md) vs)"
proof -
  have "ensures (decode_columns hf ops d cs) (list_all2 (cell_fits d) cs)" for cs
    by (induction cs) (auto intro!: ensures_rret ensures_bind_mid [OF decode_column_fits] ensures_bind_mid [where m = "decode_columns hf ops d _"] simp del: rret_apply)
  then show "ensures (parse_row hf ops (PC_ColumnMetadata md d)) (\<lambda>vs. list_all2 (cell_fits d) (cmt_columns md) vs)"
    by (simp add: parse_row_def)
  have "ensures (decode_nbc_columns hf ops d bitmap i cs) (list_all2 (nbc_cell_fits d) cs)" for i bitmap cs
  proof (induction cs arbitrary: i)
    case (Cons c cs)
    have "ensures (if b then rret CV_Null else decode_column hf ops d c) (nbc_cell_fits d c)" for b
      by (auto intro!: ensures_rret ensures_weaken [OF decode_column_fits] simp: nbc_cell_fits_def simp del: rret_apply)
    then show ?case unfolding decode_nbc_columns.simps
      by (intro ensures_bind [where m = "rlift _"] ensures_bind_mid [OF _ ensures_bind_mid [OF Cons.IH ensures_rret]]) auto
  qed (simp add: ensures_rret del: rret_apply)
  then show "ensures (parse_nbc_row hf ops (PC_ColumnMetadata md d)) (\<lambda>vs. list_all2 (nbc_cell_fits d) (cmt_columns md) vs)"
    by (simp add: parse_nbc_row_def ensures_bind)
qed

end


section \<open>Wire form\<close>

definition cek_value_bytes :: "encrypted_cek_value \<Rightarrow> bytes" where
  "cek_value_bytes v = us_varbyte (ek_encrypted_key v) @ b_varchar (ek_key_store_name v) @ us_varchar (ek_key_path v) @ b_varchar (ek_algorithm_name v)"

definition cek_value_fits :: "encrypted_cek_value \<Rightarrow> bool" where
  "cek_value_fits v \<longleftrightarrow> length (ek_encrypted_key v) < 65536 \<and> fits_b (ek_key_store_name v) \<and> fits_us (ek_key_path v) \<and> fits_b (ek_algorithm_name v)"

definition cek_entry_bytes :: "cek_table_entry \<Rightarrow> bytes" where
  "cek_entry_bytes e = to_le_u32 (ce_database_id e) @ to_le_u32 (ce_cek_id e) @ to_le_u32 (ce_cek_version e) @ ce_cek_md_version e @
     word_of_nat (length (ce_encrypted_cek_values e)) # concat (map cek_value_bytes (ce_encrypted_cek_values e))"

definition cek_entry_fits :: "cek_table_entry \<Rightarrow> bool" where
  "cek_entry_fits e \<longleftrightarrow> length (ce_cek_md_version e) = 8 \<and> length (ce_encrypted_cek_values e) < 256 \<and> list_all cek_value_fits (ce_encrypted_cek_values e)"

definition crypto_bytes :: "bool \<Rightarrow> crypto_metadata \<Rightarrow> bytes" where
  "crypto_bytes has_cek_table m = (if has_cek_table then to_le_u16 (cr_cek_table_ordinal m) else []) @ to_le_u32 0 @
     tds_data_type_u8 (cr_base_data_type m) # type_info_bytes (cr_base_type_info m) @ cr_cipher_algorithm_id m #
     (case cr_cipher_algorithm_name m of None \<Rightarrow> [] | Some name \<Rightarrow> b_varchar name) @ [cr_encryption_type m, cr_normalization_rule_version m]"

definition crypto_fits :: "bool \<Rightarrow> crypto_metadata \<Rightarrow> bool" where
  "crypto_fits has_cek_table m \<longleftrightarrow> (has_cek_table \<or> cr_cek_table_ordinal m = 0) \<and> cr_base_data_type m \<noteq> DT_None \<and>
     ti_tds_type (cr_base_type_info m) = cr_base_data_type m \<and> type_info_fits (cr_base_type_info m) \<and>
     (case cr_cipher_algorithm_name m of None \<Rightarrow> cr_cipher_algorithm_id m \<noteq> CUSTOM_CIPHER_ALGORITHM_ID
      | Some name \<Rightarrow> cr_cipher_algorithm_id m = CUSTOM_CIPHER_ALGORITHM_ID \<and> fits_b name)"

definition part_bytes :: "rstring option \<Rightarrow> bytes" where
  "part_bytes p = (case p of None \<Rightarrow> [0xFF, 0xFF] | Some name \<Rightarrow> us_varchar name)"

text \<open>A name with all four parts, or no name.\<close>

definition table_name_bytes :: "tds_data_type \<Rightarrow> multi_part_name option \<Rightarrow> bytes" where
  "table_name_bytes t name = (if has_table_name t then
     (case name of None \<Rightarrow> [0] | Some n \<Rightarrow> 4 # part_bytes (mp_server_name n) @ part_bytes (mp_catalog_name n) @ part_bytes (mp_schema_name n) @ us_varchar (mp_table_name n))
     else [])"

definition table_name_fits :: "tds_data_type \<Rightarrow> multi_part_name option \<Rightarrow> bool" where
  "table_name_fits t name = (case name of None \<Rightarrow> True | Some n \<Rightarrow> has_table_name t \<and> pred_option fits_us (mp_server_name n) \<and>
     pred_option fits_us (mp_catalog_name n) \<and> pred_option fits_us (mp_schema_name n) \<and> fits_us (mp_table_name n))"

definition column_bytes :: "column_metadata \<Rightarrow> bytes" where
  "column_bytes c = to_le_u32 (cm_user_type c) @ to_le_u16 (cm_flags c) @ tds_data_type_u8 (cm_data_type c) # type_info_bytes (cm_type_info c) @
     table_name_bytes (cm_data_type c) (cm_multi_part_name c) @ (case cm_crypto_metadata c of None \<Rightarrow> [] | Some m \<Rightarrow> crypto_bytes True m) @
     b_varchar (cm_column_name c)"

definition column_fits :: "bool \<Rightarrow> column_metadata \<Rightarrow> bool" where
  "column_fits encryption c \<longleftrightarrow> cm_data_type c \<noteq> DT_None \<and> ti_tds_type (cm_type_info c) = cm_data_type c \<and> type_info_fits (cm_type_info c) \<and>
     table_name_fits (cm_data_type c) (cm_multi_part_name c) \<and> fits_b (cm_column_name c) \<and>
     (cm_crypto_metadata c \<noteq> None \<longleftrightarrow> encryption \<and> is_encrypted c) \<and> pred_option (crypto_fits True) (cm_crypto_metadata c)"

definition col_metadata_bytes :: "bool \<Rightarrow> col_metadata_token \<Rightarrow> bytes" where
  "col_metadata_bytes encryption t = to_le_u16 (cmt_column_count t) @
     (if encryption then to_le_u16 (word_of_nat (length (cmt_cek_table t))) @ concat (map cek_entry_bytes (cmt_cek_table t)) else []) @
     concat (map column_bytes (cmt_columns t))"

definition col_metadata_fits :: "bool \<Rightarrow> col_metadata_token \<Rightarrow> bool" where
  "col_metadata_fits encryption t \<longleftrightarrow> cmt_column_count t \<noteq> 0xFFFF \<and> length (cmt_columns t) = unat (cmt_column_count t) \<and>
     list_all (column_fits encryption) (cmt_columns t) \<and> length (cmt_cek_table t) < 65536 \<and> list_all cek_entry_fits (cmt_cek_table t) \<and>
     (encryption \<or> cmt_cek_table t = [])"

context packet_source
begin

lemma read_list_yields:
  "list_all (\<lambda>x. yields supplies (w x) m x) xs \<Longrightarrow> n = length xs \<Longrightarrow> yields supplies (concat (map w xs)) (read_list n m) xs"
proof (induction xs arbitrary: n)
  case (Cons x xs)
  then have "yields supplies (concat (map w xs)) (rbind (read_list (length xs) m) (\<lambda>xs. rret (x # xs))) (x # xs)"
    by (intro yields_last [OF Cons.IH]) simp_all
  then have "yields supplies (w x @ concat (map w xs)) (rbind m (\<lambda>x. rbind (read_list (length xs) m) (\<lambda>xs. rret (x # xs)))) (x # xs)"
    using Cons.prems by (intro yields_bind) simp_all
  with Cons.prems show ?case by simp
qed (simp add: yields_rret del: rret_apply)

lemma counted_string_yields:
  "fits_b str \<Longrightarrow> yields supplies (b_varchar str) (rbind (rd_byte ops) (\<lambda>n. rd_unicode ops (unat n))) str"
  "fits_us str \<Longrightarrow> yields supplies (us_varchar str) (rbind (rd_u16 ops) (\<lambda>n. rd_unicode ops (unat n))) str"
  unfolding b_varchar_def us_varchar_def
  by (intro bind_rules strings_yield(6); simp add: fits_b_def fits_us_def unat_of_nat_u8 unat_of_nat_u16)+

lemmas counted_bind = counted_string_yields [THEN yields_bind, unfolded rbind_assoc]

lemma cek_value_yields: "cek_value_fits v \<Longrightarrow> yields supplies (cek_value_bytes v) (parse_encrypted_cek_value ops) v"
  unfolding cek_value_bytes_def us_varbyte_def parse_encrypted_cek_value_def append_assoc
  by (intro bind_rules(2) bind_rules(11) counted_bind counted_string_yields(1) [THEN yields_last, unfolded rbind_assoc])
     (auto simp: cek_value_fits_def unat_of_nat_u16)

lemma cek_entry_yields:
  assumes "cek_entry_fits e"
  shows "yields supplies (cek_entry_bytes e) (parse_cek_table_entry ops) e"
proof -
  have "list_all (\<lambda>v. yields supplies (cek_value_bytes v) (parse_encrypted_cek_value ops) v) (ce_encrypted_cek_values e)"
    using assms cek_value_yields by (simp add: cek_entry_fits_def list_all_iff)
  then show ?thesis unfolding cek_entry_bytes_def parse_cek_table_entry_def append_assoc
    by (intro bind_rules(1) bind_rules(5) bind_rules(11) yields_last [OF read_list_yields])
       (use assms in \<open>auto simp: cek_entry_fits_def unat_of_nat_u8\<close>)
qed

lemma cek_table_yields:
  assumes "length es < 65536" "list_all cek_entry_fits es"
  shows "yields supplies (to_le_u16 (word_of_nat (length es)) @ concat (map cek_entry_bytes es)) (parse_cek_table ops) es"
  unfolding parse_cek_table_def
  by (intro bind_rules(2) read_list_yields) (use assms cek_entry_yields in \<open>auto simp: list_all_iff unat_of_nat_u16\<close>)

lemma invalid_data_type_yields: "t \<noteq> DT_None \<Longrightarrow> yields supplies [] (rlift (invalid_data_type msg (tds_data_type_u8 t))) t"
  by (rule yields_rlift) (simp_all add: invalid_data_type_def tds_data_type_roundtrip)

lemma crypto_yields:
  assumes "crypto_fits b m"
  shows "yields supplies (crypto_bytes b m) (parse_crypto_metadata ops b) m"
proof -
  have ord: "yields supplies (if b then to_le_u16 (cr_cek_table_ordinal m) else []) (if b then rd_u16 ops else rret 0) (cr_cek_table_ordinal m)"
    using assms by (auto simp: crypto_fits_def scalars_yield(2) yields_rret simp del: rret_apply)
  have name: "yields supplies (case cr_cipher_algorithm_name m of None \<Rightarrow> [] | Some name \<Rightarrow> b_varchar name)
      (if cr_cipher_algorithm_id m = CUSTOM_CIPHER_ALGORITHM_ID then rbind (rd_byte ops) (\<lambda>name_len. rmap Some (rd_unicode ops (unat name_len))) else rret None)
      (cr_cipher_algorithm_name m)"
    using assms counted_string_yields(1) [THEN yields_last, unfolded rbind_assoc, where f = "\<lambda>x. rret (Some x)"]
    by (auto simp: crypto_fits_def yields_rret simp del: rret_apply split: option.splits)
  have ti: "yields supplies (type_info_bytes (cr_base_type_info m)) (read_type_info ops (cr_base_data_type m)) (cr_base_type_info m)"
    using type_info_yields [of "cr_base_type_info m"] assms by (simp add: crypto_fits_def)
  show ?thesis unfolding crypto_bytes_def parse_crypto_metadata_def append_assoc append_Cons append_Nil
    by (intro yields_bind [OF ord] bind_rules(1,3) yields_bind_nil [OF invalid_data_type_yields] yields_bind [OF ti] yields_bind [OF name] last_rules(1))
       (use assms in \<open>auto simp: crypto_fits_def\<close>)
qed

lemma part_yields: "pred_option fits_us p \<Longrightarrow> yields supplies (part_bytes p) (rd_varchar_u16 ops) p"
  using strings_yield(5) varchar_null by (cases p) (auto simp: part_bytes_def yields_def)

lemma table_name_yields:
  assumes "table_name_fits t name"
  shows "yields supplies (table_name_bytes t name) (read_table_name ops t) name"
proof (cases name)
  case None
  then show ?thesis by (auto simp: table_name_bytes_def read_table_name_def yields_rret intro!: last_rules(1) simp del: rret_apply)
next
  case (Some n)
  with assms have f: "has_table_name t" "pred_option fits_us (mp_server_name n)" "pred_option fits_us (mp_catalog_name n)"
    "pred_option fits_us (mp_schema_name n)" "fits_us (mp_table_name n)" by (simp_all add: table_name_fits_def)
  have parts: "yields supplies (part_bytes (mp_server_name n) @ part_bytes (mp_catalog_name n) @ part_bytes (mp_schema_name n) @ us_varchar (mp_table_name n))
      (rmap Some (read_parts ops 4 multi_part_name_default)) (Some n)"
    unfolding numeral_eq_Suc pred_numeral_simps BitM.simps numeral_One read_parts.simps One_nat_def rbind_assoc
    by (intro yields_bind [OF part_yields] last_rules(15) f)
       (cases n, simp add: set_part_def multi_part_name_default_def unwrap_or_default_def del: rret_apply)
  show ?thesis using f(1) parts by (simp add: Some table_name_bytes_def read_table_name_def bind_rules(1))
qed

lemma column_yields:
  assumes "column_fits encryption c"
  shows "yields supplies (column_bytes c) (parse_column ops encryption) c"
proof -
  have cr: "yields supplies (case cm_crypto_metadata c of None \<Rightarrow> [] | Some m \<Rightarrow> crypto_bytes True m)
      (if encryption \<and> cm_flags c AND FLAG_ENCRYPTED \<noteq> 0 then rmap Some (parse_crypto_metadata ops encryption) else rret None) (cm_crypto_metadata c)"
    using assms crypto_yields [THEN yields_last, where f = "\<lambda>x. rret (Some x)"]
    by (cases "cm_crypto_metadata c") (auto simp: column_fits_def is_encrypted_def FLAG_ENCRYPTED_def yields_rret simp del: rret_apply)
  have ti: "yields supplies (type_info_bytes (cm_type_info c)) (read_type_info ops (cm_data_type c)) (cm_type_info c)"
    using type_info_yields [of "cm_type_info c"] assms by (simp add: column_fits_def)
  show ?thesis unfolding column_bytes_def parse_column_def append_assoc append_Cons append_Nil
    by (intro bind_rules(1,2,3) yields_bind_nil [OF invalid_data_type_yields] yields_bind [OF ti] yields_bind [OF table_name_yields] yields_bind [OF cr] last_rules(14))
       (use assms in \<open>auto simp: column_fits_def\<close>)
qed

lemma col_metadata_yields:
  assumes "col_metadata_fits (is_column_encryption_supported ctx) t"
  shows "yields supplies (col_metadata_bytes (is_column_encryption_supported ctx) t) (parse_col_metadata ops ctx) t"
proof -
  let ?e = "is_column_encryption_supported ctx"
  have cols: "list_all (\<lambda>c. yields supplies (column_bytes c) (parse_column ops ?e) c) (cmt_columns t)"
    using assms column_yields by (simp add: col_metadata_fits_def list_all_iff)
  have ceks: "yields supplies (if ?e then to_le_u16 (word_of_nat (length (cmt_cek_table t))) @ concat (map cek_entry_bytes (cmt_cek_table t)) else [])
      (if ?e then parse_cek_table ops else rret []) (cmt_cek_table t)"
    using assms cek_table_yields by (auto simp: col_metadata_fits_def yields_rret simp del: rret_apply)
  show ?thesis unfolding col_metadata_bytes_def parse_col_metadata_def Let_def
    by (intro bind_rules(2) yields_else yields_bind [OF ceks] yields_last [OF read_list_yields [OF cols]])
       (use assms in \<open>auto simp: col_metadata_fits_def\<close>)
qed

end


section \<open>Properties\<close>

text \<open>
  C12. COLMETADATA is read back from its wire form. Over any cut of the bytes into packets, the parser
  returns exactly the token whose wire form the server sent, for every kind of type descriptor, with
  multi-part table names and, when column encryption is negotiated, the key table and the encryption
  metadata of encrypted columns, and consumes nothing more.
\<close>

theorem col_metadata_roundtrip:
  assumes "col_metadata_fits (is_column_encryption_supported ctx) t"
    and "net_supplies tail (col_metadata_bytes (is_column_encryption_supported ctx) t @ rest) r"
  shows "\<exists>r'. parse_col_metadata network_ops ctx r = (Inr t, r') \<and> net_supplies tail rest r'"
  using net.col_metadata_yields [OF assms(1), of tail] assms(2) unfolding yields_def by blast

definition sample_metadata :: col_metadata_token where
  "sample_metadata = \<lparr>cmt_column_count = 1, cmt_columns = [guid_column], cmt_cek_table = []\<rparr>"

lemma sample_words: "to_le_u16 1 = [1, 0]" "to_le_u32 0 = [0, 0, 0, 0]"
proof -
  have n: "(2 :: nat) = Suc (Suc 0)" "(4 :: nat) = Suc (Suc (Suc (Suc 0)))" by simp_all
  show "to_le_u16 1 = [1, 0]" unfolding to_le_u16_def n(1) by simp
  show "to_le_u32 0 = [0, 0, 0, 0]" unfolding to_le_u32_def n(2) by simp
qed

lemma sample_metadata_bytes: "col_metadata_bytes False sample_metadata = [1, 0, 0, 0, 0, 0, 1, 0, 0x24, 16, 0]"
  by (simp add: sample_metadata_def guid_column_def col_metadata_bytes_def column_bytes_def type_info_bytes_def length_bytes_def get_len_byte_count_def
      table_name_bytes_def has_table_name_def b_varchar_def utf16_le_def sample_words)

lemma sample_metadata_fits: "col_metadata_fits False sample_metadata"
  by (simp add: sample_metadata_def guid_column_def col_metadata_fits_def column_fits_def type_info_fits_def type_info_wf_def
      variable_length_types_try_from_def plain_var_len_def may_be_plp_def length_fits_def get_len_byte_count_def table_name_fits_def
      fits_b_def)

theorem col_metadata_roundtrip_witness:
  "\<exists>r'. parse_col_metadata network_ops PC_None (one_packet_reader [1, 0, 0, 0, 0, 0, 1, 0, 0x24, 16, 0]) = (Inr sample_metadata, r')"
proof -
  have "net_supplies [] [1, 0, 0, 0, 0, 0, 1, 0, 0x24, 16, 0] (one_packet_reader [1, 0, 0, 0, 0, 0, 1, 0, 0x24, 16, 0])"
    by (rule one_packet_supplies) simp
  with col_metadata_roundtrip [of PC_None sample_metadata "[]" "[]"] sample_metadata_fits sample_metadata_bytes show ?thesis
    by (auto simp: is_column_encryption_supported_def)
qed

text \<open>
  Metadata taken from the wire is well formed. Whatever the peer sends, parsing COLMETADATA
  returns without a panic; a token it returns has as many columns as it announces, every column's
  descriptor is one the value decoder can rely on, a column carries encryption metadata exactly when
  encryption is negotiated and the column's flag says so, and the base type of an encrypted column is
  well formed too.
\<close>

theorem col_metadata_well_formed:
  assumes "reader_safe r" and "parse_col_metadata network_ops ctx r = (x, r')"
  shows "x \<noteq> Inl Panic \<and> x \<noteq> Inl Diverge \<and> reader_safe r' \<and> (\<forall>t. x = Inr t \<longrightarrow> metadata_wf (is_column_encryption_supported ctx) t)"
  using tameD [OF net.parse_col_metadata_tame assms(1), of ctx] ensuresD [OF parse_col_metadata_wf [of network_ops ctx]] assms(2)
  by (auto simp: guarded_def)

text \<open>
  C20. Rows under metadata taken from the wire. After COLMETADATA was parsed from whatever the peer
  sent, parsing a ROW or an NBCROW under it returns without a panic for any further input, provided
  the cell decryptor itself returns; a row has one value per column, in order, each of its column's
  type, NULL, or the decryptor's answer for an encrypted column.
\<close>

theorem rows_well_typed:
  assumes "reader_safe r0" and "parse_col_metadata network_ops ctx r0 = (Inr md, r)" and "decryptor_safe d"
    and "parse_row hf network_ops (PC_ColumnMetadata md d) r = (x, r1)"
    and "parse_nbc_row hf network_ops (PC_ColumnMetadata md d) r = (y, r2)"
  shows "x \<noteq> Inl Panic \<and> x \<noteq> Inl Diverge \<and> reader_safe r1 \<and> (\<forall>vs. x = Inr vs \<longrightarrow> list_all2 (cell_fits d) (cmt_columns md) vs) \<and>
     y \<noteq> Inl Panic \<and> y \<noteq> Inl Diverge \<and> reader_safe r2 \<and> (\<forall>vs. y = Inr vs \<longrightarrow> list_all2 (nbc_cell_fits d) (cmt_columns md) vs)"
proof -
  have r: "reader_safe r" using tameD [OF net.parse_col_metadata_tame assms(1), of ctx] assms(2) by (simp add: guarded_def)
  have "metadata_wf (is_column_encryption_supported ctx) md" by (rule ensuresD [OF parse_col_metadata_wf assms(2)])
  then have c: "context_ok (PC_ColumnMetadata md d)" using assms(3) by (auto simp: metadata_wf_def context_ok_def list_all_iff)
  show ?thesis
    using tameD [OF net.rows_tame(1) [OF c] r, of hf] tameD [OF net.rows_tame(2) [OF c] r, of hf]
      ensuresD [OF net.rows_fit(1) [of hf md d]] ensuresD [OF net.rows_fit(2) [of hf md d]] assms(4,5)
    by (auto simp: guarded_def)
qed

theorem rows_well_typed_witness:
  "\<exists>md r x r1. parse_col_metadata network_ops PC_None (one_packet_reader [1, 0, 0, 0, 0, 0, 1, 0, 0x24, 16, 0, 0]) = (Inr md, r) \<and>
     parse_row (\<lambda>_. 0) network_ops (PC_ColumnMetadata md None) r = (x, r1) \<and> x \<noteq> Inl Panic \<and> x \<noteq> Inl Diverge"
proof -
  let ?w = "[1, 0, 0, 0, 0, 0, 1, 0, 0x24, 16, 0, 0] :: bytes"
  have "net_supplies [] ?w (one_packet_reader ?w)" by (rule one_packet_supplies) simp
  then obtain r where m: "parse_col_metadata network_ops PC_None (one_packet_reader ?w) = (Inr sample_metadata, r)"
    using net.col_metadata_yields [of PC_None sample_metadata "[]"] sample_metadata_fits sample_metadata_bytes
    unfolding yields_def by (auto simp: is_column_encryption_supported_def)
  have safe: "reader_safe (one_packet_reader ?w)" by (simp add: one_packet_reader_def reader_safe_def) (simp add: rb_new_def)
  obtain x r1 y r2 where "parse_row (\<lambda>_. 0) network_ops (PC_ColumnMetadata sample_metadata None) r = (x, r1)"
    "parse_nbc_row (\<lambda>_. 0) network_ops (PC_ColumnMetadata sample_metadata None) r = (y, r2)" by (metis prod.exhaust)
  with rows_well_typed [OF safe m _ this] m show ?thesis by (auto simp: decryptor_safe_def)
qed

end
