(* ===== verification/Data_Classification.thy ===== *)
theory Data_Classification
  imports Metadata_Laws
begin

text \<open>
  The \<^verbatim>\<open>DATACLASSIFICATION\<close> token (\<^verbatim>\<open>mssql-tds/src/token/data_classification.rs\<close> and
  \<^verbatim>\<open>token/parsers/data_classification_parser.rs\<close>): two dictionaries and, per column, references into
  them. The token has no length on the wire; a budget bounds what the parser reads. The parser returns
  on every input, the references it returns are valid, and it reads a token within the budget back.
\<close>

section \<open>Metadata\<close>

datatype dc_version = DC_Version1 | DC_Version2

definition ERROR_PREFIX :: string where "ERROR_PREFIX = ''DATACLASSIFICATION: ''"

definition classification_error :: "string \<Rightarrow> tds_error" where
  "classification_error message = ProtocolError (ERROR_PREFIX @ message)"

definition is_classification_error :: "tds_error \<Rightarrow> bool" where
  "is_classification_error e = (case e of ProtocolError message \<Rightarrow> starts_with ERROR_PREFIX message | _ \<Rightarrow> False)"

definition dc_version_try_from :: "u8 \<Rightarrow> dc_version tds_result" where
  "dc_version_try_from b =
     (if b = 1 then Inr DC_Version1 else if b = 2 then Inr DC_Version2
      else Inl (ProtocolError ''DATACLASSIFICATION: unsupported version; supported versions are 1 and 2''))"

record sensitivity_label =
  sl_name :: rstring
  sl_id :: rstring

record information_type =
  it_name :: rstring
  it_id :: rstring

datatype sensitivity_label_reference = SL_Unspecified | SL_Index u16
datatype information_type_ref = IT_Unspecified | IT_Index u16

datatype sensitivity_rank = SR_NotDefined | SR_None | SR_Low | SR_Medium | SR_High | SR_Critical

primrec sensitivity_rank_i32 :: "sensitivity_rank \<Rightarrow> u32" where
  "sensitivity_rank_i32 SR_NotDefined = -1"
| "sensitivity_rank_i32 SR_None = 0"
| "sensitivity_rank_i32 SR_Low = 10"
| "sensitivity_rank_i32 SR_Medium = 20"
| "sensitivity_rank_i32 SR_High = 30"
| "sensitivity_rank_i32 SR_Critical = 40"

definition sensitivity_rank_try_from :: "u32 \<Rightarrow> sensitivity_rank tds_result" where
  "sensitivity_rank_try_from v =
     (if v = -1 then Inr SR_NotDefined else if v = 0 then Inr SR_None else if v = 10 then Inr SR_Low
      else if v = 20 then Inr SR_Medium else if v = 30 then Inr SR_High else if v = 40 then Inr SR_Critical
      else Inl (ProtocolError ''DATACLASSIFICATION: unknown sensitivity rank''))"

record sensitivity_property =
  sp_sensitivity_label :: sensitivity_label_reference
  sp_information_type :: information_type_ref
  sp_rank :: "sensitivity_rank option"

record data_classification_metadata =
  dc_version :: dc_version
  dc_sensitivity_labels :: "sensitivity_label list"
  dc_information_types :: "information_type list"
  dc_rank :: "sensitivity_rank option"
  dc_columns :: "sensitivity_property list list"

definition list_get :: "'a list \<Rightarrow> nat \<Rightarrow> 'a option" where
  "list_get xs i = (if i < length xs then Some (xs ! i) else None)"

definition resolve_label :: "data_classification_metadata \<Rightarrow> sensitivity_label_reference \<Rightarrow> sensitivity_label option" where
  "resolve_label m reference = (case reference of SL_Unspecified \<Rightarrow> None | SL_Index i \<Rightarrow> list_get (dc_sensitivity_labels m) (unat i))"

definition resolve_information_type :: "data_classification_metadata \<Rightarrow> information_type_ref \<Rightarrow> information_type option" where
  "resolve_information_type m reference = (case reference of IT_Unspecified \<Rightarrow> None | IT_Index i \<Rightarrow> list_get (dc_information_types m) (unat i))"


section \<open>The budget\<close>

definition NULL_DICTIONARY_INDEX :: u16 where "NULL_DICTIONARY_INDEX = 0xFFFF"
definition MAX_DATA_CLASSIFICATION_TOKEN_BYTES :: nat where "MAX_DATA_CLASSIFICATION_TOKEN_BYTES = 16 * 1024 * 1024"

record parse_budget =
  pb_consumed :: nat
  pb_limit :: nat

definition budget_new :: "nat \<Rightarrow> parse_budget" where
  "budget_new limit = \<lparr>pb_consumed = 0, pb_limit = limit\<rparr>"

text \<open>A budget beside the transport; \<^verbatim>\<open>saturating_add\<close> stops at the largest \<^verbatim>\<open>usize\<close>.\<close>

definition claim :: "nat \<Rightarrow> (parse_budget \<times> 's, unit) action" where
  "claim n bs =
     (let consumed = min (pb_consumed (fst bs) + n) (2 ^ 64 - 1) in
      if pb_limit (fst bs) < consumed
      then (Inl (classification_error ''exceeds the maximum supported token size of bytes''), bs)
      else (Inr (), ((fst bs)\<lparr>pb_consumed := consumed\<rparr>, snd bs)))"

definition validate_collection :: "u16 \<Rightarrow> nat \<Rightarrow> (parse_budget \<times> 's, unit) action" where
  "validate_collection count minimum_item_bytes bs =
     (if pb_limit (fst bs) < pb_consumed (fst bs) then (Inl Panic, bs)
      else if pb_limit (fst bs) - pb_consumed (fst bs) < min (unat count * minimum_item_bytes) (2 ^ 64 - 1)
      then (Inl (classification_error ''requires at least bytes, exceeding the remaining parser limit of bytes''), bs)
      else (Inr (), bs))"

definition dc_reader :: "('s, 'a) action \<Rightarrow> (parse_budget \<times> 's, 'a) action" where
  "dc_reader m bs = (case m (snd bs) of (r, s) \<Rightarrow> (r, (fst bs, s)))"

definition dc_u8 :: "'s packet_reader_ops \<Rightarrow> (parse_budget \<times> 's, u8) action" where
  "dc_u8 ops = rbind (claim 1) (\<lambda>_. dc_reader (rd_byte ops))"

definition dc_u16 :: "'s packet_reader_ops \<Rightarrow> (parse_budget \<times> 's, u16) action" where
  "dc_u16 ops = rbind (claim 2) (\<lambda>_. dc_reader (rd_u16 ops))"

definition dc_i32 :: "'s packet_reader_ops \<Rightarrow> (parse_budget \<times> 's, u32) action" where
  "dc_i32 ops = rbind (claim 4) (\<lambda>_. dc_reader (rd_i32 ops))"

definition rank_or_error :: "u32 \<Rightarrow> sensitivity_rank tds_result" where
  "rank_or_error v = (case sensitivity_rank_try_from v of Inr k \<Rightarrow> Inr k | Inl _ \<Rightarrow> Inl (classification_error '': unknown value''))"

definition dc_read_rank :: "'s packet_reader_ops \<Rightarrow> (parse_budget \<times> 's, sensitivity_rank) action" where
  "dc_read_rank ops = rbind (dc_i32 ops) (\<lambda>v. rlift (rank_or_error v))"

text \<open>\<^verbatim>\<open>String::from_utf16_lossy\<close>: an unpaired surrogate becomes U+FFFD.\<close>

fun from_utf16_lossy :: "u16 list \<Rightarrow> rstring" where
  "from_utf16_lossy [] = []"
| "from_utf16_lossy (u # us) =
     (if unat u < 0xD800 \<or> 0xDFFF < unat u then unat u # from_utf16_lossy us
      else if 0xDC00 \<le> unat u then 0xFFFD # from_utf16_lossy us
      else (case us of
              [] \<Rightarrow> [0xFFFD]
            | v # vs \<Rightarrow>
                if 0xDC00 \<le> unat v \<and> unat v \<le> 0xDFFF
                then (0x10000 + (unat u - 0xD800) * 0x400 + (unat v - 0xDC00)) # from_utf16_lossy vs
                else 0xFFFD # from_utf16_lossy us))"

definition dc_b_varchar :: "'s packet_reader_ops \<Rightarrow> (parse_budget \<times> 's, rstring) action" where
  "dc_b_varchar ops =
     rbind (dc_u8 ops) (\<lambda>character_count. rbind (claim (unat character_count * 2)) (\<lambda>_.
       rmap from_utf16_lossy (dc_reader (read_u16s ops (unat character_count)))))"


section \<open>The parser\<close>

definition dictionary_index :: "u16 \<Rightarrow> nat \<Rightarrow> u16 option tds_result" where
  "dictionary_index index dictionary_len =
     (if index = NULL_DICTIONARY_INDEX then Inr None
      else if dictionary_len \<le> unat index then Inl (classification_error ''is outside dictionary length'')
      else Inr (Some index))"

definition label_reference :: "u16 \<Rightarrow> nat \<Rightarrow> sensitivity_label_reference tds_result" where
  "label_reference index dictionary_len =
     (case dictionary_index index dictionary_len of Inl e \<Rightarrow> Inl e
      | Inr None \<Rightarrow> Inr SL_Unspecified | Inr (Some i) \<Rightarrow> Inr (SL_Index i))"

definition information_type_reference :: "u16 \<Rightarrow> nat \<Rightarrow> information_type_ref tds_result" where
  "information_type_reference index dictionary_len =
     (case dictionary_index index dictionary_len of Inl e \<Rightarrow> Inl e
      | Inr None \<Rightarrow> Inr IT_Unspecified | Inr (Some i) \<Rightarrow> Inr (IT_Index i))"

definition dc_label :: "'s packet_reader_ops \<Rightarrow> (parse_budget \<times> 's, sensitivity_label) action" where
  "dc_label ops = rbind (dc_b_varchar ops) (\<lambda>name. rmap (\<lambda>i. \<lparr>sl_name = name, sl_id = i\<rparr>) (dc_b_varchar ops))"

definition dc_information_type :: "'s packet_reader_ops \<Rightarrow> (parse_budget \<times> 's, information_type) action" where
  "dc_information_type ops = rbind (dc_b_varchar ops) (\<lambda>name. rmap (\<lambda>i. \<lparr>it_name = name, it_id = i\<rparr>) (dc_b_varchar ops))"

definition dc_rank_for :: "'s packet_reader_ops \<Rightarrow> dc_version \<Rightarrow> (parse_budget \<times> 's, sensitivity_rank option) action" where
  "dc_rank_for ops version = (case version of DC_Version1 \<Rightarrow> rret None | DC_Version2 \<Rightarrow> rmap Some (dc_read_rank ops))"

definition dc_property :: "'s packet_reader_ops \<Rightarrow> dc_version \<Rightarrow> nat \<Rightarrow> nat \<Rightarrow> (parse_budget \<times> 's, sensitivity_property) action" where
  "dc_property ops version labels types =
     rbind (dc_u16 ops) (\<lambda>label_index. rbind (dc_u16 ops) (\<lambda>information_type_index. rbind (dc_rank_for ops version) (\<lambda>property_rank.
     rbind (rlift (label_reference label_index labels)) (\<lambda>l. rbind (rlift (information_type_reference information_type_index types)) (\<lambda>t.
       rret \<lparr>sp_sensitivity_label = l, sp_information_type = t, sp_rank = property_rank\<rparr>)))))"

definition property_bytes :: "dc_version \<Rightarrow> nat" where
  "property_bytes version = (case version of DC_Version1 \<Rightarrow> 4 | DC_Version2 \<Rightarrow> 8)"

text \<open>A count, its check against the budget, and that many items.\<close>

definition dc_counted :: "'s packet_reader_ops \<Rightarrow> nat \<Rightarrow> (parse_budget \<times> 's, 'a) action \<Rightarrow> (parse_budget \<times> 's, 'a list) action" where
  "dc_counted ops minimum_item_bytes item =
     rbind (dc_u16 ops) (\<lambda>count. rbind (validate_collection count minimum_item_bytes) (\<lambda>_. read_list (unat count) item))"

definition parse_budgeted :: "'s packet_reader_ops \<Rightarrow> dc_version \<Rightarrow> (parse_budget \<times> 's, data_classification_metadata) action" where
  "parse_budgeted ops version =
     rbind (dc_counted ops 2 (dc_label ops)) (\<lambda>sensitivity_labels.
     rbind (dc_counted ops 2 (dc_information_type ops)) (\<lambda>information_types.
     rbind (dc_rank_for ops version) (\<lambda>k.
     rbind (dc_counted ops 2 (dc_counted ops (property_bytes version)
              (dc_property ops version (length sensitivity_labels) (length information_types)))) (\<lambda>columns.
       rret \<lparr>dc_version = version, dc_sensitivity_labels = sensitivity_labels, dc_information_types = information_types,
             dc_rank = k, dc_columns = columns\<rparr>))))"

definition parse_within :: "'s packet_reader_ops \<Rightarrow> dc_version \<Rightarrow> nat \<Rightarrow> ('s, data_classification_metadata) action" where
  "parse_within ops version limit s = (case parse_budgeted ops version (budget_new limit, s) of (r, (_, s')) \<Rightarrow> (r, s'))"

definition parse_with_version :: "'s packet_reader_ops \<Rightarrow> dc_version \<Rightarrow> ('s, data_classification_metadata) action" where
  "parse_with_version ops version = parse_within ops version MAX_DATA_CLASSIFICATION_TOKEN_BYTES"

definition parse_data_classification :: "'s packet_reader_ops \<Rightarrow> dc_version option \<Rightarrow> ('s, data_classification_metadata) action" where
  "parse_data_classification ops negotiated =
     (case negotiated of
        None \<Rightarrow> rfail (classification_error ''token received but the feature was not negotiated'')
      | Some version \<Rightarrow> parse_with_version ops version)"


section \<open>What the parser guarantees\<close>

definition label_ref_ok :: "data_classification_metadata \<Rightarrow> sensitivity_label_reference \<Rightarrow> bool" where
  "label_ref_ok m x = (x = SL_Unspecified \<or> resolve_label m x \<noteq> None)"

definition type_ref_ok :: "data_classification_metadata \<Rightarrow> information_type_ref \<Rightarrow> bool" where
  "type_ref_ok m x = (x = IT_Unspecified \<or> resolve_information_type m x \<noteq> None)"

definition classification_wf :: "data_classification_metadata \<Rightarrow> bool" where
  "classification_wf m \<longleftrightarrow> (dc_rank m \<noteq> None \<longleftrightarrow> dc_version m = DC_Version2) \<and>
     list_all (list_all (\<lambda>p. label_ref_ok m (sp_sensitivity_label p) \<and> type_ref_ok m (sp_information_type p) \<and>
       (sp_rank p \<noteq> None \<longleftrightarrow> dc_version m = DC_Version2))) (dc_columns m)"

definition property_ok :: "dc_version \<Rightarrow> nat \<Rightarrow> nat \<Rightarrow> sensitivity_property \<Rightarrow> bool" where
  "property_ok version labels types p \<longleftrightarrow>
     (case sp_sensitivity_label p of SL_Unspecified \<Rightarrow> True | SL_Index i \<Rightarrow> unat i < labels) \<and>
     (case sp_information_type p of IT_Unspecified \<Rightarrow> True | IT_Index i \<Rightarrow> unat i < types) \<and>
     (sp_rank p \<noteq> None \<longleftrightarrow> version = DC_Version2)"

lemma dc_rank_for_ensures: "ensures (dc_rank_for ops version) (\<lambda>k. k \<noteq> None \<longleftrightarrow> version = DC_Version2)"
  by (cases version) (simp_all add: dc_rank_for_def ensures_rules del: rret_apply)

lemma dc_property_ensures: "ensures (dc_property ops version labels types) (property_ok version labels types)"
proof -
  have l: "ensures (rlift (label_reference i labels)) (\<lambda>x. case x of SL_Unspecified \<Rightarrow> True | SL_Index i \<Rightarrow> unat i < labels)" for i
    by (rule ensures_rlift) (auto simp: label_reference_def dictionary_index_def split: if_splits)
  have t: "ensures (rlift (information_type_reference i types)) (\<lambda>x. case x of IT_Unspecified \<Rightarrow> True | IT_Index i \<Rightarrow> unat i < types)" for i
    by (rule ensures_rlift) (auto simp: information_type_reference_def dictionary_index_def split: if_splits)
  show ?thesis unfolding dc_property_def
    by (intro ensures_bind [where m = "dc_u16 ops"] ensures_bind_mid [OF dc_rank_for_ensures] ensures_bind_mid [OF l] ensures_bind_mid [OF t] ensures_rret)
       (simp add: property_ok_def)
qed

lemma dc_counted_ensures: "ensures m P \<Longrightarrow> ensures (dc_counted ops k m) (list_all P)"
  unfolding dc_counted_def
  by (intro ensures_bind [where m = "dc_u16 ops"] ensures_bind [where m = "validate_collection _ _"] ensures_weaken [OF read_list_ensures]) auto

lemma parse_budgeted_ensures: "ensures (parse_budgeted ops version) (\<lambda>m. dc_version m = version \<and> classification_wf m)"
  unfolding parse_budgeted_def
  by (intro ensures_bind [where m = "dc_counted ops 2 (dc_label ops)"] ensures_bind [where m = "dc_counted ops 2 (dc_information_type ops)"]
      ensures_bind_mid [OF dc_rank_for_ensures] ensures_bind_mid [OF dc_counted_ensures [OF dc_counted_ensures [OF dc_property_ensures]]] ensures_rret)
     (auto simp: classification_wf_def property_ok_def label_ref_ok_def type_ref_ok_def resolve_label_def resolve_information_type_def list_get_def
        list_all_iff split: sensitivity_label_reference.splits information_type_ref.splits)

text \<open>The transport is safe and the budget is not exceeded.\<close>

definition budget_safe :: "('s \<Rightarrow> bool) \<Rightarrow> parse_budget \<times> 's \<Rightarrow> bool" where
  "budget_safe safe bs \<longleftrightarrow> pb_consumed (fst bs) \<le> pb_limit (fst bs) \<and> safe (snd bs)"

definition budget_left :: "('s \<Rightarrow> nat) \<Rightarrow> parse_budget \<times> 's \<Rightarrow> nat" where
  "budget_left left bs = left (snd bs)"

lemma dc_reader_tame: "tame safe left 0 m \<Longrightarrow> tame (budget_safe safe) (budget_left left) 0 (dc_reader m)"
  unfolding tame_def by (auto simp: dc_reader_def budget_safe_def budget_left_def guarded_def split: prod.splits)

lemma claim_tame: "tame (budget_safe safe) (budget_left left) 0 (claim n)" "tame (budget_safe safe) (budget_left left) 0 (validate_collection count k)"
  unfolding tame_def
  by (auto simp: claim_def validate_collection_def budget_safe_def budget_left_def guarded_def Let_def classification_error_def split: if_splits)

context finite_source
begin

lemma dc_reads_tame:
  "tame (budget_safe safe) (budget_left left) 0 (dc_u8 ops)" "tame (budget_safe safe) (budget_left left) 0 (dc_u16 ops)"
  "tame (budget_safe safe) (budget_left left) 0 (dc_i32 ops)" "tame (budget_safe safe) (budget_left left) 0 (dc_b_varchar ops)"
  "tame (budget_safe safe) (budget_left left) 0 (dc_rank_for ops version)"
proof -
  show b: "tame (budget_safe safe) (budget_left left) 0 (dc_u8 ops)" "tame (budget_safe safe) (budget_left left) 0 (dc_u16 ops)"
    and i: "tame (budget_safe safe) (budget_left left) 0 (dc_i32 ops)"
    unfolding dc_u8_def dc_u16_def dc_i32_def by (intro tame_bind0 claim_tame dc_reader_tame scalars_tame0)+
  show "tame (budget_safe safe) (budget_left left) 0 (dc_b_varchar ops)"
    unfolding dc_b_varchar_def by (intro tame_bind0 claim_tame dc_reader_tame b read_u16s_tame tame_rret)
  have "rank_or_error v \<noteq> Inl Panic \<and> rank_or_error v \<noteq> Inl Diverge" for v
    by (simp add: rank_or_error_def classification_error_def split: sum.split)
  then show "tame (budget_safe safe) (budget_left left) 0 (dc_rank_for ops version)"
    by (cases version) (simp_all add: dc_rank_for_def dc_read_rank_def tame_bind0 tame_rret tame_rlift i del: rret_apply)
qed

lemma dc_counted_tame: "tame (budget_safe safe) (budget_left left) 0 m \<Longrightarrow> tame (budget_safe safe) (budget_left left) 0 (dc_counted ops k m)"
  unfolding dc_counted_def by (intro tame_bind0 dc_reads_tame claim_tame read_list_tame)

lemma parse_budgeted_tame: "tame (budget_safe safe) (budget_left left) 0 (parse_budgeted ops version)"
proof -
  have refs: "label_reference i n \<noteq> Inl Panic \<and> label_reference i n \<noteq> Inl Diverge"
    "information_type_reference i n \<noteq> Inl Panic \<and> information_type_reference i n \<noteq> Inl Diverge" for i n
    by (simp_all add: label_reference_def information_type_reference_def dictionary_index_def classification_error_def)
  show ?thesis unfolding parse_budgeted_def dc_label_def dc_information_type_def dc_property_def
    by (intro tame_bind0 dc_counted_tame dc_reads_tame tame_rret tame_rlift) (use refs in auto)
qed

lemma parse_data_classification_tame: "tame safe left 0 (parse_data_classification ops negotiated)"
proof (cases negotiated)
  case None
  then show ?thesis by (simp add: parse_data_classification_def classification_error_def tame_rfail)
next
  case (Some version)
  have "tame safe left 0 (parse_within ops version limit)" for limit
    unfolding tame_def
  proof (intro allI impI)
    fix s assume "safe s"
    then have "budget_safe safe (budget_new limit, s)" by (simp add: budget_safe_def budget_new_def)
    note t = parse_budgeted_tame [of version, unfolded tame_def, rule_format, OF this]
    obtain x b s' where "parse_budgeted ops version (budget_new limit, s) = (x, b, s')" by (rule prod_cases3)
    with t show "guarded safe (parse_within ops version limit s) \<and>
        (\<forall>v s'. parse_within ops version limit s = (Inr v, s') \<longrightarrow> left s' + 0 \<le> left s)"
      by (simp add: parse_within_def budget_safe_def budget_left_def guarded_def)
  qed
  with Some show ?thesis by (simp add: parse_data_classification_def parse_with_version_def)
qed

end


section \<open>Wire form\<close>

definition label_bytes :: "sensitivity_label \<Rightarrow> bytes" where
  "label_bytes l = b_varchar (sl_name l) @ b_varchar (sl_id l)"

definition type_bytes :: "information_type \<Rightarrow> bytes" where
  "type_bytes t = b_varchar (it_name t) @ b_varchar (it_id t)"

definition rank_bytes :: "sensitivity_rank option \<Rightarrow> bytes" where
  "rank_bytes k = (case k of None \<Rightarrow> [] | Some x \<Rightarrow> to_le_u32 (sensitivity_rank_i32 x))"

definition property_wire :: "sensitivity_property \<Rightarrow> bytes" where
  "property_wire p = to_le_u16 (case sp_sensitivity_label p of SL_Unspecified \<Rightarrow> 0xFFFF | SL_Index i \<Rightarrow> i) @
     to_le_u16 (case sp_information_type p of IT_Unspecified \<Rightarrow> 0xFFFF | IT_Index i \<Rightarrow> i) @ rank_bytes (sp_rank p)"

definition counted_bytes :: "('a \<Rightarrow> bytes) \<Rightarrow> 'a list \<Rightarrow> bytes" where
  "counted_bytes w xs = to_le_u16 (word_of_nat (length xs)) @ concat (map w xs)"

definition classification_bytes :: "data_classification_metadata \<Rightarrow> bytes" where
  "classification_bytes m = counted_bytes label_bytes (dc_sensitivity_labels m) @ counted_bytes type_bytes (dc_information_types m) @
     rank_bytes (dc_rank m) @ counted_bytes (counted_bytes property_wire) (dc_columns m)"

definition property_fits :: "data_classification_metadata \<Rightarrow> sensitivity_property \<Rightarrow> bool" where
  "property_fits m p \<longleftrightarrow> property_ok (dc_version m) (length (dc_sensitivity_labels m)) (length (dc_information_types m)) p \<and>
     sp_sensitivity_label p \<noteq> SL_Index 0xFFFF \<and> sp_information_type p \<noteq> IT_Index 0xFFFF"

definition classification_fits :: "data_classification_metadata \<Rightarrow> bool" where
  "classification_fits m \<longleftrightarrow> length (dc_sensitivity_labels m) < 65536 \<and> length (dc_information_types m) < 65536 \<and> length (dc_columns m) < 65536 \<and>
     list_all (\<lambda>l. fits_b (sl_name l) \<and> fits_b (sl_id l)) (dc_sensitivity_labels m) \<and>
     list_all (\<lambda>t. fits_b (it_name t) \<and> fits_b (it_id t)) (dc_information_types m) \<and>
     (dc_rank m \<noteq> None \<longleftrightarrow> dc_version m = DC_Version2) \<and>
     list_all (\<lambda>ps. length ps < 65536 \<and> list_all (property_fits m) ps) (dc_columns m)"

text \<open>Reading a wire form takes its bytes from the transport and its length from the budget.\<close>

definition byields :: "(bytes \<Rightarrow> 's \<Rightarrow> bool) \<Rightarrow> bytes \<Rightarrow> (parse_budget \<times> 's, 'a) action \<Rightarrow> 'a \<Rightarrow> bool" where
  "byields supplies c m v \<longleftrightarrow> (\<forall>rest b s. supplies (c @ rest) s \<longrightarrow> pb_consumed b + length c \<le> pb_limit b \<longrightarrow> pb_limit b < 2 ^ 64 \<longrightarrow>
     (\<exists>s'. m (b, s) = (Inr v, (b\<lparr>pb_consumed := pb_consumed b + length c\<rparr>, s')) \<and> supplies rest s'))"

lemma byields_rret: "c = [] \<Longrightarrow> byields supplies c (rret v) v"
  by (simp add: byields_def)

lemma byields_bind:
  assumes "byields supplies c m v" "byields supplies d (f v) w"
  shows "byields supplies (c @ d) (rbind m f) w"
  unfolding byields_def
proof (intro allI impI)
  fix rest s and b :: parse_budget
  assume a: "supplies ((c @ d) @ rest) s" "pb_consumed b + length (c @ d) \<le> pb_limit b" "pb_limit b < 2 ^ 64"
  let ?b = "b\<lparr>pb_consumed := pb_consumed b + length c\<rparr>"
  from assms(1) [unfolded byields_def, rule_format, of "d @ rest" s b] a
  obtain s1 where s1: "m (b, s) = (Inr v, (?b, s1))" "supplies (d @ rest) s1" by auto
  moreover from assms(2) [unfolded byields_def, rule_format, of rest s1 ?b] s1(2) a
  obtain s2 where "f v (?b, s1) = (Inr w, (?b\<lparr>pb_consumed := pb_consumed ?b + length d\<rparr>, s2))" "supplies rest s2" by auto
  ultimately show "\<exists>s'. rbind m f (b, s) = (Inr w, (b\<lparr>pb_consumed := pb_consumed b + length (c @ d)\<rparr>, s')) \<and> supplies rest s'"
    by (auto simp: rbind_def add.assoc)
qed

lemma byields_last: "byields supplies c m v \<Longrightarrow> f v = rret w \<Longrightarrow> byields supplies c (rbind m f) w"
  using byields_bind [of supplies c m v "[]" f w] by (simp add: byields_rret)

lemma byields_rlift: "r = Inr v \<Longrightarrow> byields supplies d (f v) w \<Longrightarrow> byields supplies d (rbind (rlift r) f) w"
  by (simp add: byields_def rlift_def rbind_def)

lemma byields_claim:
  assumes "yields supplies c m v" "n = length c"
  shows "byields supplies c (rbind (claim n) (\<lambda>_. dc_reader m)) v"
  unfolding byields_def
proof (intro allI impI)
  fix rest s and b :: parse_budget
  assume a: "supplies (c @ rest) s" "pb_consumed b + length c \<le> pb_limit b" "pb_limit b < 2 ^ 64"
  from assms(1) [unfolded yields_def, rule_format, OF a(1)] obtain s' where "m s = (Inr v, s')" "supplies rest s'" by blast
  with a(2,3) assms(2) show "\<exists>s'. rbind (claim n) (\<lambda>_. dc_reader m) (b, s) = (Inr v, (b\<lparr>pb_consumed := pb_consumed b + length c\<rparr>, s')) \<and> supplies rest s'"
    by (simp add: claim_def dc_reader_def rbind_def Let_def min_def)
qed

lemma byields_validate:
  "unat count * k \<le> length d \<Longrightarrow> byields supplies d m w \<Longrightarrow> byields supplies d (rbind (validate_collection count k) (\<lambda>_. m)) w"
  unfolding byields_def by (auto simp: validate_collection_def rbind_def)

lemma byields_list:
  "list_all (\<lambda>x. byields supplies (w x) m x) xs \<Longrightarrow> n = length xs \<Longrightarrow> byields supplies (concat (map w xs)) (read_list n m) xs"
proof (induction xs arbitrary: n)
  case (Cons x xs)
  then have "byields supplies (concat (map w xs)) (rbind (read_list (length xs) m) (\<lambda>xs. rret (x # xs))) (x # xs)"
    by (intro byields_last [OF Cons.IH]) simp_all
  then have "byields supplies (w x @ concat (map w xs)) (rbind m (\<lambda>x. rbind (read_list (length xs) m) (\<lambda>xs. rret (x # xs)))) (x # xs)"
    using Cons.prems by (intro byields_bind) simp_all
  with Cons.prems show ?case by simp
qed (simp add: byields_rret del: rret_apply)

lemma concat_length_ge: "list_all (\<lambda>x. k \<le> length (w x)) xs \<Longrightarrow> length xs * k \<le> length (concat (map w xs))"
  by (induction xs) auto

lemma rank_roundtrip: "rank_or_error (sensitivity_rank_i32 k) = Inr k"
  by (cases k) (simp_all add: rank_or_error_def sensitivity_rank_try_from_def)

lemma from_utf16_lossy_total: "from_utf16 us = Some str \<Longrightarrow> from_utf16_lossy us = str"
proof (induction us arbitrary: str rule: from_utf16.induct)
  case (2 u us)
  show ?case
  proof (cases "unat u < 0xD800 \<or> 0xDFFF < unat u")
    case True
    then obtain z where "from_utf16 us = Some z" "str = unat u # z" using 2(3) by auto
    then show ?thesis using 2(1) [OF True] True by simp
  next
    case False
    then have l: "\<not> 0xDC00 \<le> unat u" using 2(3) by auto
    then obtain v vs where us: "us = v # vs" using 2(3) False by (cases us) auto
    then have v: "0xDC00 \<le> unat v \<and> unat v \<le> 0xDFFF" using 2(3) False l by (auto split: if_splits)
    then obtain z where "from_utf16 vs = Some z" "str = (0x10000 + (unat u - 0xD800) * 0x400 + (unat v - 0xDC00)) # z"
      using 2(3) False l us by auto
    then show ?thesis using 2(2) [OF False l us v] False l us v by simp
  qed
qed simp

context packet_source
begin

lemma dc_scalars_yield: "byields supplies [b] (dc_u8 ops) b" "byields supplies (to_le_u16 x) (dc_u16 ops) x" "byields supplies (to_le_u32 y) (dc_i32 ops) y"
  unfolding dc_u8_def dc_u16_def dc_i32_def
  by (rule byields_claim [OF scalars_yield(1)], simp) (rule byields_claim [OF scalars_yield(2)], simp add: le16.enc_length,
      rule byields_claim [OF scalars_yield(5)], simp add: le32.enc_length)

lemma dc_b_varchar_yields:
  assumes "fits_b str"
  shows "byields supplies (b_varchar str) (dc_b_varchar ops) str"
proof -
  let ?us = "encode_utf16 str"
  have n: "unat (word_of_nat (length ?us) :: u8) = length ?us" using assms by (simp add: fits_b_def unat_of_nat_u8)
  have w: "utf16_le str = concat (map to_le_u16 ?us)" by (simp add: utf16_le_def units_le_def)
  have "byields supplies (utf16_le str) (rbind (claim (length ?us * 2)) (\<lambda>_. dc_reader (read_u16s ops (length ?us)))) ?us"
    by (rule byields_claim) (use read_u16s_yields [of "length ?us" ?us] in \<open>simp_all add: w flip: units_le_def\<close>)
  from byields_last [OF this, of "\<lambda>us. rret (from_utf16_lossy us)"]
  have "byields supplies (utf16_le str) (rbind (claim (length ?us * 2)) (\<lambda>_. rmap from_utf16_lossy (dc_reader (read_u16s ops (length ?us))))) str"
    using from_utf16_lossy_total [OF from_utf16_encode] assms by (simp add: rbind_assoc fits_b_def del: rret_apply)
  from byields_bind [OF dc_scalars_yield(1) [of "word_of_nat (length ?us)"], of _ "\<lambda>c. rbind (claim (unat c * 2)) (\<lambda>_. rmap from_utf16_lossy (dc_reader (read_u16s ops (unat c))))"]
    this n show ?thesis by (simp add: dc_b_varchar_def b_varchar_def)
qed

lemma dc_rank_yields: "(k \<noteq> None) = (version = DC_Version2) \<Longrightarrow> byields supplies (rank_bytes k) (dc_rank_for ops version) k"
  using byields_last [OF dc_scalars_yield(3), where f = "\<lambda>v. rmap Some (rlift (rank_or_error v))"]
  by (cases k; cases version) (auto simp: rank_bytes_def dc_rank_for_def dc_read_rank_def rank_roundtrip byields_rret rbind_assoc simp del: rret_apply)

lemma dc_dictionary_yields:
  "fits_b (sl_name l) \<and> fits_b (sl_id l) \<Longrightarrow> byields supplies (label_bytes l) (dc_label ops) l"
  "fits_b (it_name t) \<and> fits_b (it_id t) \<Longrightarrow> byields supplies (type_bytes t) (dc_information_type ops) t"
  unfolding label_bytes_def type_bytes_def dc_label_def dc_information_type_def
  by (rule byields_bind [OF dc_b_varchar_yields byields_last [OF dc_b_varchar_yields]]; cases l; simp del: rret_apply)
     (rule byields_bind [OF dc_b_varchar_yields byields_last [OF dc_b_varchar_yields]]; cases t; simp del: rret_apply)

lemma dc_counted_yields:
  assumes "list_all (\<lambda>x. byields supplies (w x) m x) xs" "length xs < 65536" "list_all (\<lambda>x. k \<le> length (w x)) xs"
  shows "byields supplies (counted_bytes w xs) (dc_counted ops k m) xs"
proof -
  have n: "unat (word_of_nat (length xs) :: u16) = length xs" using assms(2) by (simp add: unat_of_nat_u16)
  show ?thesis unfolding counted_bytes_def dc_counted_def
    by (intro byields_bind [OF dc_scalars_yield(2)] byields_validate byields_list assms(1)) (use concat_length_ge [OF assms(3)] n in simp_all)
qed

lemma dc_property_yields:
  assumes "property_fits m p"
  shows "byields supplies (property_wire p) (dc_property ops (dc_version m) (length (dc_sensitivity_labels m)) (length (dc_information_types m))) p"
proof -
  let ?l = "case sp_sensitivity_label p of SL_Unspecified \<Rightarrow> 0xFFFF | SL_Index i \<Rightarrow> i"
  let ?t = "case sp_information_type p of IT_Unspecified \<Rightarrow> 0xFFFF | IT_Index i \<Rightarrow> i"
  have refs: "label_reference ?l (length (dc_sensitivity_labels m)) = Inr (sp_sensitivity_label p)"
    "information_type_reference ?t (length (dc_information_types m)) = Inr (sp_information_type p)"
    using assms by (auto simp: property_fits_def property_ok_def label_reference_def information_type_reference_def dictionary_index_def
        NULL_DICTIONARY_INDEX_def split: sensitivity_label_reference.splits information_type_ref.splits)
  have k: "(sp_rank p \<noteq> None) = (dc_version m = DC_Version2)" using assms by (simp add: property_fits_def property_ok_def)
  have "byields supplies (rank_bytes (sp_rank p)) (rbind (dc_rank_for ops (dc_version m)) (\<lambda>property_rank.
       rret \<lparr>sp_sensitivity_label = sp_sensitivity_label p, sp_information_type = sp_information_type p, sp_rank = property_rank\<rparr>)) p"
    by (rule byields_last [OF dc_rank_yields [OF k]]) (cases p, simp)
  then show ?thesis unfolding property_wire_def dc_property_def
    by (intro byields_bind [OF dc_scalars_yield(2)]) (simp add: refs del: rret_apply)
qed

lemma parse_budgeted_yields:
  assumes "classification_fits m"
  shows "byields supplies (classification_bytes m) (parse_budgeted ops (dc_version m)) m"
proof -
  have k: "(dc_rank m \<noteq> None) = (dc_version m = DC_Version2)" using assms by (simp add: classification_fits_def)
  have labels: "byields supplies (counted_bytes label_bytes (dc_sensitivity_labels m)) (dc_counted ops 2 (dc_label ops)) (dc_sensitivity_labels m)"
    by (rule dc_counted_yields) (use assms dc_dictionary_yields(1) in \<open>auto simp: classification_fits_def list_all_iff label_bytes_def b_varchar_def\<close>)
  have types: "byields supplies (counted_bytes type_bytes (dc_information_types m)) (dc_counted ops 2 (dc_information_type ops)) (dc_information_types m)"
    by (rule dc_counted_yields) (use assms dc_dictionary_yields(2) in \<open>auto simp: classification_fits_def list_all_iff type_bytes_def b_varchar_def\<close>)
  have wide: "property_bytes (dc_version m) \<le> length (property_wire p)" if "property_fits m p" for p
    using that by (auto simp: property_bytes_def property_wire_def property_fits_def property_ok_def rank_bytes_def le16.enc_length le32.enc_length
        split: dc_version.splits option.splits)
  have column: "byields supplies (counted_bytes property_wire ps)
      (dc_counted ops (property_bytes (dc_version m)) (dc_property ops (dc_version m) (length (dc_sensitivity_labels m)) (length (dc_information_types m)))) ps"
    if "length ps < 65536" "list_all (property_fits m) ps" for ps
    by (rule dc_counted_yields) (use that dc_property_yields wide in \<open>auto simp: list_all_iff\<close>)
  have columns: "byields supplies (counted_bytes (counted_bytes property_wire) (dc_columns m))
      (dc_counted ops 2 (dc_counted ops (property_bytes (dc_version m)) (dc_property ops (dc_version m) (length (dc_sensitivity_labels m)) (length (dc_information_types m)))))
      (dc_columns m)"
    by (rule dc_counted_yields) (use assms column in \<open>auto simp: classification_fits_def list_all_iff counted_bytes_def le16.enc_length\<close>)
  show ?thesis unfolding classification_bytes_def parse_budgeted_def
    by (intro byields_bind [OF labels] byields_bind [OF types] byields_bind [OF dc_rank_yields [OF k]] byields_last [OF columns]) (cases m, simp)
qed

end


section \<open>Properties\<close>

text \<open>
  C29. Data classification metadata is valid. Whatever the peer sends, the parser returns without a
  panic, and without a negotiated version it answers a classification error; metadata it returns has
  the negotiated version, every label and information type a column refers to resolves in the
  dictionaries, and ranks are present exactly in version 2.
\<close>

theorem data_classification_valid:
  assumes "reader_safe r" and "parse_data_classification network_ops negotiated r = (x, r')"
  shows "x \<noteq> Inl Panic \<and> x \<noteq> Inl Diverge \<and> reader_safe r' \<and>
    (\<forall>m. x = Inr m \<longrightarrow> negotiated = Some (dc_version m) \<and> classification_wf m) \<and>
    (negotiated = None \<longrightarrow> (\<exists>e. x = Inl e \<and> is_classification_error e))"
proof -
  have "ensures (parse_within network_ops version limit) (\<lambda>m. dc_version m = version \<and> classification_wf m)" for version limit
    unfolding ensures_def parse_within_def by (auto split: prod.splits dest: ensuresD [OF parse_budgeted_ensures])
  then show ?thesis
    using tameD [OF net.parse_data_classification_tame assms(1), of negotiated] assms(2)
    by (auto simp: guarded_def parse_data_classification_def parse_with_version_def is_classification_error_def classification_error_def
        starts_with_def dest!: ensuresD split: option.splits)
qed

theorem data_classification_valid_witness:
  "\<exists>x r'. parse_data_classification network_ops (Some DC_Version2) hostile_reader = (x, r') \<and> x \<noteq> Inl Panic \<and> x \<noteq> Inl Diverge"
proof -
  obtain x r' where "parse_data_classification network_ops (Some DC_Version2) hostile_reader = (x, r')" by (rule prod.exhaust)
  with data_classification_valid [OF hostile_reader_safe this] show ?thesis by blast
qed

text \<open>
  C28. Data classification metadata is read back. A token whose strings, counts and references fit
  their fields and whose wire form is within the sixteen megabytes of the budget is returned as sent,
  over any cut of its bytes into packets, and nothing after it is consumed.
\<close>

theorem data_classification_roundtrip:
  assumes "classification_fits m" and "length (classification_bytes m) \<le> MAX_DATA_CLASSIFICATION_TOKEN_BYTES"
    and "net_supplies tail (classification_bytes m @ rest) r"
  shows "\<exists>r'. parse_data_classification network_ops (Some (dc_version m)) r = (Inr m, r') \<and> net_supplies tail rest r'"
  using net.parse_budgeted_yields [OF assms(1), of tail, unfolded byields_def, rule_format, OF assms(3), of "budget_new MAX_DATA_CLASSIFICATION_TOKEN_BYTES"] assms(2)
  by (auto simp: parse_data_classification_def parse_with_version_def parse_within_def budget_new_def MAX_DATA_CLASSIFICATION_TOKEN_BYTES_def)

definition sample_classification :: data_classification_metadata where
  "sample_classification = \<lparr>dc_version = DC_Version1, dc_sensitivity_labels = [\<lparr>sl_name = [], sl_id = []\<rparr>], dc_information_types = [],
     dc_rank = None, dc_columns = [[\<lparr>sp_sensitivity_label = SL_Index 0, sp_information_type = IT_Unspecified, sp_rank = None\<rparr>]]\<rparr>"

theorem data_classification_roundtrip_witness:
  "\<exists>r'. parse_data_classification network_ops (Some DC_Version1) (one_packet_reader (classification_bytes sample_classification)) = (Inr sample_classification, r')"
proof -
  have f: "classification_fits sample_classification"
    by (simp add: sample_classification_def classification_fits_def property_fits_def property_ok_def fits_b_def)
  have l: "length (classification_bytes sample_classification) \<le> 504"
    by (simp add: sample_classification_def classification_bytes_def counted_bytes_def label_bytes_def b_varchar_def utf16_le_def property_wire_def rank_bytes_def
        le16.enc_length)
  from data_classification_roundtrip [OF f, of "[]" "[]"] one_packet_supplies [OF l] l show ?thesis
    by (auto simp: MAX_DATA_CLASSIFICATION_TOKEN_BYTES_def) (auto simp: sample_classification_def)
qed

end
