(* ===== verification/Token_Stream.thy ===== *)
theory Token_Stream
  imports Data_Classification
begin

text \<open>
  The token stream (\<^verbatim>\<open>mssql-tds/src/io/token_stream.rs\<close>): the tokens, the parser registry, the dispatch
  on a token type and the synchronous recogniser of control tokens. Reading a token returns on every
  input, consumes at least its type byte, and returns every token from its wire form.
\<close>

section \<open>Tokens and parsers\<close>

datatype tokens =
    TK_Done done_token
  | TK_DoneInProc done_token
  | TK_DoneProc done_token
  | TK_EnvChange env_change_token
  | TK_Error error_token
  | TK_Info error_token
  | TK_LoginAck login_ack_token
  | TK_FeatureExtAck "(feature_extension \<times> bytes) list"
  | TK_FedAuthInfo fed_auth_info_token
  | TK_SessionState session_state_token
  | TK_Sspi bytes
  | TK_Row "column_values list"
  | TK_ColMetadata col_metadata_token
  | TK_DataClassification data_classification_metadata
  | TK_Order "u16 list"
  | TK_ReturnStatus u32
  | TK_ReturnValue return_value_token
  | TK_TabName
  | TK_ColInfo

primrec token_type_of :: "tokens \<Rightarrow> token_type" where
  "token_type_of (TK_Done t) = TT_Done"
| "token_type_of (TK_DoneInProc t) = TT_DoneInProc"
| "token_type_of (TK_DoneProc t) = TT_DoneProc"
| "token_type_of (TK_EnvChange t) = TT_EnvChange"
| "token_type_of (TK_Error t) = TT_Error"
| "token_type_of (TK_Info t) = TT_Info"
| "token_type_of (TK_LoginAck t) = TT_LoginAck"
| "token_type_of (TK_FeatureExtAck t) = TT_FeatureExtAck"
| "token_type_of (TK_FedAuthInfo t) = TT_FedAuthInfo"
| "token_type_of (TK_SessionState t) = TT_SessionState"
| "token_type_of (TK_Sspi t) = TT_SSPI"
| "token_type_of (TK_Row t) = TT_Row"
| "token_type_of (TK_ColMetadata t) = TT_ColMetadata"
| "token_type_of (TK_DataClassification t) = TT_DataClassification"
| "token_type_of (TK_Order t) = TT_Order"
| "token_type_of (TK_ReturnStatus t) = TT_ReturnStatus"
| "token_type_of (TK_ReturnValue t) = TT_ReturnValue"
| "token_type_of TK_TabName = TT_TabName"
| "token_type_of TK_ColInfo = TT_ColInfo"

datatype token_parsers =
    TP_EnvChange | TP_LoginAck | TP_Done | TP_DoneInProc | TP_DoneProc | TP_Info | TP_Error | TP_FedAuthInfo | TP_FeatureExtAck |
    TP_ColMetadata | TP_DataClassification | TP_Row | TP_Order | TP_ReturnStatus | TP_NbcRow | TP_ReturnValue | TP_SessionState |
    TP_TabName | TP_ColInfo | TP_Sspi

text \<open>\<^verbatim>\<open>GenericTokenParserRegistry\<close>: the types that have a parser.\<close>

definition get_parser :: "token_type \<Rightarrow> token_parsers option" where
  "get_parser t =
     (case t of
        TT_EnvChange \<Rightarrow> Some TP_EnvChange | TT_LoginAck \<Rightarrow> Some TP_LoginAck | TT_Done \<Rightarrow> Some TP_Done
      | TT_DoneInProc \<Rightarrow> Some TP_DoneInProc | TT_DoneProc \<Rightarrow> Some TP_DoneProc | TT_Info \<Rightarrow> Some TP_Info
      | TT_Error \<Rightarrow> Some TP_Error | TT_FeatureExtAck \<Rightarrow> Some TP_FeatureExtAck | TT_FedAuthInfo \<Rightarrow> Some TP_FedAuthInfo
      | TT_ColMetadata \<Rightarrow> Some TP_ColMetadata | TT_DataClassification \<Rightarrow> Some TP_DataClassification | TT_Row \<Rightarrow> Some TP_Row
      | TT_Order \<Rightarrow> Some TP_Order | TT_ReturnStatus \<Rightarrow> Some TP_ReturnStatus | TT_NbcRow \<Rightarrow> Some TP_NbcRow
      | TT_ReturnValue \<Rightarrow> Some TP_ReturnValue | TT_SSPI \<Rightarrow> Some TP_Sspi | TT_SessionState \<Rightarrow> Some TP_SessionState
      | TT_TabName \<Rightarrow> Some TP_TabName | TT_ColInfo \<Rightarrow> Some TP_ColInfo
      | TT_AltMetadata \<Rightarrow> None | TT_AltRow \<Rightarrow> None | TT_Offset \<Rightarrow> None)"

text \<open>
  What the parsers need beside the bytes: the conversion of half-precision numbers, the negotiated
  classification version, and the steps granted to the loop of \<^verbatim>\<open>FEATUREEXTACK\<close>.
\<close>

record token_env =
  te_half :: "u16 \<Rightarrow> u32"
  te_dc_version :: "dc_version option"
  te_fuel :: nat

definition dispatch_token :: "token_env \<Rightarrow> 's packet_reader_ops \<Rightarrow> parser_context \<Rightarrow> token_type \<Rightarrow> ('s, tokens) action" where
  "dispatch_token env ops ctx t =
     (case get_parser t of
        None \<Rightarrow> rfail (no_parser_error t)
      | Some parser \<Rightarrow>
          (case parser of
             TP_EnvChange \<Rightarrow> rmap TK_EnvChange (parse_env_change ops)
           | TP_LoginAck \<Rightarrow> rmap TK_LoginAck (parse_login_ack ops)
           | TP_Done \<Rightarrow> rmap TK_Done (read_done_token ops)
           | TP_DoneInProc \<Rightarrow> rmap TK_DoneInProc (read_done_token ops)
           | TP_DoneProc \<Rightarrow> rmap TK_DoneProc (read_done_token ops)
           | TP_Info \<Rightarrow> rmap TK_Info (parse_info ops)
           | TP_Error \<Rightarrow> rmap TK_Error (parse_error ops)
           | TP_FedAuthInfo \<Rightarrow> rmap TK_FedAuthInfo (parse_fed_auth_info ops)
           | TP_FeatureExtAck \<Rightarrow> rmap TK_FeatureExtAck (parse_feature_ext_ack ops (te_fuel env))
           | TP_ColMetadata \<Rightarrow> rmap TK_ColMetadata (parse_col_metadata ops ctx)
           | TP_DataClassification \<Rightarrow> rmap TK_DataClassification (parse_data_classification ops (te_dc_version env))
           | TP_Row \<Rightarrow> rmap TK_Row (parse_row (te_half env) ops ctx)
           | TP_Order \<Rightarrow> rmap TK_Order (parse_order ops)
           | TP_ReturnStatus \<Rightarrow> rmap TK_ReturnStatus (read_return_status ops)
           | TP_NbcRow \<Rightarrow> rmap TK_Row (parse_nbc_row (te_half env) ops ctx)
           | TP_ReturnValue \<Rightarrow> rmap TK_ReturnValue (parse_return_value (te_half env) ops)
           | TP_SessionState \<Rightarrow> rmap TK_SessionState (parse_session_state ops)
           | TP_TabName \<Rightarrow> rmap (\<lambda>_. TK_TabName) (parse_tab_name ops)
           | TP_ColInfo \<Rightarrow> rmap (\<lambda>_. TK_ColInfo) (parse_col_info ops)
           | TP_Sspi \<Rightarrow> rmap TK_Sspi (parse_sspi ops)))"

definition receive_token_internal :: "token_env \<Rightarrow> 's packet_reader_ops \<Rightarrow> parser_context \<Rightarrow> ('s, tokens) action" where
  "receive_token_internal env ops ctx =
     rbind (rd_byte ops) (\<lambda>b. rbind (rlift (token_type_try_from b)) (\<lambda>t. dispatch_token env ops ctx t))"

definition RETURN_STATUS_PAYLOAD_LEN :: nat where "RETURN_STATUS_PAYLOAD_LEN = 4"

definition buffered_control_token :: "bytes \<Rightarrow> (tokens \<times> nat) option" where
  "buffered_control_token bs =
     (case bs of
        [] \<Rightarrow> None
      | kind # payload \<Rightarrow>
          if kind = token_type_u8 TT_Done then map_option (\<lambda>t. (TK_Done t, 1 + DONE_PAYLOAD_LEN)) (buffered_done_token payload)
          else if kind = token_type_u8 TT_DoneProc then map_option (\<lambda>t. (TK_DoneProc t, 1 + DONE_PAYLOAD_LEN)) (buffered_done_token payload)
          else if kind = token_type_u8 TT_DoneInProc then map_option (\<lambda>t. (TK_DoneInProc t, 1 + DONE_PAYLOAD_LEN)) (buffered_done_token payload)
          else if kind = token_type_u8 TT_ReturnStatus then
            map_option (\<lambda>v. (TK_ReturnStatus (from_le_u32 v), 1 + RETURN_STATUS_PAYLOAD_LEN)) (slice_get 0 RETURN_STATUS_PAYLOAD_LEN payload)
          else None)"


section \<open>Reading a token returns\<close>

lemma token_type_try_from_safe: "token_type_try_from b \<noteq> Inl Panic" "token_type_try_from b \<noteq> Inl Diverge"
  by (simp_all add: token_type_try_from_def)

context finite_source
begin

lemma dispatch_token_tame:
  assumes "context_ok ctx" "get_parser t \<noteq> Some TP_FeatureExtAck"
  shows "tame safe left 0 (dispatch_token env ops ctx t)"
  unfolding dispatch_token_def
  by (cases "get_parser t"; (cases "the (get_parser t)")?)
     (use assms in \<open>auto intro!: tame_bind0 tame_rret tame_rfail env_change_tame login_ack_tame read_done_token_tame error_info_tame fed_auth_tame
        parse_col_metadata_tame parse_data_classification_tame rows_tame order_tame return_status_tame parse_return_value_tame session_state_tame skips_tame sspi_tame
        simp: no_parser_error_def simp del: rret_apply\<close>)

lemma dispatch_token_returns:
  assumes "context_ok ctx"
  shows "tame_upto safe left (te_fuel env) 0 (dispatch_token env ops ctx t)"
proof (cases "get_parser t = Some TP_FeatureExtAck")
  case True
  have "tame_upto safe left (te_fuel env) 0 (parse_feature_ext_ack ops (te_fuel env))"
    by (simp add: parse_feature_ext_ack_def feature_loop_returns)
  then have "tame_upto safe left (te_fuel env) 0 (rmap TK_FeatureExtAck (parse_feature_ext_ack ops (te_fuel env)))"
    by (rule tame_upto_bind) (simp add: tame_upto_tame tame_rret del: rret_apply)
  with True show ?thesis by (simp add: dispatch_token_def)
next
  case False
  with dispatch_token_tame [OF assms] show ?thesis by (simp add: tame_upto_tame)
qed

end

context finite_source
begin

lemma receive_token_returns_upto:
  assumes "context_ok ctx"
  shows "tame_upto safe left (Suc (te_fuel env)) 1 (receive_token_internal env ops ctx)"
  unfolding receive_token_internal_def
proof (rule tame_upto_bind [OF tame_upto_tame [OF scalars_tame(1)]])
  fix b
  have "tame_upto safe left (te_fuel env) 0 (rlift (token_type_try_from b))"
    by (intro tame_upto_tame tame_rlift token_type_try_from_safe)
  from tame_upto_bind [OF this, of "dispatch_token env ops ctx"] dispatch_token_returns [OF assms]
  show "tame_upto safe left (Suc (te_fuel env) - 1) 0 (rbind (rlift (token_type_try_from b)) (dispatch_token env ops ctx))"
    by simp
qed

end


section \<open>Wire forms of tokens\<close>

text \<open>
  \<^verbatim>\<open>FEDAUTHINFO\<close> with its two options: each option is its id, the length of its text and the offset
  of the text from the option count.
\<close>

definition fed_option_bytes :: "fed_auth_info_id \<Rightarrow> bytes \<Rightarrow> nat \<Rightarrow> bytes" where
  "fed_option_bytes k d at = fed_auth_info_id_u8 k # to_le_u32 (word_of_nat (length d)) @ to_le_u32 (word_of_nat at)"

definition fed_auth_data :: "fed_auth_info_token \<Rightarrow> bytes" where
  "fed_auth_data t =
     (let url = utf16_le (fa_sts_url t); spn = utf16_le (fa_spn t) in
      fed_option_bytes FA_STSUrl url 22 @ fed_option_bytes FA_SPN spn (22 + length url) @ url @ spn)"

definition fed_auth_bytes :: "fed_auth_info_token \<Rightarrow> bytes" where
  "fed_auth_bytes t = to_le_u32 (word_of_nat (4 + length (fed_auth_data t))) @ to_le_u32 2 @ fed_auth_data t"

definition fed_auth_wf :: "fed_auth_info_token \<Rightarrow> bool" where
  "fed_auth_wf t \<longleftrightarrow> valid_string (fa_sts_url t) \<and> valid_string (fa_spn t) \<and> length (fed_auth_data t) \<le> 1024 * 1024"

lemma fed_option_bytes_length [simp]: "length (fed_option_bytes k d at) = 9"
  by (simp add: fed_option_bytes_def le32.enc_length)

lemma fed_option_text_at:
  assumes "token_data = pre @ fed_option_bytes k d at @ post" "at = length mid + 4" "token_data = mid @ d @ suff"
    and "d = utf16_le str" "valid_string str" "length token_data < 2 ^ 31"
  shows "fed_option_text token_data (length pre) = Inr str"
proof -
  have n: "unat (word_of_nat (length d) :: u32) = length d" "unat (word_of_nat at :: u32) = at"
    using assms(2,3,6) by (intro unat_of_nat_u32; simp)+
  have u: "from_utf16 (le_units d) = Some str" using assms(4,5) by (simp add: utf16_le_def from_utf16_encode)
  have "slice_get (length pre + 1) (length pre + 5) token_data = Some (to_le_u32 (word_of_nat (length d)))"
    "slice_get (length pre + 5) (length pre + 9) token_data = Some (to_le_u32 (word_of_nat at))"
    by (simp_all add: assms(1) slice_get_def seg_def fed_option_bytes_def le32.enc_length)
  moreover have "slice_get (at - 4) (at - 4 + length d) token_data = Some d"
    using assms(2) by (simp add: assms(3) slice_get_def seg_def)
  ultimately show ?thesis using n u assms(2) by (simp add: fed_option_text_def le32.dec_enc)
qed

lemma fed_options_data:
  assumes "fed_auth_wf t"
  shows "fed_options (fed_auth_data t) 2 0 \<lparr>fa_spn = [], fa_sts_url = []\<rparr> = Inr t"
proof -
  let ?url = "utf16_le (fa_sts_url t)" and ?spn = "utf16_le (fa_spn t)"
  let ?o1 = "fed_option_bytes FA_STSUrl ?url 22" and ?o2 = "fed_option_bytes FA_SPN ?spn (22 + length ?url)"
  have d: "fed_auth_data t = ?o1 @ ?o2 @ ?url @ ?spn" by (simp add: fed_auth_data_def Let_def)
  have wf: "valid_string (fa_sts_url t)" "valid_string (fa_spn t)" "length (fed_auth_data t) < 2 ^ 31"
    using assms by (simp_all add: fed_auth_wf_def)
  have "fed_option_text (fed_auth_data t) (length ([] :: bytes)) = Inr (fa_sts_url t)"
    by (rule fed_option_text_at [where k = FA_STSUrl and at = 22 and mid = "?o1 @ ?o2" and suff = ?spn and post = "?o2 @ ?url @ ?spn", OF _ _ _ refl wf(1,3)])
       (simp_all add: d)
  moreover have "fed_option_text (fed_auth_data t) (length ?o1) = Inr (fa_spn t)"
    by (rule fed_option_text_at [where k = FA_SPN and at = "22 + length ?url" and mid = "?o1 @ ?o2 @ ?url" and suff = "[]" and post = "?url @ ?spn", OF _ _ _ refl wf(2,3)])
       (simp_all add: d)
  moreover have "fed_auth_data t ! 0 = 1" "fed_auth_data t ! 9 = 2"
    by (simp_all add: d fed_option_bytes_def [of FA_STSUrl] fed_option_bytes_def [of FA_SPN] nth_append le32.enc_length)
  moreover have "18 \<le> length (fed_auth_data t)" "fed_auth_data t \<noteq> []" by (simp_all add: d flip: length_greater_0_conv)
  ultimately show ?thesis unfolding numeral_2_eq_2 by (cases t) (simp add: FEDAUTH_OPTIONS_SIZE_def fed_auth_info_id_from_def)
qed

lemma le_done_split:
  assumes "length bs = 12"
  shows "bs = to_le_u16 (from_le_u16 (seg 0 2 bs)) @ to_le_u16 (from_le_u16 (seg 2 4 bs)) @ to_le_u64 (from_le_u64 (seg 4 12 bs))"
proof -
  have "bs = seg 0 2 bs @ seg 2 4 bs @ seg 4 12 bs"
    using assms take_add [of 2 2 bs] append_take_drop_id [of 4 bs] by (simp add: seg_def)
  moreover have "length (seg 0 2 bs) = 2" "length (seg 2 4 bs) = 2" "length (seg 4 12 bs) = 8"
    using assms by (simp_all add: seg_def)
  ultimately show ?thesis by (simp add: le16.enc_dec le64.enc_dec)
qed


text \<open>
  The wire forms of a token under a configuration: its type byte and its content. The length fields of
  ERROR, INFO and LOGINACK, and the content of TABNAME and COLINFO, are not used by the parsers.
\<close>

inductive sent_as :: "token_env \<Rightarrow> parser_context \<Rightarrow> tokens \<Rightarrow> bytes \<Rightarrow> bool" for env ctx where
  Done: "done_status_from (dn_status t) = dn_status t \<Longrightarrow> sent_as env ctx (TK_Done t) (done_bytes t)"
| DoneInProc: "done_status_from (dn_status t) = dn_status t \<Longrightarrow> sent_as env ctx (TK_DoneInProc t) (done_bytes t)"
| DoneProc: "done_status_from (dn_status t) = dn_status t \<Longrightarrow> sent_as env ctx (TK_DoneProc t) (done_bytes t)"
| EnvChange: "env_change_wf ec \<Longrightarrow> sent_as env ctx (TK_EnvChange ec) (env_change_bytes ec)"
| Error: "error_wf er \<Longrightarrow> sent_as env ctx (TK_Error er) (error_bytes len er)"
| Info: "error_wf er \<Longrightarrow> sent_as env ctx (TK_Info er) (error_bytes len er)"
| LoginAck: "fits_b (la_prog_name la) \<Longrightarrow> vr_revision (la_prog_version la) = 0 \<Longrightarrow>
    sql_interface_type_from (sql_interface_type_u8 (la_interface_type la)) = la_interface_type la \<Longrightarrow>
    tds_version_from (tds_version_u32 (la_tds_version la)) = la_tds_version la \<Longrightarrow>
    sent_as env ctx (TK_LoginAck la) (login_ack_bytes len la)"
| FeatureExtAck: "list_all feature_wf fs \<Longrightarrow> length fs < te_fuel env \<Longrightarrow> sent_as env ctx (TK_FeatureExtAck fs) (feature_ext_bytes fs)"
| FedAuthInfo: "fed_auth_wf fa \<Longrightarrow> sent_as env ctx (TK_FedAuthInfo fa) (fed_auth_bytes fa)"
| SessionState: "session_state_wf ss \<Longrightarrow> sent_as env ctx (TK_SessionState ss) (session_state_bytes ss)"
| Sspi: "length bs < 65536 \<Longrightarrow> sent_as env ctx (TK_Sspi bs) (us_varbyte bs)"
| ColMetadata: "col_metadata_fits (is_column_encryption_supported ctx) md \<Longrightarrow>
    sent_as env ctx (TK_ColMetadata md) (col_metadata_bytes (is_column_encryption_supported ctx) md)"
| DataClassification: "classification_fits m \<Longrightarrow> length (classification_bytes m) \<le> MAX_DATA_CLASSIFICATION_TOKEN_BYTES \<Longrightarrow>
    te_dc_version env = Some (dc_version m) \<Longrightarrow> sent_as env ctx (TK_DataClassification m) (classification_bytes m)"
| Order: "2 * length cols < 65536 \<Longrightarrow> sent_as env ctx (TK_Order cols) (order_bytes cols)"
| ReturnStatus: "sent_as env ctx (TK_ReturnStatus v) (to_le_u32 v)"
| TabName: "length bs < 65536 \<Longrightarrow> sent_as env ctx TK_TabName (us_varbyte bs)"
| ColInfo: "length bs < 65536 \<Longrightarrow> sent_as env ctx TK_ColInfo (us_varbyte bs)"

definition token_wire :: "tokens \<Rightarrow> bytes \<Rightarrow> bytes" where
  "token_wire t content = token_type_u8 (token_type_of t) # content"

lemma token_type_try_from_u8: "token_type_try_from (token_type_u8 t) = Inr t"
  by (cases t) (simp_all add: token_type_try_from_def)

context packet_source
begin

lemma fed_auth_yields:
  assumes "fed_auth_wf t"
  shows "yields supplies (fed_auth_bytes t) (parse_fed_auth_info ops) t"
proof -
  let ?n = "length (fed_auth_data t)"
  have n: "18 \<le> ?n" "?n \<le> 1024 * 1024" using assms by (auto simp: fed_auth_data_def fed_auth_wf_def Let_def)
  then have s: "sint (word_of_nat (4 + ?n) :: u32) = int ?n + 4"
    by (subst signed_of_nat) (simp_all add: signed_take_bit_int_eq_self)
  have k: "sint (18 :: u32) = 18" by simp
  have "yields supplies (fed_auth_data t) (rd_bytes ops (nat (int ?n))) (fed_auth_data t)" by (intro strings_yield(1)) simp
  then show ?thesis unfolding fed_auth_bytes_def parse_fed_auth_info_def Let_def
    by (intro bind_rules(5,3) yields_else, goal_cases)
       (use n s k fed_options_data [OF assms] in \<open>auto simp: FEDAUTH_OPTIONS_SIZE_def intro!: yields_last\<close>)
qed

lemma parse_data_classification_yields:
  assumes "classification_fits m" "length (classification_bytes m) \<le> MAX_DATA_CLASSIFICATION_TOKEN_BYTES"
  shows "yields supplies (classification_bytes m) (parse_data_classification ops (Some (dc_version m))) m"
  unfolding yields_def
proof (intro allI impI)
  fix rest s assume s: "supplies (classification_bytes m @ rest) s"
  show "\<exists>s'. parse_data_classification ops (Some (dc_version m)) s = (Inr m, s') \<and> supplies rest s'"
    using parse_budgeted_yields [OF assms(1), unfolded byields_def, rule_format, OF s, of "budget_new MAX_DATA_CLASSIFICATION_TOKEN_BYTES"] assms(2)
    by (auto simp: parse_data_classification_def parse_with_version_def parse_within_def budget_new_def MAX_DATA_CLASSIFICATION_TOKEN_BYTES_def)
qed

lemma yields_rmap: "yields supplies c m v \<Longrightarrow> w = f v \<Longrightarrow> yields supplies c (rmap f m) w"
  by (erule yields_last) simp

lemma dispatch_token_yields:
  assumes "sent_as env ctx t c"
  shows "yields supplies c (dispatch_token env ops ctx (token_type_of t)) t"
  using assms
proof (induction rule: sent_as.induct)
  case (FeatureExtAck fs)
  then show ?case using feature_loop_yields [of fs "te_fuel env" "[]"]
    by (simp add: dispatch_token_def get_parser_def parse_feature_ext_ack_def yields_rmap del: rret_apply)
qed (auto simp: dispatch_token_def get_parser_def simp del: rret_apply
      intro!: yields_rmap done_yields env_change_yields error_yields login_ack_yields fed_auth_yields session_state_yields sspi_yields col_metadata_yields
        parse_data_classification_yields order_yields return_status_yields skips_yield)

lemma receive_token_yields:
  assumes "sent_as env ctx t c"
  shows "yields supplies (token_wire t c) (receive_token_internal env ops ctx) t"
  unfolding receive_token_internal_def token_wire_def
  by (intro bind_rules(1) yields_bind_nil [OF yields_rlift [OF refl token_type_try_from_u8]] dispatch_token_yields [OF assms])


lemma raw_done_yields:
  assumes "buffered_done_token bs = Some t" "length bs = DONE_PAYLOAD_LEN"
  shows "yields supplies bs (read_done_token ops) t"
  unfolding read_done_token_def
proof (rule yields_try_slice)
  have l: "length bs = 12" using assms(2) by (simp add: DONE_PAYLOAD_LEN_def)
  show "DONE_PAYLOAD_LEN = length bs" "bs \<noteq> []" using assms(2) by (auto simp: DONE_PAYLOAD_LEN_def)
  show "yields supplies [] (case Some bs of Some bs \<Rightarrow> (case buffered_done_token bs of Some t \<Rightarrow> rret t
      | None \<Rightarrow> rfail (ProtocolError ''Buffered DONE payload is incomplete''))
    | None \<Rightarrow> rbind (rd_u16 ops) (\<lambda>status. rbind (rd_u16 ops) (\<lambda>command. rbind (rd_u64 ops) (\<lambda>row_count.
        rret \<lparr>dn_status = done_status_from status, dn_cur_cmd = current_command_from command, dn_row_count = row_count\<rparr>)))) t"
    using assms(1) by (simp add: yields_def)
  show "yields supplies bs (case None of Some bs \<Rightarrow> (case buffered_done_token bs of Some t \<Rightarrow> rret t
      | None \<Rightarrow> rfail (ProtocolError ''Buffered DONE payload is incomplete''))
    | None \<Rightarrow> rbind (rd_u16 ops) (\<lambda>status. rbind (rd_u16 ops) (\<lambda>command. rbind (rd_u64 ops) (\<lambda>row_count.
        rret \<lparr>dn_status = done_status_from status, dn_cur_cmd = current_command_from command, dn_row_count = row_count\<rparr>)))) t"
    unfolding option.case by (subst le_done_split [OF l], intro bind_rules last_rules)
      (use assms in \<open>simp add: buffered_done_token_def DONE_PAYLOAD_LEN_def\<close>)
qed

lemma control_payload_yields:
  assumes "buffered_control_token (k # payload) = Some (t, n)"
  shows "n = 1 + length (take (n - 1) payload) \<and> k = token_type_u8 (token_type_of t) \<and>
    yields supplies (take (n - 1) payload) (dispatch_token env ops ctx (token_type_of t)) t"
proof -
  have don: "yields supplies (take 12 payload) (read_done_token ops) d \<and> 12 \<le> length payload" if "buffered_done_token payload = Some d" for d
    using that raw_done_yields [of "take 12 payload" d]
    by (auto simp: buffered_done_token_def DONE_PAYLOAD_LEN_def seg_def min_def drop_take split: if_splits)
  have ret: "yields supplies (take 4 payload) (read_return_status ops) (from_le_u32 (take 4 payload))" if "4 \<le> length payload"
    using return_status_yields [of "from_le_u32 (take 4 payload)"] that by (simp add: le32.enc_dec)
  show ?thesis
    using assms don ret
    by (auto simp: buffered_control_token_def dispatch_token_def get_parser_def DONE_PAYLOAD_LEN_def RETURN_STATUS_PAYLOAD_LEN_def slice_get_def seg_def
        simp del: rret_apply split: if_splits intro!: yields_rmap)
qed

lemma control_token_yields:
  assumes "buffered_control_token bs = Some (t, n)"
  shows "n \<le> length bs \<and> 1 < n \<and> yields supplies (take n bs) (receive_token_internal env ops ctx) t"
proof -
  from assms obtain k payload where bs: "bs = k # payload" by (cases bs) (auto simp: buffered_control_token_def)
  from control_payload_yields [OF assms [unfolded bs], of env ctx]
  have c: "n = 1 + length (take (n - 1) payload)" "k = token_type_u8 (token_type_of t)"
    "yields supplies (take (n - 1) payload) (dispatch_token env ops ctx (token_type_of t)) t" by blast+
  have "1 < n" using assms by (auto simp: bs buffered_control_token_def DONE_PAYLOAD_LEN_def RETURN_STATUS_PAYLOAD_LEN_def split: if_splits)
  moreover from this have "take n bs = k # take (n - 1) payload" by (simp add: bs take_Cons')
  moreover have "n \<le> length bs" using c(1) by (simp add: bs min_def split: if_splits)
  moreover have "yields supplies (k # take (n - 1) payload) (receive_token_internal env ops ctx) t"
    unfolding receive_token_internal_def c(2)
    by (intro bind_rules(1) yields_bind_nil [OF yields_rlift [OF refl token_type_try_from_u8]] c(3))
  ultimately show ?thesis by simp
qed

end


section \<open>Properties\<close>

text \<open>
  C6. Receiving a token returns. Whatever bytes the peer sends, with well-formed column metadata in
  the context and at least as many steps granted as bytes can still arrive, one token is received or
  refused with an error, never with a panic, the reader stays usable, and a received token has taken
  at least its type byte, so a stream of tokens cannot stall the client.
\<close>

theorem receive_token_returns:
  assumes "reader_safe r" "context_ok ctx" "nr_left r \<le> te_fuel env"
    and "receive_token_internal env network_ops ctx r = (x, r')"
  shows "x \<noteq> Inl Panic \<and> x \<noteq> Inl Diverge \<and> reader_safe r' \<and> (\<forall>t. x = Inr t \<longrightarrow> nr_left r' < nr_left r)"
  using net.receive_token_returns_upto [OF assms(2), of env] assms(1,3,4) unfolding tame_upto_def guarded_def by fastforce

theorem receive_token_returns_witness:
  "\<exists>x r'. receive_token_internal \<lparr>te_half = (\<lambda>_. 0), te_dc_version = None, te_fuel = nr_left hostile_reader\<rparr> network_ops PC_None hostile_reader = (x, r') \<and>
     x \<noteq> Inl Panic \<and> x \<noteq> Inl Diverge \<and> reader_safe r'"
proof -
  let ?env = "\<lparr>te_half = (\<lambda>_. 0), te_dc_version = None, te_fuel = nr_left hostile_reader\<rparr>"
  obtain x r' where e: "receive_token_internal ?env network_ops PC_None hostile_reader = (x, r')" by (rule prod.exhaust)
  from receive_token_returns [OF hostile_reader_safe _ _ e] e show ?thesis by (auto simp: context_ok_def)
qed

text \<open>
  C4. Every token is received as sent. The wire form of any token but a row or a return value, its
  type byte and content cut into packets in any way, is received as that token: the type byte selects
  the parser registered for it and nothing after the token is consumed.
\<close>

theorem receive_token_roundtrip:
  assumes "sent_as env ctx t content" and "net_supplies tail (token_wire t content @ rest) r"
  shows "\<exists>r'. receive_token_internal env network_ops ctx r = (Inr t, r') \<and> net_supplies tail rest r'"
  using net.receive_token_yields [OF assms(1), of tail] assms(2) unfolding yields_def by blast

definition sample_env :: token_env where
  "sample_env = \<lparr>te_half = (\<lambda>_. 0), te_dc_version = None, te_fuel = 1\<rparr>"

theorem receive_token_roundtrip_witness:
  "\<exists>r'. receive_token_internal sample_env network_ops PC_None (one_packet_reader [0x79, 7, 0, 0, 0]) = (Inr (TK_ReturnStatus 7), r')"
proof -
  have n: "(4 :: nat) = Suc (Suc (Suc (Suc 0)))" by simp
  have "to_le_u32 7 = [7, 0, 0, 0]" unfolding to_le_u32_def n by simp
  then have w: "token_wire (TK_ReturnStatus 7) (to_le_u32 7) = [0x79, 7, 0, 0, 0]" by (simp add: token_wire_def)
  have "net_supplies [] ([0x79, 7, 0, 0, 0] @ []) (one_packet_reader [0x79, 7, 0, 0, 0])"
    using one_packet_supplies [of "[0x79, 7, 0, 0, 0]"] by simp
  then show ?thesis using receive_token_roundtrip [OF sent_as.ReturnStatus [of sample_env PC_None 7], of "[]" "[]"] unfolding w by blast
qed

text \<open>
  C30. Control tokens recognised in the buffer. When the synchronous path recognises a DONE, DONEPROC,
  DONEINPROC or RETURNSTATUS token in bytes already buffered, the asynchronous path would receive the
  same token from the same stream, and the reported length is exactly what it would consume.
\<close>

theorem buffered_control_token_agrees:
  assumes "buffered_control_token bs = Some (t, n)" and "net_supplies tail (bs @ rest) r"
  shows "n \<le> length bs \<and> (\<exists>r'. receive_token_internal env network_ops ctx r = (Inr t, r') \<and> net_supplies tail (drop n bs @ rest) r')"
proof -
  have y: "n \<le> length bs" "yields (net_supplies tail) (take n bs) (receive_token_internal env network_ops ctx) t"
    using net.control_token_yields [OF assms(1), of tail env ctx] by blast+
  have "net_supplies tail (take n bs @ drop n bs @ rest) r"
    using assms(2) append_take_drop_id [of n bs] by (metis append_assoc)
  with y show ?thesis unfolding yields_def by blast
qed

theorem buffered_control_token_agrees_witness:
  "\<exists>r'. receive_token_internal sample_env network_ops PC_None (one_packet_reader [0x79, 7, 0, 0, 0, 0xFD]) = (Inr (TK_ReturnStatus 7), r') \<and> net_supplies [] [0xFD] r'"
proof -
  have "net_supplies [] [0x79, 7, 0, 0, 0, 0xFD] (one_packet_reader [0x79, 7, 0, 0, 0, 0xFD])"
    by (rule one_packet_supplies) simp
  moreover have "buffered_control_token [0x79, 7, 0, 0, 0, 0xFD] = Some (TK_ReturnStatus 7, 5)"
    by (simp add: buffered_control_token_def slice_get_def seg_def RETURN_STATUS_PAYLOAD_LEN_def from_le_u32_def)
  ultimately show ?thesis
    using buffered_control_token_agrees [of "[0x79, 7, 0, 0, 0, 0xFD]" "TK_ReturnStatus 7" 5 "[]" "[]"] by fastforce
qed

end
