(* ===== verification/Row_Driver.thy ===== *)
theory Row_Driver
  imports Token_Stream
begin

text \<open>
  The incremental row interface of \<^verbatim>\<open>mssql-tds/src/io/token_stream.rs\<close>: rows are decoded into a row
  writer column by column under a policy, may pause before a column or at the payload of a long value,
  and are resumed from the pause. The bitmap of \<^verbatim>\<open>NBCROW\<close> is kept in a reference-counted buffer that is
  reused when nothing else holds it; the store of these buffers is explicit.
\<close>

section \<open>Policies and results\<close>

datatype column_policy = DecodeAll | DecodePrefix nat | DecodeOne nat | SkipAll

text \<open>The bitmap of a paused row is a handle into the store.\<close>

record row_pause_state =
  rp_next_column_index :: nat
  rp_metadata :: col_metadata_token
  rp_nbc_null_bitmap :: "nat option"
  rp_decryptor :: "cell_decryptor option"

record plp_pause_state =
  pp_row_pause_state :: row_pause_state
  pp_plp_stream :: plp_column_stream

datatype row_read_result =
    RR_RowWritten
  | RR_Token tokens
  | RR_RowPaused row_pause_state
  | RR_PlpPaused plp_pause_state

datatype row_header = RH_Positioned row_pause_state | RH_Token tokens

text \<open>\<^verbatim>\<open>Arc<[u8]>\<close>: a cell of the store is the content and the number of handles.\<close>

type_synonym arc_store = "(bytes \<times> nat) list"

record 's row_io =
  rio_src :: 's
  rio_writer :: row_writer
  rio_scratch :: "nat option"
  rio_store :: arc_store

definition src :: "('s, 'a) action \<Rightarrow> ('s row_io, 'a) action" where
  "src m x = (case m (rio_src x) of (r, s) \<Rightarrow> (r, x\<lparr>rio_src := s\<rparr>))"

definition emit :: "column_values \<Rightarrow> ('s row_io, unit) action" where
  "emit v x = (Inr (), x\<lparr>rio_writer := write_value v (rio_writer x)\<rparr>)"

definition into :: "(row_writer \<Rightarrow> ('s, row_writer) action) \<Rightarrow> ('s row_io, unit) action" where
  "into f x =
     (case f (rio_writer x) (rio_src x) of
        (Inl e, s) \<Rightarrow> (Inl e, x\<lparr>rio_src := s\<rparr>)
      | (Inr w, s) \<Rightarrow> (Inr (), x\<lparr>rio_src := s, rio_writer := w\<rparr>))"


section \<open>One column\<close>

text \<open>A skipped column is decoded into a writer that drops it, and a long value is skipped by chunks.\<close>

definition skip_column :: "(u16 \<Rightarrow> u32) \<Rightarrow> 's packet_reader_ops \<Rightarrow> column_metadata \<Rightarrow> ('s, unit) action" where
  "skip_column hf ops c =
     (if is_plp c then
        rbind (pcs_begin ops c) (\<lambda>stream. case stream of
            None \<Rightarrow> rret ()
          | Some p \<Rightarrow> (\<lambda>s. case skip_to_end ops (pcs_inner p, s) of (r, (_, s')) \<Rightarrow> (r, s')))
      else rmap (\<lambda>_. ()) (decode_into hf ops c row_writer_new))"

definition decode_or_decrypt_column :: "(u16 \<Rightarrow> u32) \<Rightarrow> 's packet_reader_ops \<Rightarrow> cell_decryptor option \<Rightarrow> column_metadata \<Rightarrow> ('s row_io, unit) action" where
  "decode_or_decrypt_column hf ops decryptor c =
     (case (cm_crypto_metadata c \<noteq> None, decryptor) of
        (True, Some decrypt) \<Rightarrow> rbind (src (decrypt_encrypted_column hf ops c decrypt)) emit
      | (True, None) \<Rightarrow> into (decode_into hf ops c)
      | (False, _) \<Rightarrow> into (decode_into hf ops c))"

definition take_consumed :: "'s packet_reader_ops \<Rightarrow> nat \<Rightarrow> ('s, unit) action" where
  "take_consumed ops consumed =
     rbind (rd_try_slice ops consumed) (\<lambda>slice. case slice of
         None \<Rightarrow> rfail (ProtocolError ''Buffered column bytes disappeared before consumption'')
       | Some _ \<Rightarrow> rret ())"

definition decode_resident_column :: "(u16 \<Rightarrow> u32) \<Rightarrow> 's packet_reader_ops \<Rightarrow> cell_decryptor option \<Rightarrow> column_metadata \<Rightarrow> ('s row_io, unit) action" where
  "decode_resident_column hf ops decryptor c =
     rbind (src (rd_buffered ops)) (\<lambda>bs x.
       if bs = [] then decode_or_decrypt_column hf ops decryptor c x
       else case try_decode_buffered_into bs c (rio_writer x) of
           Inl e \<Rightarrow> (Inl e, x)
         | Inr None \<Rightarrow> decode_or_decrypt_column hf ops decryptor c x
         | Inr (Some (w, consumed)) \<Rightarrow> src (take_consumed ops consumed) (x\<lparr>rio_writer := w\<rparr>))"


section \<open>The driver\<close>

definition pause_at :: "nat \<Rightarrow> col_metadata_token \<Rightarrow> nat option \<Rightarrow> cell_decryptor option \<Rightarrow> row_pause_state" where
  "pause_at col md bitmap decryptor =
     \<lparr>rp_next_column_index = col, rp_metadata = md, rp_nbc_null_bitmap = bitmap, rp_decryptor = decryptor\<rparr>"

definition pause_after_column :: "nat \<Rightarrow> col_metadata_token \<Rightarrow> nat option \<Rightarrow> cell_decryptor option \<Rightarrow> row_read_result" where
  "pause_after_column col md bitmap decryptor =
     (if col + 1 < length (cmt_columns md) then RR_RowPaused (pause_at (col + 1) md bitmap decryptor) else RR_RowWritten)"

definition null_test :: "bytes option \<Rightarrow> nat \<Rightarrow> bool tds_result" where
  "null_test bm col = (case bm of None \<Rightarrow> Inr False | Some bs \<Rightarrow> is_null_value_in_column bs col)"

definition begin_long_value ::
  "'s packet_reader_ops \<Rightarrow> col_metadata_token \<Rightarrow> cell_decryptor option \<Rightarrow> nat option \<Rightarrow> nat \<Rightarrow> column_metadata \<Rightarrow> ('s row_io, row_read_result) action" where
  "begin_long_value ops md decryptor bitmap col c =
     (if cm_crypto_metadata c \<noteq> None
      then rfail (UnimplementedFeature ''Always Encrypted paused PLP streaming'')
      else rbind (src (pcs_begin ops c)) (\<lambda>stream. case stream of
          None \<Rightarrow> rbind (emit CV_Null) (\<lambda>_. rret (pause_after_column col md bitmap decryptor))
        | Some p \<Rightarrow> rret (RR_PlpPaused \<lparr>pp_row_pause_state = pause_at (col + 1) md bitmap decryptor, pp_plp_stream = p\<rparr>)))"

definition stops_at :: "column_policy \<Rightarrow> nat \<Rightarrow> bool" where
  "stops_at plan col = (case plan of DecodeOne target \<Rightarrow> target = col | _ \<Rightarrow> False)"

definition skips_at :: "column_policy \<Rightarrow> nat \<Rightarrow> bool" where
  "skips_at plan col = (case plan of SkipAll \<Rightarrow> True | DecodeOne target \<Rightarrow> col < target | DecodeAll \<Rightarrow> False | DecodePrefix _ \<Rightarrow> False)"

definition prefix_ends :: "column_policy \<Rightarrow> nat \<Rightarrow> bool" where
  "prefix_ends plan col = (case plan of DecodePrefix stop \<Rightarrow> stop \<le> col | _ \<Rightarrow> False)"

text \<open>The loop over the columns from \<open>col\<close> on; \<open>bm\<close> is the content of the bitmap \<open>bitmap\<close>.\<close>

primrec drive_columns ::
  "(u16 \<Rightarrow> u32) \<Rightarrow> 's packet_reader_ops \<Rightarrow> col_metadata_token \<Rightarrow> cell_decryptor option \<Rightarrow> nat option \<Rightarrow> bytes option \<Rightarrow> column_policy \<Rightarrow>
   column_metadata list \<Rightarrow> nat \<Rightarrow> ('s row_io, row_read_result) action" where
  "drive_columns hf ops md decryptor bitmap bm plan [] col = rret RR_RowWritten"
| "drive_columns hf ops md decryptor bitmap bm plan (c # cs) col =
     (let next_column = drive_columns hf ops md decryptor bitmap bm plan cs (col + 1);
          stop_or_go = (if stops_at plan col then rret (pause_after_column col md bitmap decryptor) else next_column) in
      if prefix_ends plan col then rret (RR_RowPaused (pause_at col md bitmap decryptor))
      else rbind (rlift (null_test bm col)) (\<lambda>is_null.
        if is_null then rbind (if skips_at plan col then rret () else emit CV_Null) (\<lambda>_. stop_or_go)
        else if skips_at plan col then rbind (src (skip_column hf ops c)) (\<lambda>_. next_column)
        else if stops_at plan col \<and> is_plp c then begin_long_value ops md decryptor bitmap col c
        else rbind (decode_resident_column hf ops decryptor c) (\<lambda>_. stop_or_go)))"

text \<open>The content of a handle.\<close>

definition arc_content :: "arc_store \<Rightarrow> nat option \<Rightarrow> bytes option" where
  "arc_content st a = map_option (\<lambda>i. fst (st ! i)) a"

definition drive_row_columns ::
  "(u16 \<Rightarrow> u32) \<Rightarrow> 's packet_reader_ops \<Rightarrow> col_metadata_token \<Rightarrow> cell_decryptor option \<Rightarrow> nat option \<Rightarrow> nat \<Rightarrow> column_policy \<Rightarrow>
   ('s row_io, row_read_result) action" where
  "drive_row_columns hf ops md decryptor bitmap start_col plan x =
     drive_columns hf ops md decryptor bitmap (arc_content (rio_store x) bitmap) plan (drop start_col (cmt_columns md)) start_col x"


section \<open>The bitmap\<close>

definition fill_bitmap :: "'s packet_reader_ops \<Rightarrow> nat \<Rightarrow> ('s, bytes) action" where
  "fill_bitmap ops expected =
     rbind (rd_bytes ops expected) (\<lambda>bs. if length bs \<noteq> expected then rfail (ProtocolError ''NBCROW null bitmap truncated'') else rret bs)"

definition arc_clone :: "nat \<Rightarrow> arc_store \<Rightarrow> arc_store" where
  "arc_clone a st = st[a := (fst (st ! a), snd (st ! a) + 1)]"

definition arc_drop :: "nat \<Rightarrow> arc_store \<Rightarrow> arc_store" where
  "arc_drop a st = st[a := (fst (st ! a), snd (st ! a) - 1)]"

definition arc_drop_opt :: "nat option \<Rightarrow> arc_store \<Rightarrow> arc_store" where
  "arc_drop_opt a st = (case a of None \<Rightarrow> st | Some i \<Rightarrow> arc_drop i st)"

definition zeroed_bitmap :: "nat \<Rightarrow> arc_store \<Rightarrow> arc_store \<times> nat" where
  "zeroed_bitmap n st = (st @ [(replicate n 0, 1)], length st)"

text \<open>Fill the buffer of the only handle; it is dropped when the bitmap cannot be read, and kept in the scratch otherwise.\<close>

definition fill_and_keep :: "'s packet_reader_ops \<Rightarrow> nat \<Rightarrow> nat \<Rightarrow> ('s row_io, nat) action" where
  "fill_and_keep ops n a x =
     (case src (fill_bitmap ops n) x of
        (Inl e, y) \<Rightarrow> (Inl e, y\<lparr>rio_store := arc_drop a (rio_store y)\<rparr>)
      | (Inr bs, y) \<Rightarrow> (Inr a, y\<lparr>rio_scratch := Some a, rio_store := arc_clone a ((rio_store y)[a := (bs, snd (rio_store y ! a))])\<rparr>))"

definition reusable :: "nat \<Rightarrow> arc_store \<Rightarrow> nat option \<Rightarrow> bool" where
  "reusable n st scratch = (case scratch of None \<Rightarrow> False | Some a \<Rightarrow> length (fst (st ! a)) = n \<and> snd (st ! a) = 1)"

definition read_nbc_bitmap :: "'s packet_reader_ops \<Rightarrow> nat \<Rightarrow> ('s row_io, nat) action" where
  "read_nbc_bitmap ops n x =
     (if reusable n (rio_store x) (rio_scratch x)
      then fill_and_keep ops n (the (rio_scratch x)) (x\<lparr>rio_scratch := None\<rparr>)
      else case zeroed_bitmap n (arc_drop_opt (rio_scratch x) (rio_store x)) of
             (st, a) \<Rightarrow> fill_and_keep ops n a (x\<lparr>rio_scratch := None, rio_store := st\<rparr>))"


section \<open>Rows\<close>

definition extract_row_context :: "parser_context \<Rightarrow> (col_metadata_token \<times> cell_decryptor option) tds_result" where
  "extract_row_context ctx =
     (case ctx of PC_ColumnMetadata md decryptor \<Rightarrow> Inr (md, decryptor)
      | _ \<Rightarrow> Inl (ProtocolError ''Expected ColumnMetadata in context for row decoding''))"

text \<open>The local handle is dropped when the driver returns; a pause state has taken a handle of its own.\<close>

definition result_bitmap :: "row_read_result \<Rightarrow> nat option" where
  "result_bitmap r =
     (case r of RR_RowPaused p \<Rightarrow> rp_nbc_null_bitmap p | RR_PlpPaused p \<Rightarrow> rp_nbc_null_bitmap (pp_row_pause_state p) | _ \<Rightarrow> None)"

definition drop_local :: "nat \<Rightarrow> ('s row_io, row_read_result) action \<Rightarrow> ('s row_io, row_read_result) action" where
  "drop_local a m x =
     (case m x of
        (Inl e, y) \<Rightarrow> (Inl e, y\<lparr>rio_store := arc_drop a (rio_store y)\<rparr>)
      | (Inr r, y) \<Rightarrow> (Inr r, if result_bitmap r = Some a then y else y\<lparr>rio_store := arc_drop a (rio_store y)\<rparr>))"

definition receive_row_into_internal :: "token_env \<Rightarrow> 's packet_reader_ops \<Rightarrow> parser_context \<Rightarrow> column_policy \<Rightarrow> ('s row_io, row_read_result) action" where
  "receive_row_into_internal env ops ctx plan =
     rbind (src (rd_byte ops)) (\<lambda>b. rbind (rlift (token_type_try_from b)) (\<lambda>t.
       case t of
         TT_Row \<Rightarrow> rbind (rlift (extract_row_context ctx)) (\<lambda>(md, decryptor).
           drive_row_columns (te_half env) ops md decryptor None 0 plan)
       | TT_NbcRow \<Rightarrow> rbind (rlift (extract_row_context ctx)) (\<lambda>(md, decryptor).
           rbind (read_nbc_bitmap ops (bitmap_length (length (cmt_columns md)))) (\<lambda>a.
             drop_local a (drive_row_columns (te_half env) ops md decryptor (Some a) 0 plan)))
       | _ \<Rightarrow> rmap RR_Token (src (dispatch_token env ops ctx t))))"

definition receive_row_header_internal :: "token_env \<Rightarrow> 's packet_reader_ops \<Rightarrow> parser_context \<Rightarrow> ('s row_io, row_header) action" where
  "receive_row_header_internal env ops ctx =
     rbind (src (rd_byte ops)) (\<lambda>b. rbind (rlift (token_type_try_from b)) (\<lambda>t.
       case t of
         TT_Row \<Rightarrow> rbind (rlift (extract_row_context ctx)) (\<lambda>(md, decryptor). rret (RH_Positioned (pause_at 0 md None decryptor)))
       | TT_NbcRow \<Rightarrow> rbind (rlift (extract_row_context ctx)) (\<lambda>(md, decryptor).
           rbind (read_nbc_bitmap ops (bitmap_length (length (cmt_columns md)))) (\<lambda>a.
             rret (RH_Positioned (pause_at 0 md (Some a) decryptor))))
       | _ \<Rightarrow> rmap RH_Token (src (dispatch_token env ops ctx t))))"

text \<open>Resuming consumes the pause state and with it its handle.\<close>

definition resume_row_into_internal :: "(u16 \<Rightarrow> u32) \<Rightarrow> 's packet_reader_ops \<Rightarrow> row_pause_state \<Rightarrow> column_policy \<Rightarrow> ('s row_io, row_read_result) action" where
  "resume_row_into_internal hf ops p plan =
     (let m = drive_row_columns hf ops (rp_metadata p) (rp_decryptor p) (rp_nbc_null_bitmap p) (rp_next_column_index p) plan in
      case rp_nbc_null_bitmap p of None \<Rightarrow> m | Some a \<Rightarrow> drop_local a m)"

definition read_active_plp_bytes_internal :: "'s packet_reader_ops \<Rightarrow> nat \<Rightarrow> (plp_pause_state \<times> 's, bytes) action" where
  "read_active_plp_bytes_internal ops n ps =
     (case read_into ops n (pcs_inner (pp_plp_stream (fst ps)), snd ps) of
        (r, (p, s)) \<Rightarrow> (r, ((fst ps)\<lparr>pp_plp_stream := (pp_plp_stream (fst ps))\<lparr>pcs_inner := p\<rparr>\<rparr>, s)))"

end
