(* ===== verification/Row_Laws.thy ===== *)
theory Row_Laws
  imports Row_Driver
begin

text \<open>
  Rows read incrementally. A row on the wire is a list of cells, each the bytes from which its column
  decodes to a value; under every policy the driver hands the writer exactly the values the policy asks
  for and leaves the transport at the bytes it did not ask for. Bitmaps held by paused rows are never
  overwritten.
\<close>

section \<open>The transport\<close>

text \<open>What the row driver needs beyond the decoders: the bytes to come are determined by the transport.\<close>

locale row_source = packet_source ops supplies + slice_source ops safe
  for ops :: "'s packet_reader_ops" and supplies and safe +
  assumes supplies_unique: "supplies c s \<Longrightarrow> supplies d s \<Longrightarrow> c = d"
    and supplies_safe: "supplies c s \<Longrightarrow> safe s"
    and slice_zero: "supplies c s \<Longrightarrow> \<exists>s'. rd_try_slice ops 0 s = (Inr (Some []), s') \<and> supplies c s'"

lemma packets_unique:
  "\<lbrakk>\<forall>p \<in> set ps. packet_ok n p; \<forall>q \<in> set qs. packet_ok n q; concat ps = concat qs\<rbrakk> \<Longrightarrow> ps = qs"
proof (induction ps arbitrary: qs)
  case Nil
  then show ?case by (cases qs) (auto simp: packet_ok_def)
next
  case (Cons p ps)
  then obtain q qs' where qs: "qs = q # qs'" by (cases qs) (auto simp: packet_ok_def)
  let ?all = "p @ concat ps"
  have all: "?all = q @ concat qs'" using Cons.prems qs by simp
  have ok: "packet_ok n p" "packet_ok n q" using Cons.prems qs by auto
  then have "seg 2 4 ?all = seg 2 4 p" "seg 2 4 ?all = seg 2 4 q"
    by (simp add: seg_append_left packet_ok_def, unfold all, simp add: seg_append_left packet_ok_def)
  with ok have "length p = length q" by (metis packet_ok_def)
  with all have "p = q" "concat ps = concat qs'" by simp_all
  with Cons.IH [of qs'] Cons.prems qs show ?case by simp
qed

lemma net_supplies_unique:
  assumes "net_supplies tail c r" "net_supplies tail d r"
  shows "c = d"
proof -
  from assms obtain st1 ps st2 qs where q: "queued st1 r ps c tail" "queued st2 r qs d tail"
    unfolding net_supplies_def delivers_def by blast
  let ?n = "max_packet_size (nr_buf r)"
  have "\<forall>p \<in> set ps. packet_ok ?n p" "\<forall>p \<in> set qs. packet_ok ?n p" "concat ps = concat qs"
    using q by (auto simp: queued_def msg_packets_def split: if_splits)
  then have "ps = qs" by (rule packets_unique)
  with q show ?thesis by (simp add: queued_def)
qed

lemma net_slice_zero:
  assumes "net_supplies tail c r"
  shows "\<exists>r'. rd_try_slice network_ops 0 r = (Inr (Some []), r') \<and> net_supplies tail c r'"
proof -
  from assms obtain started ps where q: "queued started r ps c tail" unfolding net_supplies_def delivers_def by blast
  let ?b = "snd (consume_bytes 0 (nr_buf r))"
  have inv: "rb_inv (nr_buf r)" "reader_safe r" using q by (simp_all add: queued_def reader_safe_def)
  have b: "rb_inv ?b" "unread ?b = unread (nr_buf r)" "raw (r\<lparr>nr_buf := ?b\<rparr>) = raw r" "end_of_message ?b = end_of_message (nr_buf r)"
    "max_packet_size ?b = max_packet_size (nr_buf r)"
    using inv(1) by (auto simp: consume_bytes_def rb_inv_def unread_def raw_def pending_def seg_def get_remaining_byte_count_def)
  then have "queued started (r\<lparr>nr_buf := ?b\<rparr>) ps c tail" using q by (simp add: queued_def)
  then have "net_supplies tail c (r\<lparr>nr_buf := ?b\<rparr>)" unfolding net_supplies_def delivers_def by blast
  then show ?thesis by (simp add: network_slice [OF inv(2)])
qed

interpretation net: row_source network_ops "net_supplies tail" reader_safe for tail
proof unfold_locales
  show "reader_safe s" if "net_supplies tail c s" for c s
    using that unfolding net_supplies_def delivers_def by (auto simp: queued_def reader_safe_def)
qed (rule net_supplies_unique net_slice_zero; assumption)+


section \<open>Cells on the wire\<close>

definition long_wire :: "bytes \<Rightarrow> bool" where
  "long_wire b \<longleftrightarrow> b = to_le_u64 SQL_PLP_NULL \<or> (\<exists>known cs. chunks_ok cs \<and> length (concat cs) \<le> MAX_PLP_SIZE \<and> b = plp_wire known cs)"

definition variant_small :: "bytes \<Rightarrow> bool" where
  "variant_small b \<longleftrightarrow> 4 \<le> length b \<and> unat (from_le_u32 (take 4 b)) \<le> MAX_ALLOC_SIZE"

text \<open>
  \<open>b\<close> carries the value \<open>v\<close> of column \<open>c\<close>: the column's decoder returns \<open>v\<close> and takes exactly \<open>b\<close>.
  A variant declares at most the allocation limit, and a long value is NULL or a list of chunks.
\<close>

definition cell_wire :: "(bytes \<Rightarrow> 's \<Rightarrow> bool) \<Rightarrow> (u16 \<Rightarrow> u32) \<Rightarrow> 's packet_reader_ops \<Rightarrow> cell_decryptor option \<Rightarrow> column_metadata \<Rightarrow> bytes \<Rightarrow> column_values \<Rightarrow> bool" where
  "cell_wire supplies hf ops d c b v \<longleftrightarrow> column_wf c \<and> yields supplies b (decode_column hf ops d c) v \<and>
     (cm_data_type c = DT_SsVariant \<longrightarrow> variant_small b) \<and> (is_plp c \<longrightarrow> long_wire b)"

text \<open>The cells from column \<open>i\<close> on; a column whose bit is set in the bitmap has no bytes.\<close>

fun cells_wire :: "(bytes \<Rightarrow> 's \<Rightarrow> bool) \<Rightarrow> (u16 \<Rightarrow> u32) \<Rightarrow> 's packet_reader_ops \<Rightarrow> cell_decryptor option \<Rightarrow> bytes option \<Rightarrow> nat \<Rightarrow>
    column_metadata list \<Rightarrow> bytes list \<Rightarrow> column_values list \<Rightarrow> bool" where
  "cells_wire supplies hf ops d bm i (c # cs) (b # bs) (v # vs) \<longleftrightarrow>
     (null_test bm i = Inr True \<and> b = [] \<and> v = CV_Null \<or> null_test bm i = Inr False \<and> cell_wire supplies hf ops d c b v) \<and>
     cells_wire supplies hf ops d bm (Suc i) cs bs vs"
| "cells_wire supplies hf ops d bm i cs bs vs \<longleftrightarrow> cs = [] \<and> bs = [] \<and> vs = []"

lemma cells_wire_Cons:
  "cells_wire supplies hf ops d bm i (c # cs) bs vs \<longleftrightarrow> (\<exists>b bs' v vs'. bs = b # bs' \<and> vs = v # vs' \<and>
     (null_test bm i = Inr True \<and> b = [] \<and> v = CV_Null \<or> null_test bm i = Inr False \<and> cell_wire supplies hf ops d c b v) \<and>
     cells_wire supplies hf ops d bm (Suc i) cs bs' vs')"
  by (cases bs; cases vs) auto

lemma cells_wire_Nil [simp]: "cells_wire supplies hf ops d bm i [] bs vs \<longleftrightarrow> bs = [] \<and> vs = []"
  by (cases bs; cases vs) auto

lemma cells_wire_length: "cells_wire supplies hf ops d bm i cs bs vs \<Longrightarrow> length bs = length cs \<and> length vs = length cs"
  by (induction cs arbitrary: i bs vs) (auto simp: cells_wire_Cons)

lemma cells_wire_append:
  "cells_wire supplies hf ops d bm i (cs @ ds) bs vs \<longleftrightarrow>
     cells_wire supplies hf ops d bm i cs (take (length cs) bs) (take (length cs) vs) \<and>
     cells_wire supplies hf ops d bm (i + length cs) ds (drop (length cs) bs) (drop (length cs) vs)"
proof (induction cs arbitrary: i bs vs)
  case (Cons c cs)
  then show ?case by (cases bs; cases vs) auto
qed simp

text \<open>
  \<open>gives\<close>: on a transport that will deliver \<open>b\<close> and more, the step returns \<open>r\<close>, has taken \<open>b\<close>, has
  appended \<open>vs\<close> to the writer's row, and has changed nothing else.
\<close>

definition gives :: "(bytes \<Rightarrow> 's \<Rightarrow> bool) \<Rightarrow> bytes \<Rightarrow> ('s row_io, 'a) action \<Rightarrow> column_values list \<Rightarrow> 'a \<Rightarrow> bool" where
  "gives supplies b m vs r \<longleftrightarrow> (\<forall>rest x. supplies (b @ rest) (rio_src x) \<longrightarrow>
     (\<exists>s w. m x = (Inr r, x\<lparr>rio_src := s, rio_writer := w\<rparr>) \<and> rw_row w = rw_row (rio_writer x) @ vs \<and> supplies rest s))"

lemma givesD:
  "gives supplies b m vs r \<Longrightarrow> supplies (b @ rest) (rio_src x) \<Longrightarrow>
   \<exists>s w. m x = (Inr r, x\<lparr>rio_src := s, rio_writer := w\<rparr>) \<and> rw_row w = rw_row (rio_writer x) @ vs \<and> supplies rest s"
  by (simp add: gives_def)

lemma gives_rret:
  fixes supplies :: "bytes \<Rightarrow> 's \<Rightarrow> bool"
  shows "gives supplies [] (rret r) [] r"
  unfolding gives_def
proof (intro allI impI)
  fix rest and x :: "'s row_io" assume "supplies ([] @ rest) (rio_src x)"
  then show "\<exists>s w. rret r x = (Inr r, x\<lparr>rio_src := s, rio_writer := w\<rparr>) \<and> rw_row w = rw_row (rio_writer x) @ [] \<and> supplies rest s"
    by (intro exI [of _ "rio_src x"] exI [of _ "rio_writer x"]) simp
qed

lemma gives_bind:
  fixes supplies :: "bytes \<Rightarrow> 's \<Rightarrow> bool"
  assumes "gives supplies b m vs r" "gives supplies b' (f r) vs' r'"
  shows "gives supplies (b @ b') (rbind m f) (vs @ vs') r'"
  unfolding gives_def
proof (intro allI impI)
  fix rest and x :: "'s row_io" assume "supplies ((b @ b') @ rest) (rio_src x)"
  then have "supplies (b @ b' @ rest) (rio_src x)" by simp
  from givesD [OF assms(1) this] obtain s w where s: "m x = (Inr r, x\<lparr>rio_src := s, rio_writer := w\<rparr>)"
    "rw_row w = rw_row (rio_writer x) @ vs" "supplies (b' @ rest) s" by blast
  let ?y = "x\<lparr>rio_src := s, rio_writer := w\<rparr>"
  have "supplies (b' @ rest) (rio_src ?y)" using s(3) by simp
  from givesD [OF assms(2) this] obtain s' w' where "f r ?y = (Inr r', ?y\<lparr>rio_src := s', rio_writer := w'\<rparr>)"
    "rw_row w' = rw_row (rio_writer ?y) @ vs'" "supplies rest s'" by blast
  with s show "\<exists>s w. rbind m f x = (Inr r', x\<lparr>rio_src := s, rio_writer := w\<rparr>) \<and> rw_row w = rw_row (rio_writer x) @ vs @ vs' \<and> supplies rest s"
    by (auto simp: rbind_def)
qed

lemma gives_then:
  "gives supplies b m vs r0 \<Longrightarrow> gives supplies b' n vs' r \<Longrightarrow> gives supplies (b @ b') (rbind m (\<lambda>_. n)) (vs @ vs') r"
  by (rule gives_bind)

lemma gives_src:
  fixes supplies :: "bytes \<Rightarrow> 's \<Rightarrow> bool"
  shows "yields supplies b m v \<Longrightarrow> gives supplies b (src m) [] v"
  unfolding gives_def
proof (intro allI impI)
  fix rest and x :: "'s row_io" assume "yields supplies b m v" "supplies (b @ rest) (rio_src x)"
  then obtain s where "m (rio_src x) = (Inr v, s)" "supplies rest s" unfolding yields_def by blast
  then show "\<exists>s w. src m x = (Inr v, x\<lparr>rio_src := s, rio_writer := w\<rparr>) \<and> rw_row w = rw_row (rio_writer x) @ [] \<and> supplies rest s"
    by (intro exI [of _ s] exI [of _ "rio_writer x"]) (simp add: src_def)
qed

lemma gives_emit:
  fixes supplies :: "bytes \<Rightarrow> 's \<Rightarrow> bool"
  shows "gives supplies [] (emit v) [v] ()"
  unfolding gives_def
proof (intro allI impI)
  fix rest and x :: "'s row_io" assume "supplies ([] @ rest) (rio_src x)"
  then show "\<exists>s w. emit v x = (Inr (), x\<lparr>rio_src := s, rio_writer := w\<rparr>) \<and> rw_row w = rw_row (rio_writer x) @ [v] \<and> supplies rest s"
    by (intro exI [of _ "rio_src x"] exI [of _ "write_value v (rio_writer x)"]) (simp add: emit_def)
qed

lemma gives_rlift: "t = Inr a \<Longrightarrow> gives supplies b (f a) vs r \<Longrightarrow> gives supplies b (rbind (rlift t) f) vs r"
  by (simp add: gives_def rbind_def)


section \<open>One column\<close>

lemma decode_column_raw:
  "decode_column hf ops d c s = (Inr v, s') \<Longrightarrow> \<exists>u. decode hf ops c s = (Inr u, s')"
  by (auto simp: decode_column_def decrypt_encrypted_column_def rbind_def rlift_def
      split: option.splits bool.splits prod.splits sum.splits column_values.splits)

context row_source
begin

lemma decode_or_decrypt_gives:
  assumes "yields supplies b (decode_column hf ops d c) v"
  shows "gives supplies b (decode_or_decrypt_column hf ops d c) [v] ()"
proof (cases "\<exists>dec. cm_crypto_metadata c \<noteq> None \<and> d = Some dec")
  case True
  then obtain dec where "d = Some dec" "cm_crypto_metadata c \<noteq> None" by blast
  with assms gives_bind [OF gives_src gives_emit, of supplies b "decrypt_encrypted_column hf ops c dec" v]
  show ?thesis by (auto simp: decode_or_decrypt_column_def decode_column_def)
next
  case False
  then have dec: "decode_column hf ops d c = decode hf ops c" "decode_or_decrypt_column hf ops d c = into (decode_into hf ops c)"
    by (auto simp: decode_column_def decode_or_decrypt_column_def split: option.splits bool.splits)
  show ?thesis unfolding dec(2) gives_def
  proof (intro allI impI)
    fix rest and x :: "'s row_io" assume s: "supplies (b @ rest) (rio_src x)"
    with assms dec(1) obtain s1 where d: "decode hf ops c (rio_src x) = (Inr v, s1)" "supplies rest s1" unfolding yields_def by auto
    from decode_into_same [OF supplies_safe [OF s], of "rio_writer x" hf c] d(1) obtain w s2 where
      w: "decode_into hf ops c (rio_writer x) (rio_src x) = (Inr w, s2)" "rw_row w = rw_row (rio_writer x) @ [v]" "s2 = s1 \<or> emptied ops s1 s2"
      by (auto simp: same_row_def)
    have "supplies rest s2" using w(3) slice_zero [OF d(2)] d(2) by (auto simp: emptied_def)
    with w show "\<exists>s w. into (decode_into hf ops c) x = (Inr (), x\<lparr>rio_src := s, rio_writer := w\<rparr>) \<and>
        rw_row w = rw_row (rio_writer x) @ [v] \<and> supplies rest s"
      by (auto simp: into_def)
  qed
qed

lemma take_consumed_at:
  assumes "supplies (bs @ rest) s" "rd_buffered ops s = (Inr bs, s)" "n \<le> length bs"
  shows "\<exists>s'. take_consumed ops n s = (Inr (), s') \<and> supplies (drop n bs @ rest) s'"
proof (cases "n = 0")
  case True
  with slice_zero [OF assms(1)] show ?thesis by (auto simp: take_consumed_def rbind_def)
next
  case False
  with buffered_take [OF assms(1,2), of n] assms(3) show ?thesis by (auto simp: take_consumed_def rbind_def)
qed

lemma decode_resident_gives:
  assumes "cell_wire supplies hf ops d c b v"
  shows "gives supplies b (decode_resident_column hf ops d c) [v] ()"
  unfolding gives_def
proof (intro allI impI)
  fix rest and x :: "'s row_io" assume s: "supplies (b @ rest) (rio_src x)"
  let ?goal = "\<lambda>m. \<exists>s w. m = (Inr (), x\<lparr>rio_src := s, rio_writer := w\<rparr>) \<and> rw_row w = rw_row (rio_writer x) @ [v] \<and> supplies rest s"
  note cw = assms [unfolded cell_wire_def]
  from buffered [OF s] obtain bs rest' where bs: "rd_buffered ops (rio_src x) = (Inr bs, rio_src x)" "b @ rest = bs @ rest'" by blast
  have awaiting: "?goal (decode_or_decrypt_column hf ops d c x)"
    using givesD [OF decode_or_decrypt_gives s] cw by blast
  have step: "decode_resident_column hf ops d c x = (if bs = [] then decode_or_decrypt_column hf ops d c x
      else case try_decode_buffered_into bs c (rio_writer x) of Inl e \<Rightarrow> (Inl e, x)
        | Inr None \<Rightarrow> decode_or_decrypt_column hf ops d c x
        | Inr (Some (w, consumed)) \<Rightarrow> src (take_consumed ops consumed) (x\<lparr>rio_writer := w\<rparr>))"
    using bs(1) by (simp add: decode_resident_column_def src_def rbind_def)
  have small: "min (length bs) (unat (from_le_u32 (take 4 bs))) \<le> MAX_ALLOC_SIZE" if "cm_data_type c = DT_SsVariant"
  proof (cases "4 \<le> length bs")
    case True
    have "variant_small b" using cw that by blast
    moreover have "take 4 bs = take 4 b" if "4 \<le> length b"
      using arg_cong [OF bs(2), of "take 4"] True that by simp
    ultimately show ?thesis by (simp add: variant_small_def min.coboundedI2)
  qed (simp add: MAX_ALLOC_SIZE_def)
  from cw s obtain s1 where d: "decode_column hf ops d c (rio_src x) = (Inr v, s1)" "supplies rest s1" unfolding yields_def by blast
  have mirror: "case try_decode_buffered_into bs c (rio_writer x) of Inl e \<Rightarrow> \<exists>e'. fst (decode hf ops c (rio_src x)) = Inl e'
     | Inr None \<Rightarrow> True | Inr (Some (w', used)) \<Rightarrow> used \<le> length bs \<and>
        (\<exists>v s'. decode hf ops c (rio_src x) = (Inr v, s') \<and> rw_row w' = rw_row (rio_writer x) @ [v] \<and> supplies (drop used bs @ rest') s')"
    using try_decode_buffered_into_mirror [where bs = bs and rest = rest' and s = "rio_src x" and c = c and w = "rio_writer x" and hf = hf] s bs(2) cw small by simp
  show "?goal (decode_resident_column hf ops d c x)"
  proof (cases "bs = [] \<or> try_decode_buffered_into bs c (rio_writer x) = Inr None")
    case True
    then have "decode_resident_column hf ops d c x = decode_or_decrypt_column hf ops d c x" unfolding step by auto
    with awaiting show ?thesis by simp
  next
    case False
    then have plain: "decode hf ops c (rio_src x) = (Inr v, s1)"
      using d(1) by (auto simp: try_decode_buffered_into_def decode_column_def split: option.splits bool.splits if_splits)
    with mirror False obtain w used where t: "try_decode_buffered_into bs c (rio_writer x) = Inr (Some (w, used))"
      "used \<le> length bs" "rw_row w = rw_row (rio_writer x) @ [v]" "supplies (drop used bs @ rest') s1"
      by (auto split: sum.splits option.splits)
    have "drop used bs @ rest' = rest" by (rule supplies_unique [OF t(4) d(2)])
    with take_consumed_at [OF s [unfolded bs(2)] bs(1) t(2)] obtain s' where "take_consumed ops used (rio_src x) = (Inr (), s')" "supplies rest s'"
      by auto
    with t False show ?thesis unfolding step by (intro exI [of _ s'] exI [of _ w]) (simp add: src_def)
  qed
qed

lemma long_value_begins:
  assumes "long_wire b" "supplies (b @ rest) s"
  shows "\<exists>s1. plp_begin ops s = (Inr None, s1) \<and> supplies rest s1 \<and> b = to_le_u64 SQL_PLP_NULL \<or>
    (\<exists>p known cs p' s2. b = plp_wire known cs \<and> chunks_ok cs \<and> length (concat cs) \<le> MAX_PLP_SIZE \<and>
       plp_begin ops s = (Inr (Some p), s1) \<and> skip_to_end ops (p, s1) = (Inr (), (p', s2)) \<and> supplies rest s2)"
  using assms(1) unfolding long_wire_def
proof (elim disjE exE conjE)
  assume "b = to_le_u64 SQL_PLP_NULL"
  with i64 assms(2) show ?thesis by (fastforce simp: plp_begin_def plp_header_def rbind_def)
next
  fix known cs assume cs: "chunks_ok cs" "length (concat cs) \<le> MAX_PLP_SIZE" "b = plp_wire known cs"
  with plp_reads_refine [where ns = "[]" and known = known, OF cs(1,2)] assms(2) show ?thesis by fastforce
qed

lemma skip_column_yields:
  assumes "cell_wire supplies hf ops d c b v"
  shows "yields supplies b (skip_column hf ops c) ()"
  unfolding yields_def
proof (intro allI impI)
  fix rest s assume s: "supplies (b @ rest) s"
  show "\<exists>s'. skip_column hf ops c s = (Inr (), s') \<and> supplies rest s'"
  proof (cases "is_plp c")
    case True
    then obtain t where t: "type_from_metadata c = Inr t"
      by (auto simp: is_plp_def variant_is_plp_def type_from_metadata_def split: type_info_variant.splits)
    have "long_wire b" using assms True by (simp add: cell_wire_def)
    from long_value_begins [OF this s] show ?thesis
      using True t by (auto simp: skip_column_def pcs_begin_def rbind_def pcs_of_def)
  next
    case False
    from assms s obtain s1 where d: "decode_column hf ops d c s = (Inr v, s1)" "supplies rest s1"
      unfolding cell_wire_def yields_def by blast
    from decode_column_raw [OF d(1)] obtain u where "decode hf ops c s = (Inr u, s1)" by blast
    with decode_into_same [OF supplies_safe [OF s], of row_writer_new hf c] obtain w s2 where
      w: "decode_into hf ops c row_writer_new s = (Inr w, s2)" "s2 = s1 \<or> emptied ops s1 s2" by (auto simp: same_row_def)
    have "supplies rest s2" using w(2) slice_zero [OF d(2)] d(2) by (auto simp: emptied_def)
    with w(1) False show ?thesis by (simp add: skip_column_def rbind_def)
  qed
qed


section \<open>Runs of columns\<close>

lemma drive_skipped:
  assumes "cells_wire supplies hf ops d bm i cs bs vs"
    and "\<And>j. i \<le> j \<Longrightarrow> j < i + length cs \<Longrightarrow> skips_at plan j \<and> \<not> prefix_ends plan j \<and> \<not> stops_at plan j"
    and "gives supplies b (drive_columns hf ops md d h bm plan ds (i + length cs)) us r"
  shows "gives supplies (concat bs @ b) (drive_columns hf ops md d h bm plan (cs @ ds) i) us r"
  using assms
proof (induction cs arbitrary: i bs vs)
  case (Cons c cs)
  then obtain b0 bs' v vs' where split: "bs = b0 # bs'" "vs = v # vs'" "cells_wire supplies hf ops d bm (Suc i) cs bs' vs'"
    and cell: "null_test bm i = Inr True \<and> b0 = [] \<or> null_test bm i = Inr False \<and> cell_wire supplies hf ops d c b0 v"
    by (auto simp: cells_wire_Cons)
  have at: "skips_at plan i" "\<not> prefix_ends plan i" "\<not> stops_at plan i" using Cons.prems(2) [of i] by auto
  have IH: "gives supplies (concat bs' @ b) (drive_columns hf ops md d h bm plan (cs @ ds) (i + 1)) us r"
    using Cons.IH [OF split(3)] Cons.prems(2,3) by simp
  show ?case
  proof (cases "null_test bm i = Inr True")
    case True
    with gives_then [OF gives_rret IH] show ?thesis using at cell split(1)
      by (simp add: Let_def gives_rlift del: rret_apply)
  next
    case False
    then have "null_test bm i = Inr False" "cell_wire supplies hf ops d c b0 v" using cell by auto
    with gives_then [OF gives_src [OF skip_column_yields] IH] show ?thesis using at split(1)
      by (simp add: Let_def gives_rlift)
  qed
qed simp

lemma drive_decoded:
  assumes "cells_wire supplies hf ops d bm i cs bs vs"
    and "\<And>j. i \<le> j \<Longrightarrow> j < i + length cs \<Longrightarrow> \<not> skips_at plan j \<and> \<not> prefix_ends plan j \<and> \<not> stops_at plan j"
    and "gives supplies b (drive_columns hf ops md d h bm plan ds (i + length cs)) us r"
  shows "gives supplies (concat bs @ b) (drive_columns hf ops md d h bm plan (cs @ ds) i) (vs @ us) r"
  using assms
proof (induction cs arbitrary: i bs vs)
  case (Cons c cs)
  then obtain b0 bs' v vs' where split: "bs = b0 # bs'" "vs = v # vs'" "cells_wire supplies hf ops d bm (Suc i) cs bs' vs'"
    and cell: "null_test bm i = Inr True \<and> b0 = [] \<and> v = CV_Null \<or> null_test bm i = Inr False \<and> cell_wire supplies hf ops d c b0 v"
    by (auto simp: cells_wire_Cons)
  have at: "\<not> skips_at plan i" "\<not> prefix_ends plan i" "\<not> stops_at plan i" using Cons.prems(2) [of i] by auto
  have IH: "gives supplies (concat bs' @ b) (drive_columns hf ops md d h bm plan (cs @ ds) (i + 1)) (vs' @ us) r"
    using Cons.IH [OF split(3)] Cons.prems(2,3) by simp
  show ?case
  proof (cases "null_test bm i = Inr True")
    case True
    with gives_then [OF gives_emit IH, of CV_Null] show ?thesis using at cell split(1,2)
      by (simp add: Let_def gives_rlift)
  next
    case False
    then have "null_test bm i = Inr False" "cell_wire supplies hf ops d c b0 v" using cell by auto
    with gives_then [OF decode_resident_gives IH] show ?thesis using at split(1,2)
      by (simp add: Let_def gives_rlift)
  qed
qed simp

lemma run_all:
  "cells_wire supplies hf ops d bm i cs bs vs \<Longrightarrow> gives supplies (concat bs) (drive_columns hf ops md d h bm DecodeAll cs i) vs RR_RowWritten"
  using drive_decoded [of hf d bm i cs bs vs DecodeAll "[]" md h "[]" "[]" RR_RowWritten] gives_rret [of supplies RR_RowWritten]
  by (simp add: skips_at_def prefix_ends_def stops_at_def del: rret_apply)

lemma run_skip:
  "cells_wire supplies hf ops d bm i cs bs vs \<Longrightarrow> gives supplies (concat bs) (drive_columns hf ops md d h bm SkipAll cs i) [] RR_RowWritten"
  using drive_skipped [of hf d bm i cs bs vs SkipAll "[]" md h "[]" "[]" RR_RowWritten] gives_rret [of supplies RR_RowWritten]
  by (simp add: skips_at_def prefix_ends_def stops_at_def del: rret_apply)

lemma run_prefix:
  assumes "cells_wire supplies hf ops d bm i cs bs vs" "ds \<noteq> []" "k = i + length cs"
  shows "gives supplies (concat bs) (drive_columns hf ops md d h bm (DecodePrefix k) (cs @ ds) i) vs (RR_RowPaused (pause_at k md h d))"
proof -
  have "gives supplies [] (drive_columns hf ops md d h bm (DecodePrefix k) ds (i + length cs)) [] (RR_RowPaused (pause_at k md h d))"
    using gives_rret [of supplies "RR_RowPaused (pause_at k md h d)"] assms(2,3) by (cases ds) (simp_all add: Let_def prefix_ends_def del: rret_apply)
  from drive_decoded [OF assms(1) _ this] assms(3) show ?thesis
    by (simp add: skips_at_def prefix_ends_def stops_at_def)
qed

lemma run_to:
  assumes "cells_wire supplies hf ops d bm i cs bs vs" "t = i + length cs"
    and "gives supplies b (drive_columns hf ops md d h bm (DecodeOne t) ds t) us r"
  shows "gives supplies (concat bs @ b) (drive_columns hf ops md d h bm (DecodeOne t) (cs @ ds) i) us r"
  using drive_skipped [OF assms(1)] assms(2,3) by (simp add: skips_at_def prefix_ends_def stops_at_def)

lemma run_one:
  assumes "null_test bm t = Inr True \<and> b = [] \<and> v = CV_Null \<or> null_test bm t = Inr False \<and> cell_wire supplies hf ops d c b v \<and> \<not> is_plp c"
  shows "gives supplies b (drive_columns hf ops md d h bm (DecodeOne t) (c # ds) t) [v] (pause_after_column t md h d)"
proof (cases "null_test bm t = Inr True")
  case True
  with gives_then [OF gives_emit gives_rret, of supplies CV_Null "pause_after_column t md h d"] assms show ?thesis
    by (simp add: Let_def skips_at_def prefix_ends_def stops_at_def gives_rlift del: rret_apply)
next
  case False
  with assms gives_then [OF decode_resident_gives gives_rret, of hf d c b v "pause_after_column t md h d"] show ?thesis
    by (simp add: Let_def skips_at_def prefix_ends_def stops_at_def gives_rlift del: rret_apply)
qed

lemma run_long:
  assumes "null_test bm t = Inr False" "is_plp c" "cm_crypto_metadata c = None" "plp_header n = Inr (Some p)" "type_from_metadata c = Inr ty"
  shows "gives supplies (to_le_u64 n) (drive_columns hf ops md d h bm (DecodeOne t) (c # ds) t) []
    (RR_PlpPaused \<lparr>pp_row_pause_state = pause_at (t + 1) md h d, pp_plp_stream = pcs_of ty p\<rparr>)"
proof -
  have "yields supplies (to_le_u64 n) (pcs_begin ops c) (Some (pcs_of ty p))"
    unfolding pcs_begin_def assms(5)
    by (intro yields_bind_nil [OF yields_rlift [OF refl refl]] yields_last [OF plp_header_read [OF assms(4)]]) simp
  then have "gives supplies (to_le_u64 n @ []) (begin_long_value ops md d h t c) ([] @ [])
      (RR_PlpPaused \<lparr>pp_row_pause_state = pause_at (t + 1) md h d, pp_plp_stream = pcs_of ty p\<rparr>)"
    unfolding begin_long_value_def using assms(3) gives_rret
    by (simp only: simp_thms if_False) (rule gives_bind [OF gives_src], assumption, simp add: gives_rret del: rret_apply)
  with assms(1,2) show ?thesis
    by (simp add: Let_def skips_at_def prefix_ends_def stops_at_def gives_rlift)
qed

end

end
