(* ===== verification/Row_Properties.thy ===== *)
theory Row_Properties
  imports Row_Laws
begin

text \<open>
  Properties of the incremental row interface: reading a row at once is positioning on it and resuming,
  decoding every column agrees with the row parsers, any split of a row into pauses writes the same
  values, a long value can be pulled in pieces between two columns, and bitmaps in use are not reused.
\<close>

section \<open>Bitmaps\<close>

definition scratch_ok :: "'s row_io \<Rightarrow> bool" where
  "scratch_ok x \<longleftrightarrow> (\<forall>a. rio_scratch x = Some a \<longrightarrow> a < length (rio_store x))"

text \<open>The handles outside the scratch are \<open>held\<close>; a cell counts its handles.\<close>

definition arc_ok :: "nat list \<Rightarrow> 's row_io \<Rightarrow> bool" where
  "arc_ok held x \<longleftrightarrow> scratch_ok x \<and> (\<forall>a \<in> set held. a < length (rio_store x)) \<and>
     (\<forall>a < length (rio_store x). snd (rio_store x ! a) = count_list held a + (if rio_scratch x = Some a then 1 else 0))"

lemma arc_content_drop [simp]: "arc_content (arc_drop a st) h = arc_content st h"
  by (cases h; cases "a < length st") (auto simp: arc_content_def arc_drop_def nth_list_update list_update_beyond not_less)

lemma fill_and_keep_kept:
  assumes "fill_and_keep ops n a x = (r, y)" "b \<noteq> a"
  shows "arc_content (rio_store y) (Some b) = arc_content (rio_store x) (Some b)"
  using assms
  by (auto simp: fill_and_keep_def src_def arc_content_def arc_drop_def arc_clone_def split: prod.splits sum.splits)

lemma fill_and_keep_ok:
  assumes "fill_and_keep ops n a x = (r, y)" "rio_scratch x = None" "a < length (rio_store x)"
    and "\<forall>b \<in> set held. b < length (rio_store x)" "a \<notin> set held"
    and "\<forall>b < length (rio_store x). snd (rio_store x ! b) = count_list held b + (if b = a then 1 else 0)"
  shows "(\<forall>e. r = Inl e \<longrightarrow> arc_ok held y) \<and> (\<forall>b. r = Inr b \<longrightarrow> b = a \<and> arc_ok (b # held) y \<and>
    fill_bitmap ops n (rio_src x) = (Inr (the (arc_content (rio_store y) (Some b))), rio_src y))"
  using assms
  by (auto simp: fill_and_keep_def src_def arc_ok_def scratch_ok_def arc_drop_def arc_clone_def arc_content_def nth_list_update
      split: prod.splits sum.splits)

lemma arc_content_old: "b < length st \<Longrightarrow> arc_content (st @ xs) (Some b) = arc_content st (Some b)"
  by (simp add: arc_content_def nth_append)

lemma read_nbc_bitmap_ok:
  assumes "arc_ok held x" "read_nbc_bitmap ops n x = (r, y)"
  shows "(\<forall>a \<in> set held. arc_content (rio_store y) (Some a) = arc_content (rio_store x) (Some a)) \<and>
    (\<forall>e. r = Inl e \<longrightarrow> arc_ok held y) \<and>
    (\<forall>b. r = Inr b \<longrightarrow> b \<notin> set held \<and> arc_ok (b # held) y \<and>
       fill_bitmap ops n (rio_src x) = (Inr (the (arc_content (rio_store y) (Some b))), rio_src y))"
proof (cases "reusable n (rio_store x) (rio_scratch x)")
  case True
  then obtain a where a: "rio_scratch x = Some a" "snd (rio_store x ! a) = 1" by (auto simp: reusable_def split: option.splits)
  have f: "fill_and_keep ops n a (x\<lparr>rio_scratch := None\<rparr>) = (r, y)" using assms(2) True a(1) by (simp add: read_nbc_bitmap_def)
  have al: "a < length (rio_store x)" using assms(1) a by (simp add: arc_ok_def scratch_ok_def)
  with assms(1) a have "count_list held a = 0" by (auto simp: arc_ok_def)
  then have "a \<notin> set held" by (simp add: count_list_0_iff)
  have bounds: "\<forall>b \<in> set held. b < length (rio_store x)"
    and counts: "\<forall>b < length (rio_store x). snd (rio_store x ! b) = count_list held b + (if b = a then 1 else 0)"
    using assms(1) a(1) by (auto simp: arc_ok_def)
  have "arc_content (rio_store y) (Some b) = arc_content (rio_store x) (Some b)" if "b \<in> set held" for b
    using fill_and_keep_kept [OF f, of b] that \<open>a \<notin> set held\<close> by (cases "b = a") simp_all
  moreover have "(\<forall>e. r = Inl e \<longrightarrow> arc_ok held y) \<and> (\<forall>b. r = Inr b \<longrightarrow> b = a \<and> arc_ok (b # held) y \<and>
      fill_bitmap ops n (rio_src x) = (Inr (the (arc_content (rio_store y) (Some b))), rio_src y))"
    using fill_and_keep_ok [OF f, of held] al bounds \<open>a \<notin> set held\<close> counts by simp
  ultimately show ?thesis using \<open>a \<notin> set held\<close> by blast
next
  case False
  let ?st = "arc_drop_opt (rio_scratch x) (rio_store x)"
  let ?x = "x\<lparr>rio_scratch := None, rio_store := ?st @ [(replicate n 0, 1)]\<rparr>"
  have f: "fill_and_keep ops n (length ?st) ?x = (r, y)"
    using assms(2) False by (simp add: read_nbc_bitmap_def zeroed_bitmap_def)
  have len: "length ?st = length (rio_store x)" by (simp add: arc_drop_opt_def arc_drop_def split: option.splits)
  have held: "\<forall>b \<in> set held. b < length ?st" "length ?st \<notin> set held" using assms(1) len by (auto simp: arc_ok_def)
  have counts: "\<forall>b < length ?st. snd (?st ! b) = count_list held b"
    using assms(1) by (auto simp: arc_ok_def scratch_ok_def arc_drop_opt_def arc_drop_def nth_list_update split: option.splits)
  have "count_list held (length ?st) = 0" using held(2) by (simp add: count_list_0_iff)
  with counts have "\<forall>b < length (?st @ [(replicate n 0, 1)]). snd ((?st @ [(replicate n 0, 1)]) ! b) = count_list held b + (if b = length ?st then 1 else 0)"
    by (auto simp: nth_append less_Suc_eq)
  with fill_and_keep_ok [OF f, of held] held have ok: "(\<forall>e. r = Inl e \<longrightarrow> arc_ok held y) \<and> (\<forall>b. r = Inr b \<longrightarrow> b = length ?st \<and> arc_ok (b # held) y \<and>
    fill_bitmap ops n (rio_src x) = (Inr (the (arc_content (rio_store y) (Some b))), rio_src y))" by (auto simp: less_Suc_eq)
  have "arc_content (rio_store y) (Some b) = arc_content (rio_store x) (Some b)" if "b \<in> set held" for b
  proof -
    have "b < length ?st" "b \<noteq> length ?st" using held that by auto
    with fill_and_keep_kept [OF f, of b] show ?thesis
      by (simp add: arc_content_old) (simp add: arc_drop_opt_def split: option.splits)
  qed
  with ok held(2) show ?thesis by blast
qed


section \<open>Rows on the wire\<close>

definition row_bytes :: "bytes option \<Rightarrow> bytes list \<Rightarrow> bytes" where
  "row_bytes bm bs = (case bm of None \<Rightarrow> token_type_u8 TT_Row # concat bs | Some m \<Rightarrow> token_type_u8 TT_NbcRow # m @ concat bs)"

definition row_wire :: "(bytes \<Rightarrow> 's \<Rightarrow> bool) \<Rightarrow> (u16 \<Rightarrow> u32) \<Rightarrow> 's packet_reader_ops \<Rightarrow> col_metadata_token \<Rightarrow> cell_decryptor option \<Rightarrow> bytes option \<Rightarrow>
    bytes list \<Rightarrow> column_values list \<Rightarrow> bool" where
  "row_wire supplies hf ops md d bm bs vs \<longleftrightarrow> cells_wire supplies hf ops d bm 0 (cmt_columns md) bs vs \<and>
     (\<forall>m. bm = Some m \<longrightarrow> length m = bitmap_length (length (cmt_columns md)))"

text \<open>Positioning and resuming.\<close>

definition row_by_header :: "token_env \<Rightarrow> 's packet_reader_ops \<Rightarrow> parser_context \<Rightarrow> column_policy \<Rightarrow> ('s row_io, row_read_result) action" where
  "row_by_header env ops ctx plan =
     rbind (receive_row_header_internal env ops ctx) (\<lambda>r. case r of
         RH_Token t \<Rightarrow> rret (RR_Token t)
       | RH_Positioned p \<Rightarrow> resume_row_into_internal (te_half env) ops p plan)"

lemma row_by_header_eq: "receive_row_into_internal env ops ctx plan = row_by_header env ops ctx plan"
proof -
  have "(case t of
         TT_Row \<Rightarrow> rbind (rlift (extract_row_context ctx)) (\<lambda>(md, decryptor). drive_row_columns (te_half env) ops md decryptor None 0 plan)
       | TT_NbcRow \<Rightarrow> rbind (rlift (extract_row_context ctx)) (\<lambda>(md, decryptor).
           rbind (read_nbc_bitmap ops (bitmap_length (length (cmt_columns md)))) (\<lambda>a.
             drop_local a (drive_row_columns (te_half env) ops md decryptor (Some a) 0 plan)))
       | _ \<Rightarrow> rmap RR_Token (src (dispatch_token env ops ctx t))) =
     rbind (case t of
         TT_Row \<Rightarrow> rbind (rlift (extract_row_context ctx)) (\<lambda>(md, decryptor). rret (RH_Positioned (pause_at 0 md None decryptor)))
       | TT_NbcRow \<Rightarrow> rbind (rlift (extract_row_context ctx)) (\<lambda>(md, decryptor).
           rbind (read_nbc_bitmap ops (bitmap_length (length (cmt_columns md)))) (\<lambda>a. rret (RH_Positioned (pause_at 0 md (Some a) decryptor))))
       | _ \<Rightarrow> rmap RH_Token (src (dispatch_token env ops ctx t)))
       (\<lambda>r. case r of RH_Token t \<Rightarrow> rret (RR_Token t) | RH_Positioned p \<Rightarrow> resume_row_into_internal (te_half env) ops p plan)" for t
  proof (cases t)
    case TT_Row
    then show ?thesis by (cases ctx) (simp_all add: extract_row_context_def rbind_assoc resume_row_into_internal_def pause_at_def Let_def del: rret_apply)
  next
    case TT_NbcRow
    then show ?thesis by (cases ctx) (simp_all add: extract_row_context_def rbind_assoc resume_row_into_internal_def pause_at_def Let_def del: rret_apply)
  qed (simp_all add: rbind_assoc del: rret_apply)
  then show ?thesis
    unfolding receive_row_into_internal_def row_by_header_def receive_row_header_internal_def rbind_assoc by simp
qed

lemma drop_local_at:
  assumes "m x = (Inr r, y)"
  shows "\<exists>z. drop_local a m x = (Inr r, z) \<and> rio_src z = rio_src y \<and> rio_writer z = rio_writer y \<and> (\<forall>h. arc_content (rio_store z) h = arc_content (rio_store y) h)"
  using assms by (simp add: drop_local_def)

lemma resume_at:
  assumes "gives supplies b (drive_columns hf ops md d h bm plan (drop i (cmt_columns md)) i) us r"
    and "supplies (b @ rest) (rio_src y)" "arc_content (rio_store y) h = bm"
  shows "\<exists>z. resume_row_into_internal hf ops (pause_at i md h d) plan y = (Inr r, z) \<and>
    rw_row (rio_writer z) = rw_row (rio_writer y) @ us \<and> supplies rest (rio_src z) \<and> arc_content (rio_store z) h = bm"
proof -
  let ?m = "drive_row_columns hf ops md d h i plan"
  from givesD [OF assms(1,2)] assms(3) obtain s w where m: "?m y = (Inr r, y\<lparr>rio_src := s, rio_writer := w\<rparr>)"
    "rw_row w = rw_row (rio_writer y) @ us" "supplies rest s" by (auto simp: drive_row_columns_def)
  show ?thesis
  proof (cases h)
    case None
    with m assms(3) show ?thesis by (simp add: resume_row_into_internal_def pause_at_def)
  next
    case (Some a)
    from drop_local_at [where m = ?m and x = y and a = a, OF m(1)] Some m(2,3) assms(3) show ?thesis
      by (auto simp: resume_row_into_internal_def pause_at_def)
  qed
qed

context row_source
begin

lemma read_nbc_bitmap_at:
  assumes "scratch_ok x" "supplies (m @ rest) (rio_src x)" "n = length m"
  shows "\<exists>a y. read_nbc_bitmap ops n x = (Inr a, y) \<and> arc_content (rio_store y) (Some a) = Some m \<and> supplies rest (rio_src y) \<and> rio_writer y = rio_writer x"
proof -
  from bytes [OF assms(2,3)] obtain s where s: "fill_bitmap ops n (rio_src x) = (Inr m, s)" "supplies rest s"
    using assms(3) by (auto simp: fill_bitmap_def rbind_def)
  have keep: "\<exists>y. fill_and_keep ops n a z = (Inr a, y) \<and> arc_content (rio_store y) (Some a) = Some m \<and> supplies rest (rio_src y) \<and> rio_writer y = rio_writer x"
    if "rio_src z = rio_src x" "rio_writer z = rio_writer x" "a < length (rio_store z)" for a and z :: "'s row_io"
    using that s by (simp add: fill_and_keep_def src_def arc_content_def arc_clone_def)
  show ?thesis
  proof (cases "reusable n (rio_store x) (rio_scratch x)")
    case True
    then obtain a where "rio_scratch x = Some a" by (auto simp: reusable_def split: option.splits)
    with True assms(1) keep [of "x\<lparr>rio_scratch := None\<rparr>" a] show ?thesis
      by (auto simp: read_nbc_bitmap_def scratch_ok_def)
  next
    case False
    then show ?thesis
      using keep [of "x\<lparr>rio_scratch := None, rio_store := arc_drop_opt (rio_scratch x) (rio_store x) @ [(replicate n 0, 1)]\<rparr>"
          "length (arc_drop_opt (rio_scratch x) (rio_store x))"]
      by (auto simp: read_nbc_bitmap_def zeroed_bitmap_def)
  qed
qed

lemma row_positioned:
  assumes "row_wire supplies hf ops md d bm bs vs" "supplies (row_bytes bm bs @ rest) (rio_src x)" "scratch_ok x"
  shows "\<exists>h y. receive_row_header_internal env ops (PC_ColumnMetadata md d) x = (Inr (RH_Positioned (pause_at 0 md h d)), y) \<and>
    arc_content (rio_store y) h = bm \<and> supplies (concat bs @ rest) (rio_src y) \<and> rio_writer y = rio_writer x"
proof (cases bm)
  case None
  with assms(2) byte [of "token_type_u8 TT_Row" "concat bs @ rest" "rio_src x"] obtain s where
    s: "rd_byte ops (rio_src x) = (Inr (token_type_u8 TT_Row), s)" "supplies (concat bs @ rest) s" by (auto simp: row_bytes_def)
  have "receive_row_header_internal env ops (PC_ColumnMetadata md d) x = (Inr (RH_Positioned (pause_at 0 md None d)), x\<lparr>rio_src := s\<rparr>)"
    unfolding receive_row_header_internal_def rbind_def src_def s(1)
    by (simp add: token_type_try_from_u8 del: token_type_u8.simps) (simp add: extract_row_context_def)
  with s(2) None show ?thesis by (intro exI [of _ None] exI [of _ "x\<lparr>rio_src := s\<rparr>"]) (simp add: arc_content_def)
next
  case (Some m)
  with assms(2) byte [of "token_type_u8 TT_NbcRow" "m @ concat bs @ rest" "rio_src x"] obtain s where
    s: "rd_byte ops (rio_src x) = (Inr (token_type_u8 TT_NbcRow), s)" "supplies (m @ concat bs @ rest) s" by (auto simp: row_bytes_def)
  let ?n = "bitmap_length (length (cmt_columns md))"
  have "scratch_ok (x\<lparr>rio_src := s\<rparr>)" "?n = length m" using assms(1,3) Some by (simp_all add: scratch_ok_def row_wire_def)
  from read_nbc_bitmap_at [OF this(1) _ this(2)] s(2) obtain a y where
    y: "read_nbc_bitmap ops ?n (x\<lparr>rio_src := s\<rparr>) = (Inr a, y)" "arc_content (rio_store y) (Some a) = Some m" "supplies (concat bs @ rest) (rio_src y)" "rio_writer y = rio_writer x"
    by fastforce
  have "receive_row_header_internal env ops (PC_ColumnMetadata md d) x = (Inr (RH_Positioned (pause_at 0 md (Some a) d)), y)"
    unfolding receive_row_header_internal_def rbind_def src_def s(1)
    by (simp add: token_type_try_from_u8 del: token_type_u8.simps) (simp add: extract_row_context_def y(1))
  with y Some show ?thesis by blast
qed

end

context row_source
begin

lemma decode_columns_yields:
  "cells_wire supplies hf ops d None i cs bs vs \<Longrightarrow> yields supplies (concat bs) (decode_columns hf ops d cs) vs"
proof (induction cs arbitrary: i bs vs)
  case (Cons c cs)
  then obtain b bs' v vs' where *: "bs = b # bs'" "vs = v # vs'" "cell_wire supplies hf ops d c b v" "cells_wire supplies hf ops d None (Suc i) cs bs' vs'"
    by (auto simp: cells_wire_Cons null_test_def)
  have "yields supplies (concat bs') (rbind (decode_columns hf ops d cs) (\<lambda>vs. rret (v # vs))) (v # vs')"
    by (intro yields_last [OF Cons.IH [OF *(4)]]) simp
  with * show ?case unfolding decode_columns.simps by (auto simp: cell_wire_def simp del: rret_apply intro!: yields_bind)
qed (simp add: yields_rret del: rret_apply)

lemma decode_nbc_columns_yields:
  "cells_wire supplies hf ops d (Some m) i cs bs vs \<Longrightarrow> yields supplies (concat bs) (decode_nbc_columns hf ops d m i cs) vs"
proof (induction cs arbitrary: i bs vs)
  case (Cons c cs)
  then obtain b bs' v vs' where *: "bs = b # bs'" "vs = v # vs'" "cells_wire supplies hf ops d (Some m) (Suc i) cs bs' vs'"
    and c: "is_null_value_in_column m i = Inr True \<and> b = [] \<and> v = CV_Null \<or> is_null_value_in_column m i = Inr False \<and> cell_wire supplies hf ops d c b v"
    by (auto simp: cells_wire_Cons null_test_def)
  have tl: "yields supplies (concat bs') (rbind (decode_nbc_columns hf ops d m (Suc i) cs) (\<lambda>vs. rret (v # vs))) (v # vs')"
    by (intro yields_last [OF Cons.IH [OF *(3)]]) simp
  define n where "n \<longleftrightarrow> is_null_value_in_column m i = Inr True"
  with c have n: "is_null_value_in_column m i = Inr n" "yields supplies b (if n then rret CV_Null else decode_column hf ops d c) v"
    by (auto simp: yields_rret cell_wire_def simp del: rret_apply)
  have "yields supplies (b @ concat bs') (decode_nbc_columns hf ops d m i (c # cs)) (v # vs')"
    unfolding decode_nbc_columns.simps n(1)
    by (intro yields_bind_nil [OF yields_rlift [OF refl refl]] yields_bind [OF n(2)] tl)
  with * show ?case by simp
qed (simp add: yields_rret del: rret_apply)

lemma row_token_yields:
  assumes "row_wire supplies (te_half env) ops md d bm bs vs"
  shows "yields supplies (row_bytes bm bs) (receive_token_internal env ops (PC_ColumnMetadata md d)) (TK_Row vs)"
proof -
  note w = assms [unfolded row_wire_def]
  show ?thesis
  proof (cases bm)
    case None
    have "yields supplies (concat bs) (dispatch_token env ops (PC_ColumnMetadata md d) TT_Row) (TK_Row vs)"
      unfolding dispatch_token_def get_parser_def parse_row_def token_type.case option.case token_parsers.case parser_context.case
      by (intro yields_rmap [OF decode_columns_yields [of _ _ 0]]) (use w None in auto)
    then show ?thesis unfolding receive_token_internal_def row_bytes_def None option.case
      by (intro bind_rules(1) yields_bind_nil [OF yields_rlift [OF refl token_type_try_from_u8]])
  next
    case (Some m)
    have "yields supplies (concat bs) (decode_nbc_columns (te_half env) ops d m 0 (cmt_columns md)) vs"
      using w Some by (intro decode_nbc_columns_yields) simp
    then have "yields supplies (m @ concat bs) (parse_nbc_row (te_half env) ops (PC_ColumnMetadata md d)) vs"
      unfolding parse_nbc_row_def parser_context.case by (intro bind_rules(11)) (use w Some in auto)
    then have "yields supplies (m @ concat bs) (dispatch_token env ops (PC_ColumnMetadata md d) TT_NbcRow) (TK_Row vs)"
      unfolding dispatch_token_def get_parser_def token_type.case option.case token_parsers.case by (intro yields_rmap) simp_all
    then show ?thesis unfolding receive_token_internal_def row_bytes_def Some option.case
      by (intro bind_rules(1) yields_bind_nil [OF yields_rlift [OF refl token_type_try_from_u8]])
  qed
qed

lemma row_into_all:
  assumes "row_wire supplies (te_half env) ops md d bm bs vs" "supplies (row_bytes bm bs @ rest) (rio_src x)" "scratch_ok x"
  shows "\<exists>y. receive_row_into_internal env ops (PC_ColumnMetadata md d) DecodeAll x = (Inr RR_RowWritten, y) \<and>
    rw_row (rio_writer y) = rw_row (rio_writer x) @ vs \<and> supplies rest (rio_src y)"
proof -
  from row_positioned [OF assms] obtain h y where y: "receive_row_header_internal env ops (PC_ColumnMetadata md d) x = (Inr (RH_Positioned (pause_at 0 md h d)), y)"
    "arc_content (rio_store y) h = bm" "supplies (concat bs @ rest) (rio_src y)" "rio_writer y = rio_writer x" by blast
  have "gives supplies (concat bs) (drive_columns (te_half env) ops md d h bm DecodeAll (drop 0 (cmt_columns md)) 0) vs RR_RowWritten"
    using assms(1) by (simp add: row_wire_def run_all)
  from resume_at [OF this y(3,2)] y(1,4) show ?thesis by (auto simp: row_by_header_eq row_by_header_def rbind_def)
qed

lemma row_split:
  assumes "row_wire supplies hf ops md d bm bs vs" "k \<le> length vs"
  shows "cells_wire supplies hf ops d bm 0 (take k (cmt_columns md)) (take k bs) (take k vs)"
    and "cells_wire supplies hf ops d bm k (drop k (cmt_columns md)) (drop k bs) (drop k vs)"
    and "concat (take k bs) @ concat (drop k bs) = concat bs" and "length (cmt_columns md) = length vs" "length bs = length vs"
proof -
  have w: "cells_wire supplies hf ops d bm 0 (cmt_columns md) bs vs" using assms(1) by (simp add: row_wire_def)
  show l: "length (cmt_columns md) = length vs" "length bs = length vs" using cells_wire_length [OF w] by auto
  have "cells_wire supplies hf ops d bm 0 (take k (cmt_columns md) @ drop k (cmt_columns md)) bs vs" using w by simp
  then show "cells_wire supplies hf ops d bm 0 (take k (cmt_columns md)) (take k bs) (take k vs)"
    "cells_wire supplies hf ops d bm k (drop k (cmt_columns md)) (drop k bs) (drop k vs)"
    unfolding cells_wire_append using l assms(2) by (simp_all add: min_absorb2)
  show "concat (take k bs) @ concat (drop k bs) = concat bs" by (metis append_take_drop_id concat_append)
qed

lemma row_paused:
  assumes "row_wire supplies (te_half env) ops md d bm bs vs" "supplies (row_bytes bm bs @ rest) (rio_src x)" "scratch_ok x" "k < length vs"
  shows "\<exists>h y. receive_row_into_internal env ops (PC_ColumnMetadata md d) (DecodePrefix k) x = (Inr (RR_RowPaused (pause_at k md h d)), y) \<and>
    rw_row (rio_writer y) = rw_row (rio_writer x) @ take k vs \<and> supplies (concat (drop k bs) @ rest) (rio_src y) \<and> arc_content (rio_store y) h = bm"
proof -
  note sp = row_split [OF assms(1) less_imp_le [OF assms(4)]]
  from row_positioned [OF assms(1-3)] obtain h y where y: "receive_row_header_internal env ops (PC_ColumnMetadata md d) x = (Inr (RH_Positioned (pause_at 0 md h d)), y)"
    "arc_content (rio_store y) h = bm" "supplies (concat bs @ rest) (rio_src y)" "rio_writer y = rio_writer x" by blast
  have "drop k (cmt_columns md) \<noteq> []" "k = 0 + length (take k (cmt_columns md))" using sp(4) assms(4) by simp_all
  from run_prefix [OF sp(1) this]
  have "gives supplies (concat (take k bs)) (drive_columns (te_half env) ops md d h bm (DecodePrefix k) (drop 0 (cmt_columns md)) 0) (take k vs)
      (RR_RowPaused (pause_at k md h d))" by simp
  moreover have "supplies (concat (take k bs) @ concat (drop k bs) @ rest) (rio_src y)" using y(3) sp(3) by (metis append_assoc)
  ultimately show ?thesis
    using resume_at [of supplies _ "te_half env" ops md d h bm _ 0 _ _ _ y] y(1,2,4) by (fastforce simp: row_by_header_eq row_by_header_def rbind_def)
qed

lemma row_resumed:
  assumes "row_wire supplies hf ops md d bm bs vs" "k \<le> length vs" "supplies (concat (drop k bs) @ rest) (rio_src y)" "arc_content (rio_store y) h = bm"
  shows "\<exists>z. resume_row_into_internal hf ops (pause_at k md h d) DecodeAll y = (Inr RR_RowWritten, z) \<and>
      rw_row (rio_writer z) = rw_row (rio_writer y) @ drop k vs \<and> supplies rest (rio_src z)"
    and "\<exists>z. resume_row_into_internal hf ops (pause_at k md h d) SkipAll y = (Inr RR_RowWritten, z) \<and>
      rw_row (rio_writer z) = rw_row (rio_writer y) \<and> supplies rest (rio_src z)"
  using resume_at [OF run_all [OF row_split(2) [OF assms(1,2)]] assms(3,4)] resume_at [OF run_skip [OF row_split(2) [OF assms(1,2)]] assms(3,4)]
  by auto

lemma row_resumed_at:
  assumes "row_wire supplies hf ops md d bm bs vs" "k \<le> t" "t < length vs" "supplies (concat (drop k bs) @ rest) (rio_src y)" "arc_content (rio_store y) h = bm"
    and "gives supplies b (drive_columns hf ops md d h bm (DecodeOne t) (drop t (cmt_columns md)) t) us r" "concat (drop t bs) = b @ b'"
  shows "\<exists>z. resume_row_into_internal hf ops (pause_at k md h d) (DecodeOne t) y = (Inr r, z) \<and>
    rw_row (rio_writer z) = rw_row (rio_writer y) @ us \<and> supplies (b' @ rest) (rio_src z) \<and> arc_content (rio_store z) h = bm"
proof -
  let ?cs = "take (t - k) (drop k (cmt_columns md))" and ?bs = "take (t - k) (drop k bs)"
  note sp = row_split [OF assms(1), of k] row_split [OF assms(1), of t]
  have split: "drop k (cmt_columns md) = ?cs @ drop t (cmt_columns md)" "drop k bs = ?bs @ drop t bs"
    using assms(2) by (metis append_take_drop_id drop_drop le_add_diff_inverse2)+
  have len: "length ?cs = t - k" using sp(4) assms(2,3) by simp
  have cells: "cells_wire supplies hf ops d bm k ?cs ?bs (take (t - k) (drop k vs))"
  proof -
    have "cells_wire supplies hf ops d bm k (?cs @ drop t (cmt_columns md)) (drop k bs) (drop k vs)"
      by (subst split(1) [symmetric]) (use sp(2) assms(2,3) in simp)
    then show ?thesis unfolding cells_wire_append len by blast
  qed
  have "gives supplies (concat ?bs @ b) (drive_columns hf ops md d h bm (DecodeOne t) (drop k (cmt_columns md)) k) us r"
    by (subst split(1)) (rule run_to [OF cells _ assms(6)], use len assms(2) in simp)
  moreover have "concat (drop k bs) @ rest = (concat ?bs @ b) @ b' @ rest"
    using arg_cong [OF split(2), of concat] assms(7) by simp
  ultimately show ?thesis using resume_at assms(4,5) by fastforce
qed

lemma row_resumed_one:
  assumes "row_wire supplies hf ops md d bm bs vs" "k \<le> t" "t < length vs" "\<not> is_plp (cmt_columns md ! t)"
    and "supplies (concat (drop k bs) @ rest) (rio_src y)" "arc_content (rio_store y) h = bm"
  shows "\<exists>z. resume_row_into_internal hf ops (pause_at k md h d) (DecodeOne t) y = (Inr (pause_after_column t md h d), z) \<and>
    rw_row (rio_writer z) = rw_row (rio_writer y) @ [vs ! t] \<and> supplies (concat (drop (Suc t) bs) @ rest) (rio_src z)"
proof -
  note sp = row_split [OF assms(1) less_imp_le [OF assms(3)]]
  have dr: "drop t (cmt_columns md) = cmt_columns md ! t # drop (Suc t) (cmt_columns md)" "drop t bs = bs ! t # drop (Suc t) bs" "drop t vs = vs ! t # drop (Suc t) vs"
    using sp(4,5) assms(3) by (simp_all add: Cons_nth_drop_Suc)
  have "gives supplies (bs ! t) (drive_columns hf ops md d h bm (DecodeOne t) (drop t (cmt_columns md)) t) [vs ! t] (pause_after_column t md h d)"
    using sp(2) assms(4) unfolding dr cells_wire.simps by (intro run_one) auto
  from row_resumed_at [OF assms(1-3,5,6) this, of "concat (drop (Suc t) bs)"] dr(2) show ?thesis by auto
qed

end

text \<open>The successive reads of a paused long value.\<close>

primrec pull_pieces :: "'s packet_reader_ops \<Rightarrow> nat list \<Rightarrow> (plp_pause_state \<times> 's, bytes list) action" where
  "pull_pieces ops [] = rret []"
| "pull_pieces ops (n # ns) = rbind (read_active_plp_bytes_internal ops n) (\<lambda>x. rbind (pull_pieces ops ns) (\<lambda>xs. rret (x # xs)))"

lemma pull_pieces_reads:
  "plp_reads ops ns (pcs_inner (pp_plp_stream q), s) = (Inr xs, (p, s')) \<Longrightarrow>
   \<exists>q'. pull_pieces ops ns (q, s) = (Inr xs, (q', s')) \<and> pcs_inner (pp_plp_stream q') = p \<and> pp_row_pause_state q' = pp_row_pause_state q"
proof (induction ns arbitrary: q s xs)
  case (Cons n ns)
  then obtain x p1 s1 xs1 where 1: "read_into ops n (pcs_inner (pp_plp_stream q), s) = (Inr x, (p1, s1))" "plp_reads ops ns (p1, s1) = (Inr xs1, (p, s'))" "xs = x # xs1"
    by (auto simp: rbind_def split: prod.splits sum.splits)
  let ?q = "q\<lparr>pp_plp_stream := (pp_plp_stream q)\<lparr>pcs_inner := p1\<rparr>\<rparr>"
  from Cons.IH [of ?q s1 xs1] 1(2) obtain q' where
    "pull_pieces ops ns (?q, s1) = (Inr xs1, (q', s'))" "pcs_inner (pp_plp_stream q') = p" "pp_row_pause_state q' = pp_row_pause_state q" by auto
  with 1(1,3) show ?case by (simp add: read_active_plp_bytes_internal_def rbind_def)
qed auto

context row_source
begin

lemma long_value_pull:
  assumes "row_wire supplies hf ops md d bm bs vs" "k \<le> t" "t < length vs" "is_plp (cmt_columns md ! t)" "cm_crypto_metadata (cmt_columns md ! t) = None"
    and "null_test bm t = Inr False" "bs ! t = plp_wire known cs" "chunks_ok cs" "length (concat cs) \<le> MAX_PLP_SIZE"
    and "supplies (concat (drop k bs) @ rest) (rio_src y)" "arc_content (rio_store y) h = bm"
  shows "\<exists>q z q2 s2 p3 s3. resume_row_into_internal hf ops (pause_at k md h d) (DecodeOne t) y = (Inr (RR_PlpPaused q), z) \<and>
    pp_row_pause_state q = pause_at (Suc t) md h d \<and> rw_row (rio_writer z) = rw_row (rio_writer y) \<and> arc_content (rio_store z) h = bm \<and>
    pull_pieces ops ns (q, rio_src z) = (Inr (spec_reads ns (concat cs)), (q2, s2)) \<and> pp_row_pause_state q2 = pause_at (Suc t) md h d \<and>
    skip_to_end ops (pcs_inner (pp_plp_stream q2), s2) = (Inr (), (p3, s3)) \<and> supplies (concat (drop (Suc t) bs) @ rest) s3"
proof -
  let ?c = "cmt_columns md ! t" and ?n = "if known then word_of_nat (length (concat cs)) else SQL_PLP_UNKNOWNLEN"
  note sp = row_split [OF assms(1) less_imp_le [OF assms(3)]]
  have dr: "drop t (cmt_columns md) = ?c # drop (Suc t) (cmt_columns md)" "drop t bs = bs ! t # drop (Suc t) bs"
    using sp(4,5) assms(3) by (simp_all add: Cons_nth_drop_Suc)
  obtain ty where ty: "type_from_metadata ?c = Inr ty"
    using assms(4) by (auto simp: is_plp_def variant_is_plp_def type_from_metadata_def split: type_info_variant.splits)
  from plp_wire_header [OF assms(8,9), of known] obtain p where p: "plp_header ?n = Inr (Some p)" "plp_rel p (concat cs) (plp_framed cs)" by blast
  define q where "q = \<lparr>pp_row_pause_state = pause_at (t + 1) md h d, pp_plp_stream = pcs_of ty p\<rparr>"
  have g: "gives supplies (to_le_u64 ?n) (drive_columns hf ops md d h bm (DecodeOne t) (drop t (cmt_columns md)) t) [] (RR_PlpPaused q)"
    unfolding dr(1) q_def by (rule run_long [OF assms(6,4,5) p(1) ty])
  have "concat (drop t bs) = to_le_u64 ?n @ plp_framed cs @ concat (drop (Suc t) bs)"
    unfolding dr(2) assms(7) by (simp add: plp_wire_def)
  from row_resumed_at [OF assms(1-3,10,11) g this] obtain z where
    z: "resume_row_into_internal hf ops (pause_at k md h d) (DecodeOne t) y = (Inr (RR_PlpPaused q), z)" "rw_row (rio_writer z) = rw_row (rio_writer y)"
      "supplies (plp_framed cs @ concat (drop (Suc t) bs) @ rest) (rio_src z)" "arc_content (rio_store z) h = bm" by auto
  from z(3) p(2) have "plp_holds supplies (concat (drop (Suc t) bs) @ rest) (concat cs) (p, rio_src z)" by (auto simp: plp_holds_def)
  from plp_reads_holds [OF this, of ns] obtain p2 s2 where
    r: "plp_reads ops ns (p, rio_src z) = (Inr (spec_reads ns (concat cs)), (p2, s2))" "plp_holds supplies (concat (drop (Suc t) bs) @ rest) (drop (sum_list ns) (concat cs)) (p2, s2)"
    by auto
  from pull_pieces_reads [of ops ns q "rio_src z"] r(1) obtain q2 where
    q2: "pull_pieces ops ns (q, rio_src z) = (Inr (spec_reads ns (concat cs)), (q2, s2))" "pcs_inner (pp_plp_stream q2) = p2" "pp_row_pause_state q2 = pp_row_pause_state q"
    by (auto simp: q_def pcs_of_def)
  from skip_to_end_holds [OF r(2)] obtain p3 s3 where "skip_to_end ops (p2, s2) = (Inr (), (p3, s3))" "supplies (concat (drop (Suc t) bs) @ rest) s3" by blast
  with z q2 show ?thesis by (auto simp: q_def)
qed

end


section \<open>A sample row\<close>

text \<open>Two columns, a GUID and a \<^verbatim>\<open>varbinary(max)\<close>.\<close>

definition blob_column :: column_metadata where
  "blob_column = \<lparr>cm_user_type = 0, cm_flags = 1, cm_type_info = \<lparr>ti_tds_type = DT_BigVarBinary, ti_length = 65535,
       ti_variant = PartialLen PL_BigVarBinary (Some 0xFFFF) None None None\<rparr>,
     cm_data_type = DT_BigVarBinary, cm_column_name = [], cm_multi_part_name = None, cm_crypto_metadata = None\<rparr>"

definition two_columns :: col_metadata_token where
  "two_columns = \<lparr>cmt_column_count = 2, cmt_columns = [guid_column, blob_column], cmt_cek_table = []\<rparr>"

definition sample_cells :: "bytes list" where
  "sample_cells = [16 # replicate 16 7, plp_wire True [[1, 2], [3]]]"

definition sample_values :: "column_values list" where
  "sample_values = [CV_Uuid (replicate 16 7), CV_Bytes [1, 2, 3]]"

definition row_io_over :: "bytes \<Rightarrow> network_reader row_io" where
  "row_io_over c = \<lparr>rio_src = one_packet_reader c, rio_writer = row_writer_new, rio_scratch = None, rio_store = []\<rparr>"

lemma guid_cell: "cell_wire (net_supplies tail) hf network_ops None guid_column (16 # replicate 16 7) (CV_Uuid (replicate 16 7))"
proof -
  have "yields (net_supplies tail) (16 # replicate 16 7) (rbind (rd_byte network_ops) (read_guid network_ops)) (CV_Uuid (replicate 16 7))"
    by (intro net.bind_rules(1)) (simp add: read_guid_def validate_alloc_size_def MAX_ALLOC_SIZE_def net.last_rules(11) del: rret_apply replicate.simps)
  then show ?thesis
    by (simp add: cell_wire_def decode_column_def decode_def decode_scalar_def guid_column_def is_plp_def variant_is_plp_def column_wf_def type_info_wf_def
        variable_length_types_try_from_def plain_var_len_def may_be_plp_def)
qed

lemma blob_cell: "cell_wire (net_supplies tail) hf network_ops None blob_column (plp_wire True [[1, 2], [3]]) (CV_Bytes [1, 2, 3])"
proof -
  have ok: "chunks_ok [[1, 2], [3 :: u8]]" "length (concat [[1, 2], [3 :: u8]]) \<le> MAX_PLP_SIZE"
    by (simp_all add: MAX_PLP_CHUNK_SIZE_def MAX_PLP_SIZE_def)
  then have "yields (net_supplies tail) (plp_wire True [[1, 2], [3]]) (rmap (or_null CV_Bytes) (read_plp_bytes network_ops)) (CV_Bytes [1, 2, 3])"
    using net.yields_rmap [OF net.read_plp_known_yields [OF ok], of "CV_Bytes [1, 2, 3]" "or_null CV_Bytes"]
    by (simp add: plp_wire_def or_null_def del: rret_apply)
  moreover have "long_wire (plp_wire True [[1, 2], [3]])" unfolding long_wire_def using ok by blast
  ultimately show ?thesis
    by (simp add: cell_wire_def decode_column_def decode_def decode_scalar_def blob_column_def is_plp_def variant_is_plp_def column_wf_def type_info_wf_def
        partial_length_type_try_from_def)
qed

lemma sample_row: "row_wire (net_supplies tail) hf network_ops two_columns None None sample_cells sample_values"
  using guid_cell blob_cell by (simp add: row_wire_def two_columns_def sample_cells_def sample_values_def null_test_def del: replicate.simps)

lemma sample_supplies: "net_supplies [] (row_bytes None sample_cells @ [0xFD]) (rio_src (row_io_over (row_bytes None sample_cells @ [0xFD])))"
  unfolding row_io_over_def row_io.simps
  by (rule one_packet_supplies) (simp add: row_bytes_def sample_cells_def plp_wire_def plp_framed_def chunk_bytes_def codec_simps)

lemma sample_scratch: "scratch_ok (row_io_over c)"
  by (simp add: scratch_ok_def row_io_over_def)


section \<open>Properties\<close>

text \<open>
  C31. Reading a row at once is positioning on it and resuming. For every transport, context, policy and
  state, on every branch including errors and other tokens, \<^verbatim>\<open>receive_row_into\<close> returns what
  \<^verbatim>\<open>receive_row_header\<close> followed by \<^verbatim>\<open>resume_row_into\<close> with the same policy returns, with the same
  writer, transport, scratch buffer and reference counts.
\<close>

theorem row_into_is_header_then_resume:
  "receive_row_into_internal env ops ctx plan x =
     (case receive_row_header_internal env ops ctx x of
        (Inl e, y) \<Rightarrow> (Inl e, y)
      | (Inr (RH_Token t), y) \<Rightarrow> (Inr (RR_Token t), y)
      | (Inr (RH_Positioned p), y) \<Rightarrow> resume_row_into_internal (te_half env) ops p plan y)"
  by (auto simp: row_by_header_eq row_by_header_def rbind_def split: prod.splits sum.splits row_header.splits)

text \<open>
  C2. Decoding a row into a writer agrees with the row parsers. For a ROW or NBCROW on the wire, cut
  into packets in any way, \<^verbatim>\<open>receive_row_into\<close> with \<^verbatim>\<open>DecodeAll\<close>, which takes each column from the
  buffer when it can and awaits it otherwise, appends to the writer exactly the values the row token
  parser returns from the same bytes, and both leave the transport at the bytes after the row.
\<close>

theorem row_into_agrees_with_parser:
  assumes "row_wire (net_supplies tail) (te_half env) network_ops md d bm bs vs"
    and "net_supplies tail (row_bytes bm bs @ rest) (rio_src x)" and "scratch_ok x"
  shows "\<exists>y r. receive_row_into_internal env network_ops (PC_ColumnMetadata md d) DecodeAll x = (Inr RR_RowWritten, y) \<and>
    rw_row (rio_writer y) = rw_row (rio_writer x) @ vs \<and> net_supplies tail rest (rio_src y) \<and>
    receive_token_internal env network_ops (PC_ColumnMetadata md d) (rio_src x) = (Inr (TK_Row vs), r) \<and> net_supplies tail rest r"
proof -
  have "yields (net_supplies tail) (row_bytes bm bs) (receive_token_internal env network_ops (PC_ColumnMetadata md d)) (TK_Row vs)"
    by (rule net.row_token_yields [OF assms(1)])
  with assms(2) obtain r where "receive_token_internal env network_ops (PC_ColumnMetadata md d) (rio_src x) = (Inr (TK_Row vs), r)" "net_supplies tail rest r"
    unfolding yields_def by blast
  with net.row_into_all [OF assms] show ?thesis by blast
qed

theorem row_into_agrees_with_parser_witness:
  "\<exists>y. receive_row_into_internal sample_env network_ops (PC_ColumnMetadata two_columns None) DecodeAll (row_io_over (row_bytes None sample_cells @ [0xFD])) = (Inr RR_RowWritten, y) \<and>
    rw_row (rio_writer y) = sample_values \<and> net_supplies [] [0xFD] (rio_src y)"
  using row_into_agrees_with_parser [OF sample_row sample_supplies sample_scratch, of sample_env] by (auto simp: row_io_over_def row_writer_new_def)



text \<open>
  C22. A long value is pulled in pieces within a row. Positioned on a row, resuming with \<^verbatim>\<open>DecodeOne\<close> at
  an unencrypted long column skips the columns before it and pauses before its payload; reads into
  buffers of any sizes return the successive pieces of the value; after the rest of the value is
  skipped, resuming writes exactly the columns after it and stands at the bytes after the row.
\<close>

theorem long_value_pulled:
  assumes "row_wire (net_supplies tail) (te_half env) network_ops md d bm bs vs"
    and "net_supplies tail (row_bytes bm bs @ rest) (rio_src x)" and "scratch_ok x"
    and "t < length vs" "is_plp (cmt_columns md ! t)" "cm_crypto_metadata (cmt_columns md ! t) = None" "null_test bm t = Inr False"
    and "bs ! t = plp_wire known cs" "chunks_ok cs" "length (concat cs) \<le> MAX_PLP_SIZE"
  shows "\<exists>p y q z q2 s2 p3 s3 u. receive_row_header_internal env network_ops (PC_ColumnMetadata md d) x = (Inr (RH_Positioned p), y) \<and>
    resume_row_into_internal (te_half env) network_ops p (DecodeOne t) y = (Inr (RR_PlpPaused q), z) \<and>
    pull_pieces network_ops ns (q, rio_src z) = (Inr (spec_reads ns (concat cs)), (q2, s2)) \<and>
    skip_to_end network_ops (pcs_inner (pp_plp_stream q2), s2) = (Inr (), (p3, s3)) \<and>
    resume_row_into_internal (te_half env) network_ops (pp_row_pause_state q2) DecodeAll (z\<lparr>rio_src := s3\<rparr>) = (Inr RR_RowWritten, u) \<and>
    rw_row (rio_writer u) = rw_row (rio_writer x) @ drop (t + 1) vs \<and> net_supplies tail rest (rio_src u)"
proof -
  from net.row_positioned [OF assms(1-3), of env] obtain h y where
    y: "receive_row_header_internal env network_ops (PC_ColumnMetadata md d) x = (Inr (RH_Positioned (pause_at 0 md h d)), y)"
      "arc_content (rio_store y) h = bm" "net_supplies tail (concat bs @ rest) (rio_src y)" "rio_writer y = rio_writer x" by blast
  from net.long_value_pull [OF assms(1) le0 assms(4-10) _ y(2), where rest = rest and ns = ns] y(3) obtain q z q2 s2 p3 s3 where
    z: "resume_row_into_internal (te_half env) network_ops (pause_at 0 md h d) (DecodeOne t) y = (Inr (RR_PlpPaused q), z)"
      "rw_row (rio_writer z) = rw_row (rio_writer y)" "arc_content (rio_store z) h = bm"
      "pull_pieces network_ops ns (q, rio_src z) = (Inr (spec_reads ns (concat cs)), (q2, s2))" "pp_row_pause_state q2 = pause_at (Suc t) md h d"
      "skip_to_end network_ops (pcs_inner (pp_plp_stream q2), s2) = (Inr (), (p3, s3))" "net_supplies tail (concat (drop (Suc t) bs) @ rest) s3"
    by auto
  have "net_supplies tail (concat (drop (Suc t) bs) @ rest) (rio_src (z\<lparr>rio_src := s3\<rparr>))" "arc_content (rio_store (z\<lparr>rio_src := s3\<rparr>)) h = bm"
    using z(3,7) by simp_all
  from net.row_resumed(1) [OF assms(1) _ this] assms(4) obtain u where
    "resume_row_into_internal (te_half env) network_ops (pause_at (Suc t) md h d) DecodeAll (z\<lparr>rio_src := s3\<rparr>) = (Inr RR_RowWritten, u)"
    "rw_row (rio_writer u) = rw_row (rio_writer z) @ drop (Suc t) vs" "net_supplies tail rest (rio_src u)" by auto
  with y z show ?thesis by (metis Suc_eq_plus1)
qed

theorem long_value_pulled_witness:
  "\<exists>p y q z q2 s2. receive_row_header_internal sample_env network_ops (PC_ColumnMetadata two_columns None) (row_io_over (row_bytes None sample_cells @ [0xFD])) = (Inr (RH_Positioned p), y) \<and>
    resume_row_into_internal (te_half sample_env) network_ops p (DecodeOne 1) y = (Inr (RR_PlpPaused q), z) \<and>
    pull_pieces network_ops [2, 2] (q, rio_src z) = (Inr [[1, 2], [3]], (q2, s2))"
proof -
  have "1 < length sample_values" "is_plp (cmt_columns two_columns ! 1)" "cm_crypto_metadata (cmt_columns two_columns ! 1) = None" "null_test None 1 = Inr False"
    "sample_cells ! 1 = plp_wire True [[1, 2], [3]]" "chunks_ok [[1, 2], [3 :: u8]]" "length (concat [[1, 2], [3 :: u8]]) \<le> MAX_PLP_SIZE"
    by (simp_all add: sample_values_def two_columns_def blob_column_def is_plp_def variant_is_plp_def null_test_def sample_cells_def MAX_PLP_CHUNK_SIZE_def MAX_PLP_SIZE_def)
  from long_value_pulled [OF sample_row sample_supplies sample_scratch this, of sample_env "[2, 2]"] show ?thesis by fastforce
qed

text \<open>
  C17. Bitmaps in use are never overwritten. As long as every cell of the store counts its handles, reading
  the bitmap of a further NBCROW, successfully or not, keeps the content of every bitmap a paused row
  still holds; the bitmap it returns is none of those, has exactly the bytes that were read, whether its
  buffer was reused or allocated, and the counts stay right.
\<close>

theorem held_bitmaps_kept:
  assumes "arc_ok held x" and "read_nbc_bitmap ops n x = (r, y)"
  shows "(\<forall>a \<in> set held. arc_content (rio_store y) (Some a) = arc_content (rio_store x) (Some a)) \<and>
    (\<forall>e. r = Inl e \<longrightarrow> arc_ok held y) \<and>
    (\<forall>b. r = Inr b \<longrightarrow> b \<notin> set held \<and> arc_ok (b # held) y \<and>
       fill_bitmap ops n (rio_src x) = (Inr (the (arc_content (rio_store y) (Some b))), rio_src y))"
  using assms by (rule read_nbc_bitmap_ok)

theorem held_bitmaps_kept_witness:
  "\<exists>r y. read_nbc_bitmap network_ops 1 \<lparr>rio_src = one_packet_reader [5], rio_writer = row_writer_new, rio_scratch = Some 0, rio_store = [([9], 2)]\<rparr> = (r, y) \<and>
     arc_content (rio_store y) (Some 0) = Some [9]"
proof -
  let ?x = "\<lparr>rio_src = one_packet_reader [5], rio_writer = row_writer_new, rio_scratch = Some 0, rio_store = [([9], 2)]\<rparr>"
  have ok: "arc_ok [0] ?x" by (simp add: arc_ok_def scratch_ok_def)
  obtain r y where e: "read_nbc_bitmap network_ops 1 ?x = (r, y)" by (rule prod.exhaust)
  from held_bitmaps_kept [OF ok e] e show ?thesis by (auto simp: arc_content_def)
qed

end
