(* ===== verification/Attention_Drain.thy ===== *)
theory Attention_Drain
  imports Row_Properties
begin

text \<open>
  Cancellation in \<^verbatim>\<open>mssql-tds/src/connection/transport/network_transport.rs\<close>: after an attention packet the
  client finishes the row it was reading, then discards rows and collects control tokens until the final
  DONE that acknowledges the attention. The drain is shown to reach the acknowledgement and to leave the
  transport at the byte after it.
\<close>

section \<open>The settlement\<close>

definition MAX_ATTENTION_SETTLEMENT_TOKENS :: nat where "MAX_ATTENTION_SETTLEMENT_TOKENS = 1024"

record attention_settlement =
  as_tokens :: "tokens list"
  as_overflowed :: bool

definition settlement_default :: attention_settlement where
  "settlement_default = \<lparr>as_tokens = [], as_overflowed = False\<rparr>"

definition settlement_push :: "attention_settlement \<Rightarrow> tokens \<Rightarrow> attention_settlement" where
  "settlement_push st t =
     (if length (as_tokens st) < MAX_ATTENTION_SETTLEMENT_TOKENS
      then st\<lparr>as_tokens := as_tokens st @ [t]\<rparr> else st\<lparr>as_overflowed := True\<rparr>)"

record drain_context =
  dr_metadata :: "col_metadata_token option"
  dr_column_encryption_supported :: bool

text \<open>\<open>enc\<close> is the setting cached by the transport.\<close>

definition attention_drain_context :: "bool \<Rightarrow> parser_context \<Rightarrow> drain_context" where
  "attention_drain_context enc ctx =
     (case ctx of
        PC_ColumnMetadata md _ \<Rightarrow> \<lparr>dr_metadata = Some md, dr_column_encryption_supported = enc\<rparr>
      | PC_ColumnEncryption enabled \<Rightarrow> \<lparr>dr_metadata = None, dr_column_encryption_supported = enabled\<rparr>
      | PC_None \<Rightarrow> \<lparr>dr_metadata = None, dr_column_encryption_supported = enc\<rparr>)"

definition apply_attention_token :: "drain_context \<Rightarrow> attention_settlement \<Rightarrow> tokens \<Rightarrow> bool \<times> drain_context \<times> attention_settlement" where
  "apply_attention_token c st t =
     (let finished = (\<lambda>dn. (status_contains (dn_status dn) DONE_ATTN \<and> \<not> has_more dn, c\<lparr>dr_metadata := None\<rparr>, settlement_push st t)) in
      case t of
        TK_ColMetadata md \<Rightarrow> (False, c\<lparr>dr_metadata := Some md\<rparr>, st)
      | TK_Row _ \<Rightarrow> (False, c, st)
      | TK_DataClassification _ \<Rightarrow> (False, c, st)
      | TK_Done dn \<Rightarrow> finished dn
      | TK_DoneProc dn \<Rightarrow> finished dn
      | TK_DoneInProc dn \<Rightarrow> finished dn
      | _ \<Rightarrow> (False, c, settlement_push st t))"


section \<open>Finishing an interrupted row\<close>

text \<open>The discarding writer is given nothing: a skipped column is decoded into a writer of its own.\<close>

definition discard_paused_row :: "(u16 \<Rightarrow> u32) \<Rightarrow> 's packet_reader_ops \<Rightarrow> row_pause_state \<Rightarrow> ('s row_io, unit) action" where
  "discard_paused_row hf ops p =
     rbind (resume_row_into_internal hf ops p SkipAll) (\<lambda>r. case r of
         RR_RowWritten \<Rightarrow> rret ()
       | RR_RowPaused _ \<Rightarrow> rfail (ProtocolError ''Attention drain paused while discarding a row'')
       | RR_PlpPaused _ \<Rightarrow> rfail (ProtocolError ''Attention drain paused while discarding a row'')
       | RR_Token _ \<Rightarrow> rfail (ProtocolError ''Attention drain reached a control token inside a row''))"

definition pause_reached_end :: "plp_pause_state \<Rightarrow> bool" where
  "pause_reached_end q = reached_end (pcs_inner (pp_plp_stream q))"

text \<open>The loop over the payload; every turn but the last takes payload bytes, \<open>fuel\<close> bounds the turns.\<close>

primrec discard_payload :: "'s packet_reader_ops \<Rightarrow> string \<Rightarrow> nat \<Rightarrow> plp_pause_state \<Rightarrow> ('s row_io, plp_pause_state) action" where
  "discard_payload ops stalled 0 q = (if pause_reached_end q then rret q else rfail Diverge)"
| "discard_payload ops stalled (Suc fuel) q =
     (if pause_reached_end q then rret q
      else (\<lambda>x. case read_active_plp_bytes_internal ops 8192 (q, rio_src x) of
           (Inl e, (_, s)) \<Rightarrow> (Inl e, x\<lparr>rio_src := s\<rparr>)
         | (Inr bs, (q', s)) \<Rightarrow>
             if bs = [] \<and> \<not> pause_reached_end q' then (Inl (ProtocolError stalled), x\<lparr>rio_src := s\<rparr>)
             else discard_payload ops stalled fuel q' (x\<lparr>rio_src := s\<rparr>)))"

definition discard_paused_plp :: "(u16 \<Rightarrow> u32) \<Rightarrow> 's packet_reader_ops \<Rightarrow> nat \<Rightarrow> plp_pause_state \<Rightarrow> ('s row_io, unit) action" where
  "discard_paused_plp hf ops fuel q =
     rbind (discard_payload ops ''Attention drain made no progress while discarding a PLP value'' fuel q) (\<lambda>q'.
       discard_paused_row hf ops (pp_row_pause_state q'))"

definition discard_active_plp :: "(u16 \<Rightarrow> u32) \<Rightarrow> 's packet_reader_ops \<Rightarrow> nat \<Rightarrow> plp_pause_state \<Rightarrow> ('s row_io, unit) action" where
  "discard_active_plp hf ops fuel q =
     rbind (discard_payload ops ''Attention drain made no progress while discarding an active PLP value'' fuel q) (\<lambda>q'.
       discard_paused_row hf ops (pp_row_pause_state q'))"

definition discard_interrupted_row_result :: "(u16 \<Rightarrow> u32) \<Rightarrow> 's packet_reader_ops \<Rightarrow> nat \<Rightarrow> row_read_result \<Rightarrow> ('s row_io, tokens option) action" where
  "discard_interrupted_row_result hf ops fuel r =
     (case r of
        RR_RowWritten \<Rightarrow> rret None
      | RR_Token t \<Rightarrow> rret (Some t)
      | RR_RowPaused p \<Rightarrow> rbind (discard_paused_row hf ops p) (\<lambda>_. rret None)
      | RR_PlpPaused q \<Rightarrow> rbind (discard_paused_plp hf ops fuel q) (\<lambda>_. rret None))"


section \<open>The drain\<close>

text \<open>One token, if any, is applied; the loop goes on unless it acknowledges.\<close>

definition apply_or_go :: "drain_context \<Rightarrow> attention_settlement \<Rightarrow> tokens option \<Rightarrow>
    (drain_context \<Rightarrow> attention_settlement \<Rightarrow> ('s, attention_settlement) action) \<Rightarrow> ('s, attention_settlement) action" where
  "apply_or_go c st first go =
     (case first of None \<Rightarrow> go c st
      | Some t \<Rightarrow> case apply_attention_token c st t of (acknowledged, c', st') \<Rightarrow> if acknowledged then rret st' else go c' st')"

primrec drain_loop :: "token_env \<Rightarrow> 's packet_reader_ops \<Rightarrow> nat \<Rightarrow> drain_context \<Rightarrow> attention_settlement \<Rightarrow> ('s row_io, attention_settlement) action" where
  "drain_loop env ops 0 c st = rfail Diverge"
| "drain_loop env ops (Suc fuel) c st =
     (case dr_metadata c of
        Some md \<Rightarrow>
          rbind (receive_row_into_internal env ops (PC_ColumnMetadata md None) SkipAll) (\<lambda>r.
          rbind (discard_interrupted_row_result (te_half env) ops fuel r) (\<lambda>first.
            apply_or_go c st first (drain_loop env ops fuel)))
      | None \<Rightarrow>
          rbind (src (receive_token_internal env ops (PC_ColumnEncryption (dr_column_encryption_supported c)))) (\<lambda>t.
            apply_or_go c st (Some t) (drain_loop env ops fuel)))"

definition drain_to_attention_ack :: "token_env \<Rightarrow> 's packet_reader_ops \<Rightarrow> bool \<Rightarrow> nat \<Rightarrow> parser_context \<Rightarrow> tokens option \<Rightarrow>
    ('s row_io, attention_settlement) action" where
  "drain_to_attention_ack env ops enc fuel ctx first =
     apply_or_go (attention_drain_context enc ctx) settlement_default first (drain_loop env ops fuel)"

text \<open>
  The awaits under a deadline: an await finishes with a result or the deadline passes first. The
  transport's record of the cancellation is the settlement and whether the connection is known dead.
\<close>

datatype 'a timed = Finished 'a | Elapsed

record attention_state =
  at_settlement :: "attention_settlement option"
  at_known_dead :: bool

definition wait_for_attention_ack :: "attention_settlement tds_result timed \<Rightarrow> attention_state \<Rightarrow> bool tds_result \<times> attention_state" where
  "wait_for_attention_ack drained a =
     (case drained of
        Finished (Inr st) \<Rightarrow> (Inr True, a\<lparr>at_settlement := Some st\<rparr>)
      | Finished (Inl e) \<Rightarrow> (Inl e, a)
      | Elapsed \<Rightarrow> (Inr False, a))"

definition send_attention_and_wait :: "unit tds_result timed \<Rightarrow> attention_settlement tds_result timed \<Rightarrow> attention_state \<Rightarrow> bool tds_result \<times> attention_state" where
  "send_attention_and_wait sent drained a =
     (let a = a\<lparr>at_settlement := None\<rparr> in
      case sent of
        Elapsed \<Rightarrow> (Inr False, a\<lparr>at_known_dead := True\<rparr>)
      | Finished (Inl e) \<Rightarrow> (Inl e, a\<lparr>at_known_dead := True\<rparr>)
      | Finished (Inr _) \<Rightarrow>
          (case wait_for_attention_ack drained a of
             (Inr True, a') \<Rightarrow> (Inr True, a')
           | (Inr False, a') \<Rightarrow> (Inr False, a'\<lparr>at_known_dead := True\<rparr>)
           | (Inl e, a') \<Rightarrow> (Inl e, a'\<lparr>at_known_dead := True\<rparr>)))"

text \<open>The drain after an interrupted row, row header or read of a long value; the awaits of each share the deadline.\<close>

definition drain_after_row_result :: "token_env \<Rightarrow> 's packet_reader_ops \<Rightarrow> bool \<Rightarrow> nat \<Rightarrow> parser_context \<Rightarrow> row_read_result \<Rightarrow>
    ('s row_io, attention_settlement) action" where
  "drain_after_row_result env ops enc fuel ctx r =
     rbind (discard_interrupted_row_result (te_half env) ops fuel r) (drain_to_attention_ack env ops enc fuel ctx)"

definition drain_after_row_header :: "token_env \<Rightarrow> 's packet_reader_ops \<Rightarrow> bool \<Rightarrow> nat \<Rightarrow> parser_context \<Rightarrow> row_header \<Rightarrow>
    ('s row_io, attention_settlement) action" where
  "drain_after_row_header env ops enc fuel ctx h =
     (case h of
        RH_Positioned p \<Rightarrow> rbind (discard_paused_row (te_half env) ops p) (\<lambda>_. drain_to_attention_ack env ops enc fuel ctx None)
      | RH_Token t \<Rightarrow> drain_to_attention_ack env ops enc fuel ctx (Some t))"

definition drain_after_plp :: "token_env \<Rightarrow> 's packet_reader_ops \<Rightarrow> bool \<Rightarrow> nat \<Rightarrow> parser_context \<Rightarrow> plp_pause_state \<Rightarrow>
    ('s row_io, attention_settlement) action" where
  "drain_after_plp env ops enc fuel ctx q =
     rbind (discard_active_plp (te_half env) ops fuel q) (\<lambda>_. drain_to_attention_ack env ops enc fuel ctx None)"


section \<open>What the server sends after an attention\<close>

text \<open>A DONE-family token with the attention bit and nothing to follow acknowledges.\<close>

definition acknowledges :: "tokens \<Rightarrow> bool" where
  "acknowledges t = (case t of
      TK_Done dn \<Rightarrow> bit (dn_status dn) 5 \<and> \<not> bit (dn_status dn) 0
    | TK_DoneProc dn \<Rightarrow> bit (dn_status dn) 5 \<and> \<not> bit (dn_status dn) 0
    | TK_DoneInProc dn \<Rightarrow> bit (dn_status dn) 5 \<and> \<not> bit (dn_status dn) 0
    | _ \<Rightarrow> False)"

text \<open>Tokens that describe or carry results are not replayed to the client.\<close>

definition replayed :: "tokens \<Rightarrow> tokens list" where
  "replayed t = (case t of TK_ColMetadata _ \<Rightarrow> [] | TK_Row _ \<Rightarrow> [] | TK_DataClassification _ \<Rightarrow> [] | _ \<Rightarrow> [t])"

text \<open>The result set in progress after a token.\<close>

definition result_after :: "drain_context \<Rightarrow> tokens \<Rightarrow> drain_context" where
  "result_after c t = (case t of
      TK_ColMetadata md \<Rightarrow> c\<lparr>dr_metadata := Some md\<rparr>
    | TK_Done _ \<Rightarrow> c\<lparr>dr_metadata := None\<rparr> | TK_DoneProc _ \<Rightarrow> c\<lparr>dr_metadata := None\<rparr> | TK_DoneInProc _ \<Rightarrow> c\<lparr>dr_metadata := None\<rparr>
    | _ \<Rightarrow> c)"

definition token_context :: "drain_context \<Rightarrow> parser_context" where
  "token_context c = (case dr_metadata c of Some md \<Rightarrow> PC_ColumnMetadata md None | None \<Rightarrow> PC_ColumnEncryption (dr_column_encryption_supported c))"

text \<open>
  \<open>attention_stream c b ts\<close>: from a token boundary in context \<open>c\<close>, the bytes \<open>b\<close> are rows of the result
  set in progress and tokens, the last one acknowledging, and \<open>ts\<close> are the tokens to replay.
\<close>

inductive attention_stream :: "(bytes \<Rightarrow> 's \<Rightarrow> bool) \<Rightarrow> token_env \<Rightarrow> 's packet_reader_ops \<Rightarrow> drain_context \<Rightarrow> bytes \<Rightarrow> tokens list \<Rightarrow> bool"
  for supplies env ops where
  Acknowledged: "sent_as env (token_context c) t b \<Longrightarrow> acknowledges t \<Longrightarrow> attention_stream supplies env ops c (token_wire t b) [t]"
| AnotherToken: "sent_as env (token_context c) t b \<Longrightarrow> \<not> acknowledges t \<Longrightarrow> attention_stream supplies env ops (result_after c t) b' ts \<Longrightarrow>
    attention_stream supplies env ops c (token_wire t b @ b') (replayed t @ ts)"
| AnotherRow: "dr_metadata c = Some md \<Longrightarrow> row_wire supplies (te_half env) ops md None bm bs vs \<Longrightarrow> attention_stream supplies env ops c b' ts \<Longrightarrow>
    attention_stream supplies env ops c (row_bytes bm bs @ b') ts"

text \<open>
  The same from where a row read was interrupted: at a boundary, with a token in hand, before a column
  of a row, or within a long value of a row. \<open>st\<close> is the store with the bitmap of the row.
\<close>

inductive attention_after :: "(bytes \<Rightarrow> 's \<Rightarrow> bool) \<Rightarrow> token_env \<Rightarrow> 's packet_reader_ops \<Rightarrow> drain_context \<Rightarrow> arc_store \<Rightarrow> row_read_result \<Rightarrow> bytes \<Rightarrow> tokens list \<Rightarrow> bool"
  for supplies env ops c st where
  Boundary: "attention_stream supplies env ops c b ts \<Longrightarrow> attention_after supplies env ops c st RR_RowWritten b ts"
| AckInHand: "acknowledges t \<Longrightarrow> attention_after supplies env ops c st (RR_Token t) [] [t]"
| TokenInHand: "\<not> acknowledges t \<Longrightarrow> attention_stream supplies env ops (result_after c t) b ts \<Longrightarrow>
    attention_after supplies env ops c st (RR_Token t) b (replayed t @ ts)"
| WithinRow: "row_wire supplies (te_half env) ops md d bm bs vs \<Longrightarrow> k \<le> length vs \<Longrightarrow> arc_content st h = bm \<Longrightarrow>
    attention_stream supplies env ops c b ts \<Longrightarrow>
    attention_after supplies env ops c st (RR_RowPaused (pause_at k md h d)) (concat (drop k bs) @ b) ts"
| WithinValue: "row_wire supplies (te_half env) ops md d bm bs vs \<Longrightarrow> k \<le> length vs \<Longrightarrow> arc_content st h = bm \<Longrightarrow>
    pp_row_pause_state q = pause_at k md h d \<Longrightarrow> plp_rel (pcs_inner (pp_plp_stream q)) pay wire \<Longrightarrow>
    attention_stream supplies env ops c b ts \<Longrightarrow>
    attention_after supplies env ops c st (RR_PlpPaused q) (wire @ concat (drop k bs) @ b) ts"

text \<open>The first tokens up to the limit are kept, and a loss is recorded.\<close>

definition settlement_of :: "tokens list \<Rightarrow> attention_settlement" where
  "settlement_of ts = \<lparr>as_tokens = take MAX_ATTENTION_SETTLEMENT_TOKENS ts, as_overflowed = (MAX_ATTENTION_SETTLEMENT_TOKENS < length ts)\<rparr>"

lemma settlement_push_of: "settlement_push (settlement_of ts) t = settlement_of (ts @ [t])"
  by (auto simp: settlement_push_def settlement_of_def min_def)

lemma settlement_default_of: "settlement_default = settlement_of []"
  by (simp add: settlement_default_def settlement_of_def)

lemma status_bits: "status_contains s DONE_ATTN \<longleftrightarrow> bit s 5" "status_contains s DONE_MORE \<longleftrightarrow> bit s 0"
proof -
  have "and s (2 ^ n) = 2 ^ n \<longleftrightarrow> bit s n" if "n < 16" for n
  proof
    assume "and s (2 ^ n) = 2 ^ n"
    then have "bit (and s (2 ^ n)) n = bit (2 ^ n :: u16) n" by (rule arg_cong)
    with that show "bit s n" by (simp add: bit_simps)
  qed (use that in \<open>auto simp: bit_simps intro!: bit_word_eqI\<close>)
  from this [of 5] this [of 0] show "status_contains s DONE_ATTN \<longleftrightarrow> bit s 5" "status_contains s DONE_MORE \<longleftrightarrow> bit s 0"
    by (simp_all add: status_contains_def DONE_ATTN_def DONE_MORE_def)
qed

lemma apply_attention_token_of:
  "apply_attention_token c (settlement_of us) t = (acknowledges t, result_after c t, settlement_of (us @ replayed t))"
  by (cases t) (simp_all add: apply_attention_token_def acknowledges_def result_after_def replayed_def settlement_push_of has_more_def status_bits)


section \<open>The scratch buffer\<close>

text \<open>\<open>keeps\<close>: the step touches neither the scratch nor the number of bitmaps in the store.\<close>

definition keeps :: "('s row_io, 'a) action \<Rightarrow> bool" where
  "keeps m \<longleftrightarrow> (\<forall>x. rio_scratch (snd (m x)) = rio_scratch x \<and> length (rio_store (snd (m x))) = length (rio_store x))"

lemma keeps_simps [simp]:
  "keeps (rret a)" "keeps (rfail e)" "keeps (rlift t)" "keeps (src m)" "keeps (emit v)" "keeps (into f)"
  by (auto simp: keeps_def rlift_def src_def emit_def into_def split: sum.splits prod.splits)

lemma keeps_bind: "keeps m \<Longrightarrow> (\<And>a. keeps (f a)) \<Longrightarrow> keeps (rbind m f)"
  by (auto simp: keeps_def rbind_def split: sum.splits prod.splits) (metis snd_conv)+

lemma keeps_drop_local: "keeps m \<Longrightarrow> keeps (drop_local a m)"
  by (auto simp: keeps_def drop_local_def arc_drop_def split: sum.splits prod.splits) (metis snd_conv)+

lemma keeps_decode_or_decrypt: "keeps (decode_or_decrypt_column hf ops d c)"
  by (auto simp: decode_or_decrypt_column_def keeps_bind split: option.splits bool.splits)

lemma keeps_decode_resident: "keeps (decode_resident_column hf ops d c)"
  unfolding decode_resident_column_def
proof (rule keeps_bind)
  fix bs
  let ?m = "\<lambda>x. if bs = [] then decode_or_decrypt_column hf ops d c x
       else case try_decode_buffered_into bs c (rio_writer x) of
           Inl e \<Rightarrow> (Inl e, x)
         | Inr None \<Rightarrow> decode_or_decrypt_column hf ops d c x
         | Inr (Some (w, consumed)) \<Rightarrow> src (take_consumed ops consumed) (x\<lparr>rio_writer := w\<rparr>)"
  show "keeps ?m"
    using keeps_decode_or_decrypt [of hf ops d c]
    by (auto simp: keeps_def src_def split: sum.splits option.splits prod.splits)
qed simp

lemma keeps_drive: "keeps (drive_columns hf ops md d h bm plan cs i)"
  by (induction cs arbitrary: i)
     (auto simp: Let_def begin_long_value_def simp del: rret_apply intro!: keeps_bind keeps_decode_resident split: option.splits)

lemma keeps_resume: "keeps (resume_row_into_internal hf ops p plan)"
proof -
  have "keeps (drive_row_columns hf ops md d h i plan)" for md d h i
    using keeps_drive unfolding keeps_def drive_row_columns_def by blast
  then show ?thesis by (auto simp: resume_row_into_internal_def Let_def keeps_drop_local split: option.splits)
qed

lemma keeps_scratch: "keeps m \<Longrightarrow> m x = (r, y) \<Longrightarrow> scratch_ok x \<Longrightarrow> scratch_ok y"
  unfolding keeps_def scratch_ok_def by (metis snd_conv)

lemma read_nbc_bitmap_scratch:
  assumes "read_nbc_bitmap ops n x = (r, y)" "scratch_ok x"
  shows "scratch_ok y"
proof -
  have keep: "scratch_ok y" if "fill_and_keep ops n a z = (r, y)" "rio_scratch z = None" "a < length (rio_store z)" for a z
    using that by (auto simp: fill_and_keep_def src_def scratch_ok_def arc_drop_def arc_clone_def split: prod.splits sum.splits)
  show ?thesis
  proof (cases "reusable n (rio_store x) (rio_scratch x)")
    case True
    then obtain a where a: "rio_scratch x = Some a" by (auto simp: reusable_def split: option.splits)
    with True assms keep [of a "x\<lparr>rio_scratch := None\<rparr>"] show ?thesis by (simp add: read_nbc_bitmap_def scratch_ok_def)
  next
    case False
    with assms keep [of _ "x\<lparr>rio_scratch := None, rio_store := arc_drop_opt (rio_scratch x) (rio_store x) @ [(replicate n 0, 1)]\<rparr>"]
    show ?thesis by (simp add: read_nbc_bitmap_def zeroed_bitmap_def)
  qed
qed

lemma row_header_scratch:
  assumes "receive_row_header_internal env ops ctx x = (r, y)" "scratch_ok x"
  shows "scratch_ok y"
  using assms read_nbc_bitmap_scratch
  by (fastforce simp: receive_row_header_internal_def rbind_def src_def rlift_def scratch_ok_def
      split: sum.splits prod.splits token_type.splits)


section \<open>Reaching the acknowledgement\<close>

lemma plp_rel_length: "plp_rel p pay wire \<Longrightarrow> reached_end p \<or> length pay < length wire"
proof -
  have "length (concat cs) < length (plp_framed cs)" for cs
    by (induction cs) (simp_all add: plp_framed_def chunk_bytes_def codec_simps)
  then show "plp_rel p pay wire \<Longrightarrow> reached_end p \<or> length pay < length wire" by (auto simp: plp_rel_def split: if_splits)
qed

lemma acknowledges_replayed: "acknowledges t \<Longrightarrow> replayed t = [t]"
  by (cases t) (simp_all add: acknowledges_def replayed_def)

lemma apply_or_go_of:
  "apply_or_go c (settlement_of us) (Some t) go =
     (if acknowledges t then rret (settlement_of (us @ [t])) else go (result_after c t) (settlement_of (us @ replayed t)))"
  by (simp add: apply_or_go_def apply_attention_token_of acknowledges_replayed)

context row_source
begin

lemma row_skipped:
  assumes "row_wire supplies (te_half env) ops md d bm bs vs" "supplies (row_bytes bm bs @ rest) (rio_src x)" "scratch_ok x"
  shows "\<exists>y. receive_row_into_internal env ops (PC_ColumnMetadata md d) SkipAll x = (Inr RR_RowWritten, y) \<and> supplies rest (rio_src y) \<and> scratch_ok y"
proof -
  from row_positioned [OF assms] obtain h y where
    y: "receive_row_header_internal env ops (PC_ColumnMetadata md d) x = (Inr (RH_Positioned (pause_at 0 md h d)), y)"
      "arc_content (rio_store y) h = bm" "supplies (concat bs @ rest) (rio_src y)" by blast
  from row_resumed(2) [OF assms(1) _ _ y(2), of 0] y(3) obtain z where
    z: "resume_row_into_internal (te_half env) ops (pause_at 0 md h d) SkipAll y = (Inr RR_RowWritten, z)" "supplies rest (rio_src z)" by auto
  have "scratch_ok z" by (rule keeps_scratch [OF keeps_resume z(1) row_header_scratch [OF y(1) assms(3)]])
  with y(1) z show ?thesis by (simp add: row_by_header_eq row_by_header_def rbind_def)
qed

lemma row_token_gives:
  assumes "sent_as env ctx t b"
  shows "gives supplies (token_wire t b) (receive_row_into_internal env ops ctx plan) [] (RR_Token t)"
proof -
  have "gives supplies (b @ []) (rmap RR_Token (src (dispatch_token env ops ctx (token_type_of t)))) ([] @ []) (RR_Token t)"
    by (rule gives_bind [OF gives_src [OF dispatch_token_yields [OF assms]]]) (simp add: gives_rret del: rret_apply)
  moreover have "token_type_of t \<noteq> TT_Row \<and> token_type_of t \<noteq> TT_NbcRow" using assms by cases simp_all
  ultimately have disp: "gives supplies b (case token_type_of t of
         TT_Row \<Rightarrow> rbind (rlift (extract_row_context ctx)) (\<lambda>(md, decryptor). drive_row_columns (te_half env) ops md decryptor None 0 plan)
       | TT_NbcRow \<Rightarrow> rbind (rlift (extract_row_context ctx)) (\<lambda>(md, decryptor).
           rbind (read_nbc_bitmap ops (bitmap_length (length (cmt_columns md)))) (\<lambda>a.
             drop_local a (drive_row_columns (te_half env) ops md decryptor (Some a) 0 plan)))
       | _ \<Rightarrow> rmap RR_Token (src (dispatch_token env ops ctx (token_type_of t)))) [] (RR_Token t)"
    by (cases "token_type_of t") (simp_all del: rret_apply)
  have "yields supplies [token_type_u8 (token_type_of t)] (rd_byte ops) (token_type_u8 (token_type_of t))"
    using byte unfolding yields_def by fastforce
  from gives_src [OF this] have "gives supplies ([token_type_u8 (token_type_of t)] @ b) (receive_row_into_internal env ops ctx plan) ([] @ []) (RR_Token t)"
    unfolding receive_row_into_internal_def by (rule gives_bind) (rule gives_rlift [OF token_type_try_from_u8], rule disp)
  then show ?thesis by (simp add: token_wire_def)
qed

lemma discard_payload_at:
  assumes "plp_holds supplies rest pay (pcs_inner (pp_plp_stream q), rio_src x)" "pause_reached_end q \<or> length pay < fuel"
  shows "\<exists>q' s. discard_payload ops msg fuel q x = (Inr q', x\<lparr>rio_src := s\<rparr>) \<and> pp_row_pause_state q' = pp_row_pause_state q \<and> supplies rest s"
  using assms
proof (induction fuel arbitrary: q x pay)
  case 0
  then show ?case by (intro exI [of _ q] exI [of _ "rio_src x"]) (auto simp: plp_holds_def plp_rel_def pause_reached_end_def)
next
  case (Suc fuel)
  show ?case
  proof (cases "pause_reached_end q")
    case True
    with Suc.prems show ?thesis by (intro exI [of _ q] exI [of _ "rio_src x"]) (auto simp: plp_holds_def plp_rel_def pause_reached_end_def)
  next
    case False
    from read_into_holds [OF Suc.prems(1), of 8192] obtain p s where
      r: "read_into ops 8192 (pcs_inner (pp_plp_stream q), rio_src x) = (Inr (take 8192 pay), (p, s))"
        "plp_holds supplies rest (drop 8192 pay) (p, s)" "reached_end p \<longleftrightarrow> drop 8192 pay = []" by auto
    define q1 where "q1 = q\<lparr>pp_plp_stream := (pp_plp_stream q)\<lparr>pcs_inner := p\<rparr>\<rparr>"
    have read: "read_active_plp_bytes_internal ops 8192 (q, rio_src x) = (Inr (take 8192 pay), (q1, s))"
      by (simp add: read_active_plp_bytes_internal_def r(1) q1_def)
    have "pause_reached_end q1 \<or> length (drop 8192 pay) < fuel" and go: "\<not> (take 8192 pay = [] \<and> \<not> pause_reached_end q1)"
      using Suc.prems(2) False r(3) by (auto simp: pause_reached_end_def q1_def)
    with Suc.IH [of "drop 8192 pay" q1 "x\<lparr>rio_src := s\<rparr>"] r(2) obtain q' s' where
      "discard_payload ops msg fuel q1 (x\<lparr>rio_src := s\<rparr>) = (Inr q', x\<lparr>rio_src := s'\<rparr>)" "pp_row_pause_state q' = pp_row_pause_state q1" "supplies rest s'"
      by (auto simp: q1_def)
    with False read go show ?thesis by (auto simp: q1_def)
  qed
qed

lemma discard_paused_row_at:
  assumes "row_wire supplies hf ops md d bm bs vs" "k \<le> length vs" "arc_content (rio_store x) h = bm"
    and "supplies (concat (drop k bs) @ rest) (rio_src x)" "scratch_ok x"
  shows "\<exists>y. discard_paused_row hf ops (pause_at k md h d) x = (Inr (), y) \<and> supplies rest (rio_src y) \<and> scratch_ok y"
proof -
  from row_resumed(2) [OF assms(1,2,4,3)] obtain y where
    y: "resume_row_into_internal hf ops (pause_at k md h d) SkipAll x = (Inr RR_RowWritten, y)" "supplies rest (rio_src y)" by blast
  moreover have "scratch_ok y" by (rule keeps_scratch [OF keeps_resume y(1) assms(5)])
  ultimately show ?thesis by (simp add: discard_paused_row_def rbind_def)
qed

lemma drain_step:
  assumes "sent_as env (token_context c) t b" "supplies (token_wire t b @ rest) (rio_src x)" "scratch_ok x"
  shows "\<exists>y. drain_loop env ops (Suc n) c (settlement_of us) x =
      (if acknowledges t then rret (settlement_of (us @ [t])) else drain_loop env ops n (result_after c t) (settlement_of (us @ replayed t))) y \<and>
    supplies rest (rio_src y) \<and> scratch_ok y"
proof (cases "dr_metadata c")
  case None
  then have "yields supplies (token_wire t b) (receive_token_internal env ops (PC_ColumnEncryption (dr_column_encryption_supported c))) t"
    using receive_token_yields [OF assms(1)] by (simp add: token_context_def)
  with assms(2) obtain s where "receive_token_internal env ops (PC_ColumnEncryption (dr_column_encryption_supported c)) (rio_src x) = (Inr t, s)" "supplies rest s"
    unfolding yields_def by blast
  with assms(3) None show ?thesis
    by (intro exI [of _ "x\<lparr>rio_src := s\<rparr>"]) (simp add: rbind_def src_def apply_or_go_of scratch_ok_def del: rret_apply)
next
  case (Some md)
  then have "sent_as env (PC_ColumnMetadata md None) t b" using assms(1) by (simp add: token_context_def)
  from givesD [OF row_token_gives [OF this, of SkipAll] assms(2)] obtain s w where
    "receive_row_into_internal env ops (PC_ColumnMetadata md None) SkipAll x = (Inr (RR_Token t), x\<lparr>rio_src := s, rio_writer := w\<rparr>)" "supplies rest s" by blast
  with assms(3) Some show ?thesis
    by (intro exI [of _ "x\<lparr>rio_src := s, rio_writer := w\<rparr>"]) (simp add: rbind_def discard_interrupted_row_result_def apply_or_go_of scratch_ok_def)
qed

lemma drain_loop_at:
  assumes "attention_stream supplies env ops c b ts" "supplies (b @ rest) (rio_src x)" "scratch_ok x" "length b \<le> fuel"
  shows "\<exists>y. drain_loop env ops fuel c (settlement_of us) x = (Inr (settlement_of (us @ ts)), y) \<and> supplies rest (rio_src y) \<and> scratch_ok y"
  using assms
proof (induction arbitrary: us x fuel rest)
  case (Acknowledged c t b)
  from Acknowledged.prems(3) obtain n where n: "fuel = Suc n" by (cases fuel) (simp_all add: token_wire_def)
  have "\<exists>y. drain_loop env ops fuel c (settlement_of us) x = rret (settlement_of (us @ [t])) y \<and> supplies rest (rio_src y) \<and> scratch_ok y"
    using drain_step [OF Acknowledged.hyps(1) Acknowledged.prems(1,2), of n us] Acknowledged.hyps(2) by (simp add: n del: rret_apply)
  then show ?case by auto
next
  case (AnotherToken c t b b' ts)
  from AnotherToken.prems(3) obtain n where n: "fuel = Suc n" "length b' \<le> n" by (cases fuel) (simp_all add: token_wire_def)
  have "supplies (token_wire t b @ b' @ rest) (rio_src x)" using AnotherToken.prems(1) by simp
  from drain_step [OF AnotherToken.hyps(1) this AnotherToken.prems(2), of n us] AnotherToken.hyps(2) obtain y where
    y: "drain_loop env ops fuel c (settlement_of us) x = drain_loop env ops n (result_after c t) (settlement_of (us @ replayed t)) y"
      "supplies (b' @ rest) (rio_src y)" "scratch_ok y" by (auto simp: n)
  from AnotherToken.IH [OF y(2,3) n(2), of "us @ replayed t"] y(1) show ?case by simp
next
  case (AnotherRow c md bm bs vs b' ts)
  from AnotherRow.prems(3) obtain n where n: "fuel = Suc n" "length b' \<le> n" by (cases fuel) (simp_all add: row_bytes_def split: option.splits)
  have "supplies (row_bytes bm bs @ b' @ rest) (rio_src x)" using AnotherRow.prems(1) by simp
  from row_skipped [OF AnotherRow.hyps(2) this AnotherRow.prems(2)] obtain y where
    y: "receive_row_into_internal env ops (PC_ColumnMetadata md None) SkipAll x = (Inr RR_RowWritten, y)" "supplies (b' @ rest) (rio_src y)" "scratch_ok y" by blast
  then have "drain_loop env ops fuel c (settlement_of us) x = drain_loop env ops n c (settlement_of us) y"
    using AnotherRow.hyps(1) by (simp add: n rbind_def discard_interrupted_row_result_def apply_or_go_def)
  with AnotherRow.IH [OF y(2,3) n(2), of us] show ?case by simp
qed

lemma drain_from:
  assumes "attention_stream supplies env ops c b ts" "supplies (b @ rest) (rio_src x)" "scratch_ok x" "length b \<le> fuel"
  shows "\<exists>y. apply_or_go c settlement_default None (drain_loop env ops fuel) x = (Inr (settlement_of ts), y) \<and> supplies rest (rio_src y) \<and> scratch_ok y"
  using drain_loop_at [OF assms, of "[]"] by (simp add: apply_or_go_def settlement_default_of)

lemma discard_plp_at:
  assumes "row_wire supplies hf ops md d bm bs vs" "k \<le> length vs" "arc_content (rio_store x) h = bm"
    and "pp_row_pause_state q = pause_at k md h d" "plp_rel (pcs_inner (pp_plp_stream q)) pay wire"
    and "supplies (wire @ concat (drop k bs) @ rest) (rio_src x)" "scratch_ok x" "length wire \<le> fuel"
  shows "\<exists>y. rbind (discard_payload ops msg fuel q) (\<lambda>q'. discard_paused_row hf ops (pp_row_pause_state q')) x = (Inr (), y) \<and>
    supplies rest (rio_src y) \<and> scratch_ok y"
proof -
  have "plp_holds supplies (concat (drop k bs) @ rest) pay (pcs_inner (pp_plp_stream q), rio_src x)"
    using assms(5,6) by (auto simp: plp_holds_def)
  moreover have "pause_reached_end q \<or> length pay < fuel" using plp_rel_length [OF assms(5)] assms(8) by (auto simp: pause_reached_end_def)
  ultimately obtain q' s where
    q': "discard_payload ops msg fuel q x = (Inr q', x\<lparr>rio_src := s\<rparr>)" "pp_row_pause_state q' = pause_at k md h d" "supplies (concat (drop k bs) @ rest) s"
    using discard_payload_at assms(4) by metis
  have "scratch_ok (x\<lparr>rio_src := s\<rparr>)" "arc_content (rio_store (x\<lparr>rio_src := s\<rparr>)) h = bm" "supplies (concat (drop k bs) @ rest) (rio_src (x\<lparr>rio_src := s\<rparr>))"
    using assms(3,7) q'(3) by (simp_all add: scratch_ok_def)
  from discard_paused_row_at [OF assms(1,2) this(2,3,1)] q'(1,2) show ?thesis by (simp add: rbind_def)
qed

lemma drain_after_row_result_at:
  assumes "attention_after supplies env ops (attention_drain_context enc ctx) (rio_store x) r b ts"
    and "supplies (b @ rest) (rio_src x)" "scratch_ok x" "length b \<le> fuel"
  shows "\<exists>y. drain_after_row_result env ops enc fuel ctx r x = (Inr (settlement_of ts), y) \<and> supplies rest (rio_src y) \<and> scratch_ok y"
  using assms(1)
proof cases
  case Boundary
  with drain_from [OF _ assms(2-4)] show ?thesis
    by (simp add: drain_after_row_result_def drain_to_attention_ack_def discard_interrupted_row_result_def)
next
  case (AckInHand t)
  with assms(2,3) show ?thesis
    by (simp add: drain_after_row_result_def drain_to_attention_ack_def discard_interrupted_row_result_def settlement_default_of apply_or_go_of)
next
  case (TokenInHand t ts')
  from drain_loop_at [OF TokenInHand(4) assms(2-4), of "replayed t"] TokenInHand show ?thesis
    by (simp add: drain_after_row_result_def drain_to_attention_ack_def discard_interrupted_row_result_def settlement_default_of apply_or_go_of)
next
  case (WithinRow md d bm bs vs k h b')
  have "supplies (concat (drop k bs) @ b' @ rest) (rio_src x)" using assms(2) WithinRow by simp
  from discard_paused_row_at [OF WithinRow(3-5) this assms(3)] obtain y where
    y: "discard_paused_row (te_half env) ops (pause_at k md h d) x = (Inr (), y)" "supplies (b' @ rest) (rio_src y)" "scratch_ok y" by blast
  have "length b' \<le> fuel" using assms(4) WithinRow by simp
  from drain_from [OF WithinRow(6) y(2,3) this] y(1) WithinRow(1) show ?thesis
    by (simp add: drain_after_row_result_def drain_to_attention_ack_def discard_interrupted_row_result_def rbind_def)
next
  case (WithinValue md d bm bs vs k h q pay wire b')
  have len: "length wire \<le> fuel" "length b' \<le> fuel" using assms(4) WithinValue by simp_all
  have "supplies (wire @ concat (drop k bs) @ b' @ rest) (rio_src x)" using assms(2) WithinValue by simp
  from discard_plp_at [OF WithinValue(3-7) this assms(3) len(1)] obtain y where
    y: "discard_paused_plp (te_half env) ops fuel q x = (Inr (), y)" "supplies (b' @ rest) (rio_src y)" "scratch_ok y"
    unfolding discard_paused_plp_def by blast
  from drain_from [OF WithinValue(8) y(2,3) len(2)] y(1) WithinValue(1) show ?thesis
    by (simp add: drain_after_row_result_def drain_to_attention_ack_def discard_interrupted_row_result_def rbind_def)
qed

lemma drain_after_plp_at:
  assumes "attention_after supplies env ops (attention_drain_context enc ctx) (rio_store x) (RR_PlpPaused q) b ts"
    and "supplies (b @ rest) (rio_src x)" "scratch_ok x" "length b \<le> fuel"
  shows "\<exists>y. drain_after_plp env ops enc fuel ctx q x = (Inr (settlement_of ts), y) \<and> supplies rest (rio_src y)"
  using assms(1)
proof cases
  case (WithinValue md d bm bs vs k h pay wire b')
  have len: "length wire \<le> fuel" "length b' \<le> fuel" using assms(4) WithinValue by simp_all
  have "supplies (wire @ concat (drop k bs) @ b' @ rest) (rio_src x)" using assms(2) WithinValue by simp
  from discard_plp_at [OF WithinValue(2-6) this assms(3) len(1)] obtain y where
    y: "discard_active_plp (te_half env) ops fuel q x = (Inr (), y)" "supplies (b' @ rest) (rio_src y)" "scratch_ok y"
    unfolding discard_active_plp_def by blast
  from drain_from [OF WithinValue(7) y(2,3) len(2)] y(1) show ?thesis
    by (auto simp: drain_after_plp_def drain_to_attention_ack_def rbind_def)
qed

end

lemma drain_after_row_header_eq:
  "drain_after_row_header env ops enc fuel ctx h =
     drain_after_row_result env ops enc fuel ctx (case h of RH_Positioned p \<Rightarrow> RR_RowPaused p | RH_Token t \<Rightarrow> RR_Token t)"
  by (cases h) (simp_all add: drain_after_row_header_def drain_after_row_result_def discard_interrupted_row_result_def rbind_assoc del: rret_apply)

lemma attention_stream_ends: "attention_stream supplies env ops c b ts \<Longrightarrow> ts \<noteq> [] \<and> acknowledges (last ts)"
  by (induction rule: attention_stream.induct) auto

lemma attention_after_ends: "attention_after supplies env ops c st r b ts \<Longrightarrow> ts \<noteq> [] \<and> acknowledges (last ts)"
  by (induction rule: attention_after.induct) (use attention_stream_ends in fastforce)+

text \<open>Only an acknowledgement keeps the connection; its settlement is then recorded.\<close>

lemma attention_settled_or_dead:
  assumes "send_attention_and_wait sent drained a = (v, a')"
  shows "(\<exists>st. sent = Finished (Inr ()) \<and> drained = Finished (Inr st) \<and> v = Inr True \<and> a' = a\<lparr>at_settlement := Some st\<rparr>) \<or>
    v \<noteq> Inr True \<and> at_known_dead a' \<and> at_settlement a' = None"
  using assms by (auto simp: send_attention_and_wait_def wait_for_attention_ack_def Let_def split: timed.splits sum.splits)


section \<open>Properties\<close>

text \<open>
  C3. A cancellation settles. Whatever the client was reading when it sent the attention - a token
  boundary, a token in hand, a row before any column, or the middle of a long value - if the server goes
  on with any number of rows and tokens and then a final DONE with the attention bit, the drain
  terminates: it returns the control tokens in the order sent, the first 1024 of them with the loss of
  more recorded, and the transport stands at the byte after the acknowledgement, so the connection can
  be used again. The same holds from a positioned row header and from an interrupted read of a long
  value. One step per byte sent is enough.
\<close>

theorem attention_drain_reaches_ack:
  assumes "attention_after (net_supplies tail) env network_ops (attention_drain_context enc ctx) (rio_store x) r b ts"
    and "net_supplies tail (b @ rest) (rio_src x)" and "scratch_ok x" and "length b \<le> fuel"
  shows "\<exists>y. drain_after_row_result env network_ops enc fuel ctx r x = (Inr (settlement_of ts), y) \<and>
    net_supplies tail rest (rio_src y) \<and> scratch_ok y \<and> acknowledges (last ts) \<and>
    (\<forall>p. r = RR_RowPaused p \<longrightarrow> drain_after_row_header env network_ops enc fuel ctx (RH_Positioned p) x = (Inr (settlement_of ts), y)) \<and>
    (\<forall>t. r = RR_Token t \<longrightarrow> drain_after_row_header env network_ops enc fuel ctx (RH_Token t) x = (Inr (settlement_of ts), y)) \<and>
    (\<forall>q. r = RR_PlpPaused q \<longrightarrow> (\<exists>z. drain_after_plp env network_ops enc fuel ctx q x = (Inr (settlement_of ts), z) \<and> net_supplies tail rest (rio_src z)))"
proof -
  have "\<exists>z. drain_after_plp env network_ops enc fuel ctx q x = (Inr (settlement_of ts), z) \<and> net_supplies tail rest (rio_src z)" if "r = RR_PlpPaused q" for q
    using net.drain_after_plp_at [OF assms(1) [unfolded that] assms(2-4)] by blast
  with net.drain_after_row_result_at [OF assms] attention_after_ends [OF assms(1)] show ?thesis
    by (auto simp: drain_after_row_header_eq)
qed

text \<open>A row paused before its long value, then an acknowledging DONE and the next message.\<close>

definition ack_done :: done_token where
  "ack_done = \<lparr>dn_status = DONE_ATTN, dn_cur_cmd = CC_Select, dn_row_count = 0\<rparr>"

definition interrupted_wire :: bytes where
  "interrupted_wire = concat (drop 1 sample_cells) @ token_wire (TK_Done ack_done) (done_bytes ack_done)"

lemma ack_wire: "attention_stream (net_supplies tail) sample_env network_ops c (token_wire (TK_Done ack_done) (done_bytes ack_done)) [TK_Done ack_done]"
proof (rule attention_stream.Acknowledged)
  show "sent_as sample_env (token_context c) (TK_Done ack_done) (done_bytes ack_done)"
    by (rule sent_as.Done) (simp add: ack_done_def done_status_from_def done_status_all_def DONE_MORE_def DONE_ERROR_def DONE_IN_XACT_def DONE_COUNT_def DONE_ATTN_def DONE_RPC_IN_BATCH_def DONE_SERVER_ERROR_def)
  show "acknowledges (TK_Done ack_done)" by (simp add: acknowledges_def ack_done_def DONE_ATTN_def)
qed

theorem attention_drain_reaches_ack_witness:
  "\<exists>y. drain_after_row_result sample_env network_ops False 100 (PC_ColumnMetadata two_columns None) (RR_RowPaused (pause_at 1 two_columns None None))
      (row_io_over (interrupted_wire @ [0x79])) = (Inr \<lparr>as_tokens = [TK_Done ack_done], as_overflowed = False\<rparr>, y) \<and> net_supplies [] [0x79] (rio_src y)"
proof -
  let ?x = "row_io_over (interrupted_wire @ [0x79])"
  have after: "attention_after (net_supplies []) sample_env network_ops (attention_drain_context False (PC_ColumnMetadata two_columns None)) (rio_store ?x)
      (RR_RowPaused (pause_at 1 two_columns None None)) interrupted_wire [TK_Done ack_done]"
    unfolding interrupted_wire_def
    by (rule attention_after.WithinRow [OF sample_row _ _ ack_wire]) (simp_all add: sample_values_def arc_content_def)
  have len: "length interrupted_wire \<le> 100"
    by (simp add: interrupted_wire_def sample_cells_def plp_wire_def plp_framed_def chunk_bytes_def token_wire_def done_bytes_def codec_simps)
  then have "net_supplies [] (interrupted_wire @ [0x79]) (rio_src ?x)"
    unfolding row_io_over_def row_io.simps by (intro one_packet_supplies) simp
  from attention_drain_reaches_ack [OF after this sample_scratch len] show ?thesis
    by (auto simp: settlement_of_def MAX_ATTENTION_SETTLEMENT_TOKENS_def)
qed

end
