(* ===== verification/Packet_Writer.thy ===== *)
theory Packet_Writer
  imports Network_Writer Utf16_Units
begin

text \<open>
  \<^verbatim>\<open>PacketWriter\<close> and \<^verbatim>\<open>SuspendedMessage\<close> (\<^verbatim>\<open>mssql-tds/src/io/packet_writer.rs\<close>): a message is
  written into a buffer of one packet and flushed whenever the buffer is full. This theory has
  the operations and what one send does in every environment; the theory
  \<open>Writer_Messages\<close> builds the contract of whole messages on it.
\<close>

section \<open>State\<close>

record cancel_handle =
  ch_settlement_budget :: bool

record suspended_message =
  pw_packet_type :: packet_type
  pw_max_payload_size :: nat
  pw_packet_id :: u8
  pw_buf :: bytes
  pw_pos :: nat
  pw_packet_size :: nat
  pw_is_first_packet :: bool
  pw_send_incomplete :: bool
  pw_send_attempted :: bool
  pw_message_complete :: bool
  pw_max_timeout_sec :: "nat option"
  pw_cancel_handle :: "cancel_handle option"
  pw_reset_mode :: reset_connection_mode
  pw_eom_pending :: bool
  pw_code_page_conversion_loss :: bool

record packet_writer = suspended_message +
  pw_net :: network_writer

abbreviation PACKET_HEADER_SIZE :: nat where "PACKET_HEADER_SIZE \<equiv> 8"

text \<open>
  \<^verbatim>\<open>PacketWriter::new\<close>. A zero timeout is an infinite one, and the pending reset request of the
  connection is taken by the message types that may carry it.
\<close>

definition pw_new ::
  "packet_type \<Rightarrow> network_writer \<Rightarrow> nat option \<Rightarrow> cancel_handle option \<Rightarrow> packet_writer tds_result" where
  "pw_new ty net timeout handle =
     (if nw_packet_size net < PACKET_HEADER_SIZE then Inl Panic
      else
        let (mode, net') =
              (if ty \<in> {SqlBatch, RpcRequest, TransactionManager} then take_reset_mode net
               else (ResetNone, net))
        in Inr \<lparr>pw_packet_type = ty,
                pw_max_payload_size = nw_packet_size net - PACKET_HEADER_SIZE,
                pw_packet_id = 1,
                pw_buf = [],
                pw_pos = PACKET_HEADER_SIZE,
                pw_packet_size = nw_packet_size net,
                pw_is_first_packet = True,
                pw_send_incomplete = False,
                pw_send_attempted = False,
                pw_message_complete = False,
                pw_max_timeout_sec = (case timeout of Some t \<Rightarrow> if t > 0 then Some t else None | None \<Rightarrow> None),
                pw_cancel_handle = handle,
                pw_reset_mode = mode,
                pw_eom_pending = False,
                pw_code_page_conversion_loss = False,
                pw_net = net'\<rparr>)"

definition note_code_page_conversion_loss :: "packet_writer \<Rightarrow> packet_writer" where
  "note_code_page_conversion_loss w = w\<lparr>pw_code_page_conversion_loss := True\<rparr>"

definition suspend :: "packet_writer \<Rightarrow> suspended_message" where
  "suspend w =
     \<lparr>pw_packet_type = pw_packet_type w,
      pw_max_payload_size = pw_max_payload_size w,
      pw_packet_id = pw_packet_id w,
      pw_buf = pw_buf w,
      pw_pos = pw_pos w,
      pw_packet_size = pw_packet_size w,
      pw_is_first_packet = pw_is_first_packet w,
      pw_send_incomplete = pw_send_incomplete w,
      pw_send_attempted = pw_send_attempted w,
      pw_message_complete = pw_message_complete w,
      pw_max_timeout_sec = pw_max_timeout_sec w,
      pw_cancel_handle = pw_cancel_handle w,
      pw_reset_mode = pw_reset_mode w,
      pw_eom_pending = pw_eom_pending w,
      pw_code_page_conversion_loss = pw_code_page_conversion_loss w\<rparr>"

definition resume :: "suspended_message \<Rightarrow> network_writer \<Rightarrow> packet_writer" where
  "resume st net =
     \<lparr>pw_packet_type = pw_packet_type st,
      pw_max_payload_size = pw_max_payload_size st,
      pw_packet_id = pw_packet_id st,
      pw_buf = pw_buf st,
      pw_pos = pw_pos st,
      pw_packet_size = pw_packet_size st,
      pw_is_first_packet = pw_is_first_packet st,
      pw_send_incomplete = pw_send_incomplete st,
      pw_send_attempted = pw_send_attempted st,
      pw_message_complete = pw_message_complete st,
      pw_max_timeout_sec = pw_max_timeout_sec st,
      pw_cancel_handle = pw_cancel_handle st,
      pw_reset_mode = pw_reset_mode st,
      pw_eom_pending = pw_eom_pending st,
      pw_code_page_conversion_loss = pw_code_page_conversion_loss st,
      pw_net = net\<rparr>"

definition check_cancellation :: "bool \<Rightarrow> suspended_message \<Rightarrow> unit tds_result" where
  "check_cancellation token_cancelled st =
     (case pw_cancel_handle st of
        Some h \<Rightarrow> if ch_settlement_budget h \<and> token_cancelled
                  then Inl (OperationCancelledError ''Request was cancelled'') else Inr ()
      | None \<Rightarrow> Inr ())"

definition nothing_sent :: "suspended_message \<Rightarrow> bool" where
  "nothing_sent st = (\<not> pw_send_attempted st)"

definition with_write_timeout :: "nat option \<Rightarrow> suspended_message \<Rightarrow> suspended_message" where
  "with_write_timeout t st = st\<lparr>pw_max_timeout_sec := t\<rparr>"

definition without_cancellation :: "suspended_message \<Rightarrow> suspended_message" where
  "without_cancellation st = st\<lparr>pw_cancel_handle := None\<rparr>"

definition abandon :: "suspended_message \<Rightarrow> network_writer \<Rightarrow> network_writer" where
  "abandon st net =
     (if pw_reset_mode st \<noteq> ResetNone then set_reset_mode (pw_reset_mode st) net else net)"


section \<open>Sending a packet\<close>

definition build_header ::
  "nat \<Rightarrow> packet_type \<Rightarrow> u8 \<Rightarrow> bool \<Rightarrow> bool \<Rightarrow> reset_connection_mode \<Rightarrow> bytes" where
  "build_header packet_length ty packet_id is_last is_ignore mode =
     (let status = (if is_last
                    then (if is_ignore then status_flag_u8 Eom OR status_flag_u8 Ignore
                          else status_flag_u8 Eom)
                    else status_flag_u8 Normal) OR reset_mode_u8 mode
      in [packet_type_u8 ty, status] @ to_be_u16 (word_of_nat packet_length) @ to_be_u16 0 @ [packet_id, 0])"

definition polled :: "packet_writer \<Rightarrow> packet_writer" where
  "polled w = w\<lparr>pw_send_attempted := True, pw_send_incomplete := True\<rparr>"

definition torn :: "packet_writer \<Rightarrow> packet_writer" where
  "torn w = (polled w)\<lparr>pw_net := (pw_net w)\<lparr>nw_torn := True\<rparr>\<rparr>"

text \<open>
  The part of the race a timer or a token can win only if it is armed: without a deadline the
  timer never fires, without a handle the token is never awaited.
\<close>

definition armed_race :: "packet_writer \<Rightarrow> send_race \<Rightarrow> send_race" where
  "armed_race w r =
     (case r of
        RaceElapsed _ \<Rightarrow> if pw_max_timeout_sec w = None then RaceSent else r
      | RaceCancelled _ _ \<Rightarrow> if pw_cancel_handle w = None then RaceSent else r
      | _ \<Rightarrow> r)"

text \<open>
  The race itself: \<open>Inr c\<close> when the packet went out, \<open>c\<close> if the token fired meanwhile.
\<close>

definition finish_send :: "bytes \<Rightarrow> bool \<Rightarrow> (packet_writer, bool) action" where
  "finish_send data cancelled w =
     (case send_done data (pw_net w) of
        (Inl e, n) \<Rightarrow> (Inl e, (polled w)\<lparr>pw_net := n\<rparr>)
      | (Inr _, n) \<Rightarrow> (Inr cancelled, (polled w)\<lparr>pw_net := n\<rparr>))"

definition fail_send :: "string \<Rightarrow> (packet_writer, bool) action" where
  "fail_send e w =
     (case send_failed e (pw_net w) of (r, n) \<Rightarrow> (r, (polled w)\<lparr>pw_net := n\<rparr>))"

definition settles :: "packet_writer \<Rightarrow> bool" where
  "settles w = (case pw_cancel_handle w of None \<Rightarrow> False | Some h \<Rightarrow> ch_settlement_budget h)"

definition run_race :: "send_race \<Rightarrow> bytes \<Rightarrow> (packet_writer, bool) action" where
  "run_race r data w =
     (case armed_race w r of
        RaceSent \<Rightarrow> finish_send data False w
      | RaceFailed e \<Rightarrow> fail_send e w
      | RaceElapsed started \<Rightarrow>
          (Inl (TimeoutError ''Timeout expired''), if started then torn w else w)
      | RaceCancelled started tail \<Rightarrow>
          if settles w then
            (case tail of
               TailSent \<Rightarrow> finish_send data True w
             | TailFailed e \<Rightarrow> fail_send e w
             | TailTimedOut \<Rightarrow>
                 (Inl (OperationCancelledError ''Cancellation timed out completing the current packet''),
                  torn w))
          else (Inl (OperationCancelledError ''Request was cancelled''),
                if started then torn w else w))"

definition next_env :: "packet_writer \<Rightarrow> send_env \<times> packet_writer" where
  "next_env w =
     (case nw_env (pw_net w) of
        [] \<Rightarrow> (calm, w)
      | e # es \<Rightarrow> (e, w\<lparr>pw_net := (pw_net w)\<lparr>nw_env := es\<rparr>\<rparr>))"

text \<open>
  What follows a packet that reached the wire: the reset it carried is noted, an expiry is
  reported after the bytes are accounted for, then the first-packet callback runs and the
  counters advance.
\<close>

definition mark_sent :: "bool \<Rightarrow> bool \<Rightarrow> reset_connection_mode \<Rightarrow> packet_writer \<Rightarrow> packet_writer" where
  "mark_sent is_last is_ignore mode w =
     (let w1 = w\<lparr>pw_send_incomplete := False, pw_message_complete := is_last \<and> \<not> is_ignore\<rparr>
      in if mode \<noteq> ResetNone \<and> \<not> is_ignore
         then w1\<lparr>pw_net := note_reset_dispatched (pw_net w1)\<rparr> else w1)"

definition run_first_packet_callback :: "(packet_writer, unit) action" where
  "run_first_packet_callback w =
     (if pw_is_first_packet w then
        (case first_packet_callback (pw_packet_type w) (pw_net w) of
           (Inl e, n) \<Rightarrow> (Inl e, w\<lparr>pw_net := n\<rparr>)
         | (Inr _, n) \<Rightarrow> (Inr (), w\<lparr>pw_net := n, pw_is_first_packet := False\<rparr>))
      else (Inr (), w))"

definition account_sent ::
  "bool \<Rightarrow> bool \<Rightarrow> reset_connection_mode \<Rightarrow> nat \<Rightarrow> bool \<Rightarrow> bool \<Rightarrow> (packet_writer, unit) action" where
  "account_sent is_last is_ignore mode saved_pos cancelled expired w =
     (let w2 = mark_sent is_last is_ignore mode w
      in if expired \<and> pw_max_timeout_sec w2 \<noteq> None
         then (Inl (TimeoutError ''Timeout expired''), w2)
         else rbind run_first_packet_callback
                (\<lambda>_ w3. (if cancelled then Inl (OperationCancelledError ''Request was cancelled'') else Inr (),
                         w3\<lparr>pw_packet_id := pw_packet_id w3 + 1,
                             pw_eom_pending := \<not> is_last,
                             pw_pos := saved_pos\<rparr>)) w2)"

definition saved_position :: "bool \<Rightarrow> packet_writer \<Rightarrow> nat" where
  "saved_position is_ignore w = (if is_ignore then PACKET_HEADER_SIZE else pw_pos w)"

definition packet_length :: "bool \<Rightarrow> packet_writer \<Rightarrow> nat" where
  "packet_length is_ignore w =
     (if saved_position is_ignore w > pw_packet_size w then pw_packet_size w
      else saved_position is_ignore w)"

definition header_reset_mode :: "packet_writer \<Rightarrow> reset_connection_mode" where
  "header_reset_mode w = (if pw_is_first_packet w then pw_reset_mode w else ResetNone)"

definition populate_header :: "bool \<Rightarrow> bool \<Rightarrow> packet_writer \<Rightarrow> packet_writer" where
  "populate_header is_last is_ignore w =
     w\<lparr>pw_buf := cursor_write (pw_buf w) 0
          (build_header (packet_length is_ignore w) (pw_packet_type w) (pw_packet_id w)
             is_last is_ignore (header_reset_mode w)),
       pw_pos := PACKET_HEADER_SIZE\<rparr>"

definition populate_header_and_send :: "bool \<Rightarrow> bool \<Rightarrow> (packet_writer, unit) action" where
  "populate_header_and_send is_last is_ignore w =
     (if \<not> (is_last \<or> \<not> is_ignore) then (Inl Panic, w)
      else
        let len = packet_length is_ignore w;
            w0 = populate_header is_last is_ignore w;
            (env, w1) = next_env w0
        in if len > length (pw_buf w0) then (Inl Panic, w0)
           else if cancelled_at_start env \<and> pw_cancel_handle w \<noteq> None
           then (Inl (OperationCancelledError ''Request was cancelled''), w1)
           else if expired_at_start env \<and> pw_max_timeout_sec w \<noteq> None
           then (Inl (TimeoutError ''Timeout expired''), w1)
           else rbind (run_race (race env) (take len (pw_buf w0)))
                  (\<lambda>cancelled. account_sent is_last is_ignore (header_reset_mode w)
                     (saved_position is_ignore w) cancelled (expired_at_end env)) w1)"

definition cancel_current_message :: "(packet_writer, unit) action" where
  "cancel_current_message w = populate_header_and_send True True (w\<lparr>pw_reset_mode := ResetNone\<rparr>)"

definition position :: "packet_writer \<Rightarrow> nat" where
  "position w = pw_pos w - PACKET_HEADER_SIZE"

definition has_space :: "packet_writer \<Rightarrow> nat \<Rightarrow> bool" where
  "has_space w n = (position w + n \<le> pw_max_payload_size w)"

definition handle_overflow_if_needed :: "(packet_writer, unit) action" where
  "handle_overflow_if_needed w =
     (if position w \<ge> pw_max_payload_size w then
        rbind (populate_header_and_send False False)
          (\<lambda>_ w'. let overflow_length = pw_pos w' - pw_packet_size w' in
             case copy_within (pw_packet_size w') (pw_packet_size w' + overflow_length)
                    PACKET_HEADER_SIZE (pw_buf w') of
               None \<Rightarrow> (Inl Panic, w')
             | Some buf \<Rightarrow> (Inr (), w'\<lparr>pw_buf := buf, pw_pos := PACKET_HEADER_SIZE + overflow_length\<rparr>)) w
      else (Inr (), w))"

definition finalize :: "(packet_writer, unit) action" where
  "finalize w =
     (if pw_pos w > PACKET_HEADER_SIZE \<or> pw_eom_pending w
      then rbind (populate_header_and_send True False)
             (\<lambda>_ w'. (Inr (), w'\<lparr>pw_pos := PACKET_HEADER_SIZE\<rparr>)) w
      else (Inr (), w))"



section \<open>Writing values\<close>

definition put :: "bytes \<Rightarrow> packet_writer \<Rightarrow> packet_writer" where
  "put bs w = w\<lparr>pw_buf := cursor_write (pw_buf w) (pw_pos w) bs, pw_pos := pw_pos w + length bs\<rparr>"

definition write_byte_async :: "u8 \<Rightarrow> (packet_writer, unit) action" where
  "write_byte_async v w = handle_overflow_if_needed (put [v] w)"

definition write_u16_async :: "u16 \<Rightarrow> (packet_writer, unit) action" where
  "write_u16_async v w = handle_overflow_if_needed (put (to_le_u16 v) w)"

definition write_u32_async :: "u32 \<Rightarrow> (packet_writer, unit) action" where
  "write_u32_async v w = handle_overflow_if_needed (put (to_le_u32 v) w)"

definition write_u64_async :: "u64 \<Rightarrow> (packet_writer, unit) action" where
  "write_u64_async v w = handle_overflow_if_needed (put (to_le_u64 v) w)"

definition write_i16_be_async :: "u16 \<Rightarrow> (packet_writer, unit) action" where
  "write_i16_be_async v w = handle_overflow_if_needed (put (to_be_u16 v) w)"

definition write_i32_be_async :: "u32 \<Rightarrow> (packet_writer, unit) action" where
  "write_i32_be_async v w = handle_overflow_if_needed (put (to_be_u32 v) w)"

text \<open>The unchecked writers only move the cursor; their callers test \<open>has_space\<close> first.\<close>

definition write_byte_unchecked :: "u8 \<Rightarrow> packet_writer \<Rightarrow> packet_writer" where
  "write_byte_unchecked v = put [v]"

definition write_u16_unchecked :: "u16 \<Rightarrow> packet_writer \<Rightarrow> packet_writer" where
  "write_u16_unchecked v = put (to_le_u16 v)"

definition write_i32_unchecked :: "u32 \<Rightarrow> packet_writer \<Rightarrow> packet_writer" where
  "write_i32_unchecked v = put (to_le_u32 v)"

definition write_i64_unchecked :: "u64 \<Rightarrow> packet_writer \<Rightarrow> packet_writer" where
  "write_i64_unchecked v = put (to_le_u64 v)"

definition write_bytes_within_packet :: "bytes \<Rightarrow> packet_writer \<Rightarrow> packet_writer" where
  "write_bytes_within_packet bs = put bs"

primrec write_each :: "bytes \<Rightarrow> (packet_writer, unit) action" where
  "write_each [] = rret ()"
| "write_each (b # bs) = rbind (write_byte_async b) (\<lambda>_. write_each bs)"

definition write_fixed_bytes :: "bytes \<Rightarrow> (packet_writer, unit) action" where
  "write_fixed_bytes bs w =
     (if has_space w (length bs + 1) then (Inr (), put bs w) else write_each bs w)"

definition write_i32_at_index :: "nat \<Rightarrow> u32 \<Rightarrow> packet_writer \<Rightarrow> packet_writer" where
  "write_i32_at_index index v w =
     w\<lparr>pw_buf := cursor_write (pw_buf w) (PACKET_HEADER_SIZE + index) (to_le_u32 v)\<rparr>"

subsection \<open>What a send leaves alone\<close>

text \<open>Each stage changes a known set of fields; the lemmas below give the new writer as an update.\<close>

definition only_sending :: "packet_writer \<Rightarrow> packet_writer \<Rightarrow> bool" where
  "only_sending w w' \<longleftrightarrow>
     w' = w\<lparr>pw_send_attempted := pw_send_attempted w', pw_send_incomplete := pw_send_incomplete w',
            pw_net := pw_net w'\<rparr>"

lemma only_sending_fields:
  assumes "only_sending w w'"
  shows "pw_max_payload_size w' = pw_max_payload_size w" and "pw_packet_size w' = pw_packet_size w"
    and "pw_buf w' = pw_buf w" and "pw_pos w' = pw_pos w" and "pw_packet_type w' = pw_packet_type w"
    and "pw_reset_mode w' = pw_reset_mode w" and "pw_is_first_packet w' = pw_is_first_packet w"
    and "pw_packet_id w' = pw_packet_id w" and "pw_eom_pending w' = pw_eom_pending w"
    and "pw_max_timeout_sec w' = pw_max_timeout_sec w" and "pw_cancel_handle w' = pw_cancel_handle w"
    and "pw_message_complete w' = pw_message_complete w"
  by (subst assms [unfolded only_sending_def], simp)+

lemma only_sending_intros [intro, simp]:
  "only_sending w w" "only_sending w (torn w)" "only_sending w ((polled w)\<lparr>pw_net := n\<rparr>)"
  by (simp_all add: only_sending_def torn_def polled_def)

lemma only_sending_finish: "finish_send data c w = (res, w') \<Longrightarrow> only_sending w w'"
  by (auto simp: finish_send_def split: prod.splits sum.splits)

lemma only_sending_fail: "fail_send e w = (res, w') \<Longrightarrow> only_sending w w'"
  by (auto simp: fail_send_def split: prod.splits)

lemma only_sending_race: "run_race r data w = (res, w') \<Longrightarrow> only_sending w w'"
  unfolding run_race_def
  by (auto split: send_race.splits cancel_tail.splits if_splits
      dest: only_sending_finish only_sending_fail)

lemma finish_send_Inr:
  "finish_send data c w = (Inr d, w') \<longleftrightarrow>
     nw_stream_open (pw_net w) \<and> d = c \<and>
     w' = (polled w)\<lparr>pw_net := (pw_net w)\<lparr>nw_wire := nw_wire (pw_net w) @ [(nw_tls (pw_net w), data)]\<rparr>\<rparr>"
  by (auto simp: finish_send_def send_done_def)

lemma fail_send_Inr [simp]: "fail_send e w \<noteq> (Inr d, w')"
  by (simp add: fail_send_def send_failed_def)

lemma run_race_Inr:
  assumes "run_race r data w = (Inr c, w')"
  shows "nw_stream_open (pw_net w) \<and>
     w' = (polled w)\<lparr>pw_net := (pw_net w)\<lparr>nw_wire := nw_wire (pw_net w) @ [(nw_tls (pw_net w), data)]\<rparr>\<rparr>"
  using assms unfolding run_race_def
  by (auto simp: finish_send_Inr split: send_race.splits cancel_tail.splits if_splits)

lemma mark_sent_fields [simp]:
  "nw_wire (pw_net (mark_sent l i m w)) = nw_wire (pw_net w)"
  "nw_torn (pw_net (mark_sent l i m w)) = nw_torn (pw_net w)"
  "pw_message_complete (mark_sent l i m w) = (l \<and> \<not> i)"
  "pw_send_attempted (mark_sent l i m w) = pw_send_attempted w"
  "pw_is_first_packet (mark_sent l i m w) = pw_is_first_packet w"
  "pw_reset_mode (mark_sent l i m w) = pw_reset_mode w"
  "pw_packet_type (mark_sent l i m w) = pw_packet_type w"
  "nw_tls (pw_net (mark_sent l i m w)) = nw_tls (pw_net w)"
  "nw_encryption (pw_net (mark_sent l i m w)) = nw_encryption (pw_net w)"
  "get_encryption_setting (pw_net (mark_sent l i m w)) = get_encryption_setting (pw_net w)"
  "nw_packet_size (pw_net (mark_sent l i m w)) = nw_packet_size (pw_net w)"
  "nw_pending_reset (pw_net (mark_sent l i m w)) = nw_pending_reset (pw_net w)"
  "nw_reset_dispatched (pw_net (mark_sent l i m w)) \<longleftrightarrow> nw_reset_dispatched (pw_net w) \<or> m \<noteq> ResetNone \<and> \<not> i"
  by (simp_all add: mark_sent_def Let_def note_reset_dispatched_def get_encryption_setting_def)

lemma run_first_packet_callback_Inl:
  assumes "run_first_packet_callback w = (Inl e, w')"
  shows "e \<noteq> Panic \<and> e \<noteq> Diverge"
    and "\<exists>n. w' = w\<lparr>pw_net := n\<rparr> \<and> nw_wire n = nw_wire (pw_net w) \<and> nw_torn n = nw_torn (pw_net w) \<and>
           nw_pending_reset n = nw_pending_reset (pw_net w) \<and> nw_reset_dispatched n = nw_reset_dispatched (pw_net w)"
proof -
  from assms obtain n where n: "first_packet_callback (pw_packet_type w) (pw_net w) = (Inl e, n)" "w' = w\<lparr>pw_net := n\<rparr>"
    by (auto simp: run_first_packet_callback_def split: prod.splits sum.splits if_splits)
  from first_packet_callback_error [OF n(1)] show "e \<noteq> Panic \<and> e \<noteq> Diverge" .
  from first_packet_callback_frame [OF n(1)] n(2)
  show "\<exists>n. w' = w\<lparr>pw_net := n\<rparr> \<and> nw_wire n = nw_wire (pw_net w) \<and> nw_torn n = nw_torn (pw_net w) \<and>
           nw_pending_reset n = nw_pending_reset (pw_net w) \<and> nw_reset_dispatched n = nw_reset_dispatched (pw_net w)"
    by blast
qed

lemma run_first_packet_callback_Inr:
  assumes "run_first_packet_callback w = (Inr (), w')"
  shows "\<exists>n. w' = w\<lparr>pw_net := n, pw_is_first_packet := False\<rparr> \<and> nw_wire n = nw_wire (pw_net w) \<and>
     nw_torn n = nw_torn (pw_net w) \<and> nw_packet_size n = nw_packet_size (pw_net w) \<and>
     nw_pending_reset n = nw_pending_reset (pw_net w) \<and>
     nw_reset_dispatched n = nw_reset_dispatched (pw_net w) \<and> nw_encryption n = nw_encryption (pw_net w) \<and>
     nw_tls n = (nw_tls (pw_net w) \<and>
       \<not> (pw_is_first_packet w \<and> pw_packet_type w = Login7 \<and> get_encryption_setting (pw_net w) = LoginOnly))"
proof (cases "pw_is_first_packet w")
  case True
  with assms obtain n where "first_packet_callback (pw_packet_type w) (pw_net w) = (Inr (), n)"
    and "w' = w\<lparr>pw_net := n, pw_is_first_packet := False\<rparr>"
    by (auto simp: run_first_packet_callback_def split: prod.splits sum.splits)
  with first_packet_callback_frame [of "pw_packet_type w" "pw_net w" "Inr ()" n]
    first_packet_callback_tls [of "pw_packet_type w" "pw_net w" n] True show ?thesis by blast
next
  case False
  with assms show ?thesis
    by (auto simp: run_first_packet_callback_def intro!: exI [of _ "pw_net w"])
qed

lemma account_sent_Inr:
  assumes "account_sent is_last is_ignore mode saved cancelled expired w = (Inr (), w')"
  obtains w3 where "run_first_packet_callback (mark_sent is_last is_ignore mode w) = (Inr (), w3)"
    and "w' = w3\<lparr>pw_packet_id := pw_packet_id w3 + 1, pw_eom_pending := \<not> is_last, pw_pos := saved\<rparr>"
    and "\<not> cancelled"
  using assms unfolding account_sent_def Let_def
  by (auto elim!: rbind_InrE split: if_splits)

lemma next_env_net:
  "next_env w = (e, w') \<Longrightarrow> w' = w\<lparr>pw_net := (pw_net w)\<lparr>nw_env := nw_env (pw_net w')\<rparr>\<rparr>"
  by (auto simp: next_env_def split: list.splits)

lemma populate_InrE:
  assumes "populate_header_and_send is_last is_ignore w = (Inr (), w')"
  obtains env w1 cancelled w2 where
    "is_last \<or> \<not> is_ignore"
    "next_env (populate_header is_last is_ignore w) = (env, w1)"
    "packet_length is_ignore w \<le> length (pw_buf (populate_header is_last is_ignore w))"
    "run_race (race env) (take (packet_length is_ignore w) (pw_buf (populate_header is_last is_ignore w))) w1
       = (Inr cancelled, w2)"
    "account_sent is_last is_ignore (header_reset_mode w) (saved_position is_ignore w)
       cancelled (expired_at_end env) w2 = (Inr (), w')"
  using assms unfolding populate_header_and_send_def Let_def
  by (auto elim!: rbind_InrE split: prod.splits if_splits)

text \<open>A packet that went out: what is on the wire and where the writer stands.\<close>

lemma populate_Inr:
  assumes "populate_header_and_send is_last is_ignore w = (Inr (), w')"
  defines "buf \<equiv> pw_buf (populate_header is_last is_ignore w)"
  shows "nw_wire (pw_net w') =
           nw_wire (pw_net w) @ [(nw_tls (pw_net w), take (packet_length is_ignore w) buf)]"
    and "packet_length is_ignore w \<le> length buf"
    and "\<exists>n. w' = w\<lparr>pw_buf := buf, pw_pos := saved_position is_ignore w, pw_is_first_packet := False,
                pw_packet_id := pw_packet_id w + 1, pw_eom_pending := \<not> is_last,
                pw_send_attempted := True, pw_send_incomplete := False,
                pw_message_complete := is_last \<and> \<not> is_ignore, pw_net := n\<rparr>"
    and "nw_torn (pw_net w') = nw_torn (pw_net w)"
    and "nw_reset_dispatched (pw_net w') =
           (nw_reset_dispatched (pw_net w) \<or> header_reset_mode w \<noteq> ResetNone \<and> \<not> is_ignore)"
    and "nw_pending_reset (pw_net w') = nw_pending_reset (pw_net w)"
    and "nw_packet_size (pw_net w') = nw_packet_size (pw_net w)"
    and "nw_encryption (pw_net w') = nw_encryption (pw_net w)"
    and "nw_tls (pw_net w') = (nw_tls (pw_net w) \<and>
       \<not> (pw_is_first_packet w \<and> pw_packet_type w = Login7 \<and> get_encryption_setting (pw_net w) = LoginOnly))"
proof -
  let ?w0 = "populate_header is_last is_ignore w"
  let ?data = "take (packet_length is_ignore w) buf"
  from assms(1) obtain env w1 c w2 where
    env: "next_env ?w0 = (env, w1)" and len: "packet_length is_ignore w \<le> length buf" and
    race: "run_race (race env) ?data w1 = (Inr c, w2)" and
    acc: "account_sent is_last is_ignore (header_reset_mode w) (saved_position is_ignore w)
       c (expired_at_end env) w2 = (Inr (), w')"
    unfolding buf_def by (rule populate_InrE)
  obtain es where w1: "w1 = ?w0\<lparr>pw_net := (pw_net w)\<lparr>nw_env := es\<rparr>\<rparr>"
    using next_env_net [OF env] by (auto simp: populate_header_def)
  note w2 = run_race_Inr [OF race, THEN conjunct2, unfolded w1]
  from acc obtain w3 where cb: "run_first_packet_callback (mark_sent is_last is_ignore (header_reset_mode w) w2) = (Inr (), w3)"
    and w': "w' = w3\<lparr>pw_packet_id := pw_packet_id w3 + 1, pw_eom_pending := \<not> is_last,
                      pw_pos := saved_position is_ignore w\<rparr>"
    by (rule account_sent_Inr)
  from run_first_packet_callback_Inr [OF cb] obtain n where
    w3: "w3 = (mark_sent is_last is_ignore (header_reset_mode w) w2)\<lparr>pw_net := n, pw_is_first_packet := False\<rparr>"
    and fr: "nw_wire n = nw_wire (pw_net w2)" "nw_torn n = nw_torn (pw_net w2)"
      "nw_packet_size n = nw_packet_size (pw_net w2)" "nw_pending_reset n = nw_pending_reset (pw_net w2)"
      "nw_reset_dispatched n = (nw_reset_dispatched (pw_net w2) \<or> header_reset_mode w \<noteq> ResetNone \<and> \<not> is_ignore)"
      "nw_encryption n = nw_encryption (pw_net w2)" "nw_tls n = (nw_tls (pw_net w2) \<and>
       \<not> (pw_is_first_packet w2 \<and> pw_packet_type w2 = Login7 \<and> get_encryption_setting (pw_net w2) = LoginOnly))"
    unfolding mark_sent_fields by blast
  show "nw_wire (pw_net w') = nw_wire (pw_net w) @ [(nw_tls (pw_net w), ?data)]"
    "nw_torn (pw_net w') = nw_torn (pw_net w)" "nw_pending_reset (pw_net w') = nw_pending_reset (pw_net w)"
    "nw_packet_size (pw_net w') = nw_packet_size (pw_net w)"
    "nw_reset_dispatched (pw_net w') =
       (nw_reset_dispatched (pw_net w) \<or> header_reset_mode w \<noteq> ResetNone \<and> \<not> is_ignore)"
    "nw_encryption (pw_net w') = nw_encryption (pw_net w)"
    "nw_tls (pw_net w') = (nw_tls (pw_net w) \<and>
       \<not> (pw_is_first_packet w \<and> pw_packet_type w = Login7 \<and> get_encryption_setting (pw_net w) = LoginOnly))"
    using fr by (simp_all add: w' w3 w2 polled_def populate_header_def get_encryption_setting_def)
  show "packet_length is_ignore w \<le> length buf" by (rule len)
  show "\<exists>n. w' = w\<lparr>pw_buf := buf, pw_pos := saved_position is_ignore w, pw_is_first_packet := False,
                pw_packet_id := pw_packet_id w + 1, pw_eom_pending := \<not> is_last,
                pw_send_attempted := True, pw_send_incomplete := False,
                pw_message_complete := is_last \<and> \<not> is_ignore, pw_net := n\<rparr>"
    by (rule exI [of _ n])
       (simp add: w' w3 w2 buf_def polled_def populate_header_def mark_sent_def Let_def)
qed

text \<open>
  A packet that was not reported as sent: either nothing reached the wire, or the packet did and
  the failure came after it. The flags tell the two apart.
\<close>

lemma run_race_Inl:
  assumes "run_race r data w = (Inl e, w')"
  shows "e \<noteq> Panic \<and> e \<noteq> Diverge" and "nw_wire (pw_net w') = nw_wire (pw_net w)"
    and "pw_message_complete w' = pw_message_complete w"
    and "nw_torn (pw_net w') \<Longrightarrow> nw_torn (pw_net w) \<or> pw_send_incomplete w'"
    and "pw_send_attempted w' \<or> w' = w"
    and "nw_pending_reset (pw_net w') = nw_pending_reset (pw_net w)"
    and "nw_reset_dispatched (pw_net w') = nw_reset_dispatched (pw_net w)"
    and "pw_reset_mode w' = pw_reset_mode w"
  using assms
  by (auto simp: run_race_def finish_send_def fail_send_def send_done_def send_failed_def torn_def polled_def
      split: send_race.splits cancel_tail.splits if_splits)

lemma account_sent_Inl:
  assumes "account_sent is_last is_ignore mode saved cancelled expired w = (Inl e, w')"
  shows "(e \<noteq> Panic \<and> e \<noteq> Diverge) \<and> nw_wire (pw_net w') = nw_wire (pw_net w) \<and>
         pw_message_complete w' = (is_last \<and> \<not> is_ignore) \<and> nw_torn (pw_net w') = nw_torn (pw_net w) \<and>
         pw_send_attempted w' = pw_send_attempted w \<and> nw_pending_reset (pw_net w') = nw_pending_reset (pw_net w) \<and>
         nw_reset_dispatched (pw_net w') = (nw_reset_dispatched (pw_net w) \<or> mode \<noteq> ResetNone \<and> \<not> is_ignore) \<and>
         pw_reset_mode w' = pw_reset_mode w"
proof -
  define w2 where "w2 = mark_sent is_last is_ignore mode w"
  have fr: "nw_wire (pw_net w2) = nw_wire (pw_net w)" "nw_torn (pw_net w2) = nw_torn (pw_net w)"
    "pw_message_complete w2 = (is_last \<and> \<not> is_ignore)" "pw_send_attempted w2 = pw_send_attempted w"
    "nw_pending_reset (pw_net w2) = nw_pending_reset (pw_net w)"
    "nw_reset_dispatched (pw_net w2) = (nw_reset_dispatched (pw_net w) \<or> mode \<noteq> ResetNone \<and> \<not> is_ignore)"
    "pw_reset_mode w2 = pw_reset_mode w"
    by (simp_all add: w2_def)
  note unfold = assms [unfolded account_sent_def Let_def, folded w2_def]
  show ?thesis
  proof (cases "expired \<and> pw_max_timeout_sec w2 \<noteq> None")
    case True
    with unfold fr show ?thesis by auto
  next
    case False
    then have unfold': "rbind run_first_packet_callback (\<lambda>_ w3.
        (if cancelled then Inl (OperationCancelledError ''Request was cancelled'') else Inr (),
         w3\<lparr>pw_packet_id := pw_packet_id w3 + 1, pw_eom_pending := \<not> is_last, pw_pos := saved\<rparr>)) w2 = (Inl e, w')"
      using unfold by (simp only: if_False)
    obtain r w3 where cb: "run_first_packet_callback w2 = (r, w3)" by (cases "run_first_packet_callback w2")
    show ?thesis
    proof (cases r)
      case (Inl x)
      with cb unfold' have "x = e" "w3 = w'" by simp_all
      note cb' = cb [unfolded Inl \<open>x = e\<close> \<open>w3 = w'\<close>]
      from run_first_packet_callback_Inl(2) [OF cb'] obtain n where "w' = w2\<lparr>pw_net := n\<rparr>"
        "nw_wire n = nw_wire (pw_net w2)" "nw_torn n = nw_torn (pw_net w2)"
        "nw_pending_reset n = nw_pending_reset (pw_net w2)" "nw_reset_dispatched n = nw_reset_dispatched (pw_net w2)"
        by blast
      with run_first_packet_callback_Inl(1) [OF cb'] fr show ?thesis by simp
    next
      case (Inr u)
      with cb unfold' have "e = OperationCancelledError ''Request was cancelled''"
        "w' = w3\<lparr>pw_packet_id := pw_packet_id w3 + 1, pw_eom_pending := \<not> is_last, pw_pos := saved\<rparr>"
        by (simp_all split: if_splits)
      moreover from cb Inr have "run_first_packet_callback w2 = (Inr (), w3)" by simp
      moreover from run_first_packet_callback_Inr [OF this] obtain n where
        "w3 = w2\<lparr>pw_net := n, pw_is_first_packet := False\<rparr>"
        "nw_wire n = nw_wire (pw_net w2)" "nw_torn n = nw_torn (pw_net w2)"
        "nw_pending_reset n = nw_pending_reset (pw_net w2)" "nw_reset_dispatched n = nw_reset_dispatched (pw_net w2)"
        by blast
      ultimately show ?thesis using fr by simp
    qed
  qed
qed

lemma populate_Inl:
  assumes "populate_header_and_send is_last is_ignore w = (Inl e, w')" and "is_last \<or> \<not> is_ignore"
  defines "buf \<equiv> pw_buf (populate_header is_last is_ignore w)"
  assumes len: "packet_length is_ignore w \<le> length buf"
  shows "e \<noteq> Panic \<and> e \<noteq> Diverge"
    and "nw_wire (pw_net w') = nw_wire (pw_net w) \<and> pw_message_complete w' = pw_message_complete w \<and>
           (nw_torn (pw_net w') \<longrightarrow> nw_torn (pw_net w) \<or> pw_send_incomplete w') \<and>
           (pw_send_attempted w' \<or>
              pw_send_attempted w' = pw_send_attempted w \<and> nw_torn (pw_net w') = nw_torn (pw_net w)) \<and>
           nw_reset_dispatched (pw_net w') = nw_reset_dispatched (pw_net w) \<or>
         nw_wire (pw_net w') = nw_wire (pw_net w) @ [(nw_tls (pw_net w), take (packet_length is_ignore w) buf)] \<and>
           pw_message_complete w' = (is_last \<and> \<not> is_ignore) \<and> nw_torn (pw_net w') = nw_torn (pw_net w) \<and>
           pw_send_attempted w' \<and>
           nw_reset_dispatched (pw_net w') =
             (nw_reset_dispatched (pw_net w) \<or> header_reset_mode w \<noteq> ResetNone \<and> \<not> is_ignore)"
    and "nw_pending_reset (pw_net w') = nw_pending_reset (pw_net w) \<and> pw_reset_mode w' = pw_reset_mode w"
proof -
  let ?w0 = "populate_header is_last is_ignore w"
  let ?data = "take (packet_length is_ignore w) buf"
  obtain env w1 where env: "next_env ?w0 = (env, w1)" by (cases "next_env ?w0")
  obtain es where w1: "w1 = ?w0\<lparr>pw_net := (pw_net w)\<lparr>nw_env := es\<rparr>\<rparr>"
    using next_env_net [OF env] by (auto simp: populate_header_def)
  have f1: "nw_wire (pw_net w1) = nw_wire (pw_net w)" "nw_torn (pw_net w1) = nw_torn (pw_net w)"
    "nw_tls (pw_net w1) = nw_tls (pw_net w)" "pw_message_complete w1 = pw_message_complete w"
    "pw_send_attempted w1 = pw_send_attempted w" "nw_pending_reset (pw_net w1) = nw_pending_reset (pw_net w)"
    "nw_reset_dispatched (pw_net w1) = nw_reset_dispatched (pw_net w)"
    "pw_reset_mode w1 = pw_reset_mode w" by (simp_all add: w1 populate_header_def)
  consider (early) "e \<noteq> Panic \<and> e \<noteq> Diverge" "w' = w1"
    | (race) "run_race (race env) ?data w1 = (Inl e, w')"
    | (after) c w2 where "run_race (race env) ?data w1 = (Inr c, w2)"
        "account_sent is_last is_ignore (header_reset_mode w) (saved_position is_ignore w)
           c (expired_at_end env) w2 = (Inl e, w')"
    using assms(1,2) len unfolding populate_header_and_send_def Let_def env buf_def
    by (auto simp: rbind_def split: if_splits prod.splits sum.splits)
  note cases = this
  show "e \<noteq> Panic \<and> e \<noteq> Diverge"
    by (rule cases) (auto dest: run_race_Inl(1) account_sent_Inl)
  show "nw_pending_reset (pw_net w') = nw_pending_reset (pw_net w) \<and> pw_reset_mode w' = pw_reset_mode w"
  proof (rule cases)
    fix c w2 assume r: "run_race (race env) ?data w1 = (Inr c, w2)"
      and a: "account_sent is_last is_ignore (header_reset_mode w) (saved_position is_ignore w)
           c (expired_at_end env) w2 = (Inl e, w')"
    from run_race_Inr [OF r] account_sent_Inl [OF a] f1 show ?thesis by (simp add: polled_def)
  qed (use f1 in \<open>auto dest: run_race_Inl(6,8)\<close>)
  show "nw_wire (pw_net w') = nw_wire (pw_net w) \<and> pw_message_complete w' = pw_message_complete w \<and>
           (nw_torn (pw_net w') \<longrightarrow> nw_torn (pw_net w) \<or> pw_send_incomplete w') \<and>
           (pw_send_attempted w' \<or>
              pw_send_attempted w' = pw_send_attempted w \<and> nw_torn (pw_net w') = nw_torn (pw_net w)) \<and>
           nw_reset_dispatched (pw_net w') = nw_reset_dispatched (pw_net w) \<or>
         nw_wire (pw_net w') = nw_wire (pw_net w) @ [(nw_tls (pw_net w), ?data)] \<and>
           pw_message_complete w' = (is_last \<and> \<not> is_ignore) \<and> nw_torn (pw_net w') = nw_torn (pw_net w) \<and>
           pw_send_attempted w' \<and>
           nw_reset_dispatched (pw_net w') =
             (nw_reset_dispatched (pw_net w) \<or> header_reset_mode w \<noteq> ResetNone \<and> \<not> is_ignore)"
  proof (rule cases)
    fix c w2 assume r: "run_race (race env) ?data w1 = (Inr c, w2)"
      and a: "account_sent is_last is_ignore (header_reset_mode w) (saved_position is_ignore w)
           c (expired_at_end env) w2 = (Inl e, w')"
    from run_race_Inr [OF r] account_sent_Inl [OF a] f1 show ?thesis by (simp add: polled_def)
  next
    assume r: "run_race (race env) ?data w1 = (Inl e, w')"
    from run_race_Inl(2-5,7) [OF r] f1 show ?thesis by auto
  qed (use f1 in auto)
qed

text \<open>
  A healthy connection: no cancellation, deadline or failure is waiting in the environment, and
  the TLS layer a login-only encryption drops after the first packet is there to be dropped.
\<close>

definition healthy :: "packet_writer \<Rightarrow> bool" where
  "healthy w \<longleftrightarrow>
     nw_env (pw_net w) = [] \<and> nw_stream_open (pw_net w) \<and>
     (pw_is_first_packet w \<and> pw_packet_type w = Login7 \<and> get_encryption_setting (pw_net w) = LoginOnly \<longrightarrow>
        nw_extractable (pw_net w))"

lemma callback_healthy:
  assumes "healthy w"
  shows "\<exists>w'. run_first_packet_callback w = (Inr (), w') \<and> healthy w'"
proof (cases "pw_is_first_packet w")
  case True
  then have "\<exists>n. first_packet_callback (pw_packet_type w) (pw_net w) = (Inr (), n) \<and>
      nw_env n = [] \<and> nw_stream_open n"
    using assms by (cases "pw_packet_type w") (auto simp: first_packet_callback_def healthy_def disable_ssl_def)
  with True show ?thesis by (auto simp: run_first_packet_callback_def healthy_def)
qed (use assms in \<open>simp add: run_first_packet_callback_def\<close>)

lemma populate_healthy:
  assumes "healthy w" and "is_last \<or> \<not> is_ignore"
    and "packet_length is_ignore w \<le> length (pw_buf (populate_header is_last is_ignore w))"
  shows "\<exists>w'. populate_header_and_send is_last is_ignore w = (Inr (), w') \<and> healthy w'"
proof -
  let ?w0 = "populate_header is_last is_ignore w"
  let ?data = "take (packet_length is_ignore w) (pw_buf ?w0)"
  let ?w2 = "(polled ?w0)\<lparr>pw_net := (pw_net w)\<lparr>nw_wire := nw_wire (pw_net w) @ [(nw_tls (pw_net w), ?data)]\<rparr>\<rparr>"
  have net: "pw_net ?w0 = pw_net w" by (simp add: populate_header_def)
  have env: "next_env ?w0 = (calm, ?w0)" using assms(1) by (simp add: next_env_def net healthy_def)
  have race: "run_race (race calm) ?data ?w0 = (Inr False, ?w2)"
    using assms(1) by (simp add: run_race_def calm_def armed_race_def finish_send_def send_done_def net healthy_def)
  have "healthy (mark_sent is_last is_ignore (header_reset_mode w) ?w2)"
    using assms(1)
    by (simp add: healthy_def mark_sent_def Let_def polled_def populate_header_def note_reset_dispatched_def
        get_encryption_setting_def)
  from callback_healthy [OF this]
  have "\<exists>w'. account_sent is_last is_ignore (header_reset_mode w) (saved_position is_ignore w) False
          (expired_at_end calm) ?w2 = (Inr (), w') \<and> healthy w'"
    by (auto simp: account_sent_def Let_def calm_def healthy_def)
  moreover have "populate_header_and_send is_last is_ignore w =
      rbind (run_race (race calm) ?data) (\<lambda>cancelled. account_sent is_last is_ignore (header_reset_mode w)
        (saved_position is_ignore w) cancelled (expired_at_end calm)) ?w0"
    using env assms(2,3) by (auto simp: populate_header_and_send_def Let_def) (simp_all add: calm_def)
  ultimately show ?thesis by (simp add: rbind_def race)
qed

lemma populate_max_payload_size:
  assumes "populate_header_and_send is_last is_ignore w = (Inr (), w')"
  shows "pw_max_payload_size w' = pw_max_payload_size w"
  using populate_Inr(3) [OF assms] by auto



section \<open>Runs of bytes and strings\<close>

function write_loop :: "bytes \<Rightarrow> (packet_writer, unit) action" where
  "write_loop remaining w =
     (if remaining = [] then (Inr (), w)
      else if position w > pw_max_payload_size w then (Inl Panic, w)
      else
        let space = pw_max_payload_size w - position w in
        if space < length remaining then
          (if pw_max_payload_size w = 0 then (Inl Diverge, w)
           else rbind (populate_header_and_send False False)
                  (\<lambda>_ w'. write_loop (drop space remaining) (w'\<lparr>pw_pos := PACKET_HEADER_SIZE\<rparr>))
                  (put (take space remaining) w))
        else (Inr (), put remaining w))"
  by pat_completeness auto
termination
proof (relation "measures [\<lambda>(remaining, w). length remaining,
    \<lambda>(remaining, w). if pw_max_payload_size w = position w then 1 else 0]", goal_cases)
  case 1 show ?case by simp
next
  case (2 remaining w space a w')
  then show ?case
    by (cases "pw_max_payload_size w = position w")
       (auto simp: position_def put_def dest!: populate_max_payload_size)
qed

declare write_loop.simps [simp del]

definition write_async :: "bytes \<Rightarrow> (packet_writer, unit) action" where
  "write_async content = write_loop content"

abbreviation STAGE_UNITS :: nat where "STAGE_UNITS \<equiv> 256"

function write_le_loop ::
  "nat \<Rightarrow> nat \<Rightarrow> utf16_units \<Rightarrow> packet_writer \<Rightarrow> (nat \<times> utf16_units \<times> packet_writer) option" where
  "write_le_loop max_units written u w =
     (if \<not> written < max_units then Some (written, u, w)
      else
        let room = min (max_units - written) STAGE_UNITS in
        (case stage_le room u of
           None \<Rightarrow> None
         | Some (staged_bytes, u') \<Rightarrow>
             let staged = length staged_bytes div 2 in
             if staged = 0 then Some (written, u', w)
             else if staged < room then Some (written + staged, u', put staged_bytes w)
             else write_le_loop max_units (written + staged) u' (put staged_bytes w)))"
  by pat_completeness auto
termination by (relation "measure (\<lambda>(max_units, written, u, w). max_units - written)") auto

declare write_le_loop.simps [simp del]

definition write_le :: "nat \<Rightarrow> utf16_units \<Rightarrow> packet_writer \<Rightarrow> (nat \<times> utf16_units \<times> packet_writer) option" where
  "write_le max_units u w = write_le_loop max_units 0 u w"

lemma put_put: "put ys (put xs w) = put (xs @ ys) w"
  by (cases "pw_pos w \<le> length (pw_buf w)")
     (simp_all add: put_def cursor_write_def overwrite_def add.assoc min_absorb1 min_absorb2 add.commute add.left_commute)

lemma write_le_loop_units:
  assumes "valid_string (uu_rest u)" and "written \<le> max_units"
  defines "n \<equiv> max_units - written"
  shows "\<exists>u'. write_le_loop max_units written u w =
           Some (written + min n (length (all_units u)), u',
                 if n = 0 \<or> all_units u = [] then w else put (units_le (take n (all_units u))) w) \<and>
         all_units u' = drop n (all_units u) \<and> valid_string (uu_rest u')"
  using assms(1,2) unfolding n_def
proof (induction max_units written u w rule: write_le_loop.induct)
  case (1 max_units written u w)
  define n where "n = max_units - written"
  show ?case
  proof (cases "written < max_units")
    case False
    with "1.prems" show ?thesis by (subst write_le_loop.simps) simp
  next
    case True
    define room where "room = min n STAGE_UNITS"
    have room: "room > 0" "room \<le> n" using True by (simp_all add: room_def n_def)
    from stage_le_units [OF "1.prems"(1), of room] obtain u1 where
      st: "stage_le room u = Some (units_le (take room (all_units u)), u1)"
        "all_units u1 = drop room (all_units u)" "valid_string (uu_rest u1)" by blast
    let ?k = "min room (length (all_units u))"
    have step: "write_le_loop max_units written u w =
        (if ?k = 0 then Some (written, u1, w)
         else if ?k < room then Some (written + ?k, u1, put (units_le (take room (all_units u))) w)
         else write_le_loop max_units (written + ?k) u1 (put (units_le (take room (all_units u))) w))"
      using True by (subst write_le_loop.simps) (simp add: st(1) Let_def flip: n_def room_def)
    show ?thesis
    proof (cases "length (all_units u) < room")
      case short: True
      then have "take n (all_units u) = all_units u" "take room (all_units u) = all_units u"
        using room by simp_all
      with short room st(2,3) show ?thesis
        unfolding n_def [symmetric] step by (simp add: min_def)
    next
      case False
      then have k: "?k = room" and ne: "all_units u \<noteq> []" using room by auto
      have "written + room \<le> max_units" using room True by (simp add: n_def)
      moreover have "length (units_le (take room (all_units u))) div 2 = room" using k by simp
      ultimately obtain u' where IH: "write_le_loop max_units (written + room) u1 (put (units_le (take room (all_units u))) w) =
          Some (written + room + min (max_units - (written + room)) (length (all_units u1)), u',
            if max_units - (written + room) = 0 \<or> all_units u1 = [] then put (units_le (take room (all_units u))) w
            else put (units_le (take (max_units - (written + room)) (all_units u1))) (put (units_le (take room (all_units u))) w))"
        "all_units u' = drop (max_units - (written + room)) (all_units u1)" "valid_string (uu_rest u')"
        using "1.IH" [OF _ room_def [unfolded n_def] st(1) refl refl] True room st(3) by auto
      have n2: "max_units - (written + room) = n - room" by (simp add: n_def)
      have tk: "take n (all_units u) = take room (all_units u) @ take (n - room) (drop room (all_units u))"
        using room by (metis le_add_diff_inverse take_add)
      show ?thesis
        using IH k ne room False unfolding n_def [symmetric] step n2 st(2)
        by (auto simp: put_put tk min_def)
    qed
  qed
qed

lemma write_le_units:
  assumes "valid_string (uu_rest u)"
  shows "\<exists>u'. write_le n u w = Some (min n (length (all_units u)), u',
                 if n = 0 \<or> all_units u = [] then w else put (units_le (take n (all_units u))) w) \<and>
         all_units u' = drop n (all_units u) \<and> valid_string (uu_rest u')"
  using write_le_loop_units [OF assms le0, of n w] unfolding write_le_def by (simp only: minus_nat.diff_0 add_0)


text \<open>
  \<^verbatim>\<open>write_string_unicode_async\<close>. A packet boundary may split a surrogate pair, or a code unit at
  an odd boundary. With no room for a payload the loop would flush empty packets forever.
\<close>

function write_string_loop :: "utf16_units \<Rightarrow> (packet_writer, unit) action" where
  "write_string_loop u w =
     (if \<not> valid_string (uu_rest u) \<or> position w > pw_max_payload_size w then (Inl Panic, w)
      else
        let space = pw_max_payload_size w - position w; avail = space div 2 in
        if avail = 0 then
          (if space = 1 then
             (case next_unit u of
                (None, _) \<Rightarrow> (Inr (), w)
              | (Some unit, u') \<Rightarrow>
                  rbind (write_byte_async (hd (to_le_u16 unit)))
                    (\<lambda>_. rbind (write_byte_async (last (to_le_u16 unit)))
                      (\<lambda>_. write_string_loop u')) w)
           else if pw_max_payload_size w = 0 then (Inl Diverge, w)
           else rbind (populate_header_and_send False False)
                  (\<lambda>_ w'. write_string_loop u (w'\<lparr>pw_pos := PACKET_HEADER_SIZE\<rparr>)) w)
        else
          (case write_le avail u w of
             None \<Rightarrow> (Inl Panic, w)
           | Some (n, u', w') \<Rightarrow>
               rbind (if n > 0 then handle_overflow_if_needed else rret ())
                 (\<lambda>_ w''. if n < avail then (Inr (), w'') else write_string_loop u' w'') w'))"
  by pat_completeness auto
termination
proof (relation "measures [\<lambda>(u, w). length (all_units u),
    \<lambda>(u, w). if pw_max_payload_size w = position w then 1 else 0]", goal_cases)
  case 1 show ?case by simp
next
  case (2 u w space avail x y unit)
  then show ?case using next_unit_units(2) [of u unit y] by auto
next
  case (3 u w space avail a w')
  then show ?case by (auto simp: position_def dest!: populate_max_payload_size)
next
  case (4 u w space avail p n q u' w' a w'')
  then have v: "valid_string (uu_rest u)" by simp
  from write_le_units [OF v, of avail w] 4 have "n = min avail (length (all_units u))"
    and u': "all_units u' = drop avail (all_units u)" by auto
  moreover from 4 have "\<not> n < avail" and "avail > 0" by simp_all
  ultimately have "avail \<le> length (all_units u)" by (simp add: min_def split: if_splits)
  with \<open>avail > 0\<close> have "length (all_units u') < length (all_units u)" by (simp add: u')
  then show ?case by simp
qed

declare write_string_loop.simps [simp del]

definition write_string_unicode_async :: "rstring \<Rightarrow> (packet_writer, unit) action" where
  "write_string_unicode_async s = write_string_loop (uu_new s)"

end
