(* ===== verification/Writer_Messages.thy ===== *)
theory Writer_Messages
  imports Packet_Writer "HOL-Library.Sublist"
begin

text \<open>
  The contract of \<^verbatim>\<open>PacketWriter\<close> for a whole message. The packets on the wire are described by
  \<open>mk_packet\<close> and \<open>data_packets\<close>; \<open>pw_open\<close> abstracts a writer to the bytes written so far and
  \<open>pw_out\<close> gives the outcome of an operation in any environment. Every operation is shown to
  append its bytes, so a client of the writer only deals with a sequence of bytes.
\<close>

section \<open>What a message on the wire looks like\<close>

definition mk_packet ::
  "packet_type \<Rightarrow> reset_connection_mode \<Rightarrow> nat \<Rightarrow> bool \<Rightarrow> bool \<Rightarrow> bytes \<Rightarrow> bytes" where
  "mk_packet ty mode i is_last is_ignore payload =
     build_header (PACKET_HEADER_SIZE + length payload) ty (word_of_nat (Suc i)) is_last is_ignore
       (if i = 0 then mode else ResetNone) @ payload"

text \<open>The packets of a message before its last one: numbered from 1, the reset on the first.\<close>

definition data_packets :: "packet_type \<Rightarrow> reset_connection_mode \<Rightarrow> bytes list \<Rightarrow> bytes list" where
  "data_packets ty mode chunks =
     map (\<lambda>(i, c). mk_packet ty mode i False False c) (enumerate 0 chunks)"

definition full_message :: "packet_type \<Rightarrow> reset_connection_mode \<Rightarrow> bytes list \<Rightarrow> bytes \<Rightarrow> bytes list" where
  "full_message ty mode chunks rest =
     data_packets ty mode chunks @ [mk_packet ty mode (length chunks) True False rest]"

lemma length_build_header [simp]: "length (build_header len ty i l ig m) = 8"
  by (simp add: build_header_def Let_def codec_simps)

lemma drop_mk_packet [simp]: "drop 8 (mk_packet ty mode i l ig c) = c"
  by (simp add: mk_packet_def)

lemma length_mk_packet [simp]: "length (mk_packet ty mode i l ig c) = 8 + length c"
  by (simp add: mk_packet_def)

lemma data_packets_append:
  "data_packets ty mode (cs @ [c]) = data_packets ty mode cs @ [mk_packet ty mode (length cs) False False c]"
  by (simp add: data_packets_def enumerate_append_eq)

lemma data_packets_Nil [simp]: "data_packets ty mode [] = []"
  by (simp add: data_packets_def)

lemma length_data_packets [simp]: "length (data_packets ty mode cs) = length cs"
  by (simp add: data_packets_def)

lemma payload_data_packets [simp]: "map (drop 8) (data_packets ty mode cs) = cs"
  by (induction cs rule: rev_induct) (simp_all add: data_packets_append)

definition buffered :: "packet_writer \<Rightarrow> bytes" where
  "buffered w = seg PACKET_HEADER_SIZE (pw_pos w) (pw_buf w)"

text \<open>
  A message in the making: its type and reset request, the packet size, and the connection as
  the message found it. A packet goes through TLS if the connection has TLS, except that a login
  message under login-only encryption leaves TLS after its first packet.
\<close>

record message_spec =
  ms_type :: packet_type
  ms_reset :: reset_connection_mode
  ms_size :: nat
  ms_before :: "(bool \<times> bytes) list"
  ms_tls :: bool
  ms_encryption :: "negotiated_encryption option"
  ms_pending :: reset_connection_mode
  ms_dispatched :: bool

definition login_only :: "message_spec \<Rightarrow> bool" where
  "login_only m \<longleftrightarrow> ms_type m = Login7 \<and> ms_encryption m = Some LoginOnly"

definition tls_at :: "message_spec \<Rightarrow> nat \<Rightarrow> bool" where
  "tls_at m i \<longleftrightarrow> ms_tls m \<and> \<not> (0 < i \<and> login_only m)"

definition tagged :: "message_spec \<Rightarrow> bytes list \<Rightarrow> (bool \<times> bytes) list" where
  "tagged m ps = map (\<lambda>(i, p). (tls_at m i, p)) (enumerate 0 ps)"

lemma tagged_Nil [simp]: "tagged m [] = []"
  by (simp add: tagged_def)

lemma tagged_snoc: "tagged m (ps @ [p]) = tagged m ps @ [(tls_at m (length ps), p)]"
  by (simp add: tagged_def enumerate_append_eq)

lemma map_snd_tagged [simp]: "map snd (tagged m ps) = ps"
  by (induction ps rule: rev_induct) (simp_all add: tagged_snoc)

text \<open>
  \<open>pw_rep m chunks w\<close>: of the message \<open>m\<close> the writer has flushed the full \<open>chunks\<close>, and the flags
  of the writer and the connection say so.
\<close>

definition pw_rep :: "message_spec \<Rightarrow> bytes list \<Rightarrow> packet_writer \<Rightarrow> bool" where
  "pw_rep m chunks w \<longleftrightarrow>
     pw_packet_type w = ms_type m \<and> pw_reset_mode w = ms_reset m \<and>
     pw_packet_size w = ms_size m \<and> pw_max_payload_size w = ms_size m - 8 \<and>
     16 < ms_size m \<and> ms_size m < 65536 \<and>
     nw_wire (pw_net w) = ms_before m @ tagged m (data_packets (ms_type m) (ms_reset m) chunks) \<and>
     nw_tls (pw_net w) = tls_at m (length chunks) \<and> nw_encryption (pw_net w) = ms_encryption m \<and>
     nw_pending_reset (pw_net w) = ms_pending m \<and>
     nw_reset_dispatched (pw_net w) = (ms_dispatched m \<or> chunks \<noteq> [] \<and> ms_reset m \<noteq> ResetNone) \<and>
     (\<forall>c \<in> set chunks. length c = ms_size m - 8) \<and>
     pw_is_first_packet w = (chunks = []) \<and>
     pw_packet_id w = word_of_nat (Suc (length chunks)) \<and>
     pw_eom_pending w = (chunks \<noteq> []) \<and> pw_send_attempted w = (chunks \<noteq> []) \<and>
     \<not> pw_message_complete w \<and> \<not> pw_send_incomplete w \<and> \<not> nw_torn (pw_net w) \<and>
     8 \<le> pw_pos w \<and> (pw_pos w = 8 \<or> pw_pos w \<le> length (pw_buf w))"

lemma drop_cursor_write_header: "length h = n \<Longrightarrow> drop n (cursor_write buf 0 h) = drop n buf"
  by (simp add: cursor_write_def overwrite_def)

lemma take_cursor_write_header:
  "length h = n \<Longrightarrow> n \<le> k \<Longrightarrow> take k (cursor_write buf 0 h) = h @ seg n k buf"
  by (simp add: cursor_write_def overwrite_def seg_def)

lemma buffered_put:
  assumes "8 \<le> pw_pos w" and "pw_pos w = 8 \<or> pw_pos w \<le> length (pw_buf w)"
  shows "buffered (put bs w) = buffered w @ bs"
  using assms
  by (cases "pw_pos w \<le> length (pw_buf w)")
     (auto simp: buffered_def put_def seg_def cursor_write_def overwrite_def drop_take)

lemma pw_rep_put:
  assumes "pw_rep m chunks w"
  shows "pw_rep m chunks (put bs w) \<and> buffered (put bs w) = buffered w @ bs"
  using assms buffered_put [of w bs] by (auto simp: pw_rep_def put_def)

text \<open>In every state of an open message the header fits and the next packet is determined.\<close>

lemma packet_length_le: "packet_length False w \<le> pw_pos w" "packet_length False w \<le> pw_packet_size w"
  by (auto simp: packet_length_def saved_position_def)

lemma rep_next_packet:
  fixes l
  assumes rep: "pw_rep m chunks w"
  defines "buf \<equiv> pw_buf (populate_header l False w)"
  shows "packet_length False w \<le> length buf"
    and "take (packet_length False w) buf =
         build_header (packet_length False w) (ms_type m) (word_of_nat (Suc (length chunks))) l False
           (if length chunks = 0 then ms_reset m else ResetNone) @ seg 8 (packet_length False w) (pw_buf w)"
    and "drop 8 buf = drop 8 (pw_buf w)" and "length buf = max 8 (length (pw_buf w))"
proof -
  define h where "h = build_header (packet_length False w) (pw_packet_type w) (pw_packet_id w) l False (header_reset_mode w)"
  have lh: "length h = 8" by (simp add: h_def)
  have b: "buf = cursor_write (pw_buf w) 0 h"
    by (simp add: buf_def populate_header_def h_def)
  show lb: "length buf = max 8 (length (pw_buf w))" by (simp add: b lh)
  have "8 \<le> packet_length False w" using rep by (auto simp: pw_rep_def packet_length_def saved_position_def)
  then have "take (packet_length False w) buf = h @ seg 8 (packet_length False w) (pw_buf w)"
    using lh unfolding b by (rule take_cursor_write_header [rotated])
  then show "take (packet_length False w) buf =
         build_header (packet_length False w) (ms_type m) (word_of_nat (Suc (length chunks))) l False
           (if length chunks = 0 then ms_reset m else ResetNone) @ seg 8 (packet_length False w) (pw_buf w)"
    using rep by (simp add: h_def pw_rep_def header_reset_mode_def)
  show "drop 8 buf = drop 8 (pw_buf w)" using lh by (simp add: b drop_cursor_write_header)
  show "packet_length False w \<le> length buf"
    using rep packet_length_le(1) [of w] by (auto simp: lb pw_rep_def)
qed

section \<open>Outcomes of an operation on an open message\<close>

text \<open>
  \<open>pw_open h m content w\<close>: the message is open and \<open>content\<close> has been written; with \<open>h\<close> the
  connection is healthy. \<open>pw_sent m content w\<close>: a failure left on the wire only full packets
  with a prefix of \<open>content\<close>, the message is not marked complete, a torn write is marked
  incomplete, and if nothing is marked attempted nothing is on the wire.
\<close>

definition pw_open :: "bool \<Rightarrow> message_spec \<Rightarrow> bytes \<Rightarrow> packet_writer \<Rightarrow> bool" where
  "pw_open h m content w \<longleftrightarrow>
     (\<exists>chunks. pw_rep m chunks w \<and> pw_pos w \<le> ms_size m \<and> content = concat chunks @ buffered w) \<and>
     (h \<longrightarrow> healthy w)"

definition pw_sent :: "message_spec \<Rightarrow> bytes \<Rightarrow> packet_writer \<Rightarrow> bool" where
  "pw_sent m content w \<longleftrightarrow>
     (\<exists>chunks. nw_wire (pw_net w) = ms_before m @ tagged m (data_packets (ms_type m) (ms_reset m) chunks) \<and>
        (\<forall>c \<in> set chunks. length c = ms_size m - 8) \<and> prefix (concat chunks) content \<and>
        (\<not> pw_send_attempted w \<longrightarrow> chunks = []) \<and>
        nw_reset_dispatched (pw_net w) = (ms_dispatched m \<or> chunks \<noteq> [] \<and> ms_reset m \<noteq> ResetNone)) \<and>
     nw_pending_reset (pw_net w) = ms_pending m \<and> pw_reset_mode w = ms_reset m \<and>
     \<not> pw_message_complete w \<and> (nw_torn (pw_net w) \<longrightarrow> pw_send_incomplete w \<and> pw_send_attempted w)"

definition pw_out :: "bool \<Rightarrow> message_spec \<Rightarrow> bytes \<Rightarrow> unit tds_result \<times> packet_writer \<Rightarrow> bool" where
  "pw_out h m content rw \<longleftrightarrow>
     (case fst rw of
        Inr _ \<Rightarrow> pw_open h m content (snd rw)
      | Inl e \<Rightarrow> \<not> h \<and> e \<noteq> Panic \<and> e \<noteq> Diverge \<and> pw_sent m content (snd rw))"

lemma pw_sent_mono: "pw_sent m c w \<Longrightarrow> pw_sent m (c @ d) w"
  by (auto simp: pw_sent_def)

lemma pw_out_Inr [simp]: "pw_out h m c (Inr u, w) = pw_open h m c w"
  by (simp add: pw_out_def)

lemma pw_out_Inl [simp]: "pw_out h m c (Inl e, w) = (\<not> h \<and> e \<noteq> Panic \<and> e \<noteq> Diverge \<and> pw_sent m c w)"
  by (simp add: pw_out_def)

text \<open>The sequencing rule that every multi-step writer is proved with.\<close>

lemma pw_out_rbind:
  assumes "pw_out h m c (f w)" and "\<And>u w'. f w = (Inr u, w') \<Longrightarrow> pw_open h m c w' \<Longrightarrow> pw_out h m (c @ d) (k u w')"
  shows "pw_out h m (c @ d) (rbind f k w)"
proof (cases "f w")
  case (Pair r w')
  with assms show ?thesis by (cases r) (auto simp: rbind_def intro: pw_sent_mono)
qed

lemma pw_openE:
  assumes "pw_open h m c w"
  obtains chunks where "pw_rep m chunks w" and "pw_pos w \<le> ms_size m" and "c = concat chunks @ buffered w"
    and "h \<longrightarrow> healthy w"
  using assms by (auto simp: pw_open_def)

lemma healthy_fields [simp]:
  "healthy (w\<lparr>pw_buf := b\<rparr>) = healthy w" "healthy (w\<lparr>pw_pos := p\<rparr>) = healthy w" "healthy (put bs w) = healthy w"
  by (simp_all add: healthy_def put_def)

text \<open>A flush of a full buffer, in any environment.\<close>

lemma pw_rep_flush:
  assumes rep: "pw_rep m chunks w" and full: "ms_size m \<le> pw_pos w"
    and pop: "populate_header_and_send False False w = (Inr (), w')"
  shows "pw_rep m (chunks @ [seg 8 (ms_size m) (pw_buf w)]) w' \<and>
         pw_pos w' = pw_pos w \<and> drop 8 (pw_buf w') = drop 8 (pw_buf w)"
proof -
  note P = populate_Inr [OF pop] and N = rep_next_packet [OF rep, of False]
  have len: "packet_length False w = ms_size m" and pos: "saved_position False w = pw_pos w"
    using rep full by (auto simp: packet_length_def saved_position_def pw_rep_def)
  have buf: "ms_size m \<le> length (pw_buf w)" "pw_pos w \<le> length (pw_buf w)" "16 < ms_size m"
    using rep full by (auto simp: pw_rep_def)
  let ?c = "seg 8 (ms_size m) (pw_buf w)"
  have lc: "8 + length ?c = ms_size m" using buf by simp
  have "nw_wire (pw_net w') = nw_wire (pw_net w) @
      [(nw_tls (pw_net w), mk_packet (ms_type m) (ms_reset m) (length chunks) False False ?c)]"
    using P(1) N(2) lc by (simp add: len mk_packet_def)
  then have wire: "nw_wire (pw_net w') = ms_before m @ tagged m (data_packets (ms_type m) (ms_reset m) (chunks @ [?c]))"
    using rep by (simp add: data_packets_append tagged_snoc pw_rep_def)
  from P(3) obtain n where w': "w' = w\<lparr>pw_buf := pw_buf (populate_header False False w), pw_pos := pw_pos w,
      pw_is_first_packet := False, pw_packet_id := pw_packet_id w + 1, pw_eom_pending := True,
      pw_send_attempted := True, pw_send_incomplete := False, pw_message_complete := False, pw_net := n\<rparr>"
    by (auto simp: pos)
  have "\<not> nw_torn n" "nw_pending_reset n = ms_pending m" "nw_encryption n = ms_encryption m"
    using P(4,6,8) rep by (simp_all add: w' pw_rep_def)
  moreover have "nw_reset_dispatched n = (ms_dispatched m \<or> ms_reset m \<noteq> ResetNone)"
    using P(5) rep by (auto simp: w' pw_rep_def header_reset_mode_def)
  moreover have "nw_tls n = tls_at m (length (chunks @ [?c]))"
    using P(9) rep
    by (auto simp: w' pw_rep_def tls_at_def login_only_def get_encryption_setting_def split: option.splits)
  ultimately show ?thesis using rep buf N(3,4) wire lc
    by (simp add: pw_rep_def w')
qed

lemma pw_rep_flush_fails:
  assumes rep: "pw_rep m chunks w" and full: "ms_size m \<le> pw_pos w"
    and pop: "populate_header_and_send False False w = (Inl e, w')"
  shows "\<not> healthy w \<and> e \<noteq> Panic \<and> e \<noteq> Diverge \<and> pw_sent m (concat chunks @ buffered w) w'"
proof -
  note N = rep_next_packet [OF rep, of False]
  note P = populate_Inl [OF pop _ N(1), simplified]
  let ?c = "seg 8 (ms_size m) (pw_buf w)"
  have len: "packet_length False w = ms_size m" using rep full by (auto simp: packet_length_def saved_position_def pw_rep_def)
  have buf: "ms_size m \<le> length (pw_buf w)" "16 < ms_size m" using rep full by (auto simp: pw_rep_def)
  have lc: "8 + length ?c = ms_size m" using buf by simp
  have pre: "buffered w = ?c @ seg (ms_size m) (pw_pos w) (pw_buf w)"
    using full buf by (simp add: buffered_def seg_append_seg)
  have h: "\<not> healthy w" using populate_healthy [OF _ _ N(1)] pop by auto
  have pkt: "take (packet_length False w) (pw_buf (populate_header False False w)) =
      mk_packet (ms_type m) (ms_reset m) (length chunks) False False ?c"
    using N(2) lc by (simp add: len mk_packet_def)
  consider "nw_wire (pw_net w') = nw_wire (pw_net w)" "\<not> pw_message_complete w'"
      "nw_torn (pw_net w') \<longrightarrow> pw_send_incomplete w' \<and> pw_send_attempted w'"
      "pw_send_attempted w' \<or> pw_send_attempted w' = pw_send_attempted w"
      "nw_reset_dispatched (pw_net w') = nw_reset_dispatched (pw_net w)"
    | "nw_wire (pw_net w') = nw_wire (pw_net w) @
         [(nw_tls (pw_net w), mk_packet (ms_type m) (ms_reset m) (length chunks) False False ?c)]"
      "\<not> pw_message_complete w'" "\<not> nw_torn (pw_net w')" "pw_send_attempted w'"
      "nw_reset_dispatched (pw_net w') = (nw_reset_dispatched (pw_net w) \<or> header_reset_mode w \<noteq> ResetNone)"
    using P(2) rep unfolding pkt by (auto simp: pw_rep_def)
  then have "pw_sent m (concat chunks @ buffered w) w'"
  proof cases
    case 1
    with rep P(3) show ?thesis unfolding pw_sent_def by (intro conjI exI [of _ chunks]) (auto simp: pw_rep_def)
  next
    case 2
    with rep lc pre P(3) show ?thesis unfolding pw_sent_def
      by (intro conjI exI [of _ "chunks @ [?c]"])
         (auto simp: pw_rep_def data_packets_append tagged_snoc header_reset_mode_def)
  qed
  with P(1) h show ?thesis by simp
qed

lemma seg_shift: "drop 8 xs = drop 8 ys \<Longrightarrow> 8 \<le> a \<Longrightarrow> seg a b xs = seg a b ys"
  by (metis drop_drop le_add_diff_inverse2 seg_def)

text \<open>After a successful flush the overflow moves to the front of the buffer.\<close>

lemma overflow_moved:
  assumes rep: "pw_rep m chunks w" and full: "ms_size m \<le> pw_pos w" and pos: "pw_pos w \<le> ms_size m + 8"
    and pop: "populate_header_and_send False False w = (Inr (), w1)"
  shows "\<exists>buf. copy_within (pw_packet_size w1) (pw_packet_size w1 + (pw_pos w1 - pw_packet_size w1)) 8 (pw_buf w1)
            = Some buf \<and>
          (healthy w1 = h \<longrightarrow>
           pw_open h m (concat chunks @ buffered w) (w1\<lparr>pw_buf := buf, pw_pos := 8 + (pw_pos w1 - pw_packet_size w1)\<rparr>))"
proof -
  note fl = pw_rep_flush [OF rep full pop]
  then have ps: "pw_packet_size w1 = ms_size m" "16 < ms_size m" "pw_pos w1 = pw_pos w"
    and len: "pw_pos w \<le> length (pw_buf w1)" using full by (auto simp: pw_rep_def)
  let ?k = "pw_pos w - ms_size m" and ?c = "seg 8 (ms_size m) (pw_buf w)"
  have k: "?k \<le> 8" "pw_pos w = ms_size m + ?k" using full pos by auto
  let ?o = "seg (ms_size m) (pw_pos w) (pw_buf w1)"
  let ?buf = "overwrite 8 ?o (pw_buf w1)"
  have cp: "copy_within (pw_packet_size w1) (pw_packet_size w1 + (pw_pos w1 - pw_packet_size w1)) 8 (pw_buf w1) = Some ?buf"
    using len full k ps by (simp add: copy_within_def)
  have sg: "?o = seg (ms_size m) (pw_pos w) (pw_buf w)"
    using fl ps(2) by (intro seg_shift) auto
  have len_seg: "length ?o = ?k" using len by (simp add: seg_def)
  let ?w' = "w1\<lparr>pw_buf := ?buf, pw_pos := 8 + ?k\<rparr>"
  have "buffered ?w' = seg (ms_size m) (pw_pos w) (pw_buf w)"
    using seg_overwrite_here [of 8 "pw_buf w1" "8 + ?k" ?o] len ps len_seg k
    by (simp add: buffered_def flip: sg)
  then have "concat (chunks @ [?c]) @ buffered ?w' = concat chunks @ buffered w"
    using full ps by (simp add: buffered_def seg_append_seg)
  moreover have "pw_rep m (chunks @ [?c]) ?w'"
    using fl len ps k len_seg by (auto simp: pw_rep_def)
  ultimately have "healthy w1 = h \<longrightarrow> pw_open h m (concat chunks @ buffered w) ?w'"
    using k ps unfolding pw_open_def by (intro impI conjI exI [of _ "chunks @ [?c]"]) auto
  with cp ps show ?thesis by auto
qed

lemma handle_overflow_out:
  assumes rep: "pw_rep m chunks w" and pos: "pw_pos w \<le> ms_size m + 8" and h: "h \<Longrightarrow> healthy w"
  shows "pw_out h m (concat chunks @ buffered w) (handle_overflow_if_needed w)"
proof (cases "position w \<ge> pw_max_payload_size w")
  case False
  with rep have "handle_overflow_if_needed w = (Inr (), w)" "pw_pos w \<le> ms_size m"
    by (auto simp: handle_overflow_if_needed_def position_def pw_rep_def)
  with rep h show ?thesis by (auto simp: pw_open_def)
next
  case True
  with rep have full: "ms_size m \<le> pw_pos w" by (auto simp: position_def pw_rep_def)
  show ?thesis
  proof (cases "populate_header_and_send False False w")
    case (Pair r w1)
    show ?thesis
    proof (cases r)
      case (Inl e)
      with Pair True pw_rep_flush_fails [OF rep full] h show ?thesis
        by (auto simp: handle_overflow_if_needed_def)
    next
      case (Inr u)
      with Pair have pop: "populate_header_and_send False False w = (Inr (), w1)" by simp
      have "h \<Longrightarrow> healthy w1"
        using populate_healthy [OF h _ rep_next_packet(1) [OF rep], of False] pop by auto
      with overflow_moved [OF rep full pos pop, of "healthy w1"] pop True show ?thesis
        by (auto simp: handle_overflow_if_needed_def Let_def pw_open_def)
    qed
  qed
qed


section \<open>Every operation appends its bytes\<close>

lemma scalar_out:
  assumes "pw_open h m c w" and "length bs \<le> 8"
  shows "pw_out h m (c @ bs) (handle_overflow_if_needed (put bs w))"
proof -
  from assms(1) obtain chunks where rep: "pw_rep m chunks w" "pw_pos w \<le> ms_size m"
    and c: "c = concat chunks @ buffered w" and h: "h \<longrightarrow> healthy w" by (rule pw_openE)
  note put = pw_rep_put [OF rep(1), of bs]
  have "pw_pos (put bs w) \<le> ms_size m + 8" using rep(2) assms(2) by (simp add: put_def)
  from handle_overflow_out [OF put [THEN conjunct1] this, of h] h put c show ?thesis by simp
qed

lemma unchecked_open:
  assumes "pw_open h m c w" and "has_space w (length bs)"
  shows "pw_open h m (c @ bs) (put bs w)"
proof -
  from assms(1) obtain chunks where rep: "pw_rep m chunks w"
    and c: "c = concat chunks @ buffered w" and h: "h \<longrightarrow> healthy w" by (rule pw_openE)
  have "pw_pos (put bs w) \<le> ms_size m"
    using assms(2) rep by (auto simp: has_space_def position_def put_def pw_rep_def)
  with pw_rep_put [OF rep, of bs] c h show ?thesis by (auto simp: pw_open_def)
qed

lemma write_byte_out: "pw_open h m c w \<Longrightarrow> pw_out h m (c @ [b]) (write_byte_async b w)"
  unfolding write_byte_async_def by (rule scalar_out) auto

lemma write_each_out: "pw_open h m c w \<Longrightarrow> pw_out h m (c @ bs) (write_each bs w)"
proof (induction bs arbitrary: c w)
  case (Cons b bs)
  have "pw_out h m ((c @ [b]) @ bs) (write_each (b # bs) w)"
    unfolding write_each.simps using Cons.IH write_byte_out [OF Cons.prems] by (intro pw_out_rbind)
  then show ?case by simp
qed simp

lemma write_fixed_out:
  assumes "pw_open h m c w"
  shows "pw_out h m (c @ bs) (write_fixed_bytes bs w)"
  using assms by (auto simp: write_fixed_bytes_def has_space_def intro!: unchecked_open write_each_out)

text \<open>Filling the packet and flushing it, as the two loops do.\<close>

lemma fill_out:
  assumes "pw_open h m c w" and "length bs = pw_max_payload_size w - position w"
  shows "case populate_header_and_send False False (put bs w) of
           (Inr _, w') \<Rightarrow> pw_open h m (c @ bs) (w'\<lparr>pw_pos := 8\<rparr>)
         | (Inl e, w') \<Rightarrow> pw_out h m (c @ bs) (Inl e, w')"
proof -
  from assms(1) obtain chunks where rep: "pw_rep m chunks w" "pw_pos w \<le> ms_size m"
    and c: "c = concat chunks @ buffered w" and h: "h \<longrightarrow> healthy w" by (rule pw_openE)
  note put = pw_rep_put [OF rep(1), of bs, THEN conjunct1] pw_rep_put [OF rep(1), of bs, THEN conjunct2]
  have pos: "pw_pos (put bs w) = ms_size m"
    using rep assms(2) by (auto simp: put_def position_def pw_rep_def)
  obtain r w' where pop: "populate_header_and_send False False (put bs w) = (r, w')" by fastforce
  show ?thesis
  proof (cases r)
    case (Inl e)
    with pw_rep_flush_fails [OF put(1) _ pop [unfolded Inl]] pos put(2) c h pop show ?thesis by auto
  next
    case (Inr u)
    let ?chunks = "chunks @ [seg 8 (ms_size m) (pw_buf (put bs w))]"
    have "pw_rep m ?chunks w'" using pw_rep_flush [OF put(1), of w'] pos pop Inr by simp
    moreover have "concat ?chunks @ buffered (w'\<lparr>pw_pos := 8\<rparr>) = c @ bs"
      using pos put(2) c by (simp add: buffered_def)
    moreover have "h \<Longrightarrow> healthy w'"
      using populate_healthy [OF _ _ rep_next_packet(1) [OF put(1)], of False] h pop by auto
    ultimately have "pw_open h m (c @ bs) (w'\<lparr>pw_pos := 8\<rparr>)"
      unfolding pw_open_def by (intro conjI exI [of _ ?chunks]) (auto simp: pw_rep_def)
    with pop Inr show ?thesis by simp
  qed
qed

lemma open_bounds:
  assumes "pw_open h m c w"
  shows "\<not> pw_max_payload_size w < position w" and "pw_max_payload_size w \<noteq> 0"
  using assms by (auto simp: pw_open_def pw_rep_def position_def)

text \<open>The continuation after a flush starts from the empty buffer.\<close>

lemma fill_rbind_out:
  assumes "pw_open h m c w" and "length bs = pw_max_payload_size w - position w"
    and "\<And>w'. populate_header_and_send False False (put bs w) = (Inr (), w') \<Longrightarrow>
           pw_open h m (c @ bs) (w'\<lparr>pw_pos := 8\<rparr>) \<Longrightarrow> pw_out h m ((c @ bs) @ d) (k (w'\<lparr>pw_pos := 8\<rparr>))"
  shows "pw_out h m (c @ bs @ d)
           (rbind (populate_header_and_send False False) (\<lambda>_ w'. k (w'\<lparr>pw_pos := 8\<rparr>)) (put bs w))"
proof -
  obtain r w' where pop: "populate_header_and_send False False (put bs w) = (r, w')" by fastforce
  with fill_out [OF assms(1,2)] assms(3) show ?thesis
    by (cases r) (auto simp: rbind_def dest: pw_sent_mono [where d = d])
qed

lemma write_loop_out: "pw_open h m c w \<Longrightarrow> pw_out h m (c @ bs) (write_loop bs w)"
proof (induction bs w arbitrary: c rule: write_loop.induct)
  case (1 bs w)
  define space where "space = pw_max_payload_size w - position w"
  note b = open_bounds [OF "1.prems"]
  consider "bs = []" | (fits) "bs \<noteq> []" "\<not> space < length bs" | (split) "bs \<noteq> []" "space < length bs" by blast
  then show ?case
  proof cases
    case fits
    then have "write_loop bs w = (Inr (), put bs w)" and "has_space w (length bs)"
      using b by (auto simp: write_loop.simps [of bs w] space_def has_space_def Let_def)
    with "1.prems" show ?thesis by (auto intro: unchecked_open)
  next
    case split
    then have "write_loop bs w = rbind (populate_header_and_send False False)
        (\<lambda>_ w'. write_loop (drop space bs) (w'\<lparr>pw_pos := 8\<rparr>)) (put (take space bs) w)"
      using b by (subst write_loop.simps) (simp add: space_def Let_def)
    moreover have "pw_out h m (c @ take space bs @ drop space bs) (rbind (populate_header_and_send False False)
        (\<lambda>_ w'. write_loop (drop space bs) (w'\<lparr>pw_pos := 8\<rparr>)) (put (take space bs) w))"
    proof (rule fill_rbind_out [OF "1.prems"])
      show "length (take space bs) = pw_max_payload_size w - position w" using split by (simp add: space_def)
    qed (rule "1.IH" [OF split(1) b(1) space_def split(2) b(2)])
    ultimately show ?thesis by simp
  qed (use "1.prems" in \<open>simp add: write_loop.simps\<close>)
qed

lemma put_Nil: "pw_pos w \<le> length (pw_buf w) \<Longrightarrow> put [] w = w"
  by (simp add: put_def cursor_write_def overwrite_def)

lemma full_flush_out:
  assumes "pw_open h m c w" and "position w = pw_max_payload_size w"
    and "\<And>w'. populate_header_and_send False False w = (Inr (), w') \<Longrightarrow>
           pw_open h m c (w'\<lparr>pw_pos := 8\<rparr>) \<Longrightarrow> pw_out h m (c @ d) (k (w'\<lparr>pw_pos := 8\<rparr>))"
  shows "pw_out h m (c @ d)
           (rbind (populate_header_and_send False False) (\<lambda>_ w'. k (w'\<lparr>pw_pos := 8\<rparr>)) w)"
proof -
  have "pw_pos w \<le> length (pw_buf w)"
    using assms(1,2) by (auto simp: pw_open_def pw_rep_def position_def)
  then have "put [] w = w" by (rule put_Nil)
  with fill_rbind_out [of h m c w "[]" d k] assms show ?thesis by simp
qed

lemma write_le_out:
  assumes "open": "pw_open h m c w" and v: "valid_string (uu_rest u)"
    and avail: "avail = (pw_max_payload_size w - position w) div 2" "avail \<noteq> 0"
    and le: "write_le avail u w = Some (n, u', w1)"
  shows "pw_out h m (c @ units_le (take avail (all_units u))) ((if n > 0 then handle_overflow_if_needed else rret ()) w1)"
proof -
  from "open" obtain chunks where rep: "pw_rep m chunks w" "pw_pos w \<le> ms_size m"
    and c: "c = concat chunks @ buffered w" and h: "h \<longrightarrow> healthy w" by (rule pw_openE)
  from write_le_units [OF v, of avail w] le avail(2)
  have n: "n = min avail (length (all_units u))" "w1 = (if all_units u = [] then w
      else put (units_le (take avail (all_units u))) w)" by auto
  show ?thesis
  proof (cases "all_units u = []")
    case False
    let ?bs = "units_le (take avail (all_units u))"
    have "2 * avail \<le> pw_max_payload_size w - position w" using avail(1) by simp
    then have "pw_pos (put ?bs w) \<le> ms_size m + 8"
      using rep by (auto simp: put_def position_def pw_rep_def)
    with handle_overflow_out [of m chunks "put ?bs w" h] pw_rep_put [OF rep(1), of ?bs] c h False n avail(2)
    show ?thesis by simp
  qed (use n "open" in simp)
qed

lemma write_unit_out:
  assumes "pw_open h m c w"
    and k: "\<And>w1 w2. write_byte_async (hd (to_le_u16 x)) w = (Inr (), w1) \<Longrightarrow>
           write_byte_async (last (to_le_u16 x)) w1 = (Inr (), w2) \<Longrightarrow>
           pw_open h m (c @ to_le_u16 x) w2 \<Longrightarrow> pw_out h m ((c @ to_le_u16 x) @ d) (k w2)"
  shows "pw_out h m (c @ to_le_u16 x @ d)
           (rbind (write_byte_async (hd (to_le_u16 x)))
              (\<lambda>_. rbind (write_byte_async (last (to_le_u16 x))) (\<lambda>_. k)) w)"
proof -
  define lo hi where "lo = hd (to_le_u16 x)" and "hi = last (to_le_u16 x)"
  have le: "to_le_u16 x = [lo, hi]" by (simp add: lo_def hi_def to_le_u16_def numeral_2_eq_2)
  have "pw_out h m ((c @ [lo]) @ [hi] @ d) (rbind (write_byte_async lo) (\<lambda>_. rbind (write_byte_async hi) (\<lambda>_. k)) w)"
  proof (rule pw_out_rbind, rule write_byte_out, rule assms)
    fix u w1 assume 1: "write_byte_async lo w = (Inr u, w1)" "pw_open h m (c @ [lo]) w1"
    have "pw_out h m (((c @ [lo]) @ [hi]) @ d) (rbind (write_byte_async hi) (\<lambda>_. k) w1)"
    proof (rule pw_out_rbind, rule write_byte_out, rule 1)
      fix u' w2 assume "write_byte_async hi w1 = (Inr u', w2)" "pw_open h m ((c @ [lo]) @ [hi]) w2"
      with k [of w1 w2] 1(1) show "pw_out h m (((c @ [lo]) @ [hi]) @ d) (k w2)" by (simp add: le)
    qed
    then show "pw_out h m ((c @ [lo]) @ [hi] @ d) (rbind (write_byte_async hi) (\<lambda>_. k) w1)" by simp
  qed
  then show ?thesis by (simp add: le)
qed

lemma write_string_out:
  "pw_open h m c w \<Longrightarrow> valid_string (uu_rest u) \<Longrightarrow>
   pw_out h m (c @ units_le (all_units u)) (write_string_loop u w)"
proof (induction u w arbitrary: c rule: write_string_loop.induct)
  case (1 u w)
  define space where "space = pw_max_payload_size w - position w"
  define avail where "avail = space div 2"
  note unfold = write_string_loop.simps [of u w, unfolded Let_def, folded space_def, folded avail_def]
  note b = open_bounds [OF "1.prems"(1)]
  have g: "\<not> (\<not> valid_string (uu_rest u) \<or> position w > pw_max_payload_size w)"
    using b(1) "1.prems"(2) by simp
  consider (one) "avail = 0" "space = 1" | (full) "avail = 0" "space \<noteq> 1" | (room) "avail \<noteq> 0" by blast
  then show ?case
  proof cases
    case one
    obtain r u' where nu: "next_unit u = (r, u')" by (cases "next_unit u")
    show ?thesis
    proof (cases r)
      case None
      with nu one g "1.prems" next_unit_units(1) [of u u'] show ?thesis by (auto simp: unfold)
    next
      case (Some x)
      have u': "all_units u = x # all_units u'" "valid_string (uu_rest u')"
        using nu Some "1.prems"(2) next_unit_rest [of u] by (auto simp: next_unit_units(2))
      have "pw_out h m (c @ to_le_u16 x @ units_le (all_units u')) (write_string_loop u w)"
        unfolding unfold using g one nu Some
        by (simp, intro write_unit_out "1.prems") 
           (rule "1.IH"(1) [OF g space_def avail_def one nu [symmetric] Some _ _ _ u'(2)])
      with u' show ?thesis by simp
    qed
  next
    case full
    have "position w = pw_max_payload_size w" using full g by (auto simp: avail_def space_def)
    with full g b "1.IH"(2) [OF g space_def avail_def full b(2)] "1.prems" show ?thesis
      unfolding unfold by (auto intro!: full_flush_out)
  next
    case room
    from g have v: "valid_string (uu_rest u)" by simp
    from write_le_units [OF v, of avail w] obtain n u' w1 where
      le: "write_le avail u w = Some (n, u', w1)" "n = min avail (length (all_units u))"
        "all_units u' = drop avail (all_units u)" "valid_string (uu_rest u')" by blast
    have split: "units_le (all_units u) = units_le (take avail (all_units u)) @ units_le (all_units u')"
      by (metis le(3) append_take_drop_id units_le_simps(3))
    have "pw_out h m ((c @ units_le (take avail (all_units u))) @ units_le (all_units u'))
        (rbind (if n > 0 then handle_overflow_if_needed else rret ())
          (\<lambda>_ w2. if n < avail then (Inr (), w2) else write_string_loop u' w2) w1)"
    proof (rule pw_out_rbind, rule write_le_out [OF "1.prems" _ room le(1)])
      fix x w2 assume ov: "(if n > 0 then handle_overflow_if_needed else rret ()) w1 = (Inr x, w2)"
        and o2: "pw_open h m (c @ units_le (take avail (all_units u))) w2"
      have "n < avail \<Longrightarrow> all_units u' = []" using le(2,3) by (simp add: min_def split: if_splits)
      with o2 "1.IH"(3) [OF g space_def avail_def room le(1) refl refl _ _ o2 le(4)] ov
      show "pw_out h m ((c @ units_le (take avail (all_units u))) @ units_le (all_units u'))
          (if n < avail then (Inr (), w2) else write_string_loop u' w2)" by auto
    qed (simp add: avail_def space_def)
    then show ?thesis unfolding unfold using g room le(1) by (simp add: split)
  qed
qed

section \<open>Ending the message\<close>

definition pw_complete :: "message_spec \<Rightarrow> bytes \<Rightarrow> packet_writer \<Rightarrow> bool" where
  "pw_complete m content w \<longleftrightarrow>
     pw_message_complete w \<and> pw_send_attempted w \<and> \<not> nw_torn (pw_net w) \<and>
     nw_pending_reset (pw_net w) = ms_pending m \<and>
     nw_reset_dispatched (pw_net w) = (ms_dispatched m \<or> ms_reset m \<noteq> ResetNone) \<and>
     (\<exists>chunks rest. nw_wire (pw_net w) = ms_before m @ tagged m (full_message (ms_type m) (ms_reset m) chunks rest) \<and>
        (\<forall>c \<in> set chunks. length c = ms_size m - 8) \<and> length rest \<le> ms_size m - 8 \<and>
        content = concat chunks @ rest)"

lemma last_packet:
  assumes rep: "pw_rep m chunks w" and pos: "pw_pos w \<le> ms_size m"
  shows "packet_length False w = pw_pos w"
    and "take (packet_length False w) (pw_buf (populate_header True False w)) =
         mk_packet (ms_type m) (ms_reset m) (length chunks) True False (buffered w)"
    and "length (buffered w) \<le> ms_size m - 8"
proof -
  show len: "packet_length False w = pw_pos w"
    using rep pos by (auto simp: packet_length_def saved_position_def pw_rep_def)
  have "8 + length (buffered w) = pw_pos w" using rep by (auto simp: buffered_def pw_rep_def)
  with rep_next_packet(2) [OF rep, of True] pos
  show "take (packet_length False w) (pw_buf (populate_header True False w)) =
         mk_packet (ms_type m) (ms_reset m) (length chunks) True False (buffered w)"
    and "length (buffered w) \<le> ms_size m - 8"
    by (simp_all add: len mk_packet_def flip: buffered_def)
qed

lemma sent_completes:
  assumes rep: "pw_rep m chunks w" and "pw_pos w \<le> ms_size m"
    and "nw_wire (pw_net w') = nw_wire (pw_net w) @
           [(nw_tls (pw_net w), mk_packet (ms_type m) (ms_reset m) (length chunks) True False (buffered w))]"
    and "pw_message_complete w'" and "pw_send_attempted w'" and "nw_torn (pw_net w') = nw_torn (pw_net w)"
    and "nw_pending_reset (pw_net w') = nw_pending_reset (pw_net w)"
    and "nw_reset_dispatched (pw_net w') = (nw_reset_dispatched (pw_net w) \<or> header_reset_mode w \<noteq> ResetNone)"
  shows "pw_complete m (concat chunks @ buffered w) w'"
  unfolding pw_complete_def using assms last_packet(3) [OF rep]
  by (intro conjI exI [of _ chunks] exI [of _ "buffered w"])
     (auto simp: pw_rep_def full_message_def tagged_snoc header_reset_mode_def)

lemma finalize_fails:
  assumes rep: "pw_rep m chunks w" and pos: "pw_pos w \<le> ms_size m"
    and pop: "populate_header_and_send True False w = (Inl e, w')"
  shows "\<not> healthy w \<and> e \<noteq> Panic \<and> e \<noteq> Diverge \<and>
         (pw_sent m (concat chunks @ buffered w) w' \<or> pw_complete m (concat chunks @ buffered w) w')"
proof -
  note N = rep_next_packet(1) [OF rep, of True] and L = last_packet [OF rep pos]
  note P = populate_Inl [OF pop _ N, simplified]
  have h: "\<not> healthy w" using populate_healthy [OF _ _ N] pop by auto
  consider "nw_wire (pw_net w') = nw_wire (pw_net w)" "\<not> pw_message_complete w'"
      "nw_torn (pw_net w') \<longrightarrow> pw_send_incomplete w' \<and> pw_send_attempted w'"
      "pw_send_attempted w' \<or> pw_send_attempted w' = pw_send_attempted w"
      "nw_reset_dispatched (pw_net w') = nw_reset_dispatched (pw_net w)"
    | "pw_complete m (concat chunks @ buffered w) w'"
    using P(2,3) rep sent_completes [OF rep pos, of w'] unfolding L(2) by (auto simp: pw_rep_def)
  then have "pw_sent m (concat chunks @ buffered w) w' \<or> pw_complete m (concat chunks @ buffered w) w'"
  proof cases
    case 1
    with rep P(3) have "pw_sent m (concat chunks @ buffered w) w'"
      unfolding pw_sent_def by (intro conjI exI [of _ chunks]) (auto simp: pw_rep_def)
    then show ?thesis ..
  qed simp
  with P(1) h show ?thesis by simp
qed

lemma open_empty:
  assumes "pw_rep m chunks w" and "pw_pos w \<le> ms_size m"
  shows "concat chunks @ buffered w = [] \<longleftrightarrow> \<not> (pw_pos w > 8 \<or> pw_eom_pending w)"
proof -
  have "length (buffered w) = pw_pos w - 8" using assms(1) by (auto simp: buffered_def pw_rep_def)
  moreover have "concat chunks = [] \<longleftrightarrow> chunks = []"
    using assms(1) by (cases chunks) (auto simp: pw_rep_def)
  ultimately show ?thesis using assms(1) by (auto simp: pw_rep_def)
qed

lemma open_sent: "pw_open h m c w \<Longrightarrow> pw_sent m c w"
  unfolding pw_sent_def by (erule pw_openE) (auto simp: pw_rep_def)

lemma finalize_out:
  assumes "pw_open h m c w" and fin: "finalize w = (r, w')"
  shows "case r of
           Inr _ \<Rightarrow> (if c = [] then w' = w else pw_complete m c w')
         | Inl e \<Rightarrow> \<not> h \<and> e \<noteq> Panic \<and> e \<noteq> Diverge \<and> (pw_sent m c w' \<or> pw_complete m c w')"
proof -
  from assms(1) obtain chunks where rep: "pw_rep m chunks w" and pos: "pw_pos w \<le> ms_size m"
    and c: "c = concat chunks @ buffered w" and h: "h \<longrightarrow> healthy w" by (rule pw_openE)
  show ?thesis
  proof (cases "c = []")
    case True
    with open_empty [OF rep pos] c fin show ?thesis by (auto simp: finalize_def)
  next
    case False
    obtain q w1 where pop: "populate_header_and_send True False w = (q, w1)" by fastforce
    have fin': "(r, w') = (case q of Inl e \<Rightarrow> (Inl e, w1) | Inr _ \<Rightarrow> (Inr (), w1\<lparr>pw_pos := 8\<rparr>))"
      using open_empty [OF rep pos] c False fin pop
      by (auto simp: finalize_def rbind_def split: sum.split)
    show ?thesis
    proof (cases q)
      case (Inl e)
      with finalize_fails [OF rep pos pop [unfolded Inl]] fin' c h show ?thesis by auto
    next
      case (Inr u)
      then have pop: "populate_header_and_send True False w = (Inr (), w1)" using pop by simp
      note P = populate_Inr [OF pop]
      have "pw_complete m c w1"
        unfolding c using P(1,3-6) last_packet(2) [OF rep pos] by (intro sent_completes [OF rep pos]) auto
      with Inr fin' False show ?thesis by (simp add: pw_complete_def)
    qed
  qed
qed


section \<open>Sequences of writes\<close>

text \<open>
  A serializer is a sequence of writer calls, each awaited and its error returned with \<^verbatim>\<open>?\<close>.
  \<open>write_op\<close> names the calls, \<open>run_steps\<close> runs them, \<open>op_bytes\<close> says what each one denotes.
\<close>

datatype write_op =
    WByte u8
  | WU16 u16
  | WU32 u32
  | WU64 u64
  | WI16Be u16
  | WI32Be u32
  | WBytes bytes
  | WFixed bytes
  | WString rstring

primrec exec_op :: "write_op \<Rightarrow> (packet_writer, unit) action" where
  "exec_op (WByte v) = write_byte_async v"
| "exec_op (WU16 v) = write_u16_async v"
| "exec_op (WU32 v) = write_u32_async v"
| "exec_op (WU64 v) = write_u64_async v"
| "exec_op (WI16Be v) = write_i16_be_async v"
| "exec_op (WI32Be v) = write_i32_be_async v"
| "exec_op (WBytes bs) = write_async bs"
| "exec_op (WFixed bs) = write_fixed_bytes bs"
| "exec_op (WString str) = write_string_unicode_async str"

primrec op_bytes :: "write_op \<Rightarrow> bytes" where
  "op_bytes (WByte v) = [v]"
| "op_bytes (WU16 v) = to_le_u16 v"
| "op_bytes (WU32 v) = to_le_u32 v"
| "op_bytes (WU64 v) = to_le_u64 v"
| "op_bytes (WI16Be v) = to_be_u16 v"
| "op_bytes (WI32Be v) = to_be_u32 v"
| "op_bytes (WBytes bs) = bs"
| "op_bytes (WFixed bs) = bs"
| "op_bytes (WString str) = units_le (encode_utf16 str)"

primrec op_wf :: "write_op \<Rightarrow> bool" where
  "op_wf (WByte v) = True"
| "op_wf (WU16 v) = True"
| "op_wf (WU32 v) = True"
| "op_wf (WU64 v) = True"
| "op_wf (WI16Be v) = True"
| "op_wf (WI32Be v) = True"
| "op_wf (WBytes bs) = True"
| "op_wf (WFixed bs) = True"
| "op_wf (WString str) = valid_string str"

definition ops_bytes :: "write_op list \<Rightarrow> bytes" where
  "ops_bytes ops = concat (map op_bytes ops)"

definition write_message :: "write_op list \<Rightarrow> (packet_writer, unit) action" where
  "write_message ops = rbind (run_steps exec_op ops) (\<lambda>_. finalize)"

text \<open>
  The interface a serializer relies on: a sink in which every well-formed step appends the bytes
  it denotes, or fails and leaves a state that accounts for part of them.
\<close>

locale byte_sink =
  fixes step :: "'op \<Rightarrow> ('s, unit) action"
    and denote :: "'op \<Rightarrow> bytes"
    and wf :: "'op \<Rightarrow> bool"
    and holds :: "bytes \<Rightarrow> 's \<Rightarrow> bool"
    and failed :: "tds_error \<Rightarrow> bytes \<Rightarrow> 's \<Rightarrow> bool"
  assumes step_appends: "holds c s \<Longrightarrow> wf x \<Longrightarrow> step x s = (Inr u, s') \<Longrightarrow> holds (c @ denote x) s'"
    and step_fails: "holds c s \<Longrightarrow> wf x \<Longrightarrow> step x s = (Inl e, s') \<Longrightarrow> failed e (c @ denote x) s'"
    and failed_mono: "failed e c s \<Longrightarrow> failed e (c @ d) s"
begin

lemma run_appends:
  assumes "holds c s" and "\<forall>x \<in> set xs. wf x" and "run_steps step xs s = (Inr u, s')"
  shows "holds (c @ concat (map denote xs)) s'"
  using assms
proof (induction xs arbitrary: c s)
  case (Cons x xs)
  then obtain v s1 where "step x s = (Inr v, s1)" "run_steps step xs s1 = (Inr u, s')" by (auto elim: rbind_InrE)
  with Cons.prems Cons.IH [of "c @ denote x" s1] show ?case by (auto dest: step_appends)
qed simp

lemma run_fails:
  assumes "holds c s" and "\<forall>x \<in> set xs. wf x" and "run_steps step xs s = (Inl e, s')"
  shows "failed e (c @ concat (map denote xs)) s'"
  using assms
proof (induction xs arbitrary: c s)
  case (Cons x xs)
  obtain r s1 where st: "step x s = (r, s1)" by fastforce
  show ?case
  proof (cases r)
    case (Inl e')
    with st Cons.prems step_fails [of c s x e' s1] failed_mono [of e "c @ denote x" s' "concat (map denote xs)"]
    show ?thesis by simp
  next
    case (Inr u)
    with st Cons.prems Cons.IH [of "c @ denote x" s1] show ?thesis by (auto dest: step_appends)
  qed
qed simp

end

lemma exec_op_out:
  assumes "pw_open h m c w" and "op_wf x"
  shows "pw_out h m (c @ op_bytes x) (exec_op x w)"
  using assms
proof (cases x)
  case (WString str)
  with assms write_string_out [OF assms(1), of "uu_new str"] show ?thesis
    by (simp add: write_string_unicode_async_def uu_new_def all_units_def)
qed (auto simp: write_byte_async_def write_u16_async_def write_u32_async_def write_u64_async_def
      write_i16_be_async_def write_i32_be_async_def write_async_def codec_simps
      intro!: scalar_out write_loop_out write_fixed_out)

text \<open>With the connection known to be healthy a step cannot fail.\<close>

definition pw_fault :: "bool \<Rightarrow> message_spec \<Rightarrow> tds_error \<Rightarrow> bytes \<Rightarrow> packet_writer \<Rightarrow> bool" where
  "pw_fault h m e content w \<longleftrightarrow> \<not> h \<and> e \<noteq> Panic \<and> e \<noteq> Diverge \<and> pw_sent m content w"

interpretation pw: byte_sink exec_op op_bytes op_wf "pw_open h m" "pw_fault h m" for h m
proof
  fix c w x u w' assume "pw_open h m c w" "op_wf x" "exec_op x w = (Inr u, w')"
  then show "pw_open h m (c @ op_bytes x) w'" using exec_op_out [of h m c w x] by simp
next
  fix c w x e w' assume "pw_open h m c w" "op_wf x" "exec_op x w = (Inl e, w')"
  then show "pw_fault h m e (c @ op_bytes x) w'" using exec_op_out [of h m c w x] by (simp add: pw_fault_def)
qed (auto simp: pw_fault_def intro: pw_sent_mono)

lemma write_message_out:
  assumes "pw_open h m [] w" and wf: "\<forall>x \<in> set ops. op_wf x" and wr: "write_message ops w = (r, w')"
  shows "case r of
           Inr _ \<Rightarrow> (if ops_bytes ops = [] then pw_sent m [] w'
                     else pw_complete m (ops_bytes ops) w')
         | Inl e \<Rightarrow> \<not> h \<and> e \<noteq> Panic \<and> e \<noteq> Diverge \<and>
                    (pw_sent m (ops_bytes ops) w' \<or> pw_complete m (ops_bytes ops) w')"
proof -
  obtain q w1 where run: "run_steps exec_op ops w = (q, w1)" by fastforce
  show ?thesis
  proof (cases q)
    case (Inl e)
    with run wr have "r = Inl e" "w' = w1" by (auto simp: write_message_def)
    with pw.run_fails [OF assms(1) wf] run Inl show ?thesis by (auto simp: pw_fault_def ops_bytes_def)
  next
    case (Inr u)
    with pw.run_appends [OF assms(1) wf] run have o1: "pw_open h m (ops_bytes ops) w1" by (simp add: ops_bytes_def)
    have "finalize w1 = (r, w')" using run wr Inr by (simp add: write_message_def rbind_def)
    from finalize_out [OF o1 this] show ?thesis
      using open_sent [OF o1] by (auto split: sum.splits if_splits)
  qed
qed

section \<open>Whole messages on a connection\<close>

definition message_of :: "packet_type \<Rightarrow> network_writer \<Rightarrow> message_spec" where
  "message_of ty net =
     (let taken = ty \<in> {SqlBatch, RpcRequest, TransactionManager} in
      \<lparr>ms_type = ty,
       ms_reset = (if taken then nw_pending_reset net else ResetNone),
       ms_size = nw_packet_size net,
       ms_before = nw_wire net,
       ms_tls = nw_tls net,
       ms_encryption = nw_encryption net,
       ms_pending = (if taken then ResetNone else nw_pending_reset net),
       ms_dispatched = nw_reset_dispatched net\<rparr>)"

lemma message_of_fields [simp]:
  "ms_type (message_of ty net) = ty" "ms_size (message_of ty net) = nw_packet_size net"
  "ms_before (message_of ty net) = nw_wire net" "ms_tls (message_of ty net) = nw_tls net"
  "ms_encryption (message_of ty net) = nw_encryption net"
  "ms_dispatched (message_of ty net) = nw_reset_dispatched net"
  by (simp_all add: message_of_def Let_def)

text \<open>A connection on which a message can start: the negotiated size is sane and nothing is torn.\<close>

definition writable :: "network_writer \<Rightarrow> bool" where
  "writable net \<longleftrightarrow> 16 < nw_packet_size net \<and> nw_packet_size net < 65536 \<and> \<not> nw_torn net"

lemma pw_new_open:
  assumes "pw_new ty net timeout handle = Inr w" and "writable net" and "h \<longrightarrow> healthy w"
  shows "pw_open h (message_of ty net) [] w"
proof -
  have "pw_rep (message_of ty net) [] w" "pw_pos w = 8"
    using assms
    by (auto simp: pw_new_def pw_rep_def message_of_def writable_def Let_def take_reset_mode_def
        tls_at_def split: if_splits)
  then show ?thesis
    using assms(2,3) by (auto simp: pw_open_def buffered_def message_of_def writable_def Let_def)
qed

lemma pw_new_Inr: "writable net \<Longrightarrow> \<exists>w. pw_new ty net timeout handle = Inr w"
  by (auto simp: pw_new_def writable_def split: prod.split)

definition demo_net :: network_writer where
  "demo_net = \<lparr>nw_packet_size = 20, nw_encryption = Some LoginOnly, nw_stream_open = True, nw_tls = True,
     nw_extractable = True, nw_pending_reset = Reset, nw_reset_dispatched = False, nw_known_dead = False,
     nw_wire = [], nw_torn = False, nw_env = []\<rparr>"

definition demo_ops :: "write_op list" where
  "demo_ops = [WU32 7, WString [72, 105, 128512], WFixed [1, 2, 3], WU64 9, WBytes [4, 5, 6, 7, 8, 9, 10, 11, 12]]"

lemma demo_writable [simp]: "writable demo_net"
  by (simp add: writable_def demo_net_def)

lemma demo_ops_wf [simp]: "\<forall>x \<in> set demo_ops. op_wf x"
  by (simp add: demo_ops_def is_scalar_def)

definition demo_writer :: "packet_type \<Rightarrow> packet_writer" where
  "demo_writer ty = projr (pw_new ty demo_net None None)"

lemma demo_writer [simp]:
  "pw_new ty demo_net None None = Inr (demo_writer ty)" "healthy (demo_writer ty)"
  by (auto simp: demo_writer_def pw_new_def demo_net_def Let_def take_reset_mode_def healthy_def split: if_splits)

text \<open>
  C1. On a healthy connection every sequence of writer calls followed by \<^verbatim>\<open>finalize\<close> returns
  \<^verbatim>\<open>Ok\<close>, and the wire then holds exactly one more message: full packets, then a last one with the
  end-of-message bit, whose payloads in order are the bytes of the calls, however the calls fall
  on packet boundaries.
\<close>

theorem write_message_delivers:
  assumes "pw_new ty net timeout handle = Inr w" and "writable net" and "healthy w"
    and "\<forall>x \<in> set ops. op_wf x" and "ops_bytes ops \<noteq> []"
  shows "\<exists>w' chunks rest. write_message ops w = (Inr (), w') \<and> pw_message_complete w' \<and>
           map snd (nw_wire (pw_net w')) =
             map snd (nw_wire net) @ full_message ty (ms_reset (message_of ty net)) chunks rest \<and>
           (\<forall>c \<in> set chunks. length c = nw_packet_size net - 8) \<and> length rest \<le> nw_packet_size net - 8 \<and>
           concat chunks @ rest = ops_bytes ops"
proof -
  have o: "pw_open True (message_of ty net) [] w" using assms by (intro pw_new_open) auto
  obtain r w' where wr: "write_message ops w = (r, w')" by fastforce
  from write_message_out [OF o assms(4) wr] assms(5) have "r = Inr ()"
    and "pw_complete (message_of ty net) (ops_bytes ops) w'" by (auto split: sum.splits)
  with wr show ?thesis
    by (fastforce simp: pw_complete_def message_of_def Let_def)
qed

theorem write_message_delivers_witness:
  "\<exists>w' chunks rest. write_message demo_ops (demo_writer SqlBatch) = (Inr (), w') \<and> pw_message_complete w' \<and>
     map snd (nw_wire (pw_net w')) = full_message SqlBatch Reset chunks rest \<and>
     (\<forall>c \<in> set chunks. length c = 12) \<and> length rest \<le> 12 \<and> concat chunks @ rest = ops_bytes demo_ops"
proof -
  have "ops_bytes demo_ops \<noteq> []" by (simp add: ops_bytes_def demo_ops_def)
  from write_message_delivers [OF demo_writer(1) demo_writable demo_writer(2) demo_ops_wf this, of SqlBatch]
  show ?thesis by (simp add: message_of_def demo_net_def)
qed

text \<open>
  C14. In every environment, with timeouts, cancellation, write failures and a closed stream at any
  packet: the calls do not panic or loop, and the wire holds the packets it had, then either the
  whole message, which the writer reports by \<open>message_complete\<close>, or only full packets with a
  prefix of its bytes. A torn write is reported by \<open>send_incomplete\<close>, and a message that was never
  attempted left nothing. The reset request counts as dispatched exactly if its packet is out.
\<close>

theorem write_message_outcome:
  assumes "pw_new ty net timeout handle = Inr w" and "writable net"
    and "\<forall>x \<in> set ops. op_wf x" and "write_message ops w = (r, w')"
  shows "r \<noteq> Inl Panic \<and> r \<noteq> Inl Diverge \<and>
    (if pw_message_complete w' then pw_complete (message_of ty net) (ops_bytes ops) w'
     else pw_sent (message_of ty net) (ops_bytes ops) w' \<and> (r = Inr () \<longrightarrow> ops_bytes ops = []))"
proof -
  have "pw_open False (message_of ty net) [] w" using assms by (intro pw_new_open) auto
  from write_message_out [OF this assms(3,4)] show ?thesis
    by (auto simp: pw_complete_def pw_sent_def split: sum.splits if_splits)
qed

definition demo_storm :: network_writer where
  "demo_storm = demo_net\<lparr>nw_env := [calm, calm\<lparr>race := RaceElapsed True\<rparr>]\<rparr>"

theorem write_message_outcome_witness:
  "\<exists>w r w'. pw_new RpcRequest demo_storm (Some 30) None = Inr w \<and> write_message demo_ops w = (r, w') \<and>
     r \<noteq> Inl Panic \<and> (if pw_message_complete w' then pw_complete (message_of RpcRequest demo_storm) (ops_bytes demo_ops) w'
     else pw_sent (message_of RpcRequest demo_storm) (ops_bytes demo_ops) w')"
proof -
  have wr: "writable demo_storm" using demo_writable by (simp add: demo_storm_def writable_def)
  from pw_new_Inr [OF wr] obtain w where new: "pw_new RpcRequest demo_storm (Some 30) None = Inr w" by blast
  obtain r w' where "write_message demo_ops w = (r, w')" by fastforce
  with write_message_outcome [OF new wr demo_ops_wf this] new show ?thesis by (auto split: if_splits)
qed



text \<open>
  C34. Under login-only encryption the first packet of the login message goes through TLS and
  every later one does not; no packet leaves before TLS is up.
\<close>

theorem login_only_encrypts_first_packet:
  assumes "pw_new Login7 net timeout handle = Inr w" and "writable net" and "healthy w"
    and "nw_tls net" and "nw_encryption net = Some LoginOnly" and "nw_wire net = []"
    and "\<forall>x \<in> set ops. op_wf x" and "ops_bytes ops \<noteq> []" and "write_message ops w = (r, w')"
  shows "r = Inr () \<and> nw_wire (pw_net w') \<noteq> [] \<and>
         (\<forall>i < length (nw_wire (pw_net w')). fst (nw_wire (pw_net w') ! i) = (i = 0))"
proof -
  have o: "pw_open True (message_of Login7 net) [] w" using assms by (intro pw_new_open) auto
  from write_message_out [OF o assms(7,9)] assms(8) have "r = Inr ()"
    and c: "pw_complete (message_of Login7 net) (ops_bytes ops) w'" by (auto split: sum.splits)
  moreover from c assms(6) obtain chunks rest where
    "nw_wire (pw_net w') = tagged (message_of Login7 net) (full_message Login7 ResetNone chunks rest)"
    by (auto simp: pw_complete_def message_of_def Let_def)
  moreover have "tagged (message_of Login7 net) (full_message Login7 ResetNone chunks rest) \<noteq> []"
    by (simp add: full_message_def tagged_snoc)
  ultimately show ?thesis using assms(4,5)
    by (auto simp: tagged_def full_message_def nth_enumerate_eq tls_at_def login_only_def)
qed

theorem login_only_encrypts_first_packet_witness:
  "\<exists>r w'. write_message demo_ops (demo_writer Login7) = (r, w') \<and> r = Inr () \<and> nw_wire (pw_net w') \<noteq> [] \<and>
     (\<forall>i < length (nw_wire (pw_net w')). fst (nw_wire (pw_net w') ! i) = (i = 0))"
proof -
  obtain r w' where wr: "write_message demo_ops (demo_writer Login7) = (r, w')" by fastforce
  have "nw_tls demo_net" "nw_encryption demo_net = Some LoginOnly" "nw_wire demo_net = []" "ops_bytes demo_ops \<noteq> []"
    by (simp_all add: demo_net_def ops_bytes_def demo_ops_def)
  from login_only_encrypts_first_packet [OF demo_writer(1) demo_writable demo_writer(2) this(1-3) demo_ops_wf this(4) wr] wr
  show ?thesis by blast
qed

text \<open>
  C33. Cancelling an open message on a healthy connection sends one last packet of eight bytes with
  the end-of-message and ignore bits and no reset bit, discards what was buffered, and does not
  report the message complete.
\<close>

theorem cancel_current_message_ignores:
  assumes "pw_new ty net timeout handle = Inr w" and "writable net" and "healthy w"
    and "\<forall>x \<in> set ops. op_wf x" and "run_steps exec_op ops w = (Inr (), w1)"
  shows "\<exists>w' chunks. cancel_current_message w1 = (Inr (), w') \<and> \<not> pw_message_complete w' \<and>
     map snd (nw_wire (pw_net w')) = map snd (nw_wire net) @ data_packets ty (ms_reset (message_of ty net)) chunks @
       [[packet_type_u8 ty, 3, 0, 8, 0, 0, word_of_nat (length chunks + 1), 0]] \<and>
     prefix (concat chunks) (ops_bytes ops)"
proof -
  let ?m = "message_of ty net"
  have "pw_open True ?m [] w" using assms by (intro pw_new_open) auto
  from pw.run_appends [OF this assms(4,5)] have "pw_open True ?m (ops_bytes ops) w1" by (simp add: ops_bytes_def)
  then obtain chunks where rep: "pw_rep ?m chunks w1" and c: "ops_bytes ops = concat chunks @ buffered w1"
    and h: "healthy w1" by (auto elim: pw_openE)
  define v where "v = w1\<lparr>pw_reset_mode := ResetNone\<rparr>"
  have hv: "healthy v" using h by (simp add: v_def healthy_def)
  define hd where "hd = build_header 8 ty (word_of_nat (Suc (length chunks))) True True ResetNone"
  have len: "packet_length True v = 8" using rep
    by (auto simp: packet_length_def saved_position_def v_def pw_rep_def)
  have buf: "pw_buf (populate_header True True v) = cursor_write (pw_buf v) 0 hd"
    using rep by (simp add: populate_header_def len [unfolded v_def] hd_def header_reset_mode_def v_def pw_rep_def)
  have "length hd = 8" by (simp add: hd_def)
  then have tk: "take 8 (pw_buf (populate_header True True v)) = hd" "8 \<le> length (pw_buf (populate_header True True v))"
    unfolding buf by (simp_all add: cursor_write_def overwrite_def)
  from populate_healthy [OF hv, of True True] tk(2) len obtain w' where
    pop: "populate_header_and_send True True v = (Inr (), w')" by auto
  note P = populate_Inr(1,3) [OF pop]
  have "to_be_u16 (word_of_nat 8) = [0, 8]" "to_be_u16 0 = [0, 0]" by code_simp+
  then have "hd = [packet_type_u8 ty, 3, 0, 8, 0, 0, word_of_nat (length chunks + 1), 0]"
    unfolding hd_def build_header_def Let_def by simp
  with P tk len rep pop c show ?thesis
    by (intro exI [of _ w'] exI [of _ chunks])
       (auto simp: cancel_current_message_def v_def pw_rep_def)
qed

theorem cancel_current_message_ignores_witness:
  "\<exists>w1 w' chunks. run_steps exec_op demo_ops (demo_writer SqlBatch) = (Inr (), w1) \<and>
     cancel_current_message w1 = (Inr (), w') \<and> \<not> pw_message_complete w' \<and>
     map snd (nw_wire (pw_net w')) = data_packets SqlBatch Reset chunks @
       [[1, 3, 0, 8, 0, 0, word_of_nat (length chunks + 1), 0]] \<and> prefix (concat chunks) (ops_bytes demo_ops)"
proof -
  have o: "pw_open True (message_of SqlBatch demo_net) [] (demo_writer SqlBatch)"
    by (rule pw_new_open [of _ _ None None]) simp_all
  obtain r w1 where run: "run_steps exec_op demo_ops (demo_writer SqlBatch) = (r, w1)" by fastforce
  with pw.run_fails [OF o demo_ops_wf] have "r = Inr ()" by (cases r) (auto simp: pw_fault_def)
  with run cancel_current_message_ignores [OF demo_writer(1) demo_writable demo_writer(2) demo_ops_wf, of SqlBatch w1]
  show ?thesis by (simp add: message_of_def demo_net_def)
qed

text \<open>
  C32. A reset request is neither lost nor sent twice. The message types that carry it take it from
  the connection; if the message was written with nothing attempted, abandoning it gives the
  request back, and if its first packet is out the connection reports the reset as dispatched and
  the next message carries none.
\<close>

theorem reset_request_conserved:
  assumes "pw_new ty net timeout handle = Inr w" and "writable net"
    and "ty \<in> {SqlBatch, RpcRequest, TransactionManager}"
    and "\<not> nw_reset_dispatched net" and "nw_pending_reset net = mode" and "mode \<noteq> ResetNone"
    and "\<forall>x \<in> set ops. op_wf x" and "write_message ops w = (r, w')"
  shows "nw_pending_reset (pw_net w') = ResetNone \<and>
    (if nothing_sent (suspend w')
     then nw_wire (pw_net w') = nw_wire net \<and> nw_pending_reset (abandon (suspend w') (pw_net w')) = mode
     else nw_reset_dispatched (pw_net w') = (length (nw_wire (pw_net w')) > length (nw_wire net)))"
proof -
  let ?m = "message_of ty net"
  have m: "ms_pending ?m = ResetNone" "ms_reset ?m = mode" using assms(3,5) by (auto simp: message_of_def)
  have "pw_open False ?m [] w" using assms by (intro pw_new_open) auto
  from write_message_out [OF this assms(7,8)]
  have "pw_sent ?m (ops_bytes ops) w' \<or> pw_complete ?m (ops_bytes ops) w'"
    by (auto split: sum.splits if_splits)
  then show ?thesis
  proof
    assume s: "pw_sent ?m (ops_bytes ops) w'"
    then have "nothing_sent (suspend w') \<Longrightarrow> nw_wire (pw_net w') = nw_wire net"
      by (auto simp: pw_sent_def nothing_sent_def suspend_def)
    moreover from s have "nw_reset_dispatched (pw_net w') = (length (nw_wire (pw_net w')) > length (nw_wire net))"
      using assms(4,6) m by (auto simp: pw_sent_def tagged_def)
    ultimately show ?thesis using s m assms(6)
      by (auto simp: pw_sent_def abandon_def suspend_def set_reset_mode_def)
  next
    assume "pw_complete ?m (ops_bytes ops) w'"
    then show ?thesis using m assms(6)
      by (auto simp: pw_complete_def nothing_sent_def suspend_def tagged_def full_message_def)
  qed
qed

theorem reset_request_conserved_witness:
  "\<exists>r w'. write_message demo_ops (demo_writer SqlBatch) = (r, w') \<and> nw_pending_reset (pw_net w') = ResetNone \<and>
    (if nothing_sent (suspend w')
     then nw_wire (pw_net w') = nw_wire demo_net \<and> nw_pending_reset (abandon (suspend w') (pw_net w')) = Reset
     else nw_reset_dispatched (pw_net w') = (length (nw_wire (pw_net w')) > 0))"
proof -
  obtain r w' where wr: "write_message demo_ops (demo_writer SqlBatch) = (r, w')" by fastforce
  have "\<not> nw_reset_dispatched demo_net" "nw_pending_reset demo_net = Reset" "nw_wire demo_net = []"
    by (simp_all add: demo_net_def)
  with reset_request_conserved [OF demo_writer(1) demo_writable _ this(1,2) _ demo_ops_wf wr] wr
  show ?thesis by auto
qed


end
