(* ===== verification/Requests.thy ===== *)
theory Requests
  imports Writer_Messages
begin

text \<open>
  Bodies of the requests of \<^verbatim>\<open>mssql-tds/src/message\<close>: the headers that precede a request, SQL batches,
  transaction manager requests, attention, and the token messages of the login. A serializer is the
  sequence of its calls of the packet writer, cut where it returns an error; running it is running the
  calls and then \<^verbatim>\<open>finalize\<close>.
\<close>

section \<open>Serializers\<close>

definition emits :: "write_op \<Rightarrow> (write_op list, unit) action" where
  "emits x ops = (Inr (), ops @ [x])"

definition send_request :: "(write_op list, unit) action \<Rightarrow> (packet_writer, unit) action" where
  "send_request ser =
     (case ser [] of (r, ops) \<Rightarrow> rbind (run_steps exec_op ops) (\<lambda>_. case r of Inl e \<Rightarrow> rfail e | Inr _ \<Rightarrow> finalize))"


section \<open>Headers\<close>

datatype tds_headers =
    TransactionDescriptor u64 u32
  | TraceActivity bytes u32
  | QueryNotifications bytes

primrec header_type :: "tds_headers \<Rightarrow> u16" where
  "header_type (TransactionDescriptor _ _) = 0x0002"
| "header_type (TraceActivity _ _) = 0x0003"
| "header_type (QueryNotifications _) = 0x0001"

primrec calculate_length :: "tds_headers \<Rightarrow> u32" where
  "calculate_length (TransactionDescriptor _ _) = 18"
| "calculate_length (TraceActivity _ _) = 6 + 16 + 4"
| "calculate_length (QueryNotifications data) = word_of_nat (6 + length data)"

primrec write_header :: "tds_headers \<Rightarrow> (write_op list, unit) action" where
  "write_header (TransactionDescriptor descriptor count) =
     (let h = TransactionDescriptor descriptor count in
      rbind (emits (WU32 (calculate_length h))) (\<lambda>_. rbind (emits (WU16 (header_type h))) (\<lambda>_.
      rbind (emits (WU64 descriptor)) (\<lambda>_. emits (WU32 count)))))"
| "write_header (TraceActivity ident seq) =
     (let h = TraceActivity ident seq in
      rbind (emits (WU32 (calculate_length h))) (\<lambda>_. rbind (emits (WU16 (header_type h))) (\<lambda>_.
      rbind (emits (WBytes ident)) (\<lambda>_. emits (WU32 seq)))))"
| "write_header (QueryNotifications data) = rfail Panic"

definition write_headers :: "tds_headers list \<Rightarrow> (write_op list, unit) action" where
  "write_headers hs =
     rbind (emits (WU32 (foldl (\<lambda>n h. n + calculate_length h) 4 hs))) (\<lambda>_. run_steps write_header hs)"

text \<open>The part of \<^verbatim>\<open>ExecutionContext\<close> the headers use.\<close>

record execution_context =
  ec_transaction_descriptor :: u64
  ec_outstanding_requests :: u32

definition create_non_transaction_header :: tds_headers where
  "create_non_transaction_header = TransactionDescriptor 0 1"

definition header_from_context :: "execution_context \<Rightarrow> tds_headers" where
  "header_from_context ec =
     (if ec_transaction_descriptor ec = 0 then create_non_transaction_header
      else TransactionDescriptor (ec_transaction_descriptor ec) (ec_outstanding_requests ec))"


section \<open>Transaction manager requests\<close>

datatype transaction_isolation_level = NoChange | ReadUncommitted | ReadCommitted | RepeatableRead | Serializable | Snapshot

primrec isolation_level_u8 :: "transaction_isolation_level \<Rightarrow> u8" where
  "isolation_level_u8 NoChange = 0x00"
| "isolation_level_u8 ReadUncommitted = 0x01"
| "isolation_level_u8 ReadCommitted = 0x02"
| "isolation_level_u8 RepeatableRead = 0x03"
| "isolation_level_u8 Serializable = 0x04"
| "isolation_level_u8 Snapshot = 0x05"

record create_txn_params =
  ct_level :: transaction_isolation_level
  ct_name :: "rstring option"

datatype transaction_management_type =
    GetDtcAddress
  | Propagate rstring
  | Begin create_txn_params
  | Promote
  | Commit "rstring option" "create_txn_params option"
  | Rollback "rstring option" "create_txn_params option"
  | Save rstring

primrec transaction_management_u16 :: "transaction_management_type \<Rightarrow> u16" where
  "transaction_management_u16 GetDtcAddress = 0"
| "transaction_management_u16 (Propagate _) = 1"
| "transaction_management_u16 (Begin _) = 5"
| "transaction_management_u16 Promote = 6"
| "transaction_management_u16 (Commit _ _) = 7"
| "transaction_management_u16 (Rollback _ _) = 8"
| "transaction_management_u16 (Save _) = 9"

text \<open>\<^verbatim>\<open>str::len\<close> counts bytes of UTF-8.\<close>

definition str_len :: "rstring \<Rightarrow> nat" where
  "str_len s = length (as_bytes s)"

definition write_txn_name :: "rstring \<Rightarrow> (write_op list, unit) action" where
  "write_txn_name name = rbind (emits (WByte (word_of_nat (str_len name * 2)))) (\<lambda>_. emits (WString name))"

definition write_txn_name_opt :: "rstring option \<Rightarrow> (write_op list, unit) action" where
  "write_txn_name_opt name = (case name of Some name \<Rightarrow> write_txn_name name | None \<Rightarrow> emits (WByte 0))"

definition serialize_create_txn :: "create_txn_params \<Rightarrow> (write_op list, unit) action" where
  "serialize_create_txn p =
     rbind (emits (WByte (isolation_level_u8 (ct_level p)))) (\<lambda>_. write_txn_name_opt (ct_name p))"

definition serialize_end_txn :: "rstring option \<Rightarrow> create_txn_params option \<Rightarrow> (write_op list, unit) action" where
  "serialize_end_txn name params =
     rbind (write_txn_name_opt name) (\<lambda>_. case params of
         Some p \<Rightarrow> rbind (emits (WByte (push_bit 7 1))) (\<lambda>_. serialize_create_txn p)
       | None \<Rightarrow> emits (WByte 0))"

primrec serialize_txn_params :: "transaction_management_type \<Rightarrow> (write_op list, unit) action" where
  "serialize_txn_params GetDtcAddress = emits (WU16 0)"
| "serialize_txn_params (Propagate payload) =
     rbind (emits (WU16 (word_of_nat (str_len payload * 2)))) (\<lambda>_. emits (WString payload))"
| "serialize_txn_params (Begin p) = serialize_create_txn p"
| "serialize_txn_params Promote = rret ()"
| "serialize_txn_params (Commit name params) = serialize_end_txn name params"
| "serialize_txn_params (Rollback name params) = serialize_end_txn name params"
| "serialize_txn_params (Save payload) =
     (if payload = [] then rfail (Io ''Saving a transaction without a savepoint name. Savepoint name must be non-empty.'')
      else write_txn_name payload)"


section \<open>Requests\<close>

record sql_batch =
  sb_sql_command :: rstring
  sb_headers :: "tds_headers list"

definition sql_batch_new :: "rstring \<Rightarrow> execution_context \<Rightarrow> sql_batch" where
  "sql_batch_new command ec = \<lparr>sb_sql_command = command, sb_headers = [header_from_context ec]\<rparr>"

definition serialize_sql_batch :: "sql_batch \<Rightarrow> (write_op list, unit) action" where
  "serialize_sql_batch b = rbind (write_headers (sb_headers b)) (\<lambda>_. emits (WString (sb_sql_command b)))"

record transaction_management_request =
  tm_headers :: "tds_headers list"
  tm_params :: transaction_management_type

definition transaction_request_new :: "transaction_management_type \<Rightarrow> execution_context \<Rightarrow> transaction_management_request" where
  "transaction_request_new t ec =
     \<lparr>tm_headers = [TransactionDescriptor (ec_transaction_descriptor ec) (ec_outstanding_requests ec)], tm_params = t\<rparr>"

definition serialize_transaction :: "transaction_management_request \<Rightarrow> (write_op list, unit) action" where
  "serialize_transaction r =
     rbind (write_headers (tm_headers r)) (\<lambda>_. rbind (emits (WU16 (transaction_management_u16 (tm_params r)))) (\<lambda>_.
       serialize_txn_params (tm_params r)))"

definition serialize_attention :: "(write_op list, unit) action" where
  "serialize_attention = write_headers []"

definition serialize_fed_auth_token :: "bytes \<Rightarrow> (write_op list, unit) action" where
  "serialize_fed_auth_token access_token_bytes =
     (let len = length access_token_bytes + 4 in
      rbind (emits (WU32 (word_of_nat len))) (\<lambda>_. rbind (emits (WU32 (word_of_nat (length access_token_bytes)))) (\<lambda>_.
      emits (WBytes access_token_bytes))))"

definition serialize_sspi :: "bytes \<Rightarrow> (write_op list, unit) action" where
  "serialize_sspi token_data = emits (WBytes token_data)"

text \<open>The implementors of \<^verbatim>\<open>Request\<close> of these files.\<close>

datatype request =
    SqlBatchRequest sql_batch
  | TransactionRequest transaction_management_request
  | AttentionRequest
  | FedAuthTokenRequest bytes
  | SspiRequest bytes

primrec request_packet_type :: "request \<Rightarrow> packet_type" where
  "request_packet_type (SqlBatchRequest _) = SqlBatch"
| "request_packet_type (TransactionRequest _) = TransactionManager"
| "request_packet_type AttentionRequest = Attention"
| "request_packet_type (FedAuthTokenRequest _) = FedAuthToken"
| "request_packet_type (SspiRequest _) = SSPI_Packet"

primrec serialize_request :: "request \<Rightarrow> (write_op list, unit) action" where
  "serialize_request (SqlBatchRequest b) = serialize_sql_batch b"
| "serialize_request (TransactionRequest r) = serialize_transaction r"
| "serialize_request AttentionRequest = serialize_attention"
| "serialize_request (FedAuthTokenRequest bs) = serialize_fed_auth_token bs"
| "serialize_request (SspiRequest bs) = serialize_sspi bs"


section \<open>What a request says\<close>

text \<open>A header with its length and type before its data, and a block of headers behind its total length.\<close>

primrec header_data :: "tds_headers \<Rightarrow> bytes" where
  "header_data (TransactionDescriptor descriptor count) = to_le_u64 descriptor @ to_le_u32 count"
| "header_data (TraceActivity ident seq) = ident @ to_le_u32 seq"
| "header_data (QueryNotifications data) = data"

definition header_wire :: "tds_headers \<Rightarrow> bytes" where
  "header_wire h = to_le_u32 (word_of_nat (6 + length (header_data h))) @ to_le_u16 (header_type h) @ header_data h"

definition all_headers_wire :: "tds_headers list \<Rightarrow> bytes" where
  "all_headers_wire hs = (let body = concat (map header_wire hs) in to_le_u32 (word_of_nat (4 + length body)) @ body)"

text \<open>Text as UTF-16, behind the number of its bytes where it is a name.\<close>

definition utf16_wire :: "rstring \<Rightarrow> bytes" where
  "utf16_wire s = units_le (encode_utf16 s)"

definition name_wire :: "rstring option \<Rightarrow> bytes" where
  "name_wire name = (case name of None \<Rightarrow> [0] | Some s \<Rightarrow> word_of_nat (length (utf16_wire s)) # utf16_wire s)"

definition create_txn_wire :: "create_txn_params \<Rightarrow> bytes" where
  "create_txn_wire p = isolation_level_u8 (ct_level p) # name_wire (ct_name p)"

definition end_txn_wire :: "rstring option \<Rightarrow> create_txn_params option \<Rightarrow> bytes" where
  "end_txn_wire name params = name_wire name @ (case params of None \<Rightarrow> [0] | Some p \<Rightarrow> 0x80 # create_txn_wire p)"

primrec txn_params_wire :: "transaction_management_type \<Rightarrow> bytes" where
  "txn_params_wire GetDtcAddress = to_le_u16 0"
| "txn_params_wire (Propagate s) = to_le_u16 (word_of_nat (length (utf16_wire s))) @ utf16_wire s"
| "txn_params_wire (Begin p) = create_txn_wire p"
| "txn_params_wire Promote = []"
| "txn_params_wire (Commit name params) = end_txn_wire name params"
| "txn_params_wire (Rollback name params) = end_txn_wire name params"
| "txn_params_wire (Save s) = name_wire (Some s)"

primrec request_wire :: "request \<Rightarrow> bytes" where
  "request_wire (SqlBatchRequest b) = all_headers_wire (sb_headers b) @ utf16_wire (sb_sql_command b)"
| "request_wire (TransactionRequest r) =
     all_headers_wire (tm_headers r) @ to_le_u16 (transaction_management_u16 (tm_params r)) @ txn_params_wire (tm_params r)"
| "request_wire AttentionRequest = all_headers_wire []"
| "request_wire (FedAuthTokenRequest bs) = to_le_u32 (word_of_nat (4 + length bs)) @ to_le_u32 (word_of_nat (length bs)) @ bs"
| "request_wire (SspiRequest bs) = bs"

text \<open>The texts of a request that are sent behind a length.\<close>

definition params_names :: "create_txn_params option \<Rightarrow> rstring list" where
  "params_names p = (case p of None \<Rightarrow> [] | Some p \<Rightarrow> case ct_name p of None \<Rightarrow> [] | Some s \<Rightarrow> [s])"

primrec txn_names :: "transaction_management_type \<Rightarrow> rstring list" where
  "txn_names GetDtcAddress = []"
| "txn_names (Propagate s) = [s]"
| "txn_names (Begin p) = params_names (Some p)"
| "txn_names Promote = []"
| "txn_names (Commit name params) = (case name of None \<Rightarrow> [] | Some s \<Rightarrow> [s]) @ params_names params"
| "txn_names (Rollback name params) = (case name of None \<Rightarrow> [] | Some s \<Rightarrow> [s]) @ params_names params"
| "txn_names (Save s) = [s]"

primrec request_names :: "request \<Rightarrow> rstring list" where
  "request_names (SqlBatchRequest b) = []"
| "request_names (TransactionRequest r) = txn_names (tm_params r)"
| "request_names AttentionRequest = []"
| "request_names (FedAuthTokenRequest bs) = []"
| "request_names (SspiRequest bs) = []"

text \<open>
  Requests within the limits: texts are Unicode and names fit their length byte, headers are of the
  kinds that are sent, and a savepoint has a name.
\<close>

definition header_ok :: "tds_headers \<Rightarrow> bool" where
  "header_ok h = (case h of TransactionDescriptor _ _ \<Rightarrow> True | TraceActivity ident _ \<Rightarrow> length ident = 16 | QueryNotifications _ \<Rightarrow> False)"

definition headers_ok :: "tds_headers list \<Rightarrow> bool" where
  "headers_ok hs \<longleftrightarrow> list_all header_ok hs"

definition name_fits :: "rstring \<Rightarrow> bool" where
  "name_fits s \<longleftrightarrow> valid_string s \<and> 2 * str_len s < 256"

primrec request_ok :: "request \<Rightarrow> bool" where
  "request_ok (SqlBatchRequest b) \<longleftrightarrow> headers_ok (sb_headers b) \<and> valid_string (sb_sql_command b)"
| "request_ok (TransactionRequest r) \<longleftrightarrow> headers_ok (tm_headers r) \<and> tm_params r \<noteq> Save [] \<and>
     list_all name_fits (txn_names (tm_params r))"
| "request_ok AttentionRequest \<longleftrightarrow> True"
| "request_ok (FedAuthTokenRequest bs) \<longleftrightarrow> True"
| "request_ok (SspiRequest bs) \<longleftrightarrow> bs \<noteq> []"

definition ascii_string :: "rstring \<Rightarrow> bool" where
  "ascii_string s \<longleftrightarrow> list_all (\<lambda>c. c < 128) s"


section \<open>Delivery\<close>

definition puts_message :: "packet_type \<Rightarrow> network_writer \<Rightarrow> bytes \<Rightarrow> packet_writer \<Rightarrow> bool" where
  "puts_message ty net payload w \<longleftrightarrow> pw_message_complete w \<and> (\<exists>chunks rest.
     map snd (nw_wire (pw_net w)) = map snd (nw_wire net) @ full_message ty (ms_reset (message_of ty net)) chunks rest \<and>
     (\<forall>c \<in> set chunks. length c = nw_packet_size net - 8) \<and> length rest \<le> nw_packet_size net - 8 \<and> concat chunks @ rest = payload)"

lemma send_request_delivers:
  assumes "ser [] = (Inr (), ops)" and "\<forall>x \<in> set ops. op_wf x" and "ops_bytes ops \<noteq> []"
    and "pw_new ty net timeout handle = Inr w" "writable net" "healthy w"
  shows "\<exists>w'. send_request ser w = (Inr (), w') \<and> puts_message ty net (ops_bytes ops) w'"
proof -
  have eq: "send_request ser = write_message ops" by (simp add: send_request_def write_message_def assms(1))
  have open_w: "pw_open True (message_of ty net) [] w" using assms(4-6) by (intro pw_new_open) auto
  obtain r w' where wr: "write_message ops w = (r, w')" by (rule prod.exhaust)
  from write_message_out [OF open_w assms(2) wr] assms(3) have "r = Inr ()" "pw_complete (message_of ty net) (ops_bytes ops) w'"
    by (auto split: sum.splits)
  with wr eq show ?thesis by (fastforce simp: pw_complete_def puts_message_def message_of_def Let_def)
qed

text \<open>\<open>says\<close>: the serializer appends well-formed calls that denote the bytes.\<close>

definition says :: "(write_op list, unit) action \<Rightarrow> bytes \<Rightarrow> bool" where
  "says m b \<longleftrightarrow> (\<forall>ops. \<exists>xs. m ops = (Inr (), ops @ xs) \<and> (\<forall>x \<in> set xs. op_wf x) \<and> ops_bytes xs = b)"

lemma says_emits: "op_wf x \<Longrightarrow> b = op_bytes x \<Longrightarrow> says (emits x) b"
  by (auto simp: says_def emits_def ops_bytes_def intro: exI [of _ "[x]"])

lemma says_rret: "b = [] \<Longrightarrow> says (rret ()) b"
  by (auto simp: says_def ops_bytes_def)

lemma says_bind: "says m b \<Longrightarrow> says n c \<Longrightarrow> d = b @ c \<Longrightarrow> says (rbind m (\<lambda>_. n)) d"
  unfolding says_def
proof (intro allI)
  fix ops assume "\<forall>ops. \<exists>xs. m ops = (Inr (), ops @ xs) \<and> (\<forall>x \<in> set xs. op_wf x) \<and> ops_bytes xs = b"
    "\<forall>ops. \<exists>xs. n ops = (Inr (), ops @ xs) \<and> (\<forall>x \<in> set xs. op_wf x) \<and> ops_bytes xs = c" "d = b @ c"
  then obtain xs ys where "m ops = (Inr (), ops @ xs)" "n (ops @ xs) = (Inr (), (ops @ xs) @ ys)" "\<forall>x \<in> set xs. op_wf x" "\<forall>x \<in> set ys. op_wf x"
    "ops_bytes xs @ ops_bytes ys = d" by metis
  then show "\<exists>xs. rbind m (\<lambda>_. n) ops = (Inr (), ops @ xs) \<and> (\<forall>x \<in> set xs. op_wf x) \<and> ops_bytes xs = d"
    by (intro exI [of _ "xs @ ys"]) (auto simp: rbind_def ops_bytes_def)
qed

lemma says_run_steps: "(\<And>x. x \<in> set xs \<Longrightarrow> says (f x) (g x)) \<Longrightarrow> says (run_steps f xs) (concat (map g xs))"
  by (induction xs) (auto intro: says_rret says_bind simp del: rret_apply)

lemma says_delivers:
  assumes "says ser b" "b \<noteq> []" "pw_new ty net timeout handle = Inr w" "writable net" "healthy w"
  shows "\<exists>w'. send_request ser w = (Inr (), w') \<and> puts_message ty net b w'"
proof -
  from assms(1) obtain ops where "ser [] = (Inr (), ops)" "\<forall>x \<in> set ops. op_wf x" "ops_bytes ops = b"
    unfolding says_def by (metis append_Nil)
  with send_request_delivers [of ser ops] assms(2-5) show ?thesis by metis
qed


section \<open>Laws\<close>

lemma header_says:
  assumes "header_ok h"
  shows "says (write_header h) (header_wire h)" "word_of_nat (length (header_wire h)) = calculate_length h"
  using assms
  by (cases h; auto simp: header_ok_def header_wire_def Let_def codec_simps intro!: says_bind says_emits)+


lemma headers_say:
  assumes "headers_ok hs"
  shows "says (write_headers hs) (all_headers_wire hs)"
proof -
  have sum: "foldl (\<lambda>n h. n + calculate_length h) a hs = a + word_of_nat (length (concat (map header_wire hs)))" for a
    using assms unfolding headers_ok_def by (induction hs arbitrary: a) (simp_all add: header_says(2))
  have steps: "says (run_steps write_header hs) (concat (map header_wire hs))"
    using assms unfolding headers_ok_def by (intro says_run_steps header_says(1)) (simp add: list_all_iff)
  show ?thesis unfolding write_headers_def by (rule says_bind [OF says_emits steps]) (simp_all add: all_headers_wire_def Let_def sum)
qed

lemma str_len_utf16:
  assumes "valid_string s"
  shows "length (utf16_wire s) \<le> 2 * str_len s" "length (utf16_wire s) = 2 * str_len s \<longleftrightarrow> ascii_string s"
proof -
  have len: "length (char_utf16 c) \<le> length (char_utf8 c) \<and> (length (char_utf16 c) = length (char_utf8 c) \<longleftrightarrow> c < 128)" if "is_scalar c" for c
    using that by (auto simp: char_utf16_def char_utf8_def is_scalar_def)
  have "length (encode_utf16 s) \<le> length (as_bytes s) \<and> (length (encode_utf16 s) = length (as_bytes s) \<longleftrightarrow> ascii_string s)"
    using assms
  proof (induction s)
    case (Cons c s)
    then show ?case using len [of c] by (auto simp: ascii_string_def)
  qed (simp add: ascii_string_def)
  then show "length (utf16_wire s) \<le> 2 * str_len s" "length (utf16_wire s) = 2 * str_len s \<longleftrightarrow> ascii_string s"
    by (auto simp: utf16_wire_def str_len_def)
qed

lemma name_length_byte:
  assumes "name_fits s"
  shows "(word_of_nat (str_len s * 2) :: u8) = word_of_nat (length (utf16_wire s)) \<longleftrightarrow> ascii_string s"
    and "(word_of_nat (str_len s * 2) :: u16) = word_of_nat (length (utf16_wire s)) \<longleftrightarrow> ascii_string s"
proof -
  note l = str_len_utf16 [of s] assms [unfolded name_fits_def]
  have eq8: "(word_of_nat a :: u8) = word_of_nat b \<longleftrightarrow> a = b" if "a < 256" "b < 256" for a b
    using that by (metis unat_of_nat_u8)
  have eq16: "(word_of_nat a :: u16) = word_of_nat b \<longleftrightarrow> a = b" if "a < 256" "b < 256" for a b
  proof -
    have "unat (word_of_nat a :: u16) = a" "unat (word_of_nat b :: u16) = b" using that by (simp_all add: unat_of_nat_u16)
    then show ?thesis by metis
  qed
  have "str_len s * 2 < 256" "length (utf16_wire s) < 256" using l by linarith+
  from eq8 [OF this] eq16 [OF this] show "(word_of_nat (str_len s * 2) :: u8) = word_of_nat (length (utf16_wire s)) \<longleftrightarrow> ascii_string s"
    "(word_of_nat (str_len s * 2) :: u16) = word_of_nat (length (utf16_wire s)) \<longleftrightarrow> ascii_string s"
    using l(2,3) by (simp_all only: mult.commute [of _ 2] eq_commute [of "2 * _"])
qed

lemma name_says:
  assumes "\<And>s. name = Some s \<Longrightarrow> name_fits s"
  shows "\<exists>b. says (write_txn_name_opt name) b \<and> length b = length (name_wire name) \<and> (b = name_wire name \<longleftrightarrow> (\<forall>s. name = Some s \<longrightarrow> ascii_string s))"
proof (cases name)
  case None
  then show ?thesis by (auto simp: write_txn_name_opt_def name_wire_def intro!: exI [of _ "[0]"] says_emits)
next
  case (Some s)
  have "says (write_txn_name s) (word_of_nat (str_len s * 2) # utf16_wire s)"
    unfolding write_txn_name_def using assms [OF Some] by (intro says_bind [OF says_emits says_emits]) (auto simp: utf16_wire_def name_fits_def)
  with Some name_length_byte(1) [OF assms [OF Some]] show ?thesis by (auto simp: write_txn_name_opt_def name_wire_def)
qed

lemma create_txn_says:
  assumes "\<And>s. ct_name p = Some s \<Longrightarrow> name_fits s"
  shows "\<exists>b. says (serialize_create_txn p) b \<and> (b = create_txn_wire p \<longleftrightarrow> (\<forall>s. ct_name p = Some s \<longrightarrow> ascii_string s))"
proof -
  from name_says [of "ct_name p"] assms obtain b where
    b: "says (write_txn_name_opt (ct_name p)) b" "b = name_wire (ct_name p) \<longleftrightarrow> (\<forall>s. ct_name p = Some s \<longrightarrow> ascii_string s)" by blast
  have "says (serialize_create_txn p) (isolation_level_u8 (ct_level p) # b)"
    unfolding serialize_create_txn_def by (rule says_bind [OF says_emits b(1)]) simp_all
  with b(2) show ?thesis by (auto simp: create_txn_wire_def)
qed

lemma end_txn_says:
  assumes "\<And>s. name = Some s \<Longrightarrow> name_fits s" "list_all name_fits (params_names params)"
  shows "\<exists>b. says (serialize_end_txn name params) b \<and>
    (b = end_txn_wire name params \<longleftrightarrow> (\<forall>s. name = Some s \<longrightarrow> ascii_string s) \<and> list_all ascii_string (params_names params))"
proof -
  from name_says [of name] assms(1) obtain b where
    b: "says (write_txn_name_opt name) b" "length b = length (name_wire name)" "b = name_wire name \<longleftrightarrow> (\<forall>s. name = Some s \<longrightarrow> ascii_string s)" by blast
  show ?thesis
  proof (cases params)
    case None
    have "says (serialize_end_txn name params) (b @ [0])"
      unfolding serialize_end_txn_def None option.case by (rule says_bind [OF b(1) says_emits]) simp_all
    with None b show ?thesis by (auto simp: end_txn_wire_def params_names_def)
  next
    case (Some p)
    with assms(2) create_txn_says [of p] obtain c where
      c: "says (serialize_create_txn p) c" "c = create_txn_wire p \<longleftrightarrow> (\<forall>s. ct_name p = Some s \<longrightarrow> ascii_string s)"
      by (auto simp: params_names_def split: option.splits)
    have "says (serialize_end_txn name params) (b @ 0x80 # c)"
      unfolding serialize_end_txn_def Some option.case by (intro says_bind [OF b(1) says_bind [OF says_emits c(1)]]) simp_all
    with Some b c(2) show ?thesis by (auto simp: end_txn_wire_def params_names_def split: option.splits)
  qed
qed


lemma txn_params_say:
  assumes "t \<noteq> Save []" "list_all name_fits (txn_names t)"
  shows "\<exists>b. says (serialize_txn_params t) b \<and> (b = txn_params_wire t \<longleftrightarrow> list_all ascii_string (txn_names t))"
proof (cases t)
  case GetDtcAddress
  then show ?thesis by (auto intro!: exI [of _ "to_le_u16 0"] says_emits)
next
  case (Propagate s)
  have "says (serialize_txn_params t) (to_le_u16 (word_of_nat (str_len s * 2)) @ utf16_wire s)"
    using assms(2) unfolding Propagate by (auto simp: utf16_wire_def name_fits_def intro!: says_bind [OF says_emits says_emits])
  moreover have "to_le_u16 u = to_le_u16 v \<longleftrightarrow> u = v" for u v by (metis le16.dec_enc)
  ultimately show ?thesis using assms(2) name_length_byte(2) [of s] Propagate by (auto simp: append_eq_append_conv codec_simps)
next
  case (Begin p)
  with create_txn_says [of p] assms(2) show ?thesis by (auto simp: params_names_def split: option.splits)
next
  case Promote
  then show ?thesis by (auto simp: says_rret simp del: rret_apply)
next
  case (Commit name params)
  with end_txn_says [of name params] assms(2) show ?thesis by (auto split: option.splits)
next
  case (Rollback name params)
  with end_txn_says [of name params] assms(2) show ?thesis by (auto split: option.splits)
next
  case (Save s)
  with name_says [of "Some s"] assms show ?thesis by (auto simp: write_txn_name_opt_def)
qed

lemma request_says:
  assumes "request_ok r"
  shows "\<exists>b. says (serialize_request r) b \<and> b \<noteq> [] \<and> (b = request_wire r \<longleftrightarrow> list_all ascii_string (request_names r))"
proof -
  have ne32: "to_le_u32 v \<noteq> []" for v
  proof
    assume "to_le_u32 v = []"
    from arg_cong [OF this, of length] show False by (simp add: codec_simps)
  qed
  then have ne: "all_headers_wire hs \<noteq> []" "to_le_u32 v \<noteq> []" for hs v by (simp_all add: all_headers_wire_def Let_def)
  show ?thesis
  proof (cases r)
    case (SqlBatchRequest b)
    have "says (serialize_sql_batch b) (all_headers_wire (sb_headers b) @ utf16_wire (sb_sql_command b))"
      unfolding serialize_sql_batch_def using assms SqlBatchRequest by (intro says_bind [OF headers_say says_emits]) (auto simp: utf16_wire_def)
    with SqlBatchRequest ne show ?thesis by auto
  next
    case (TransactionRequest t)
    with assms txn_params_say [of "tm_params t"] obtain b where
      b: "says (serialize_txn_params (tm_params t)) b" "b = txn_params_wire (tm_params t) \<longleftrightarrow> list_all ascii_string (txn_names (tm_params t))" by auto
    have "says (serialize_transaction t) (all_headers_wire (tm_headers t) @ to_le_u16 (transaction_management_u16 (tm_params t)) @ b)"
      unfolding serialize_transaction_def using assms TransactionRequest
      by (intro says_bind [OF headers_say says_bind [OF says_emits b(1)]]) auto
    with b(2) TransactionRequest ne show ?thesis by auto
  next
    case AttentionRequest
    then show ?thesis using headers_say [of "[]"] ne by (auto simp: serialize_attention_def headers_ok_def)
  next
    case (FedAuthTokenRequest bs)
    have "says (serialize_fed_auth_token bs) (to_le_u32 (word_of_nat (4 + length bs)) @ to_le_u32 (word_of_nat (length bs)) @ bs)"
      unfolding serialize_fed_auth_token_def Let_def by (intro says_bind [OF says_emits says_bind [OF says_emits says_emits]]) (auto simp: add.commute)
    with FedAuthTokenRequest ne show ?thesis by auto
  next
    case (SspiRequest bs)
    then show ?thesis using assms by (auto simp: serialize_sspi_def intro!: exI [of _ bs] says_emits)
  qed
qed


section \<open>Properties\<close>

text \<open>
  C7. Requests on the wire. A SQL batch, transaction manager, attention, access token or SSPI request
  sent on a healthy connection returns \<^verbatim>\<open>Ok\<close> and puts one message of its packet type on the wire. The
  payload is the request as the protocol lays it out, headers behind their lengths and texts in UTF-16
  behind their byte counts, exactly if every transaction name in it is ASCII: the byte count sent before
  a name is computed from its UTF-8 length, so with any other name it exceeds the bytes that follow.
\<close>

theorem requests_delivered:
  assumes "request_ok r" and "pw_new (request_packet_type r) net timeout handle = Inr w" and "writable net" and "healthy w"
  shows "\<exists>w' payload. send_request (serialize_request r) w = (Inr (), w') \<and> puts_message (request_packet_type r) net payload w' \<and>
    (payload = request_wire r \<longleftrightarrow> list_all ascii_string (request_names r))"
proof -
  from request_says [OF assms(1)] obtain b where
    b: "says (serialize_request r) b" "b \<noteq> []" "b = request_wire r \<longleftrightarrow> list_all ascii_string (request_names r)" by blast
  from says_delivers [OF b(1,2) assms(2-4)] b(3) show ?thesis by blast
qed

definition sample_savepoint :: "rstring \<Rightarrow> request" where
  "sample_savepoint name = TransactionRequest (transaction_request_new (Save name) \<lparr>ec_transaction_descriptor = 7, ec_outstanding_requests = 1\<rparr>)"

theorem requests_delivered_witness:
  "(\<exists>w'. send_request (serialize_request (sample_savepoint [115, 49])) (demo_writer TransactionManager) = (Inr (), w') \<and>
      puts_message TransactionManager demo_net (request_wire (sample_savepoint [115, 49])) w') \<and>
   (\<exists>w' payload. send_request (serialize_request (sample_savepoint [233])) (demo_writer TransactionManager) = (Inr (), w') \<and>
      puts_message TransactionManager demo_net payload w' \<and> payload \<noteq> request_wire (sample_savepoint [233]))"
proof -
  have ok: "request_ok (sample_savepoint [115, 49])" "request_ok (sample_savepoint [233])"
    by (simp_all add: sample_savepoint_def transaction_request_new_def headers_ok_def header_ok_def name_fits_def str_len_def is_scalar_def char_utf8_def)
  have ty: "request_packet_type (sample_savepoint n) = TransactionManager" for n by (simp add: sample_savepoint_def)
  show ?thesis
    using requests_delivered [OF ok(1), unfolded ty, OF demo_writer(1) demo_writable demo_writer(2)]
      requests_delivered [OF ok(2), unfolded ty, OF demo_writer(1) demo_writable demo_writer(2)]
    by (auto simp: sample_savepoint_def transaction_request_new_def ascii_string_def)
qed

end
