(* ===== verification/Prelogin.thy ===== *)
theory Prelogin
  imports Requests Token_Safety Token_Content Plp_Buffered
begin

text \<open>
  The pre-login exchange of \<^verbatim>\<open>mssql-tds/src/message/prelogin.rs\<close> and \<^verbatim>\<open>mssql-tds/src/handler/handler_factory.rs\<close>:
  the request with its table of option offsets, the response, and the negotiation of encryption. The
  table of the request points at the data of its options, and a client that asks for encryption goes on
  encrypted or not at all, whatever the server answers.
\<close>

section \<open>Vocabulary\<close>

datatype encryption_type = ET_Off | ET_On | ET_NotSupported | ET_Required | ET_Unknown u8

definition encryption_type_from :: "u8 \<Rightarrow> encryption_type" where
  "encryption_type_from v =
     (if v = 0x00 then ET_Off else if v = 0x01 then ET_On else if v = 0x02 then ET_NotSupported
      else if v = 0x03 then ET_Required else ET_Unknown v)"

primrec encryption_type_u8 :: "encryption_type \<Rightarrow> u8" where
  "encryption_type_u8 ET_Off = 0x00"
| "encryption_type_u8 ET_On = 0x01"
| "encryption_type_u8 ET_NotSupported = 0x02"
| "encryption_type_u8 ET_Required = 0x03"
| "encryption_type_u8 (ET_Unknown v) = v"

datatype option_type =
    OT_Version | OT_Encryption | OT_InstOpt | OT_ThreadId | OT_Mars | OT_TraceId | OT_FedAuthRequired | OT_Nonce
  | OT_Terminator | OT_Unknown u8

definition option_type_from :: "u8 \<Rightarrow> option_type" where
  "option_type_from v =
     (if v = 0x00 then OT_Version else if v = 0x01 then OT_Encryption else if v = 0x02 then OT_InstOpt
      else if v = 0x03 then OT_ThreadId else if v = 0x04 then OT_Mars else if v = 0x05 then OT_TraceId
      else if v = 0x06 then OT_FedAuthRequired else if v = 0x07 then OT_Nonce else if v = 0xff then OT_Terminator
      else OT_Unknown v)"

primrec option_type_u8 :: "option_type \<Rightarrow> u8" where
  "option_type_u8 OT_Version = 0x00"
| "option_type_u8 OT_Encryption = 0x01"
| "option_type_u8 OT_InstOpt = 0x02"
| "option_type_u8 OT_ThreadId = 0x03"
| "option_type_u8 OT_Mars = 0x04"
| "option_type_u8 OT_TraceId = 0x05"
| "option_type_u8 OT_FedAuthRequired = 0x06"
| "option_type_u8 OT_Nonce = 0x07"
| "option_type_u8 OT_Terminator = 0xff"
| "option_type_u8 (OT_Unknown v) = v"

datatype encryption_setting = ES_PreferOff | ES_On | ES_Required | ES_Strict

record prelogin_request_model =
  pm_version_major :: u8
  pm_version_minor :: u8
  pm_version_build :: u16
  pm_connection_id :: bytes
  pm_activity_id :: bytes
  pm_activity_sequence_number :: u32
  pm_mars_enabled :: bool
  pm_encryption_setting :: encryption_setting
  pm_database_instance :: rstring
  pm_fed_auth :: bool

record prelogin_response_model =
  pr_encryption :: encryption_type
  pr_federated_auth_supported :: bool
  pr_dbinstance_valid :: bool
  pr_mars_enabled :: bool
  pr_server_version :: version
  pr_sql_server_version :: u8

definition prelogin_response_new :: prelogin_response_model where
  "prelogin_response_new =
     \<lparr>pr_encryption = ET_Off, pr_federated_auth_supported = False, pr_dbinstance_valid = False, pr_mars_enabled = False,
      pr_server_version = \<lparr>vr_major = 0, vr_minor = 0, vr_build = 0, vr_revision = 0\<rparr>, pr_sql_server_version = 0\<rparr>"

text \<open>The enumeration of server versions, by its values.\<close>

definition sql_server_version_from :: "u8 \<Rightarrow> u8" where
  "sql_server_version_from v = (if 8 \<le> v \<and> v \<le> 17 then v else 0)"


section \<open>The request\<close>

text \<open>\<open>le\<close> is \<^verbatim>\<open>Uuid::to_bytes_le\<close> of the \<^verbatim>\<open>uuid\<close> crate.\<close>

record prelogin_serializer =
  ps_ops :: "write_op list"
  ps_content_next_offset :: u32

definition ps_emit :: "write_op \<Rightarrow> (prelogin_serializer, unit) action" where
  "ps_emit x z = (Inr (), z\<lparr>ps_ops := ps_ops z @ [x]\<rparr>)"

definition write_option_metadata :: "option_type \<Rightarrow> u16 \<Rightarrow> (prelogin_serializer, unit) action" where
  "write_option_metadata opt len =
     rbind (ps_emit (WByte (option_type_u8 opt))) (\<lambda>_ z.
     rbind (ps_emit (WI16Be (ucast (ps_content_next_offset z)))) (\<lambda>_.
     rbind (ps_emit (WI16Be len)) (\<lambda>_ z.
       (Inr (), z\<lparr>ps_content_next_offset := ps_content_next_offset z + ucast len\<rparr>))) z)"

definition write_option_headers :: "prelogin_request_model \<Rightarrow> (prelogin_serializer, unit) action" where
  "write_option_headers m =
     rbind (write_option_metadata OT_Version 6) (\<lambda>_.
     rbind (write_option_metadata OT_Encryption 1) (\<lambda>_.
     rbind (write_option_metadata OT_InstOpt (word_of_nat (length (as_bytes (pm_database_instance m)) + 1))) (\<lambda>_.
     rbind (write_option_metadata OT_ThreadId 4) (\<lambda>_.
     rbind (write_option_metadata OT_Mars 1) (\<lambda>_.
     rbind (write_option_metadata OT_TraceId (16 + 16 + 4)) (\<lambda>_.
       write_option_metadata OT_FedAuthRequired 1))))))"

definition write_terminator :: "(prelogin_serializer, unit) action" where
  "write_terminator =
     rbind (ps_emit (WByte (option_type_u8 OT_Terminator))) (\<lambda>_ z.
       (Inr (), z\<lparr>ps_content_next_offset := ps_content_next_offset z + 1\<rparr>))"

definition write_version :: "prelogin_request_model \<Rightarrow> (prelogin_serializer, unit) action" where
  "write_version m = ps_emit (WBytes ([pm_version_major m, pm_version_minor m] @ to_be_u16 (pm_version_build m) @ [0, 0]))"

definition write_encryption :: "prelogin_request_model \<Rightarrow> (prelogin_serializer, unit) action" where
  "write_encryption m =
     ps_emit (WByte (encryption_type_u8 (case pm_encryption_setting m of
         ES_PreferOff \<Rightarrow> ET_Off | ES_On \<Rightarrow> ET_On | ES_Required \<Rightarrow> ET_Required | _ \<Rightarrow> ET_NotSupported)))"

definition write_inst_opt :: "prelogin_request_model \<Rightarrow> (prelogin_serializer, unit) action" where
  "write_inst_opt m = rbind (ps_emit (WBytes (as_bytes (pm_database_instance m)))) (\<lambda>_. ps_emit (WByte 0))"

definition write_thread_id :: "(prelogin_serializer, unit) action" where
  "write_thread_id = ps_emit (WI32Be 0)"

definition write_mars :: "prelogin_request_model \<Rightarrow> (prelogin_serializer, unit) action" where
  "write_mars m = ps_emit (WByte (if pm_mars_enabled m then 0x01 else 0x00))"

definition write_trace_id :: "(bytes \<Rightarrow> bytes) \<Rightarrow> prelogin_request_model \<Rightarrow> (prelogin_serializer, unit) action" where
  "write_trace_id le m =
     rbind (ps_emit (WBytes (le (pm_connection_id m)))) (\<lambda>_. rbind (ps_emit (WBytes (le (pm_activity_id m)))) (\<lambda>_.
       ps_emit (WU32 (pm_activity_sequence_number m))))"

definition write_fed_auth_required :: "prelogin_request_model \<Rightarrow> (prelogin_serializer, unit) action" where
  "write_fed_auth_required m = ps_emit (WByte (if pm_fed_auth m then 0x01 else 0x00))"

definition prelogin_serialize :: "(bytes \<Rightarrow> bytes) \<Rightarrow> prelogin_request_model \<Rightarrow> (prelogin_serializer, unit) action" where
  "prelogin_serialize le m =
     rbind (write_option_headers m) (\<lambda>_. rbind write_terminator (\<lambda>_.
     rbind (write_version m) (\<lambda>_. rbind (write_encryption m) (\<lambda>_. rbind (write_inst_opt m) (\<lambda>_.
     rbind write_thread_id (\<lambda>_. rbind (write_mars m) (\<lambda>_. rbind (write_trace_id le m) (\<lambda>_.
       write_fed_auth_required m))))))))"

definition serialize_prelogin :: "(bytes \<Rightarrow> bytes) \<Rightarrow> prelogin_request_model \<Rightarrow> (write_op list, unit) action" where
  "serialize_prelogin le m ops =
     (case prelogin_serialize le m \<lparr>ps_ops = ops, ps_content_next_offset = 36\<rparr> of (r, z) \<Rightarrow> (r, ps_ops z))"


section \<open>The response\<close>

text \<open>\<^verbatim>\<open>i16 as usize\<close> extends the sign.\<close>

definition i16_as_usize :: "u16 \<Rightarrow> nat" where
  "i16_as_usize v = (if sint v < 0 then nat (2 ^ 64 + sint v) else nat (sint v))"

text \<open>The table of options up to the terminator; each turn takes five bytes.\<close>

primrec option_contexts :: "'s packet_reader_ops \<Rightarrow> nat \<Rightarrow> (option_type \<times> nat) list \<Rightarrow> ('s, (option_type \<times> nat) list) action" where
  "option_contexts ops 0 contexts = rfail Diverge"
| "option_contexts ops (Suc fuel) contexts =
     rbind (rd_byte ops) (\<lambda>b.
       if b = 0xFF then rret contexts
       else rbind (rd_i16_be ops) (\<lambda>_. rbind (rd_i16_be ops) (\<lambda>len.
         option_contexts ops fuel (contexts @ [(option_type_from b, i16_as_usize len)]))))"

definition read_option :: "'s packet_reader_ops \<Rightarrow> option_type \<times> nat \<Rightarrow> prelogin_response_model \<Rightarrow> ('s, prelogin_response_model) action" where
  "read_option ops ctx m =
     (if snd ctx = 0 then rret m
      else case fst ctx of
        OT_Version \<Rightarrow>
          rbind (rd_byte ops) (\<lambda>major. rbind (rd_byte ops) (\<lambda>minor. rbind (rd_i16_be ops) (\<lambda>build. rbind (rd_i16_be ops) (\<lambda>revision.
            rret (m\<lparr>pr_server_version := \<lparr>vr_major = major, vr_minor = minor, vr_build = build, vr_revision = revision\<rparr>,
                    pr_sql_server_version := sql_server_version_from major\<rparr>)))))
      | OT_Encryption \<Rightarrow> rbind (rd_byte ops) (\<lambda>b. rret (m\<lparr>pr_encryption := encryption_type_from b\<rparr>))
      | OT_InstOpt \<Rightarrow> rbind (rd_byte ops) (\<lambda>b. rret (m\<lparr>pr_dbinstance_valid := (b = 0)\<rparr>))
      | OT_Mars \<Rightarrow> rbind (rd_byte ops) (\<lambda>b. rret (m\<lparr>pr_mars_enabled := (b = 1)\<rparr>))
      | OT_FedAuthRequired \<Rightarrow> rbind (rd_byte ops) (\<lambda>b. rret (m\<lparr>pr_federated_auth_supported := (b = 1)\<rparr>))
      | _ \<Rightarrow> rbind (rd_skip ops (snd ctx)) (\<lambda>_. rret m))"

primrec read_options :: "'s packet_reader_ops \<Rightarrow> (option_type \<times> nat) list \<Rightarrow> prelogin_response_model \<Rightarrow> ('s, prelogin_response_model) action" where
  "read_options ops [] m = rret m"
| "read_options ops (ctx # ctxs) m = rbind (read_option ops ctx m) (\<lambda>m. read_options ops ctxs m)"

definition read_prelogin :: "'s packet_reader_ops \<Rightarrow> nat \<Rightarrow> ('s, prelogin_response_model) action" where
  "read_prelogin ops fuel = rbind (option_contexts ops fuel []) (\<lambda>contexts. read_options ops contexts prelogin_response_new)"

text \<open>\<open>reset\<close> is \<^verbatim>\<open>TdsPacketReader::reset_reader\<close> of the transport.\<close>

definition deserialize_prelogin :: "('s \<Rightarrow> 's) \<Rightarrow> 's packet_reader_ops \<Rightarrow> nat \<Rightarrow> ('s, prelogin_response_model) action" where
  "deserialize_prelogin reset ops fuel s = read_prelogin ops fuel (reset s)"


section \<open>Negotiation\<close>

definition negotiate_encryption :: "encryption_setting \<Rightarrow> encryption_type \<Rightarrow> negotiated_encryption tds_result" where
  "negotiate_encryption setting server =
     (if setting = ES_Strict then Inr Strict
      else case server of
        ET_Off \<Rightarrow> if setting = ES_PreferOff then Inr LoginOnly
                  else Inl (ProtocolError ''Server disallowed encryption but client requires it'')
      | ET_NotSupported \<Rightarrow> if setting = ES_PreferOff then Inr NoEncryption
                  else Inl (ProtocolError ''Server does not support encryption but client requires it'')
      | _ \<Rightarrow> Inr Mandatory)"

record prelogin_result =
  pl_client_connection_id :: bytes
  pl_encryption_setting :: negotiated_encryption
  pl_is_fed_auth_supported :: bool

definition prelogin_outcome :: "('s \<Rightarrow> 's) \<Rightarrow> 's packet_reader_ops \<Rightarrow> nat \<Rightarrow> prelogin_request_model \<Rightarrow> ('s, prelogin_result) action" where
  "prelogin_outcome reset ops fuel m =
     rbind (deserialize_prelogin reset ops fuel) (\<lambda>response.
       if pm_mars_enabled m \<and> \<not> pr_mars_enabled response
       then rfail (ProtocolError ''Server does not support MARS (Multiple Active Result Sets)'')
       else rbind (rlift (negotiate_encryption (pm_encryption_setting m) (pr_encryption response))) (\<lambda>e.
         rret \<lparr>pl_client_connection_id = pm_connection_id m, pl_encryption_setting = e, pl_is_fed_auth_supported = pr_federated_auth_supported response\<rparr>))"

text \<open>Between the negotiation and the login message: TLS is started unless it is in use already or not wanted.\<close>

definition begin_login :: "prelogin_result \<Rightarrow> unit tds_result \<Rightarrow> (network_writer, unit) action" where
  "begin_login res handshake =
     rbind (notify_encryption_negotiation (pl_encryption_setting res)) (\<lambda>_ n.
       let encryption = get_encryption_setting n in
       if encryption \<noteq> Strict \<and> encryption \<noteq> NoEncryption then enable_ssl handshake n else (Inr (), n))"


section \<open>Option tables\<close>

text \<open>A table of options: type, offset and length each, a terminator, and the data in the same order.\<close>

fun option_table :: "nat \<Rightarrow> (u8 \<times> bytes) list \<Rightarrow> bytes" where
  "option_table off [] = []"
| "option_table off ((t, d) # os) = t # to_be_u16 (word_of_nat off) @ to_be_u16 (word_of_nat (length d)) @ option_table (off + length d) os"

definition option_wire :: "(u8 \<times> bytes) list \<Rightarrow> bytes" where
  "option_wire os = option_table (5 * length os + 1) os @ 0xFF # concat (map snd os)"

definition request_options :: "(bytes \<Rightarrow> bytes) \<Rightarrow> prelogin_request_model \<Rightarrow> (u8 \<times> bytes) list" where
  "request_options le m =
     [(0, [pm_version_major m, pm_version_minor m] @ to_be_u16 (pm_version_build m) @ [0, 0]),
      (1, [case pm_encryption_setting m of ES_PreferOff \<Rightarrow> 0 | ES_On \<Rightarrow> 1 | ES_Required \<Rightarrow> 3 | ES_Strict \<Rightarrow> 2]),
      (2, as_bytes (pm_database_instance m) @ [0]),
      (3, [0, 0, 0, 0]),
      (4, [if pm_mars_enabled m then 1 else 0]),
      (5, le (pm_connection_id m) @ le (pm_activity_id m) @ to_le_u32 (pm_activity_sequence_number m)),
      (6, [if pm_fed_auth m then 1 else 0])]"

text \<open>The entry of an option, read back from the payload.\<close>

definition table_entry :: "bytes \<Rightarrow> nat \<Rightarrow> u8 \<times> nat \<times> nat" where
  "table_entry p i = (p ! (5 * i), unat (from_be_u16 (seg (5 * i + 1) (5 * i + 3) p)), unat (from_be_u16 (seg (5 * i + 3) (5 * i + 5) p)))"

lemma option_table_length [simp]: "length (option_table off os) = 5 * length os"
  by (induction off os rule: option_table.induct) (simp_all add: codec_simps)

lemma option_table_drop:
  "i < length os \<Longrightarrow> \<exists>more. drop (5 * i) (option_table off os) =
     fst (os ! i) # to_be_u16 (word_of_nat (off + length (concat (map snd (take i os))))) @ to_be_u16 (word_of_nat (length (snd (os ! i)))) @ more"
proof (induction off os arbitrary: i rule: option_table.induct)
  case (2 off t d os)
  show ?case
  proof (cases i)
    case (Suc j)
    with 2 obtain more where "drop (5 * j) (option_table (off + length d) os) =
       fst (os ! j) # to_be_u16 (word_of_nat (off + length d + length (concat (map snd (take j os))))) @ to_be_u16 (word_of_nat (length (snd (os ! j)))) @ more" by auto
    moreover have "drop 5 (option_table off ((t, d) # os)) = option_table (off + length d) os" by (simp add: codec_simps)
    then have "drop (5 * i) (option_table off ((t, d) # os)) = drop (5 * j) (option_table (off + length d) os)"
      unfolding Suc by (metis add.commute drop_drop mult_Suc_right)
    ultimately show ?thesis using Suc by (simp add: add.assoc)
  qed auto
qed simp

lemma option_wire_entry:
  assumes "i < length os" "length (option_wire os) < 65536"
  shows "table_entry (option_wire os) i = (fst (os ! i), 5 * length os + 1 + length (concat (map snd (take i os))), length (snd (os ! i)))"
    and "seg (5 * length os + 1 + length (concat (map snd (take i os)))) (5 * length os + 1 + length (concat (map snd (take i os))) + length (snd (os ! i))) (option_wire os) = snd (os ! i)"
proof -
  define off where "off = 5 * length os + 1 + length (concat (map snd (take i os)))"
  have split: "os = take i os @ os ! i # drop (Suc i) os" using assms(1) by (rule id_take_nth_drop)
  have data: "concat (map snd os) = concat (map snd (take i os)) @ snd (os ! i) @ concat (map snd (drop (Suc i) os))"
    by (subst split) simp
  have bound: "off < 65536" "length (snd (os ! i)) < 65536"
    using assms(2) by (simp_all add: option_wire_def data off_def)
  from option_table_drop [OF assms(1), of "5 * length os + 1"] obtain more where
    d: "drop (5 * i) (option_wire os) = fst (os ! i) # to_be_u16 (word_of_nat off) @ to_be_u16 (word_of_nat (length (snd (os ! i)))) @ more @ 0xFF # concat (map snd os)"
    using assms(1) by (auto simp: option_wire_def off_def)
  have "5 * i < length (option_wire os)" using assms(1) by (simp add: option_wire_def)
  then have hd: "option_wire os ! (5 * i) = fst (os ! i)" using arg_cong [OF d, of hd] by (simp add: hd_drop_conv_nth)
  have shift: "seg (5 * i + a) (5 * i + b) (option_wire os) = seg a b (drop (5 * i) (option_wire os))" for a b
    by (simp add: seg_def add.commute)
  have cut: "seg 1 3 (t # to_be_u16 u @ to_be_u16 v @ q) = to_be_u16 u" "seg 3 5 (t # to_be_u16 u @ to_be_u16 v @ q) = to_be_u16 v" for t u v q
    by (simp_all add: seg_def codec_simps)
  have "table_entry (option_wire os) i = (fst (os ! i), unat (word_of_nat off :: u16), unat (word_of_nat (length (snd (os ! i))) :: u16))"
    unfolding table_entry_def hd shift d cut be16.dec_enc ..
  then show "table_entry (option_wire os) i = (fst (os ! i), 5 * length os + 1 + length (concat (map snd (take i os))), length (snd (os ! i)))"
    using bound by (simp only: unat_of_nat_u16) (simp add: off_def)
  have middle: "seg n (n + length y) (x @ y @ z) = y" if "length x = n" for n and x y z :: bytes using that by (auto simp: seg_def)
  have "option_wire os = (option_table (5 * length os + 1) os @ 0xFF # concat (map snd (take i os))) @ snd (os ! i) @ concat (map snd (drop (Suc i) os))"
    by (simp add: option_wire_def data)
  then show "seg (5 * length os + 1 + length (concat (map snd (take i os)))) (5 * length os + 1 + length (concat (map snd (take i os))) + length (snd (os ! i))) (option_wire os) = snd (os ! i)"
    by (simp only:) (rule middle, simp)
qed


section \<open>The request on the wire\<close>

text \<open>\<open>psays m b n k\<close>: from offset \<open>n\<close> the step writes \<open>b\<close> and moves the offset to \<open>k\<close>.\<close>

definition psays :: "(prelogin_serializer, unit) action \<Rightarrow> bytes \<Rightarrow> nat \<Rightarrow> nat \<Rightarrow> bool" where
  "psays m b n k \<longleftrightarrow> (\<forall>z. ps_content_next_offset z = word_of_nat n \<longrightarrow> (\<exists>xs. m z = (Inr (), z\<lparr>ps_ops := ps_ops z @ xs, ps_content_next_offset := word_of_nat k\<rparr>) \<and>
     (\<forall>x \<in> set xs. op_wf x) \<and> ops_bytes xs = b))"

lemma psays_emit: "op_wf x \<Longrightarrow> b = op_bytes x \<Longrightarrow> psays (ps_emit x) b n n"
  unfolding psays_def by (auto simp: ps_emit_def ops_bytes_def intro!: exI [of _ "[x]"])

lemma psays_bind: "psays m b n k \<Longrightarrow> psays f c k l \<Longrightarrow> d = b @ c \<Longrightarrow> psays (rbind m (\<lambda>_. f)) d n l"
  unfolding psays_def
proof (intro allI impI)
  fix z :: prelogin_serializer assume m: "\<forall>z. ps_content_next_offset z = word_of_nat n \<longrightarrow> (\<exists>xs. m z = (Inr (), z\<lparr>ps_ops := ps_ops z @ xs, ps_content_next_offset := word_of_nat k\<rparr>) \<and>
      (\<forall>x \<in> set xs. op_wf x) \<and> ops_bytes xs = b)"
    and f: "\<forall>z. ps_content_next_offset z = word_of_nat k \<longrightarrow> (\<exists>xs. f z = (Inr (), z\<lparr>ps_ops := ps_ops z @ xs, ps_content_next_offset := word_of_nat l\<rparr>) \<and>
      (\<forall>x \<in> set xs. op_wf x) \<and> ops_bytes xs = c)" and d: "d = b @ c" and z: "ps_content_next_offset z = word_of_nat n"
  from m z obtain xs where xs: "m z = (Inr (), z\<lparr>ps_ops := ps_ops z @ xs, ps_content_next_offset := word_of_nat k\<rparr>)" "\<forall>x \<in> set xs. op_wf x" "ops_bytes xs = b" by blast
  from f [rule_format, of "z\<lparr>ps_ops := ps_ops z @ xs, ps_content_next_offset := word_of_nat k\<rparr>"] obtain ys where "f (z\<lparr>ps_ops := ps_ops z @ xs, ps_content_next_offset := word_of_nat k\<rparr>) = (Inr (), z\<lparr>ps_ops := (ps_ops z @ xs) @ ys, ps_content_next_offset := word_of_nat l\<rparr>)"
    "\<forall>x \<in> set ys. op_wf x" "ops_bytes ys = c" by auto
  with xs d show "\<exists>xs. rbind m (\<lambda>_. f) z = (Inr (), z\<lparr>ps_ops := ps_ops z @ xs, ps_content_next_offset := word_of_nat l\<rparr>) \<and> (\<forall>x \<in> set xs. op_wf x) \<and> ops_bytes xs = d"
    by (intro exI [of _ "xs @ ys"]) (auto simp: rbind_def ops_bytes_def)
qed

lemma psays_entry:
  assumes "n < 65536" "len < 65536" "k = n + len" "v = word_of_nat len" "b = option_type_u8 opt # to_be_u16 (word_of_nat n) @ to_be_u16 (word_of_nat len)"
  shows "psays (write_option_metadata opt v) b n k"
proof -
  have "(ucast (word_of_nat n :: u32) :: u16) = word_of_nat n" "(ucast (word_of_nat len :: u16) :: u32) = word_of_nat len"
    using assms(1,2) by (simp_all add: unsigned_of_nat take_bit_nat_eq_self)
  then show ?thesis using assms(3-5)
    unfolding psays_def by (auto simp: write_option_metadata_def ps_emit_def rbind_def ops_bytes_def
        intro!: exI [of _ "[WByte (option_type_u8 opt), WI16Be (word_of_nat n), WI16Be (word_of_nat len)]"])
qed

lemma psays_terminator: "k = n + 1 \<Longrightarrow> psays write_terminator [0xFF] n k"
  unfolding psays_def by (auto simp: write_terminator_def ps_emit_def rbind_def ops_bytes_def intro!: exI [of _ "[WByte 0xFF]"])

lemma serialize_prelogin_says:
  assumes "length (le (pm_connection_id m)) = 16" "length (le (pm_activity_id m)) = 16" "length (as_bytes (pm_database_instance m)) + 86 < 65536"
  shows "says (serialize_prelogin le m) (option_wire (request_options le m))"
proof -
  let ?n = "length (as_bytes (pm_database_instance m))" and ?os = "request_options le m"
  have head: "psays (write_option_headers m) (option_table 36 ?os) 36 (86 + ?n)"
    unfolding write_option_headers_def
    by (rule psays_bind [OF psays_entry [of 36 6 42] psays_bind [OF psays_entry [of 42 1 43] psays_bind [OF psays_entry [of 43 "?n + 1" "44 + ?n"]
        psays_bind [OF psays_entry [of "44 + ?n" 4 "48 + ?n"] psays_bind [OF psays_entry [of "48 + ?n" 1 "49 + ?n"]
        psays_bind [OF psays_entry [of "49 + ?n" 36 "85 + ?n"] psays_entry [of "85 + ?n" 1 "86 + ?n"]]]]]]])
       (use assms in \<open>(simp_all add: request_options_def codec_simps add.commute)+\<close>)
  let ?enc = "encryption_type_u8 (case pm_encryption_setting m of ES_PreferOff \<Rightarrow> ET_Off | ES_On \<Rightarrow> ET_On | ES_Required \<Rightarrow> ET_Required | _ \<Rightarrow> ET_NotSupported)"
  have "psays (rbind (write_version m) (\<lambda>_. rbind (write_encryption m) (\<lambda>_. rbind (write_inst_opt m) (\<lambda>_.
     rbind write_thread_id (\<lambda>_. rbind (write_mars m) (\<lambda>_. rbind (write_trace_id le m) (\<lambda>_. write_fed_auth_required m)))))))
     (op_bytes (WBytes ([pm_version_major m, pm_version_minor m] @ to_be_u16 (pm_version_build m) @ [0, 0])) @ op_bytes (WByte ?enc) @
      op_bytes (WBytes (as_bytes (pm_database_instance m))) @ op_bytes (WByte 0) @ op_bytes (WI32Be 0) @ op_bytes (WByte (if pm_mars_enabled m then 0x01 else 0x00)) @
      op_bytes (WBytes (le (pm_connection_id m))) @ op_bytes (WBytes (le (pm_activity_id m))) @ op_bytes (WU32 (pm_activity_sequence_number m)) @
      op_bytes (WByte (if pm_fed_auth m then 0x01 else 0x00))) k k" for k
    unfolding write_version_def write_encryption_def write_inst_opt_def write_thread_id_def write_mars_def write_trace_id_def write_fed_auth_required_def rbind_assoc
    by (rule psays_bind [OF _ _ refl] psays_emit [OF _ refl] | simp)+
  moreover have "(4 :: nat) = Suc (Suc (Suc (Suc 0)))" by simp
  then have "to_be_u32 0 = [0, 0, 0, 0]" unfolding to_be_u32_def by (simp only:) simp
  ultimately have tail: "psays (rbind (write_version m) (\<lambda>_. rbind (write_encryption m) (\<lambda>_. rbind (write_inst_opt m) (\<lambda>_.
     rbind write_thread_id (\<lambda>_. rbind (write_mars m) (\<lambda>_. rbind (write_trace_id le m) (\<lambda>_. write_fed_auth_required m)))))))
     (concat (map snd ?os)) k k" for k
    by (cases "pm_encryption_setting m") (simp_all add: request_options_def)
  have ps: "psays (prelogin_serialize le m) (option_wire ?os) 36 (87 + ?n)"
    unfolding prelogin_serialize_def
    by (rule psays_bind [OF head psays_bind [OF psays_terminator tail]]) (simp_all add: option_wire_def request_options_def)
  show ?thesis unfolding says_def
  proof
    fix ops
    from ps [unfolded psays_def, rule_format, of "\<lparr>ps_ops = ops, ps_content_next_offset = 36\<rparr>"]
    show "\<exists>xs. serialize_prelogin le m ops = (Inr (), ops @ xs) \<and> (\<forall>x \<in> set xs. op_wf x) \<and> ops_bytes xs = option_wire ?os"
      by (auto simp: serialize_prelogin_def)
  qed
qed


section \<open>The response on the wire\<close>

text \<open>What an option with data says; a version has six bytes and the flags have one.\<close>

definition option_fits :: "u8 \<times> bytes \<Rightarrow> bool" where
  "option_fits td \<longleftrightarrow> fst td \<noteq> 0xFF \<and> length (snd td) < 32768 \<and>
     (snd td = [] \<or> (case option_type_from (fst td) of
        OT_Version \<Rightarrow> length (snd td) = 6
      | OT_Encryption \<Rightarrow> length (snd td) = 1 | OT_InstOpt \<Rightarrow> length (snd td) = 1 | OT_Mars \<Rightarrow> length (snd td) = 1
      | OT_FedAuthRequired \<Rightarrow> length (snd td) = 1 | _ \<Rightarrow> True))"

definition apply_option :: "u8 \<times> bytes \<Rightarrow> prelogin_response_model \<Rightarrow> prelogin_response_model" where
  "apply_option td m =
     (let d = snd td in
      if d = [] then m
      else case option_type_from (fst td) of
        OT_Version \<Rightarrow> m\<lparr>pr_server_version := \<lparr>vr_major = d ! 0, vr_minor = d ! 1, vr_build = from_be_u16 (seg 2 4 d), vr_revision = from_be_u16 (seg 4 6 d)\<rparr>,
                        pr_sql_server_version := sql_server_version_from (d ! 0)\<rparr>
      | OT_Encryption \<Rightarrow> m\<lparr>pr_encryption := encryption_type_from (d ! 0)\<rparr>
      | OT_InstOpt \<Rightarrow> m\<lparr>pr_dbinstance_valid := (d ! 0 = 0)\<rparr>
      | OT_Mars \<Rightarrow> m\<lparr>pr_mars_enabled := (d ! 0 = 1)\<rparr>
      | OT_FedAuthRequired \<Rightarrow> m\<lparr>pr_federated_auth_supported := (d ! 0 = 1)\<rparr>
      | _ \<Rightarrow> m)"

lemma i16_as_usize_nat: "n < 32768 \<Longrightarrow> i16_as_usize (word_of_nat n) = n"
proof -
  assume n: "n < 32768"
  then have "sint (word_of_nat n :: u16) = int n" by (subst signed_of_nat) (simp_all add: signed_take_bit_int_eq_self)
  then show ?thesis by (simp add: i16_as_usize_def)
qed

context packet_source
begin

lemma i16_be_yields: "yields supplies (to_be_u16 x) (rd_i16_be ops) x"
  using i16_be by (auto simp: yields_def)

lemma option_contexts_yields:
  assumes "list_all option_fits os" "length os < fuel"
  shows "yields supplies (option_table off os @ [0xFF]) (option_contexts ops fuel acc) (acc @ map (\<lambda>td. (option_type_from (fst td), length (snd td))) os)"
  using assms
proof (induction os arbitrary: off fuel acc)
  case Nil
  then obtain k where k: "fuel = Suc k" by (cases fuel) auto
  show ?case unfolding k by (auto simp del: rret_apply intro!: bind_rules(1) yields_rret)
next
  case (Cons td os)
  then obtain k where k: "fuel = Suc k" "length os < k" by (cases fuel) auto
  obtain t d where td: "td = (t, d)" by (rule prod.exhaust)
  have t: "t \<noteq> 0xFF" "length d < 32768" using Cons.prems(1) td by (auto simp: option_fits_def)
  have IH: "yields supplies (option_table (off + length d) os @ [0xFF]) (option_contexts ops k (acc @ [(option_type_from t, i16_as_usize (word_of_nat (length d)))]))
      (acc @ map (\<lambda>td. (option_type_from (fst td), length (snd td))) (td # os))"
    using Cons.IH [OF _ k(2), of "off + length d" "acc @ [(option_type_from t, length d)]"] Cons.prems(1) td by (simp add: i16_as_usize_nat [OF t(2)])
  have "yields supplies (to_be_u16 (word_of_nat off) @ to_be_u16 (word_of_nat (length d)) @ option_table (off + length d) os @ [0xFF])
      (rbind (rd_i16_be ops) (\<lambda>_. rbind (rd_i16_be ops) (\<lambda>len. option_contexts ops k (acc @ [(option_type_from t, i16_as_usize len)]))))
      (acc @ map (\<lambda>td. (option_type_from (fst td), length (snd td))) (td # os))"
    by (intro yields_bind [OF i16_be_yields] IH)
  then show ?case unfolding k(1) td using t(1) by (simp add: td yields_bind_byte [OF scalars_yield(1)])
qed

lemma read_option_yields:
  assumes "option_fits td"
  shows "yields supplies (snd td) (read_option ops (option_type_from (fst td), length (snd td)) m) (apply_option td m)"
proof (cases "snd td = []")
  case True
  then show ?thesis by (simp add: read_option_def apply_option_def yields_rret del: rret_apply)
next
  case False
  let ?d = "snd td"
  have one: "length ?d = 1 \<Longrightarrow> ?d = [?d ! 0]" by (cases ?d) auto
  have six: "length ?d = 6 \<Longrightarrow> ?d = [?d ! 0, ?d ! 1] @ to_be_u16 (from_be_u16 (seg 2 4 ?d)) @ to_be_u16 (from_be_u16 (seg 4 6 ?d))"
  proof -
    assume l: "length ?d = 6"
    have "seg 0 2 ?d @ seg 2 4 ?d @ seg 4 6 ?d = seg 0 6 ?d"
      using seg_append_seg [of 2 4 6 ?d] seg_append_seg [of 0 2 6 ?d] by simp
    with l have "?d = seg 0 2 ?d @ seg 2 4 ?d @ seg 4 6 ?d" by (simp add: seg_def)
    moreover have "seg 0 2 ?d = [?d ! 0, ?d ! 1]" using l by (cases ?d; cases "tl ?d") (auto simp: seg_def)
    ultimately show ?thesis using l by (simp add: be16.enc_dec)
  qed
  have flag: "yields supplies ?d (rbind (rd_byte ops) (\<lambda>b. rret (f b))) (f (?d ! 0))" if "length ?d = 1" for f :: "u8 \<Rightarrow> prelogin_response_model"
    by (subst one [OF that]) (intro bind_rules(1) yields_rret, simp)
  have version: "yields supplies ?d (rbind (rd_byte ops) (\<lambda>major. rbind (rd_byte ops) (\<lambda>minor. rbind (rd_i16_be ops) (\<lambda>build. rbind (rd_i16_be ops) (\<lambda>revision.
      rret (f major minor build revision)))))) (f (?d ! 0) (?d ! 1) (from_be_u16 (seg 2 4 ?d)) (from_be_u16 (seg 4 6 ?d)))" if "length ?d = 6"
    for f :: "u8 \<Rightarrow> u8 \<Rightarrow> u16 \<Rightarrow> u16 \<Rightarrow> prelogin_response_model"
    by (subst (1) six [OF that], unfold append_Cons append_Nil)
       (intro yields_bind_byte [OF scalars_yield(1)] yields_bind [OF i16_be_yields] yields_last [OF i16_be_yields], simp)
  show ?thesis
    using assms False flag version
    by (auto simp: read_option_def apply_option_def option_fits_def Let_def simp del: rret_apply split: option_type.splits
        intro!: strings_yield(2) [THEN yields_last])
qed

lemma read_options_yields:
  "list_all option_fits os \<Longrightarrow>
   yields supplies (concat (map snd os)) (read_options ops (map (\<lambda>td. (option_type_from (fst td), length (snd td))) os) m) (fold apply_option os m)"
  by (induction os arbitrary: m) (auto simp del: rret_apply intro!: yields_rret yields_bind [OF read_option_yields])

lemma read_prelogin_yields:
  assumes "list_all option_fits os" "length os < fuel"
  shows "yields supplies (option_wire os) (read_prelogin ops fuel) (fold apply_option os prelogin_response_new)"
proof -
  have "option_wire os = (option_table (5 * length os + 1) os @ [0xFF]) @ concat (map snd os)" by (simp add: option_wire_def)
  then show ?thesis unfolding read_prelogin_def
    using option_contexts_yields [OF assms, of "5 * length os + 1" "[]"] read_options_yields [OF assms(1)]
    by (simp only:) (rule yields_bind, simp, simp)
qed

end


section \<open>Any response\<close>

context finite_source
begin

lemma option_contexts_returns: "tame_upto safe left fuel 0 (option_contexts ops fuel acc)"
proof (induction fuel arbitrary: acc)
  case 0
  show ?case by (simp add: tame_upto_def)
next
  case (Suc fuel)
  have "tame_upto safe left fuel 0 (rbind (rd_i16_be ops) (\<lambda>_. rbind (rd_i16_be ops) (\<lambda>len.
      option_contexts ops fuel (acc @ [(t, i16_as_usize len)]))))" for t
    by (intro tame_upto_bind [OF tame_upto_tame [OF scalars_tame0(11)]]) (simp add: Suc.IH)
  then have "tame_upto safe left (Suc fuel) 1 (option_contexts ops (Suc fuel) acc)"
    unfolding option_contexts.simps
    by (intro tame_upto_bind [OF tame_upto_tame [OF scalars_tame(1)]]) (simp add: tame_upto_tame tame_rret)
  then show ?case by (rule tame_upto_weaken) simp
qed

lemma read_options_tame: "tame safe left 0 (read_options ops ctxs m)"
proof (induction ctxs arbitrary: m)
  case (Cons ctx ctxs)
  have "tame safe left 0 (read_option ops ctx m)"
    unfolding read_option_def by (cases "fst ctx") (auto simp del: rret_apply intro!: tame_rules)
  with Cons.IH show ?case by (auto intro!: tame_rules)
qed (auto intro: tame_rules simp del: rret_apply)

lemma read_prelogin_returns: "tame_upto safe left fuel 0 (read_prelogin ops fuel)"
  unfolding read_prelogin_def by (intro tame_upto_bind [OF option_contexts_returns]) (simp add: tame_upto_tame [OF read_options_tame])

end


lemma prelogin_outcome_encryption:
  assumes "prelogin_outcome reset ops fuel m s = (Inr res, s')" "pm_encryption_setting m \<noteq> ES_PreferOff"
  shows "pl_encryption_setting res = (if pm_encryption_setting m = ES_Strict then Strict else Mandatory)"
  using assms
  by (auto simp: prelogin_outcome_def negotiate_encryption_def rbind_def rlift_def
      split: prod.splits sum.splits if_splits encryption_type.splits)

lemma message_over_tls:
  assumes "pw_new Login7 net timeout handle = Inr w" "writable net" "\<forall>x \<in> set ops. op_wf x" "write_message ops w = (q, w')"
    and "nw_tls net" "nw_encryption net \<noteq> Some LoginOnly"
  shows "\<forall>p \<in> set (drop (length (nw_wire net)) (nw_wire (pw_net w'))). fst p"
proof -
  let ?m = "message_of Login7 net"
  have "pw_open False ?m [] w" using assms(1,2) by (intro pw_new_open) auto
  from write_message_out [OF this assms(3,4)]
  obtain ps where "nw_wire (pw_net w') = ms_before ?m @ tagged ?m ps"
    unfolding pw_sent_def pw_complete_def by (auto split: sum.splits if_splits)
  moreover have "ms_before ?m = nw_wire net" by (simp add: message_of_def Let_def)
  moreover have "tls_at ?m i" for i using assms(5,6) by (auto simp: tls_at_def login_only_def message_of_def Let_def)
  ultimately show ?thesis by (auto simp: tagged_def)
qed


lemma one_packet_reset: "reset_reader (one_packet_reader c) = one_packet_reader c"
  by (simp add: reset_reader_def one_packet_reader_def reset_to_length_def change_packet_size_def rb_new_def)


section \<open>Properties\<close>

text \<open>
  C15. The option table of the pre-login request. On a healthy connection the request is sent as one
  message, and for each of its seven options the table entry in the payload has the option's type, and
  its offset and length cut exactly the option's data out of the payload; the table ends in the
  terminator. The instance name may take all the room 16-bit offsets leave.
\<close>

theorem prelogin_table_points:
  assumes "length (le (pm_connection_id m)) = 16" and "length (le (pm_activity_id m)) = 16"
    and "length (as_bytes (pm_database_instance m)) + 86 < 65536"
    and "pw_new PreLogin net timeout handle = Inr w" and "writable net" and "healthy w"
  shows "\<exists>w' p. send_request (serialize_prelogin le m) w = (Inr (), w') \<and> puts_message PreLogin net p w' \<and> p ! 35 = 0xFF \<and>
    (\<forall>i < 7. case table_entry p i of (t, off, len) \<Rightarrow> (t, seg off (off + len) p) = request_options le m ! i \<and> off + len \<le> length p)"
proof -
  let ?os = "request_options le m" and ?p = "option_wire (request_options le m)"
  have n: "length ?os = 7" by (simp add: request_options_def)
  have len: "length ?p < 65536" using assms(1-3) by (simp add: option_wire_def request_options_def codec_simps)
  have fin: "?p ! 35 = 0xFF" by (simp add: option_wire_def n nth_append)
  have "case table_entry ?p i of (t, off, len) \<Rightarrow> (t, seg off (off + len) ?p) = ?os ! i \<and> off + len \<le> length ?p" if "i < 7" for i
  proof -
    have i: "i < length ?os" using that n by simp
    have "concat (map snd ?os) = concat (map snd (take i ?os)) @ snd (?os ! i) @ concat (map snd (drop (Suc i) ?os))"
      by (subst id_take_nth_drop [OF i]) simp
    then have "5 * length ?os + 1 + length (concat (map snd (take i ?os))) + length (snd (?os ! i)) \<le> length ?p"
      by (simp add: option_wire_def)
    then show ?thesis using option_wire_entry [OF i len] by simp
  qed
  moreover have "?p \<noteq> []" by (simp add: option_wire_def)
  ultimately show ?thesis
    using says_delivers [OF serialize_prelogin_says [OF assms(1-3)] _ assms(4-6)] fin by blast
qed

definition sample_prelogin :: "encryption_setting \<Rightarrow> prelogin_request_model" where
  "sample_prelogin setting =
     \<lparr>pm_version_major = 1, pm_version_minor = 2, pm_version_build = 3, pm_connection_id = replicate 16 7, pm_activity_id = replicate 16 9,
      pm_activity_sequence_number = 0, pm_mars_enabled = False, pm_encryption_setting = setting, pm_database_instance = [97, 98], pm_fed_auth = True\<rparr>"

theorem prelogin_table_points_witness:
  "\<exists>w' p. send_request (serialize_prelogin id (sample_prelogin ES_On)) (demo_writer PreLogin) = (Inr (), w') \<and> puts_message PreLogin demo_net p w' \<and>
     (\<exists>off len. table_entry p 2 = (2, off, len) \<and> seg off (off + len) p = [97, 98, 0])"
proof -
  let ?m = "sample_prelogin ES_On"
  have "length (id (pm_connection_id ?m)) = 16" "length (id (pm_activity_id ?m)) = 16" "length (as_bytes (pm_database_instance ?m)) + 86 < 65536"
    by (simp_all add: sample_prelogin_def char_utf8_def)
  from prelogin_table_points [OF this demo_writer(1) demo_writable demo_writer(2)] obtain w' p where
    "send_request (serialize_prelogin id ?m) (demo_writer PreLogin) = (Inr (), w')" "puts_message PreLogin demo_net p w'"
    and e: "\<forall>i < 7. case table_entry p i of (t, off, len) \<Rightarrow> (t, seg off (off + len) p) = request_options id ?m ! i \<and> off + len \<le> length p" by blast
  moreover obtain t off len where "table_entry p 2 = (t, off, len)" by (metis prod_cases3)
  moreover have "request_options id ?m ! 2 = (2, [97, 98, 0])" by (simp add: request_options_def sample_prelogin_def char_utf8_def)
  ultimately show ?thesis using e [rule_format, of 2] by auto
qed



text \<open>
  C8. Encryption asked for is encryption used. Whatever the server answers to the pre-login request, if
  the client did not prefer encryption off and the exchange succeeds, then every packet of the login
  message that follows, all of them or those before a failure, goes through TLS; under strict encryption
  the connection is taken over TLS from the start.
\<close>

theorem required_encryption_kept:
  assumes "prelogin_outcome reset_reader network_ops fuel m r = (Inr res, r')" and "pm_encryption_setting m \<noteq> ES_PreferOff"
    and "pm_encryption_setting m = ES_Strict \<longrightarrow> nw_tls net"
    and "begin_login res handshake net = (Inr (), net')" and "writable net'"
    and "pw_new Login7 net' timeout handle = Inr w" and "\<forall>x \<in> set ops. op_wf x" and "write_message ops w = (q, w')"
  shows "\<forall>p \<in> set (drop (length (nw_wire net)) (nw_wire (pw_net w'))). fst p"
proof -
  have "nw_tls net' \<and> nw_encryption net' \<noteq> Some LoginOnly \<and> nw_wire net' = nw_wire net"
    using prelogin_outcome_encryption [OF assms(1,2)] assms(3,4)
    by (auto simp: begin_login_def notify_encryption_negotiation_def get_encryption_setting_def enable_ssl_def rbind_def Let_def
        split: if_splits sum.splits)
  with message_over_tls [OF assms(6,5,7,8)] show ?thesis by simp
qed

definition plain_net :: network_writer where
  "plain_net = demo_net\<lparr>nw_encryption := None, nw_tls := False\<rparr>"

theorem required_encryption_kept_witness:
  "\<exists>res r' net' w q w'. prelogin_outcome reset_reader network_ops 2 (sample_prelogin ES_On) (one_packet_reader (option_wire [(1, [1])])) = (Inr res, r') \<and>
     begin_login res (Inr ()) plain_net = (Inr (), net') \<and> pw_new Login7 net' None None = Inr w \<and> write_message demo_ops w = (q, w') \<and>
     list_all fst (drop (length (nw_wire plain_net)) (nw_wire (pw_net w')))"
proof -
  let ?os = "[(1, [1])] :: (u8 \<times> bytes) list" and ?m = "sample_prelogin ES_On"
  have fits: "list_all option_fits ?os" by (simp add: option_fits_def option_type_from_def)
  have "net_supplies [] (option_wire ?os @ []) (reset_reader (one_packet_reader (option_wire ?os)))"
    unfolding one_packet_reset using one_packet_supplies [of "option_wire ?os"] by (simp add: option_wire_def codec_simps)
  with net.read_prelogin_yields [OF fits, of 2 "[]"] obtain r' where
    "deserialize_prelogin reset_reader network_ops 2 (one_packet_reader (option_wire ?os)) = (Inr (fold apply_option ?os prelogin_response_new), r')"
    unfolding yields_def deserialize_prelogin_def by fastforce
  then have out: "prelogin_outcome reset_reader network_ops 2 ?m (one_packet_reader (option_wire ?os)) =
      (Inr \<lparr>pl_client_connection_id = replicate 16 7, pl_encryption_setting = Mandatory, pl_is_fed_auth_supported = False\<rparr>, r')"
    by (simp add: prelogin_outcome_def rbind_def rlift_def rret_def apply_option_def option_type_from_def encryption_type_from_def
        sample_prelogin_def negotiate_encryption_def prelogin_response_new_def)
  let ?net = "plain_net\<lparr>nw_encryption := Some Mandatory, nw_tls := True, nw_extractable := True\<rparr>"
  have tls: "begin_login \<lparr>pl_client_connection_id = replicate 16 7, pl_encryption_setting = Mandatory, pl_is_fed_auth_supported = False\<rparr> (Inr ()) plain_net = (Inr (), ?net)"
    by (simp add: begin_login_def rbind_def notify_encryption_negotiation_def get_encryption_setting_def enable_ssl_def plain_net_def demo_net_def)
  have wr: "writable ?net" using demo_writable by (simp add: writable_def plain_net_def)
  from pw_new_Inr [OF wr] obtain w where new: "pw_new Login7 ?net None None = Inr w" by blast
  obtain q w' where ops: "write_message demo_ops w = (q, w')" by fastforce
  have "list_all fst (drop (length (nw_wire plain_net)) (nw_wire (pw_net w')))"
    unfolding list_all_iff using required_encryption_kept [OF out _ _ tls wr new demo_ops_wf ops] by (simp add: sample_prelogin_def)
  with out tls new ops show ?thesis by blast
qed

end
