(* ===== verification/Session_State.thy ===== *)
theory Session_State
  imports Requests Token_Content Sql_Collation
begin

text \<open>
  Session state for idle connection resiliency: the state table of
  \<^verbatim>\<open>mssql-tds/src/connection/session_recovery.rs\<close> and its blocks in the login message, written by
  \<^verbatim>\<open>mssql-tds/src/message/features/session_recovery.rs\<close>. What a reconnect writes of the table is read
  back as the same state, and the declared lengths of the blocks are compared with what is written.
\<close>

section \<open>The state table\<close>

record session_state_record =
  sr_recoverable :: bool
  sr_sequence :: u32
  sr_data :: bytes

text \<open>One slot for each of the 256 state ids.\<close>

type_synonym state_slots = "u8 \<Rightarrow> session_state_record option"

definition empty_state_slots :: state_slots where
  "empty_state_slots = (\<lambda>_. None)"

definition slot_list :: "state_slots \<Rightarrow> session_state_record option list" where
  "slot_list slots = map (\<lambda>i. slots (word_of_nat i)) [0..<256]"

definition sql_collation_default :: sql_collation where
  "sql_collation_default = \<lparr>sc_info = 0, sc_lcid_language_id = 0, sc_col_flags = 0, sc_sort_id = 0\<rparr>"

record session_state_table =
  ss_initial_state :: state_slots
  ss_delta :: state_slots
  ss_initial_database :: rstring
  ss_initial_language :: rstring
  ss_initial_collation :: sql_collation
  ss_master_recovery_disabled :: bool

definition session_state_table_new :: session_state_table where
  "session_state_table_new =
     \<lparr>ss_initial_state = empty_state_slots, ss_delta = empty_state_slots, ss_initial_database = [], ss_initial_language = [],
      ss_initial_collation = sql_collation_default, ss_master_recovery_disabled = False\<rparr>"

definition update_state :: "u8 \<Rightarrow> u32 \<Rightarrow> bool \<Rightarrow> bytes \<Rightarrow> session_state_table \<Rightarrow> session_state_table" where
  "update_state state_id seq recoverable data tbl =
     tbl\<lparr>ss_delta := (ss_delta tbl)(state_id \<mapsto> \<lparr>sr_recoverable = recoverable, sr_sequence = seq, sr_data = data\<rparr>)\<rparr>"

text \<open>
  The FEATUREEXTACK payload: an id, a length of one byte or of four behind the marker, and the value.
  On a truncated payload the start of the entry and its id are reported.
\<close>

function parse_feature_ack_from :: "bytes \<Rightarrow> nat \<Rightarrow> (u8 \<times> bytes) list \<Rightarrow> (nat \<times> u8) + (u8 \<times> bytes) list" where
  "parse_feature_ack_from data i entries =
     (if length data \<le> i then Inr entries
      else
        let state_id = data ! i in
        if length data \<le> i + 1 then Inl (i, state_id)
        else
          let len_byte = data ! (i + 1) in
          case (if len_byte = 0xFF then map_option (\<lambda>bs. (i + 6, unat (from_le_u32 bs))) (slice_get (i + 2) (i + 6) data)
                else Some (i + 2, unat len_byte)) of
            None \<Rightarrow> Inl (i, state_id)
          | Some (j, len) \<Rightarrow>
              (case slice_get j (j + len) data of
                 None \<Rightarrow> Inl (i, state_id)
               | Some v \<Rightarrow> parse_feature_ack_from data (j + len) (entries @ [(state_id, v)])))"
  by pat_completeness auto
termination
  by (relation "measure (\<lambda>(data, i, entries). length data - i)") (auto split: if_splits)

declare parse_feature_ack_from.simps [simp del]

definition parse_feature_ack :: "bytes \<Rightarrow> (nat \<times> u8) + (u8 \<times> bytes) list" where
  "parse_feature_ack data = parse_feature_ack_from data 0 []"

definition abort_partial_baseline :: "session_state_table \<Rightarrow> session_state_table" where
  "abort_partial_baseline tbl = tbl\<lparr>ss_master_recovery_disabled := True\<rparr>"

definition seed_initial_state_from_feature_ack :: "bytes \<Rightarrow> session_state_table \<Rightarrow> session_state_table" where
  "seed_initial_state_from_feature_ack data tbl =
     (case parse_feature_ack data of
        Inr entries \<Rightarrow> fold (\<lambda>(state_id, v) tbl. tbl\<lparr>ss_initial_state := (ss_initial_state tbl)(state_id \<mapsto>
            \<lparr>sr_recoverable = True, sr_sequence = 0, sr_data = v\<rparr>)\<rparr>) entries tbl
      | Inl _ \<Rightarrow> abort_partial_baseline tbl)"

definition apply_feature_ack_to_delta :: "bytes \<Rightarrow> session_state_table \<Rightarrow> session_state_table" where
  "apply_feature_ack_to_delta data tbl =
     (let tbl = tbl\<lparr>ss_delta := empty_state_slots\<rparr> in
      case parse_feature_ack data of
        Inr entries \<Rightarrow> fold (\<lambda>(state_id, v). update_state state_id 0 True v) entries tbl
      | Inl _ \<Rightarrow> abort_partial_baseline tbl)"

text \<open>A SESSIONSTATE token, during the login and afterwards.\<close>

definition apply_session_state :: "session_state_token \<Rightarrow> session_state_table \<Rightarrow> session_state_table" where
  "apply_session_state t tbl =
     (if st_sequence_number t = 0xFFFFFFFF then tbl\<lparr>ss_master_recovery_disabled := True\<rparr>
      else fold (\<lambda>e. update_state (se_state_id e) (st_sequence_number t) (se_recoverable e) (se_data e)) (st_states t) tbl)"

definition seed_initial_state ::
  "rstring \<Rightarrow> rstring \<Rightarrow> sql_collation \<Rightarrow> session_state_token list \<Rightarrow> bytes option \<Rightarrow> session_state_table \<Rightarrow> session_state_table" where
  "seed_initial_state database language collation toks feature_ack tbl =
     (let tbl = tbl\<lparr>ss_initial_database := database, ss_initial_language := language, ss_initial_collation := collation\<rparr>;
          tbl = (case feature_ack of Some data \<Rightarrow> seed_initial_state_from_feature_ack data tbl | None \<Rightarrow> tbl)
      in fold apply_session_state toks tbl)"

definition is_session_recoverable :: "session_state_table \<Rightarrow> bool" where
  "is_session_recoverable tbl \<longleftrightarrow>
     \<not> ss_master_recovery_disabled tbl \<and>
     list_all (\<lambda>entry. case entry of None \<Rightarrow> True | Some r \<Rightarrow> sr_recoverable r) (slot_list (ss_initial_state tbl) @ slot_list (ss_delta tbl))"

definition reset_delta :: "session_state_table \<Rightarrow> session_state_table" where
  "reset_delta tbl = tbl\<lparr>ss_delta := empty_state_slots\<rparr>"


section \<open>The snapshot and its blocks\<close>

record session_recovery_data =
  sd_initial_state :: state_slots
  sd_delta :: state_slots
  sd_initial_database :: rstring
  sd_initial_language :: rstring
  sd_initial_collation :: sql_collation
  sd_database :: rstring
  sd_language :: rstring
  sd_collation :: sql_collation

definition unwrap_or :: "'a option \<Rightarrow> 'a \<Rightarrow> 'a" where
  "unwrap_or x d = (case x of Some v \<Rightarrow> v | None \<Rightarrow> d)"

definition snapshot :: "rstring option \<Rightarrow> rstring option \<Rightarrow> sql_collation option \<Rightarrow> session_state_table \<Rightarrow> session_recovery_data" where
  "snapshot database language collation tbl =
     \<lparr>sd_initial_state = ss_initial_state tbl, sd_delta = ss_delta tbl, sd_initial_database = ss_initial_database tbl,
      sd_initial_language = ss_initial_language tbl, sd_initial_collation = ss_initial_collation tbl,
      sd_database = unwrap_or database (ss_initial_database tbl), sd_language = unwrap_or language (ss_initial_language tbl),
      sd_collation = unwrap_or collation (ss_initial_collation tbl)\<rparr>"

text \<open>Lengths are computed in 32 bits.\<close>

definition state_value_wire_length :: "nat \<Rightarrow> u32" where
  "state_value_wire_length data_len = (if data_len < 0xFF then 1 + word_of_nat data_len else 5 + word_of_nat data_len)"

definition slots_length :: "state_slots \<Rightarrow> u32 \<Rightarrow> u32" where
  "slots_length slots len =
     fold (\<lambda>entry len. case entry of None \<Rightarrow> len | Some r \<Rightarrow> len + 1 + state_value_wire_length (length (sr_data r))) (slot_list slots) len"

definition b_varchar_length :: "rstring \<Rightarrow> u32" where
  "b_varchar_length s = 1 + 2 * word_of_nat (length (encode_utf16 s))"

definition initial_block_length :: "session_recovery_data \<Rightarrow> u32" where
  "initial_block_length d =
     slots_length (sd_initial_state d)
       (b_varchar_length (sd_initial_database d) + (if sd_initial_collation d = sql_collation_default then 1 else 6)
        + b_varchar_length (sd_initial_language d))"

definition delta_block_length :: "session_recovery_data \<Rightarrow> u32" where
  "delta_block_length d =
     slots_length (sd_delta d)
       ((if sd_database d = sd_initial_database d then 1 else b_varchar_length (sd_database d))
        + (if sd_collation d = sd_initial_collation d then 1 else 6)
        + (if sd_language d = sd_initial_language d then 1 else b_varchar_length (sd_language d)))"

definition total_data_length :: "session_recovery_data \<Rightarrow> u32" where
  "total_data_length d = 8 + initial_block_length d + delta_block_length d"

definition write_b_varchar :: "rstring \<Rightarrow> (write_op list, unit) action" where
  "write_b_varchar v =
     (let char_count = length (encode_utf16 v) in
      rbind (emits (WByte (word_of_nat char_count))) (\<lambda>_. if 0 < char_count then emits (WString v) else rret ()))"

definition write_collation :: "sql_collation \<Rightarrow> (write_op list, unit) action" where
  "write_collation c =
     (if c = sql_collation_default then emits (WByte 0)
      else rbind (emits (WByte 5)) (\<lambda>_. rbind (emits (WU32 (sc_info c))) (\<lambda>_. emits (WByte (sc_sort_id c)))))"

definition write_state_entry :: "nat \<times> session_state_record option \<Rightarrow> (write_op list, unit) action" where
  "write_state_entry entry =
     (case entry of
        (_, None) \<Rightarrow> rret ()
      | (i, Some r) \<Rightarrow>
          let data_len = length (sr_data r) in
          rbind (emits (WByte (word_of_nat i))) (\<lambda>_.
          rbind (if data_len < 0xFF then emits (WByte (word_of_nat data_len))
                 else rbind (emits (WByte 0xFF)) (\<lambda>_. emits (WU32 (word_of_nat data_len)))) (\<lambda>_.
            emits (WBytes (sr_data r)))))"

definition write_state_entries :: "state_slots \<Rightarrow> (write_op list, unit) action" where
  "write_state_entries slots = run_steps write_state_entry (enumerate 0 (slot_list slots))"

definition serialize_recovery_data :: "session_recovery_data \<Rightarrow> (write_op list, unit) action" where
  "serialize_recovery_data d =
     rbind (emits (WU32 (total_data_length d))) (\<lambda>_.
     rbind (emits (WU32 (initial_block_length d))) (\<lambda>_.
     rbind (write_b_varchar (sd_initial_database d)) (\<lambda>_.
     rbind (write_collation (sd_initial_collation d)) (\<lambda>_.
     rbind (write_b_varchar (sd_initial_language d)) (\<lambda>_.
     rbind (write_state_entries (sd_initial_state d)) (\<lambda>_.
     rbind (emits (WU32 (delta_block_length d))) (\<lambda>_.
     rbind (if sd_database d = sd_initial_database d then emits (WByte 0) else write_b_varchar (sd_database d)) (\<lambda>_.
     rbind (if sd_collation d = sd_initial_collation d then emits (WByte 0) else write_collation (sd_collation d)) (\<lambda>_.
     rbind (if sd_language d = sd_initial_language d then emits (WByte 0) else write_b_varchar (sd_language d)) (\<lambda>_.
       write_state_entries (sd_delta d)))))))))))"


section \<open>The entries of a block\<close>

definition entry_wire :: "u8 \<times> bytes \<Rightarrow> bytes" where
  "entry_wire e = fst e # state_len_bytes (length (snd e)) @ snd e"

definition slot_entries :: "state_slots \<Rightarrow> (u8 \<times> bytes) list" where
  "slot_entries slots = concat (map (\<lambda>i. case slots (word_of_nat i) of None \<Rightarrow> [] | Some r \<Rightarrow> [(word_of_nat i, sr_data r)]) [0..<256])"

definition slots_wire :: "state_slots \<Rightarrow> bytes" where
  "slots_wire slots = concat (map entry_wire (slot_entries slots))"

lemma all_u8: "\<exists>i < 256. (word_of_nat i :: u8) = b"
  by (rule exI [of _ "unat b"]) (use unsigned_less [of b, where 'a = nat] in simp)

lemma slot_entries_mem: "(b, d) \<in> set (slot_entries slots) \<longleftrightarrow> (\<exists>r. slots b = Some r \<and> d = sr_data r)"
proof
  assume "(b, d) \<in> set (slot_entries slots)"
  then show "\<exists>r. slots b = Some r \<and> d = sr_data r" by (auto simp: slot_entries_def split: option.splits) metis
next
  assume "\<exists>r. slots b = Some r \<and> d = sr_data r"
  moreover obtain i where "i < 256" "word_of_nat i = b" using all_u8 by blast
  ultimately show "(b, d) \<in> set (slot_entries slots)"
    unfolding slot_entries_def set_concat set_map by (auto intro!: bexI [of _ i])
qed

lemma slot_entries_distinct: "distinct (map fst (slot_entries slots))"
proof -
  have "distinct (map fst (concat (map (\<lambda>i. case slots (word_of_nat i) of None \<Rightarrow> [] | Some r \<Rightarrow> [(word_of_nat i :: u8, sr_data r)]) [0..<n]))) \<and>
      set (map fst (concat (map (\<lambda>i. case slots (word_of_nat i) of None \<Rightarrow> [] | Some r \<Rightarrow> [(word_of_nat i :: u8, sr_data r)]) [0..<n]))) \<subseteq> word_of_nat ` {0..<n}"
    if "n \<le> 256" for n
    using that
  proof (induction n)
    case (Suc n)
    have ne: False if "k < n" "(word_of_nat n :: u8) = word_of_nat k" for k
    proof -
      have "unat (word_of_nat n :: u8) = n" "unat (word_of_nat k :: u8) = k" using Suc.prems that(1) by (simp_all add: unat_of_nat_u8)
      with that show False by simp
    qed
    with Suc show ?case by (auto split: option.splits dest: ne)
  qed simp
  then show ?thesis unfolding slot_entries_def by blast
qed

lemma map_of_slot_entries: "map_of (slot_entries slots) b = map_option sr_data (slots b)"
proof (cases "slots b")
  case None
  then show ?thesis using slot_entries_mem [of b _ slots] by (auto simp: map_of_eq_None_iff)
next
  case (Some r)
  then show ?thesis using slot_entries_mem [of b "sr_data r" slots] slot_entries_distinct by simp
qed

lemma concat_concat: "concat (concat xss) = concat (map concat xss)"
  by (induction xss) simp_all

lemma run_steps_map: "run_steps f (map g xs) = run_steps (\<lambda>x. f (g x)) xs"
  by (induction xs) simp_all

lemma write_state_entries_says: "says (write_state_entries slots) (slots_wire slots)"
proof -
  have one: "says (write_state_entry (i, slots (word_of_nat i)))
      (concat (map entry_wire (case slots (word_of_nat i) of None \<Rightarrow> [] | Some r \<Rightarrow> [(word_of_nat i, sr_data r)])))" for i
    by (cases "slots (word_of_nat i)")
       (auto simp: write_state_entry_def Let_def entry_wire_def state_len_bytes_def simp del: rret_apply
         intro!: says_rret says_bind [OF says_emits] says_bind [OF says_emits says_emits] says_emits
         says_bind [OF says_bind [OF says_emits says_emits] says_emits])
  have "enumerate 0 (slot_list slots) = map (\<lambda>i. (i, slots (word_of_nat i))) [0..<256]"
    by (simp add: slot_list_def enumerate_map_upt)
  then have "write_state_entries slots = run_steps (\<lambda>i. write_state_entry (i, slots (word_of_nat i))) [0..<256]"
    by (simp add: write_state_entries_def run_steps_map)
  moreover have "slots_wire slots = concat (map (\<lambda>i. concat (map entry_wire (case slots (word_of_nat i) of None \<Rightarrow> [] | Some r \<Rightarrow> [(word_of_nat i, sr_data r)]))) [0..<256])"
    by (simp add: slots_wire_def slot_entries_def map_concat comp_def concat_concat)
  ultimately show ?thesis using says_run_steps [of "[0..<256]", OF one] by simp
qed


lemma parse_entry:
  assumes "data = pre @ entry_wire e @ post" "length (snd e) < 2 ^ 32"
  shows "parse_feature_ack_from data (length pre) es = parse_feature_ack_from data (length pre + length (entry_wire e)) (es @ [e])"
proof -
  obtain b d where e: "e = (b, d)" by (cases e)
  have at: "data ! length pre = b" "data ! (length pre + 1) = (if length d < 255 then word_of_nat (length d) else 0xFF)"
    by (simp_all add: assms(1) e entry_wire_def state_len_bytes_def nth_append)
  have n: "unat (word_of_nat (length d) :: u8) = length d \<and> (word_of_nat (length d) :: u8) \<noteq> 0xFF" if "length d < 255"
  proof -
    have u: "unat (word_of_nat (length d) :: u8) = length d" using that by (simp add: unat_of_nat_u8)
    have "unat (0xFF :: u8) = 255" by simp
    with u that show ?thesis by (metis less_irrefl)
  qed
  show ?thesis
  proof (cases "length d < 255")
    case True
    have "slice_get (length pre + 2) (length pre + 2 + length d) data = Some d"
      using True by (simp add: assms(1) e entry_wire_def state_len_bytes_def slice_get_def seg_def)
    with at n [OF True] True show ?thesis
      by (subst parse_feature_ack_from.simps) (simp add: assms(1) e entry_wire_def state_len_bytes_def)
  next
    case False
    have u: "unat (word_of_nat (length d) :: u32) = length d" using assms(2) e by (intro unat_of_nat_u32) simp
    have "slice_get (length pre + 2) (length pre + 6) data = Some (to_le_u32 (word_of_nat (length d)))"
      "slice_get (length pre + 6) (length pre + 6 + length d) data = Some d"
      using False by (simp_all add: assms(1) e entry_wire_def state_len_bytes_def slice_get_def seg_def le32.enc_length)
    with at u False show ?thesis
      by (subst parse_feature_ack_from.simps) (simp add: assms(1) e entry_wire_def state_len_bytes_def le32.dec_enc le32.enc_length add.assoc)
  qed
qed

lemma parse_feature_ack_entries:
  assumes "list_all (\<lambda>e. length (snd e) < 2 ^ 32) es"
  shows "parse_feature_ack (concat (map entry_wire es)) = Inr es"
proof -
  have "parse_feature_ack_from (pre @ concat (map entry_wire es)) (length pre) acc = Inr (acc @ es)" if "list_all (\<lambda>e. length (snd e) < 2 ^ 32) es" for pre acc
    using that
  proof (induction es arbitrary: pre acc)
    case Nil
    show ?case by (subst parse_feature_ack_from.simps) simp
  next
    case (Cons e es)
    then have IH: "parse_feature_ack_from ((pre @ entry_wire e) @ concat (map entry_wire es)) (length (pre @ entry_wire e)) (acc @ [e]) = Inr ((acc @ [e]) @ es)"
      by (intro Cons.IH) simp
    have "parse_feature_ack_from (pre @ entry_wire e @ concat (map entry_wire es)) (length pre) acc =
        parse_feature_ack_from (pre @ entry_wire e @ concat (map entry_wire es)) (length pre + length (entry_wire e)) (acc @ [e])"
      using Cons.prems by (intro parse_entry) auto
    with IH show ?case by simp
  qed
  from this [OF assms, of "[]" "[]"] show ?thesis by (simp add: parse_feature_ack_def)
qed

lemma fold_slots:
  "fold (\<lambda>(b, v) f. f(b \<mapsto> g v)) es f = (\<lambda>b. case map_of (rev es) b of None \<Rightarrow> f b | Some v \<Rightarrow> Some (g v))"
  by (induction es arbitrary: f rule: rev_induct) (auto simp: fun_eq_iff)

lemma seed_fold:
  "ss_initial_state (fold (\<lambda>(b, v) tbl. tbl\<lparr>ss_initial_state := (ss_initial_state tbl)(b \<mapsto> g v)\<rparr>) es tbl) =
     fold (\<lambda>(b, v) f. f(b \<mapsto> g v)) es (ss_initial_state tbl)"
  by (induction es arbitrary: tbl) auto

lemma fold_keeps: "(\<And>x t. h (f x t) = h t) \<Longrightarrow> h (fold f xs t) = h t"
  by (induction xs arbitrary: t) simp_all

lemma seed_fold_disabled:
  "ss_master_recovery_disabled (fold (\<lambda>(b, v) tbl. tbl\<lparr>ss_initial_state := (ss_initial_state tbl)(b \<mapsto> g v)\<rparr>) es tbl) = ss_master_recovery_disabled tbl"
  by (rule fold_keeps) (simp add: split_beta)

lemma update_fold_disabled:
  "ss_master_recovery_disabled (fold (\<lambda>(b, v). update_state b n k v) es tbl) = ss_master_recovery_disabled tbl"
  by (rule fold_keeps) (simp add: split_beta update_state_def)

lemma update_fold:
  "ss_delta (fold (\<lambda>(b, v). update_state b n k v) es tbl) =
     fold (\<lambda>(b, v) f. f(b \<mapsto> \<lparr>sr_recoverable = k, sr_sequence = n, sr_data = v\<rparr>)) es (ss_delta tbl)"
  by (induction es arbitrary: tbl) (auto simp: update_state_def)

lemma map_of_rev_distinct: "distinct (map fst es) \<Longrightarrow> map_of (rev es) = map_of es"
  using map_of_inject_set [of "rev es" es] by (simp flip: rev_map)


section \<open>The blocks on the wire\<close>

definition b_varchar_wire :: "rstring \<Rightarrow> bytes" where
  "b_varchar_wire s = word_of_nat (length (encode_utf16 s)) # utf16_wire s"

definition collation_wire :: "sql_collation \<Rightarrow> bytes" where
  "collation_wire c = (if c = sql_collation_default then [0] else 5 # to_le_u32 (sc_info c) @ [sc_sort_id c])"

definition initial_block :: "session_recovery_data \<Rightarrow> bytes" where
  "initial_block d =
     b_varchar_wire (sd_initial_database d) @ collation_wire (sd_initial_collation d) @ b_varchar_wire (sd_initial_language d)
     @ slots_wire (sd_initial_state d)"

definition delta_block :: "session_recovery_data \<Rightarrow> bytes" where
  "delta_block d =
     (if sd_database d = sd_initial_database d then [0] else b_varchar_wire (sd_database d)) @
     (if sd_collation d = sd_initial_collation d then [0] else collation_wire (sd_collation d)) @
     (if sd_language d = sd_initial_language d then [0] else b_varchar_wire (sd_language d)) @
     slots_wire (sd_delta d)"

definition recovery_strings :: "session_recovery_data \<Rightarrow> rstring list" where
  "recovery_strings d = [sd_initial_database d, sd_initial_language d, sd_database d, sd_language d]"

lemma says_bind_rret: "says m b \<Longrightarrow> says (rbind m rret) b"
  using says_bind [OF _ says_rret [OF refl], of m b b] by (simp del: rret_apply)

lemma b_varchar_says: "valid_string s \<Longrightarrow> says (write_b_varchar s) (b_varchar_wire s)"
  by (cases "encode_utf16 s = []")
     (auto simp: write_b_varchar_def b_varchar_wire_def Let_def utf16_wire_def simp del: rret_apply
       intro!: says_bind_rret says_emits says_bind [OF says_emits says_emits])

lemma collation_says: "says (write_collation c) (collation_wire c)"
  by (auto simp: write_collation_def collation_wire_def intro!: says_emits says_bind [OF says_emits] says_bind [OF says_emits says_emits])

lemma recovery_data_says:
  assumes "list_all valid_string (recovery_strings d)"
  shows "says (serialize_recovery_data d)
    (to_le_u32 (total_data_length d) @ to_le_u32 (initial_block_length d) @ initial_block d @ to_le_u32 (delta_block_length d) @ delta_block d)"
proof -
  have db: "says (if sd_database d = sd_initial_database d then emits (WByte 0) else write_b_varchar (sd_database d))
      (if sd_database d = sd_initial_database d then [0] else b_varchar_wire (sd_database d))"
    and co: "says (if sd_collation d = sd_initial_collation d then emits (WByte 0) else write_collation (sd_collation d))
      (if sd_collation d = sd_initial_collation d then [0] else collation_wire (sd_collation d))"
    and la: "says (if sd_language d = sd_initial_language d then emits (WByte 0) else write_b_varchar (sd_language d))
      (if sd_language d = sd_initial_language d then [0] else b_varchar_wire (sd_language d))"
    using assms by (auto simp: recovery_strings_def intro: says_emits b_varchar_says collation_says)
  have ini: "says (write_b_varchar (sd_initial_database d)) (b_varchar_wire (sd_initial_database d))"
    "says (write_b_varchar (sd_initial_language d)) (b_varchar_wire (sd_initial_language d))"
    using assms by (auto simp: recovery_strings_def intro: b_varchar_says)
  show ?thesis unfolding serialize_recovery_data_def
    by (rule says_bind [OF says_emits [OF _ refl]] says_bind [OF ini(1)] says_bind [OF collation_says] says_bind [OF ini(2)]
        says_bind [OF write_state_entries_says] says_bind [OF db] says_bind [OF co] says_bind [OF la] write_state_entries_says
        | simp only: op_wf.simps)+
       (simp add: initial_block_def delta_block_def)
qed

text \<open>The lengths, in 32 bits, against the blocks.\<close>

lemma slots_length_eq: "slots_length slots n = n + word_of_nat (length (slots_wire slots))"
proof -
  have "fold (\<lambda>entry len. case entry of None \<Rightarrow> len | Some r \<Rightarrow> len + 1 + state_value_wire_length (length (sr_data r))) (map (\<lambda>i. slots (word_of_nat i)) is) n =
      n + word_of_nat (length (concat (map entry_wire (concat (map (\<lambda>i. case slots (word_of_nat i) of None \<Rightarrow> [] | Some r \<Rightarrow> [(word_of_nat i :: u8, sr_data r)]) is)))))"
    for "is" :: "nat list"
    by (induction "is" arbitrary: n)
       (auto simp: entry_wire_def state_len_bytes_def state_value_wire_length_def le32.enc_length split: option.splits)
  then show ?thesis by (simp only: slots_length_def slot_list_def slots_wire_def slot_entries_def)
qed

lemma b_varchar_length_eq: "b_varchar_length s = word_of_nat (length (b_varchar_wire s))"
  by (simp add: b_varchar_length_def b_varchar_wire_def utf16_wire_def)

lemma initial_block_length_eq: "initial_block_length d = word_of_nat (length (initial_block d))"
  by (simp add: initial_block_length_def initial_block_def slots_length_eq b_varchar_length_eq collation_wire_def le32.enc_length)

text \<open>A current collation that is the default one, and is not the initial one, is written in one byte and counted as six.\<close>

definition collation_miscounted :: "session_recovery_data \<Rightarrow> bool" where
  "collation_miscounted d \<longleftrightarrow> sd_collation d \<noteq> sd_initial_collation d \<and> sd_collation d = sql_collation_default"

lemma delta_block_length_eq:
  "delta_block_length d = word_of_nat (length (delta_block d) + (if collation_miscounted d then 5 else 0))"
  by (simp add: delta_block_length_def delta_block_def slots_length_eq b_varchar_length_eq collation_wire_def le32.enc_length collation_miscounted_def)

lemma total_data_length_eq:
  "total_data_length d = word_of_nat (8 + length (initial_block d) + length (delta_block d) + (if collation_miscounted d then 5 else 0))"
  by (simp add: total_data_length_def initial_block_length_eq delta_block_length_eq)


section \<open>Properties\<close>

text \<open>
  C19. The session recovery blocks of a reconnect. The three lengths the client writes describe the
  blocks that follow: the first is the sum of both blocks and their length fields, the second is the
  size of the initial block, and the third is the size of the delta block, except exactly when the
  current collation differs from the initial one and is the default: it is then written in one byte and
  counted as six.
\<close>

theorem recovery_block_lengths:
  assumes "list_all valid_string (recovery_strings d)" and "length (initial_block d) + length (delta_block d) + 13 < 2 ^ 32"
  shows "\<exists>all ini del. says (serialize_recovery_data d) (to_le_u32 all @ to_le_u32 ini @ initial_block d @ to_le_u32 del @ delta_block d) \<and>
    unat all = 8 + unat ini + unat del \<and> unat ini = length (initial_block d) \<and>
    (unat del = length (delta_block d) \<longleftrightarrow> \<not> (sd_collation d \<noteq> sd_initial_collation d \<and> sd_collation d = sql_collation_default))"
proof -
  have "unat (total_data_length d) = 8 + length (initial_block d) + length (delta_block d) + (if collation_miscounted d then 5 else 0)"
    "unat (initial_block_length d) = length (initial_block d)"
    "unat (delta_block_length d) = length (delta_block d) + (if collation_miscounted d then 5 else 0)"
    unfolding total_data_length_eq initial_block_length_eq delta_block_length_eq using assms(2) by (intro unat_of_nat_u32; simp)+
  then show ?thesis using recovery_data_says [OF assms(1)] unfolding collation_miscounted_def
    by (intro exI [of _ "total_data_length d"] exI [of _ "initial_block_length d"] exI [of _ "delta_block_length d"]) auto
qed

definition sample_recovery :: "sql_collation \<Rightarrow> session_recovery_data" where
  "sample_recovery c =
     snapshot (Some [109]) None (Some sql_collation_default)
       (seed_initial_state [97] [98] c [] None session_state_table_new)"

theorem recovery_block_lengths_witness:
  "\<exists>all ini del. says (serialize_recovery_data (sample_recovery \<lparr>sc_info = 1, sc_lcid_language_id = 1, sc_col_flags = 0, sc_sort_id = 0\<rparr>))
      (to_le_u32 all @ to_le_u32 ini @ initial_block (sample_recovery \<lparr>sc_info = 1, sc_lcid_language_id = 1, sc_col_flags = 0, sc_sort_id = 0\<rparr>) @ to_le_u32 del @
       delta_block (sample_recovery \<lparr>sc_info = 1, sc_lcid_language_id = 1, sc_col_flags = 0, sc_sort_id = 0\<rparr>)) \<and>
    unat del \<noteq> length (delta_block (sample_recovery \<lparr>sc_info = 1, sc_lcid_language_id = 1, sc_col_flags = 0, sc_sort_id = 0\<rparr>))"
proof -
  let ?d = "sample_recovery \<lparr>sc_info = 1, sc_lcid_language_id = 1, sc_col_flags = 0, sc_sort_id = 0\<rparr>"
  have f: "sd_initial_database ?d = [97]" "sd_initial_language ?d = [98]" "sd_database ?d = [109]" "sd_language ?d = [98]"
    "sd_initial_state ?d = empty_state_slots" "sd_delta ?d = empty_state_slots" "sd_collation ?d = sql_collation_default"
    "sd_initial_collation ?d = \<lparr>sc_info = 1, sc_lcid_language_id = 1, sc_col_flags = 0, sc_sort_id = 0\<rparr>"
    by (simp_all add: sample_recovery_def snapshot_def seed_initial_state_def session_state_table_new_def unwrap_or_def)
  have e: "slots_wire empty_state_slots = []" by (simp add: slots_wire_def slot_entries_def empty_state_slots_def)
  have v: "list_all valid_string (recovery_strings ?d)" by (simp add: recovery_strings_def f is_scalar_def)
  have "length (initial_block ?d) + length (delta_block ?d) + 13 < 2 ^ 32"
    by (simp add: initial_block_def delta_block_def f e b_varchar_wire_def utf16_wire_def collation_wire_def codec_simps char_utf16_def)
  from recovery_block_lengths [OF v this] f(7,8) show ?thesis by (simp add: sql_collation_default_def) blast
qed

text \<open>
  C18. Session state survives a reconnect. The entries the client writes for its state slots, echoed by
  the server as the payload of the feature acknowledgement, are read back as the same values under the
  same ids, for values of any length the format has, and recovery is not disabled by it; the baseline takes them when a session
  starts and the current state when it was recovered.
\<close>

theorem state_entries_roundtrip:
  assumes "\<forall>b r. slots b = Some r \<longrightarrow> length (sr_data r) < 2 ^ 32"
  shows "says (write_state_entries slots) (slots_wire slots) \<and>
    (\<forall>tbl b. map_option sr_data (ss_initial_state (seed_initial_state_from_feature_ack (slots_wire slots) tbl) b) =
       map_option sr_data (if slots b = None then ss_initial_state tbl b else slots b)) \<and>
    (\<forall>tbl b. map_option sr_data (ss_delta (apply_feature_ack_to_delta (slots_wire slots) tbl) b) = map_option sr_data (slots b)) \<and>
    (\<forall>tbl. ss_master_recovery_disabled (seed_initial_state_from_feature_ack (slots_wire slots) tbl) = ss_master_recovery_disabled tbl \<and>
       ss_master_recovery_disabled (apply_feature_ack_to_delta (slots_wire slots) tbl) = ss_master_recovery_disabled tbl)"
proof -
  have "list_all (\<lambda>e. length (snd e) < 2 ^ 32) (slot_entries slots)"
    using assms slot_entries_mem [of _ _ slots] by (fastforce simp: list_all_iff)
  then have parse: "parse_feature_ack (slots_wire slots) = Inr (slot_entries slots)"
    unfolding slots_wire_def by (rule parse_feature_ack_entries)
  have "map_of (rev (slot_entries slots)) b = map_option sr_data (slots b)" for b
    using map_of_rev_distinct [OF slot_entries_distinct] map_of_slot_entries by metis
  then show ?thesis
    by (auto simp: write_state_entries_says seed_initial_state_from_feature_ack_def apply_feature_ack_to_delta_def parse seed_fold update_fold seed_fold_disabled update_fold_disabled fold_slots
        empty_state_slots_def split: option.splits)
qed

theorem state_entries_roundtrip_witness:
  "map_option sr_data (ss_initial_state (seed_initial_state_from_feature_ack
       (slots_wire (empty_state_slots(3 \<mapsto> \<lparr>sr_recoverable = False, sr_sequence = 9, sr_data = replicate 300 7\<rparr>))) session_state_table_new) 3) = Some (replicate 300 7)"
proof -
  let ?s = "empty_state_slots(3 \<mapsto> \<lparr>sr_recoverable = False, sr_sequence = 9, sr_data = replicate 300 7\<rparr>)"
  have "\<forall>b r. ?s b = Some r \<longrightarrow> length (sr_data r) < 2 ^ 32" by (auto simp: empty_state_slots_def split: if_splits)
  from state_entries_roundtrip [OF this, THEN conjunct2, THEN conjunct1, rule_format, of session_state_table_new 3] show ?thesis
    unfolding fun_upd_same by simp
qed

end
