(* ===== verification/Spec2Isabelle.thy ===== *)
theory Spec2Isabelle
  imports Attention_Drain Prelogin Session_State
begin

text \<open>
  A verification of \<^verbatim>\<open>mssql-tds\<close>, the library of mssql-rs that speaks the TDS protocol of SQL Server. File
  names are relative to \<^verbatim>\<open>src/mssql-tds/src\<close>.

  \<^bold>\<open>The program and its parts.\<close> A client connects, sends messages and reads the answers. A message leaves
  through the packet writer, which cuts its bytes into packets with a header each and hands them to the
  transport; the transport writes them to a socket, through TLS or not. The answer comes back through the
  transport, which frames packets from reads that end anywhere; the token stream above it reads one token
  after another, and the tokens carry everything else: metadata, rows, environment changes, errors and the
  end of a response. Rows are also read column by column, with pauses, and long values in pieces. A request
  can be cancelled by an attention message, whose acknowledgement ends what is still under way.

  \<^bold>\<open>Conventions.\<close> An operation on \<^verbatim>\<open>&mut self\<close> is a function from a state to a result and a state
  (\<open>action\<close>, with \<open>rbind\<close> for the \<^verbatim>\<open>?\<close> operator and sequencing); an error keeps the state it was raised in.
  Awaiting is not visible: an operation that awaits is its complete run. What the environment decides, the
  arrival of bytes, time, cancellation and failures, is a list of events in the state of the transport,
  so the theorems hold for every environment. Panics of Rust (indexing, slices, underflow, \<^verbatim>\<open>unwrap\<close>) are the
  error \<open>Panic\<close>, and running out of the steps granted to a loop is the error \<open>Diverge\<close>: theorems that an
  operation returns exclude both. Machine integers are words where they can wrap, and \<^verbatim>\<open>usize\<close> indices
  are natural numbers. Error texts keep their fixed part.

  \<^bold>\<open>Foundations.\<close>
  \<^item> \<open>Tds_Prelude\<close>: types, errors (\<^verbatim>\<open>error/mod.rs\<close>, \<^verbatim>\<open>core.rs\<close>), actions, byte orders as the locale
    \<open>fixed_codec\<close> with one interpretation per width and order, slices, UTF-8 and UTF-16.
  \<^item> \<open>Utf16_Units\<close>: the resumable UTF-16 encoder of \<^verbatim>\<open>io/packet_writer.rs\<close>; it emits the units of the
    text however the limits cut it.

  \<^bold>\<open>Writing.\<close>
  \<^item> \<open>Network_Writer\<close>: packet types and reset modes (\<^verbatim>\<open>message/messages.rs\<close>), the write half of
    \<^verbatim>\<open>connection/transport/network_transport.rs\<close> with the switch of TLS around the first login packet.
  \<^item> \<open>Packet_Writer\<close>, \<open>Writer_Messages\<close>: \<^verbatim>\<open>PacketWriter\<close> and \<^verbatim>\<open>SuspendedMessage\<close> of \<^verbatim>\<open>io/packet_writer.rs\<close>. The
    locale \<open>byte_sink\<close> is what a serializer relies on, every call appends its bytes, and is interpreted on
    the writer. Shown: a message is delivered whole on a healthy connection; in any environment the
    wire holds the message or a prefix in full packets and the flags say which; headers, reset requests,
    cancelled messages, suspension and the encryption of login packets.
  \<^item> \<open>Requests\<close>: headers, batches, transaction requests, attention and login tokens
    (\<^verbatim>\<open>message/headers.rs\<close>, \<^verbatim>\<open>batch.rs\<close>, \<^verbatim>\<open>transaction_management.rs\<close>, \<^verbatim>\<open>attention.rs\<close>, \<^verbatim>\<open>login.rs\<close>). Shown: the payload
    delivered is the wire form of the request, exactly if transaction names are ASCII.

  \<^bold>\<open>Reading.\<close>
  \<^item> \<open>Read_Buffer\<close> (\<^verbatim>\<open>connection/transport/buffers.rs\<close>), \<open>Packet_Reader\<close> (the read half of
    \<^verbatim>\<open>network_transport.rs\<close>), with \<open>Reader_Messages\<close>, \<open>Reader_Safety\<close>, \<open>Reader_Progress\<close> and
    \<open>Reader_Properties\<close>: the readers return the payload in order for every cut into packets and reads, never
    panic on any input, use up input, and report values that run past their message.
  \<^item> \<open>Packet_Source\<close>: the trait of \<^verbatim>\<open>io/packet_reader.rs\<close> as a record of operations. The locales
    \<open>packet_source\<close>, \<open>safe_source\<close> and \<open>finite_source\<close> are the contracts its clients use; all clients are
    proved in them and reach the transport through the interpretation \<open>net\<close>.

  \<^bold>\<open>Tokens and values.\<close>
  \<^item> \<open>Sql_Collation\<close>: collations and narrow encodings (\<^verbatim>\<open>token/tokens.rs\<close>, \<^verbatim>\<open>datatypes/lcid_encoding.rs\<close>,
    \<^verbatim>\<open>datatypes/sql_string.rs\<close>); the codecs of \<^verbatim>\<open>encoding_rs\<close> are a parameter.
  \<^item> \<open>Tds_Tokens\<close>, \<open>Token_Parsers\<close>, \<open>Token_Safety\<close>, \<open>Token_Content\<close>: the tokens and the parsers of
    \<^verbatim>\<open>token/parsers\<close>. \<open>tame\<close> says a parser returns on any input and takes what it reads; \<open>yields\<close> that it
    reads a wire form back.
  \<^item> \<open>Sql_Data_Types\<close>, \<open>Type_Info_Laws\<close>, \<open>Decimal_Parts\<close>, \<open>Plp_Stream\<close>, \<open>Plp_Laws\<close>, \<open>Plp_Buffered\<close>,
    \<open>Column_Values\<close>, \<open>Value_Decoder\<close>, \<open>Decoder_Laws\<close>, \<open>Decoder_Writers\<close>, \<open>Buffered_Decoder\<close>: the types, the values
    and the decoders of \<^verbatim>\<open>datatypes\<close>, long values in pieces, and the copies of the decoder (into a row
    writer, over buffered bytes), which agree. \<open>type_info_wf\<close> and \<open>column_wf\<close> are the invariants between the
    metadata parser and the decoders.
  \<^item> \<open>Col_Metadata\<close>, \<open>Metadata_Laws\<close>, \<open>Data_Classification\<close>, \<open>Token_Stream\<close>: metadata, rows as tokens, data
    classification and the dispatch of \<^verbatim>\<open>io/token_stream.rs\<close>.
  \<^item> \<open>Row_Driver\<close>, \<open>Row_Laws\<close>, \<open>Row_Properties\<close>: rows column by column. The shared null bitmap lives in an
    explicit store with reference counts, and rows that hold it never see it change.
  \<^item> \<open>Attention_Drain\<close>: cancellation in \<^verbatim>\<open>network_transport.rs\<close>; the drain reaches the acknowledgement.

  \<^bold>\<open>Connecting.\<close>
  \<^item> \<open>Prelogin\<close>: \<^verbatim>\<open>message/prelogin.rs\<close> and the pre-login and TLS steps of \<^verbatim>\<open>handler/handler_factory.rs\<close>. Shown:
    the option table points at its data, responses are read as sent, and encryption that was asked for is
    used for the login.
  \<^item> \<open>Session_State\<close>: \<^verbatim>\<open>connection/session_recovery.rs\<close> and the blocks of
    \<^verbatim>\<open>message/features/session_recovery.rs\<close>. Shown: state entries survive a reconnect, and which declared
    lengths are exact.

  \<^bold>\<open>Bounds and steps.\<close> Loops over the input have a termination proof where they use up the events of the
  socket or the bytes of a slice. The loops that run until the peer says stop, the feature list, the
  option table and the drain, are granted a number of steps. \<open>finite_source\<close> shows that each turn takes at
  least one byte, and \<open>nr_left\<close> counts the bytes that can still arrive, so as many steps as bytes are
  enough; the theorems on any input assume exactly that. Limits of the code (16 MiB per chunk, 2 GiB per
  value, the classification budget, 1024 settlement tokens) are definitions with the values of the code.

  \<^bold>\<open>Not modelled.\<close>
  \<^item> The client \<^verbatim>\<open>connection/tds_client.rs\<close> above the token stream, cursors and bulk copy: state machines of some
    tens of thousands of lines whose steps are calls of the parts modelled here.
  \<^item> The login message with its feature extensions and the loop of login responses; remote procedure
    calls with typed parameters. They write through the packet writer and read through the token stream.
  \<^item> \<^verbatim>\<open>RecoveryContext\<close> of \<^verbatim>\<open>session_recovery.rs\<close>, which keeps the settings of the first login and compares them
    with those of a reconnect; only its session state table is modelled.
  \<^item> Sockets, name resolution, TLS engines, Kerberos and SSPI, key stores and ciphers: the operating system
    and foreign libraries. Their outcomes are events or parameters.
  \<^item> Conversions through floating point or the \<^verbatim>\<open>bigdecimal\<close> crate, and texts for people.
  \<^item> The other crates of the workspace (ODBC driver, language bindings, command line tools, mock servers):
    interfaces of the library to foreign runtimes, and tests.
\<close>

end
